(* ===== verification/Segments.thy ===== *)
theory Segments
  imports Prelude
begin

text \<open>
  Range planning and the resume bitmap (\<^verbatim>\<open>internal/download/planner.go\<close>, with
  \<^verbatim>\<open>bitmapForFile\<close> and \<^verbatim>\<open>committedBytes\<close> of \<^verbatim>\<open>manager.go\<close>). Two interface locales state
  what the transfer engine relies on: the planned ranges tile the file, and the bitmap is a
  finite set of segment indices. They are interpreted on the planner and on the byte
  bitmap, and the byte accounting of a resumed file follows from both.
\<close>

section \<open>Interfaces\<close>

locale segment_tiling =
  fixes plan_ok :: "'p \<Rightarrow> bool"
    and cnt :: "'p \<Rightarrow> nat"
    and lo :: "'p \<Rightarrow> nat \<Rightarrow> int"
    and hi :: "'p \<Rightarrow> nat \<Rightarrow> int"
    and total :: "'p \<Rightarrow> int"
  assumes first: "plan_ok p \<Longrightarrow> 0 < cnt p \<Longrightarrow> lo p 0 = 0"
    and adjacent: "plan_ok p \<Longrightarrow> Suc i < cnt p \<Longrightarrow> lo p (Suc i) = hi p i + 1"
    and nonempty: "plan_ok p \<Longrightarrow> i < cnt p \<Longrightarrow> lo p i \<le> hi p i"
    and final: "plan_ok p \<Longrightarrow> 0 < cnt p \<Longrightarrow> hi p (cnt p - 1) = total p - 1"
    and no_segments: "plan_ok p \<Longrightarrow> cnt p = 0 \<Longrightarrow> total p = 0"
begin

lemma prefix_sum:
  "plan_ok p \<Longrightarrow> n < cnt p \<Longrightarrow> (\<Sum>i<n. hi p i - lo p i + 1) = lo p n"
proof (induction n)
  case 0
  then show ?case by (simp add: first)
next
  case (Suc n)
  then show ?case by (simp add: adjacent)
qed

lemma sizes_sum: "plan_ok p \<Longrightarrow> (\<Sum>i<cnt p. hi p i - lo p i + 1) = total p"
proof (cases "cnt p")
  case 0
  then show "plan_ok p \<Longrightarrow> ?thesis" by (simp add: no_segments)
next
  case (Suc n)
  assume p: "plan_ok p"
  have "(\<Sum>i<cnt p. hi p i - lo p i + 1) = (\<Sum>i<n. hi p i - lo p i + 1) + (hi p n - lo p n + 1)"
    by (simp add: Suc)
  also have "\<dots> = hi p n + 1"
    using prefix_sum [OF p, of n] Suc by simp
  also have "\<dots> = total p"
    using final [OF p] Suc by simp
  finally show ?thesis .
qed

lemma ordered: "plan_ok p \<Longrightarrow> j < cnt p \<Longrightarrow> i < j \<Longrightarrow> hi p i < lo p j"
proof (induction j)
  case 0
  then show ?case by simp
next
  case (Suc j)
  have step: "lo p (Suc j) = hi p j + 1"
    using Suc.prems by (simp add: adjacent)
  show ?case
  proof (cases "i = j")
    case True
    with step show ?thesis by simp
  next
    case False
    with Suc have "hi p i < lo p j" by simp
    moreover have "lo p j \<le> hi p j" using Suc.prems by (simp add: nonempty)
    ultimately show ?thesis using step by simp
  qed
qed

lemma covered_upto:
  "plan_ok p \<Longrightarrow> n < cnt p \<Longrightarrow> 0 \<le> x \<Longrightarrow> x \<le> hi p n \<Longrightarrow> \<exists>i\<le>n. lo p i \<le> x \<and> x \<le> hi p i"
proof (induction n)
  case 0
  then show ?case by (simp add: first)
next
  case (Suc n)
  show ?case
  proof (cases "x \<le> hi p n")
    case True
    then show ?thesis using Suc by (metis Suc_lessD le_SucI)
  next
    case False
    then have "lo p (Suc n) \<le> x" using Suc.prems by (simp add: adjacent)
    then show ?thesis using Suc.prems by blast
  qed
qed

lemma exactly_one:
  assumes p: "plan_ok p" and x: "0 \<le> x" "x < total p"
  shows "\<exists>!i. i < cnt p \<and> lo p i \<le> x \<and> x \<le> hi p i"
proof -
  have pos: "0 < cnt p" using p x no_segments by (cases "cnt p") auto
  then obtain i where i: "i < cnt p" "lo p i \<le> x" "x \<le> hi p i"
    using covered_upto [OF p, of "cnt p - 1" x] final [OF p pos] x
    by (metis Suc_pred' diff_less le_less_trans less_one zle_diff1_eq)
  have "j = i" if "j < cnt p \<and> lo p j \<le> x \<and> x \<le> hi p j" for j
    using that i ordered [OF p, of i j] ordered [OF p, of j i]
    by (cases rule: linorder_cases [of i j]) auto
  with i show ?thesis by blast
qed

end

locale index_set =
  fixes wf_for :: "'b \<Rightarrow> nat \<Rightarrow> bool"
    and mem :: "'b \<Rightarrow> nat \<Rightarrow> bool"
    and ins :: "nat \<Rightarrow> 'b \<Rightarrow> 'b"
  assumes mem_bound: "wf_for b n \<Longrightarrow> mem b i \<Longrightarrow> i < n"
    and wf_ins: "wf_for b n \<Longrightarrow> i < n \<Longrightarrow> wf_for (ins i b) n"
    and mem_ins: "wf_for b n \<Longrightarrow> i < n \<Longrightarrow> mem (ins i b) j \<longleftrightarrow> j = i \<or> mem b j"
begin

lemma members_ins: "wf_for b n \<Longrightarrow> i < n \<Longrightarrow> {j. mem (ins i b) j} = insert i {j. mem b j}"
  by (auto simp: mem_ins)

lemma finite_members: "wf_for b n \<Longrightarrow> finite {j. mem b j}"
  by (rule finite_subset [of _ "{..<n}"]) (auto dest: mem_bound)

lemma card_le: "wf_for b n \<Longrightarrow> card {j. mem b j} \<le> n"
  using card_mono [of "{..<n}" "{j. mem b j}"] by (auto dest: mem_bound)

lemma full_iff: "wf_for b n \<Longrightarrow> card {j. mem b j} = n \<longleftrightarrow> (\<forall>i<n. mem b i)"
proof
  assume b: "wf_for b n" and c: "card {j. mem b j} = n"
  have "{j. mem b j} = {..<n}"
    using b c by (intro card_subset_eq) (auto dest: mem_bound)
  then show "\<forall>i<n. mem b i" by auto
next
  assume b: "wf_for b n" and all: "\<forall>i<n. mem b i"
  then have "{j. mem b j} = {..<n}" by (auto dest: mem_bound)
  then show "card {j. mem b j} = n" by simp
qed

end

text \<open>Progress accounting over a plan and a set of finished segments.\<close>

locale resume_progress =
  segment_tiling plan_ok cnt lo hi total + index_set wf_for mem ins
  for plan_ok :: "'p \<Rightarrow> bool"
    and cnt :: "'p \<Rightarrow> nat"
    and lo :: "'p \<Rightarrow> nat \<Rightarrow> int"
    and hi :: "'p \<Rightarrow> nat \<Rightarrow> int"
    and total :: "'p \<Rightarrow> int"
    and wf_for :: "'b \<Rightarrow> nat \<Rightarrow> bool"
    and mem :: "'b \<Rightarrow> nat \<Rightarrow> bool"
    and ins :: "nat \<Rightarrow> 'b \<Rightarrow> 'b"
begin

definition done_bytes :: "'p \<Rightarrow> 'b \<Rightarrow> int" where
  "done_bytes p b = (\<Sum>i | i < cnt p \<and> mem b i. hi p i - lo p i + 1)"

lemma done_bytes_bounds:
  assumes "plan_ok p"
  shows "0 \<le> done_bytes p b" and "done_bytes p b \<le> total p"
proof -
  have nn: "0 \<le> hi p i - lo p i + 1" if "i < cnt p" for i
    using nonempty [OF assms that] by simp
  show "0 \<le> done_bytes p b"
    unfolding done_bytes_def by (rule sum_nonneg) (use nn in auto)
  have "done_bytes p b \<le> (\<Sum>i<cnt p. hi p i - lo p i + 1)"
    unfolding done_bytes_def by (rule sum_mono2) (use nn in auto)
  then show "done_bytes p b \<le> total p"
    by (simp add: sizes_sum [OF assms])
qed

lemma done_bytes_ins:
  assumes "wf_for b (cnt p)" and "i < cnt p" and "\<not> mem b i"
  shows "done_bytes p (ins i b) = done_bytes p b + (hi p i - lo p i + 1)"
proof -
  have "{j. j < cnt p \<and> mem (ins i b) j} = insert i {j. j < cnt p \<and> mem b j}"
    using assms by (auto simp: mem_ins)
  then show ?thesis
    using assms by (simp add: done_bytes_def)
qed

lemma done_bytes_full:
  assumes p: "plan_ok p" and b: "wf_for b (cnt p)"
  shows "done_bytes p b = total p \<longleftrightarrow> (\<forall>i<cnt p. mem b i)"
proof
  assume "\<forall>i<cnt p. mem b i"
  then have "{i. i < cnt p \<and> mem b i} = {..<cnt p}" by auto
  then show "done_bytes p b = total p"
    by (simp add: done_bytes_def sizes_sum [OF p])
next
  assume eq: "done_bytes p b = total p"
  show "\<forall>i<cnt p. mem b i"
  proof (rule ccontr)
    assume "\<not> ?thesis"
    then obtain i where i: "i < cnt p" "\<not> mem b i" by blast
    have "done_bytes p (ins i b) = total p + (hi p i - lo p i + 1)"
      using done_bytes_ins [OF b i] eq by simp
    moreover have "done_bytes p (ins i b) \<le> total p"
      by (rule done_bytes_bounds(2) [OF p])
    ultimately show False
      using nonempty [OF p i(1)] by simp
  qed
qed

end

section \<open>The segment planner\<close>

datatype plan_error = ErrInvalidSegmentPlan | ErrBitmapTooLarge | ErrSegmentIndex | PanicIndexOutOfRange

definition MaxBitmapBytes :: int where
  "MaxBitmapBytes = 134217728"

definition DefaultSegmentSize :: int where
  "DefaultSegmentSize = 8388608"

definition maxInt :: int where
  "maxInt = 9223372036854775807"

record segment =
  Index :: int
  Start :: int
  End :: int

definition segment_Size :: "segment \<Rightarrow> int" where
  "segment_Size s = (if End s < Start s then 0 else i64 (i64 (End s - Start s) + 1))"

record segment_planner =
  Size :: int
  SegmentSize :: int
  Count :: int

definition NewSegmentPlanner :: "int \<Rightarrow> int \<Rightarrow> plan_error + segment_planner" where
  "NewSegmentPlanner fileSize segmentSize =
     (if fileSize < 0 then Inl ErrInvalidSegmentPlan
      else if segmentSize \<le> 0 then Inl ErrInvalidSegmentPlan
      else Inr \<lparr>Size = fileSize, SegmentSize = segmentSize,
                Count = (if 0 < fileSize then i64 (go_div (i64 (fileSize - 1)) segmentSize + 1) else 0)\<rparr>)"

definition planner_Segment :: "segment_planner \<Rightarrow> int \<Rightarrow> plan_error + segment" where
  "planner_Segment p index =
     (if index < 0 \<or> index \<ge> Count p then Inl ErrSegmentIndex
      else let start = i64 (index * SegmentSize p) in
        if start < 0 \<or> start > i64 (max_int64 - SegmentSize p) then Inl ErrInvalidSegmentPlan
        else let end0 = i64 (i64 (start + SegmentSize p) - 1);
                 end1 = (if end0 \<ge> Size p then i64 (Size p - 1) else end0)
             in Inr \<lparr>Index = index, Start = start, End = end1\<rparr>)"

section \<open>The resume bitmap\<close>

type_synonym bitmap = bytes

definition bitmapByteCount :: "int \<Rightarrow> plan_error + int" where
  "bitmapByteCount segmentCount =
     (if segmentCount = 0 then Inr 0
      else let n = i64 (go_div (i64 (segmentCount - 1)) 8 + 1) in
        if n > MaxBitmapBytes \<or> n > maxInt then Inl ErrBitmapTooLarge else Inr n)"

definition NewBitmap :: "int \<Rightarrow> plan_error + bitmap" where
  "NewBitmap segmentCount =
     (if segmentCount < 0 then Inl ErrInvalidSegmentPlan
      else case bitmapByteCount segmentCount of
             Inl e \<Rightarrow> Inl e
           | Inr n \<Rightarrow> Inr (replicate (nat n) 0))"

definition NewBitmapUnchecked :: "int \<Rightarrow> bitmap" where
  "NewBitmapUnchecked segmentCount = (case NewBitmap segmentCount of Inl _ \<Rightarrow> [] | Inr b \<Rightarrow> b)"

text \<open>
  \<^verbatim>\<open>Validate\<close>. \<^verbatim>\<open>uint(segmentCount % 8)\<close> reinterprets a negative remainder as a huge shift,
  and indexing the last byte of an empty bitmap panics; both need a negative count.
\<close>

definition bitmap_Validate :: "bitmap \<Rightarrow> int \<Rightarrow> plan_error option" where
  "bitmap_Validate b segmentCount =
     (case bitmapByteCount segmentCount of
        Inl e \<Rightarrow> Some e
      | Inr byteCount \<Rightarrow>
          if int (length b) \<noteq> byteCount then Some ErrInvalidSegmentPlan
          else if segmentCount = 0 then None
          else let usedBits = nat (go_rem segmentCount 8 mod 2 ^ 64) in
            if usedBits = 0 then None
            else if b = [] then Some PanicIndexOutOfRange
            else if last b AND NOT (push_bit usedBits 1 - 1) \<noteq> 0 then Some ErrInvalidSegmentPlan
            else None)"

definition bitmap_IsSet :: "bitmap \<Rightarrow> int \<Rightarrow> bool" where
  "bitmap_IsSet b index =
     (if index < 0 \<or> go_div index 8 \<ge> int (length b) then False
      else b ! nat (go_div index 8) AND push_bit (nat (go_rem index 8)) 1 \<noteq> 0)"

definition bitmap_Set :: "bitmap \<Rightarrow> int \<Rightarrow> plan_error + bitmap" where
  "bitmap_Set b index =
     (if index < 0 \<or> go_div index 8 \<ge> int (length b) then Inl ErrSegmentIndex
      else Inr (b[nat (go_div index 8) :=
                  b ! nat (go_div index 8) OR push_bit (nat (go_rem index 8)) 1]))"

definition bitmap_Clear :: "bitmap \<Rightarrow> int \<Rightarrow> plan_error + bitmap" where
  "bitmap_Clear b index =
     (if index < 0 \<or> go_div index 8 \<ge> int (length b) then Inl ErrSegmentIndex
      else Inr (b[nat (go_div index 8) :=
                  b ! nat (go_div index 8) AND NOT (push_bit (nat (go_rem index 8)) 1)]))"

function popcount8_loop :: "byte \<Rightarrow> nat \<Rightarrow> nat" where
  "popcount8_loop value count =
     (if value \<noteq> 0 then popcount8_loop (value AND (value - 1)) (Suc count) else count)"
  by pat_completeness auto
termination
proof (relation "measure (\<lambda>(v, c). unat v)")
  show "((v AND (v - 1), Suc c), v, c) \<in> measure (\<lambda>(v, c). unat v)" if "v \<noteq> 0" for v :: byte and c
  proof -
    have "v AND (v - 1) \<le> v - 1" by (rule word_and_le1)
    moreover have "v - 1 < v" using that by (simp add: word_less_1 measure_unat word_less_nat_alt)
    ultimately show ?thesis by (simp add: word_less_nat_alt word_le_nat_alt)
  qed
qed simp

declare popcount8_loop.simps [simp del]

definition popcount8 :: "byte \<Rightarrow> nat" where
  "popcount8 value = popcount8_loop value 0"

definition bitmap_Count :: "bitmap \<Rightarrow> int" where
  "bitmap_Count b = foldl (\<lambda>count value. i64 (count + int (popcount8 value))) 0 b"

definition bitmap_UnmarshalBinary :: "bytes \<Rightarrow> plan_error + bitmap" where
  "bitmap_UnmarshalBinary data =
     (if int (length data) > MaxBitmapBytes then Inl ErrBitmapTooLarge else Inr data)"

definition DecodeBitmap :: "bytes \<Rightarrow> int \<Rightarrow> plan_error + bitmap" where
  "DecodeBitmap data segmentCount =
     (case bitmap_Validate data segmentCount of Some e \<Rightarrow> Inl e | None \<Rightarrow> Inr data)"

section \<open>Planning and accounting loops\<close>

fun pending_loop :: "segment_planner \<Rightarrow> bitmap \<Rightarrow> int list \<Rightarrow> segment list \<Rightarrow> plan_error + segment list" where
  "pending_loop p b [] segments = Inr segments"
| "pending_loop p b (index # rest) segments =
     (if bitmap_IsSet b index then pending_loop p b rest segments
      else case planner_Segment p index of
             Inl e \<Rightarrow> Inl e
           | Inr s \<Rightarrow> pending_loop p b rest (segments @ [s]))"

definition planner_Pending :: "segment_planner \<Rightarrow> bitmap \<Rightarrow> plan_error + segment list" where
  "planner_Pending p b =
     (case bitmap_Validate b (Count p) of
        Some e \<Rightarrow> Inl e
      | None \<Rightarrow> if Count p > maxInt then Inl ErrInvalidSegmentPlan
                else pending_loop p b [0..Count p - 1] [])"

definition PlanSegments :: "int \<Rightarrow> int \<Rightarrow> plan_error + segment list" where
  "PlanSegments fileSize segmentSize =
     (case NewSegmentPlanner fileSize segmentSize of
        Inl e \<Rightarrow> Inl e
      | Inr p \<Rightarrow> planner_Pending p (NewBitmapUnchecked (Count p)))"

text \<open>\<^verbatim>\<open>bitmapForFile\<close>: \<open>stored\<close> is the row's \<^verbatim>\<open>CompletedBitmap\<close>.\<close>

definition bitmapForFile :: "bytes \<Rightarrow> int \<Rightarrow> plan_error + bitmap" where
  "bitmapForFile stored count =
     (if stored = [] \<and> count > 0 then NewBitmap count
      else case bitmap_Validate stored count of Some e \<Rightarrow> Inl e | None \<Rightarrow> Inr stored)"

fun committed_loop :: "segment_planner \<Rightarrow> bitmap \<Rightarrow> int list \<Rightarrow> int \<Rightarrow> int" where
  "committed_loop p b [] committed = committed"
| "committed_loop p b (index # rest) committed =
     committed_loop p b rest
       (if bitmap_IsSet b index
        then (case planner_Segment p index of Inl _ \<Rightarrow> committed
              | Inr s \<Rightarrow> i64 (committed + segment_Size s))
        else committed)"

definition committedBytes :: "segment_planner \<Rightarrow> bitmap \<Rightarrow> int" where
  "committedBytes p b = committed_loop p b [0..Count p - 1] 0"

section \<open>The planned ranges tile the file\<close>

definition planner_ok :: "segment_planner \<Rightarrow> bool" where
  "planner_ok p \<longleftrightarrow> 0 \<le> Size p \<and> 0 < SegmentSize p \<and> SegmentSize p \<le> max_int64 \<and>
     Size p \<le> max_int64 - SegmentSize p + 1 \<and>
     Count p = (if 0 < Size p then (Size p - 1) div SegmentSize p + 1 else 0)"

definition seg_lo :: "segment_planner \<Rightarrow> nat \<Rightarrow> int" where
  "seg_lo p i = int i * SegmentSize p"

definition seg_hi :: "segment_planner \<Rightarrow> nat \<Rightarrow> int" where
  "seg_hi p i = min (int i * SegmentSize p + SegmentSize p - 1) (Size p - 1)"

lemma NewSegmentPlanner_cases:
  assumes "NewSegmentPlanner fileSize segmentSize = Inr p"
  shows "0 \<le> fileSize" "0 < segmentSize" "Size p = fileSize" "SegmentSize p = segmentSize"
  using assms by (auto simp: NewSegmentPlanner_def split: if_splits)

lemma NewSegmentPlanner_ok:
  assumes p: "NewSegmentPlanner fileSize segmentSize = Inr p"
    and fit: "segmentSize \<le> max_int64" "fileSize \<le> max_int64 - segmentSize + 1"
  shows "planner_ok p"
proof -
  note c = NewSegmentPlanner_cases [OF p]
  have "Count p = (fileSize - 1) div segmentSize + 1" if "0 < fileSize"
  proof -
    have le: "(fileSize - 1) div segmentSize \<le> fileSize - 1"
      using that c int_div_le_self [of "fileSize - 1" segmentSize]
      by (cases "fileSize = 1") simp_all
    have "go_div (i64 (fileSize - 1)) segmentSize = (fileSize - 1) div segmentSize"
      using that c fit by (simp add: go_arith)
    moreover have "0 \<le> (fileSize - 1) div segmentSize"
      using that c by (simp add: pos_imp_zdiv_nonneg_iff)
    ultimately show ?thesis
      using p that c fit le by (auto simp: NewSegmentPlanner_def go_arith)
  qed
  moreover have "Count p = 0" if "\<not> 0 < fileSize"
    using p that by (auto simp: NewSegmentPlanner_def split: if_splits)
  ultimately show ?thesis
    using c fit by (auto simp: planner_ok_def)
qed

lemma seg_lo_bound:
  assumes "planner_ok p" and "int i < Count p"
  shows "seg_lo p i \<le> Size p - 1"
proof -
  from assms have pos: "0 < Size p" and s: "0 < SegmentSize p"
    and i: "int i \<le> (Size p - 1) div SegmentSize p"
    by (auto simp: planner_ok_def split: if_splits)
  have "int i * SegmentSize p \<le> ((Size p - 1) div SegmentSize p) * SegmentSize p"
    using i s by simp
  also have "\<dots> \<le> Size p - 1"
    using s by (metis mult.commute mult_div_mod_eq pos_mod_sign le_add_same_cancel1)
  finally show ?thesis by (simp add: seg_lo_def)
qed

lemma planner_Segment_eq:
  assumes "planner_ok p" and "int i < Count p"
  shows "planner_Segment p (int i) = Inr \<lparr>Index = int i, Start = seg_lo p i, End = seg_hi p i\<rparr>"
proof -
  note b = seg_lo_bound [OF assms]
  have nn: "0 \<le> seg_lo p i" and pos: "0 < Size p"
    using assms by (auto simp: planner_ok_def seg_lo_def split: if_splits)
  have fit: "0 < SegmentSize p" "SegmentSize p \<le> max_int64" "Size p \<le> max_int64 - SegmentSize p + 1"
    using assms by (auto simp: planner_ok_def)
  have st: "i64 (seg_lo p i) = seg_lo p i"
    using nn b fit by (simp add: go_arith)
  have mx: "i64 (max_int64 - SegmentSize p) = max_int64 - SegmentSize p"
    using fit by (simp add: go_arith)
  have e: "i64 (i64 (seg_lo p i + SegmentSize p) - 1) = seg_lo p i + SegmentSize p - 1"
    using nn b fit by (simp add: go_arith)
  have l: "i64 (Size p - 1) = Size p - 1"
    using pos fit by (simp add: go_arith)
  have "\<not> seg_lo p i < 0" "\<not> max_int64 - SegmentSize p < seg_lo p i"
    using nn b fit by simp_all
  then show ?thesis
    using assms(2) by (simp add: planner_Segment_def Let_def st mx e l min_def seg_hi_def flip: seg_lo_def)
qed

lemma segment_Size_eq:
  assumes "planner_ok p" and "int i < Count p"
  shows "segment_Size \<lparr>Index = k, Start = seg_lo p i, End = seg_hi p i\<rparr> = seg_hi p i - seg_lo p i + 1"
    and "seg_lo p i \<le> seg_hi p i"
proof -
  note b = seg_lo_bound [OF assms]
  have nn: "0 \<le> seg_lo p i" and s: "0 < SegmentSize p" and m: "Size p \<le> max_int64"
    using assms by (auto simp: planner_ok_def seg_lo_def)
  show le: "seg_lo p i \<le> seg_hi p i"
    using b s by (simp add: seg_hi_def seg_lo_def min_def)
  have "seg_hi p i \<le> Size p - 1" by (simp add: seg_hi_def)
  then show "segment_Size \<lparr>Index = k, Start = seg_lo p i, End = seg_hi p i\<rparr> = seg_hi p i - seg_lo p i + 1"
    using le nn m by (simp add: segment_Size_def go_arith)
qed

interpretation plan: segment_tiling planner_ok "\<lambda>p. nat (Count p)" seg_lo seg_hi Size
proof
  fix p :: segment_planner and i :: nat
  assume p: "planner_ok p"
  show "seg_lo p 0 = 0" by (simp add: seg_lo_def)
  show "seg_lo p i \<le> seg_hi p i" if "i < nat (Count p)"
    using segment_Size_eq(2) [OF p, of i] that by simp
  show "seg_lo p (Suc i) = seg_hi p i + 1" if "Suc i < nat (Count p)"
  proof -
    from that have "seg_lo p (Suc i) \<le> Size p - 1"
      by (intro seg_lo_bound [OF p]) simp
    then show ?thesis
      by (simp add: seg_lo_def seg_hi_def min_def algebra_simps)
  qed
  show "seg_hi p (nat (Count p) - 1) = Size p - 1" if "0 < nat (Count p)"
  proof -
    let ?q = "(Size p - 1) div SegmentSize p"
    have s: "0 < SegmentSize p" and c: "Count p = ?q + 1" and pos: "0 < Size p"
      using p that by (auto simp: planner_ok_def split: if_splits)
    have q: "0 \<le> ?q" using s pos by (simp add: pos_imp_zdiv_nonneg_iff)
    have "Size p - 1 < ?q * SegmentSize p + SegmentSize p"
      using s by (metis add.commute add_strict_left_mono div_mult_mod_eq pos_mod_bound)
    then show ?thesis
      using q by (simp add: c seg_hi_def min_def)
  qed
  show "Size p = 0" if "nat (Count p) = 0"
  proof (rule ccontr)
    assume "Size p \<noteq> 0"
    then have "0 < Size p" and s: "0 < SegmentSize p" using p by (auto simp: planner_ok_def)
    then have "0 \<le> (Size p - 1) div SegmentSize p" by (simp add: pos_imp_zdiv_nonneg_iff)
    with \<open>0 < Size p\<close> p that show False by (simp add: planner_ok_def)
  qed
qed

section \<open>The bitmap is a set of indices\<close>

definition bm_mem :: "bitmap \<Rightarrow> nat \<Rightarrow> bool" where
  "bm_mem b i \<longleftrightarrow> i div 8 < length b \<and> bit (b ! (i div 8)) (i mod 8)"

definition bm_ins :: "nat \<Rightarrow> bitmap \<Rightarrow> bitmap" where
  "bm_ins i b = b[i div 8 := b ! (i div 8) OR push_bit (i mod 8) 1]"

lemma go_div8 [go_arith]: "go_div (int i) 8 = int (i div 8)" "go_rem (int i) 8 = int (i mod 8)"
  by (simp_all add: go_arith zdiv_int zmod_int)

lemma bitmap_IsSet_eq: "bitmap_IsSet b (int i) = bm_mem b i"
  by (simp add: bitmap_IsSet_def bm_mem_def go_arith bit_iff_and_push_bit_not_eq_0)

lemma bitmap_Set_eq: "i div 8 < length b \<Longrightarrow> bitmap_Set b (int i) = Inr (bm_ins i b)"
  by (simp add: bitmap_Set_def bm_ins_def go_arith)

lemma bitmapByteCount_nat:
  assumes "int n \<le> max_int64"
  shows "bitmapByteCount (int n) =
     (if int ((n + 7) div 8) > MaxBitmapBytes then Inl ErrBitmapTooLarge else Inr (int ((n + 7) div 8)))"
proof (cases "n = 0")
  case True
  then show ?thesis by (simp add: bitmapByteCount_def MaxBitmapBytes_def)
next
  case False
  then obtain m where m: "n = Suc m" by (cases n) auto
  have a: "i64 (int n - 1) = int m"
    using m assms by (simp add: go_arith)
  have b: "m div 8 + 1 = (n + 7) div 8" using m by simp
  have "int (m div 8) \<le> int m" by simp
  then have "int (m div 8) + 1 \<le> max_int64"
    using assms m by linarith
  then have c: "i64 (int (m div 8) + 1) = int ((n + 7) div 8)"
    by (simp only: i64_nonneg b [symmetric] of_nat_add of_nat_1)
  have "int ((n + 7) div 8) > maxInt \<Longrightarrow> int ((n + 7) div 8) > MaxBitmapBytes"
    by (simp add: MaxBitmapBytes_def maxInt_def)
  then show ?thesis
    using False by (simp only: bitmapByteCount_def Let_def a c go_div8 of_nat_eq_0_iff if_False) auto
qed

lemma split8: "(i :: nat) = 8 * (i div 8) + i mod 8 \<and> i mod 8 < 8"
  by simp

lemma masked_zero_iff:
  fixes x :: byte
  assumes "u < 8"
  shows "x AND NOT (push_bit u 1 - 1) = 0 \<longleftrightarrow> (\<forall>k. bit x k \<longrightarrow> k < u)"
proof -
  have "push_bit u (1 :: byte) - 1 = mask u"
    by (simp add: mask_eq_exp_minus_1 push_bit_eq_mult)
  moreover have "bit x k \<Longrightarrow> k < 8" for k
    by (simp add: bit_imp_le_length [of x k, simplified])
  ultimately show ?thesis
    by (auto simp: bit_eq_iff bit_and_iff bit_not_iff bit_mask_iff)
qed

lemma bm_mem_last:
  assumes "b \<noteq> []" and "length b = (n + 7) div 8" and "n mod 8 \<noteq> 0"
  shows "(\<forall>i. bm_mem b i \<longrightarrow> i < n) \<longleftrightarrow> (\<forall>k. bit (last b) k \<longrightarrow> k < n mod 8)"
proof -
  have len: "length b = n div 8 + 1"
    using assms(2,3) split8 [of n] split8 [of "n + 7"] by linarith
  have lst: "last b = b ! (n div 8)" using assms(1) len by (simp add: last_conv_nth)
  show ?thesis
  proof (intro iffI allI impI)
    fix k
    assume all: "\<forall>i. bm_mem b i \<longrightarrow> i < n" and k: "bit (last b) k"
    have "k < 8" using k by (simp add: bit_imp_le_length [of "last b" k, simplified])
    then have "bm_mem b (8 * (n div 8) + k)"
      using k lst len by (simp add: bm_mem_def)
    with all have "8 * (n div 8) + k < n" by blast
    then show "k < n mod 8" using split8 [of n] by linarith
  next
    fix i
    assume all: "\<forall>k. bit (last b) k \<longrightarrow> k < n mod 8" and i: "bm_mem b i"
    then have "i div 8 < n div 8 + 1" using len by (simp add: bm_mem_def)
    then consider "i div 8 < n div 8" | "i div 8 = n div 8" by linarith
    then show "i < n"
    proof cases
      case 1
      then show ?thesis using split8 [of n] split8 [of i] by linarith
    next
      case 2
      then have "i mod 8 < n mod 8" using all i lst by (simp add: bm_mem_def)
      with 2 show ?thesis using split8 [of n] split8 [of i] by linarith
    qed
  qed
qed

definition bm_shape :: "bitmap \<Rightarrow> nat \<Rightarrow> bool" where
  "bm_shape b n \<longleftrightarrow> int n \<le> max_int64 \<and> int (length b) \<le> MaxBitmapBytes \<and>
     length b = (n + 7) div 8 \<and> (\<forall>i. bm_mem b i \<longrightarrow> i < n)"

lemma bitmap_Validate_iff:
  assumes "int n \<le> max_int64"
  shows "bitmap_Validate b (int n) = None \<longleftrightarrow> bm_shape b n"
proof (cases "int ((n + 7) div 8) > MaxBitmapBytes \<or> length b \<noteq> (n + 7) div 8")
  case True
  then show ?thesis
    using bitmapByteCount_nat [OF assms]
    by (auto simp: bitmap_Validate_def bm_shape_def)
next
  case False
  then have cnt: "bitmapByteCount (int n) = Inr (int (length b))" and len: "length b = (n + 7) div 8"
    using bitmapByteCount_nat [OF assms] by auto
  have u: "nat (go_rem (int n) 8 mod 2 ^ 64) = n mod 8"
    by (simp add: go_div8 flip: of_nat_mod)
  show ?thesis
  proof (cases "n mod 8 = 0")
    case True
    have "bm_mem b i \<Longrightarrow> i < n" for i
    proof -
      assume "bm_mem b i"
      then have "i div 8 < (n + 7) div 8" using len by (simp add: bm_mem_def)
      moreover have "(n + 7) div 8 = n div 8" using True by (simp add: div_add1_eq [of n 7 8])
      ultimately show "i < n" using split8 [of n] split8 [of i] by linarith
    qed
    moreover have "bitmap_Validate b (int n) = None"
      unfolding bitmap_Validate_def cnt sum.case Let_def u using True by simp
    ultimately show ?thesis
      using False assms by (auto simp: bm_shape_def)
  next
    case nz: False
    then have ne: "b \<noteq> []" and n0: "n \<noteq> 0" using len by auto
    have "bitmap_Validate b (int n) = None \<longleftrightarrow> last b AND NOT (push_bit (n mod 8) 1 - 1) = 0"
      unfolding bitmap_Validate_def cnt sum.case Let_def u using nz ne n0 by simp
    also have "\<dots> \<longleftrightarrow> (\<forall>i. bm_mem b i \<longrightarrow> i < n)"
      unfolding bm_mem_last [OF ne len nz] by (rule masked_zero_iff) simp
    finally show ?thesis
      using False assms by (auto simp: bm_shape_def)
  qed
qed

lemma bm_mem_ins:
  assumes "i div 8 < length b"
  shows "bm_mem (bm_ins i b) j \<longleftrightarrow> j = i \<or> bm_mem b j"
proof (cases "i div 8 = j div 8")
  case True
  have "bit (b ! (i div 8) OR push_bit (i mod 8) 1) (j mod 8)
      \<longleftrightarrow> bit (b ! (i div 8)) (j mod 8) \<or> i mod 8 = j mod 8"
    by (auto simp: bit_or_iff bit_exp_iff possible_bit_word)
  moreover have "i mod 8 = j mod 8 \<longleftrightarrow> j = i"
    using True by (metis div_mult_mod_eq)
  ultimately show ?thesis
    using True assms by (auto simp: bm_mem_def bm_ins_def)
next
  case False
  then show ?thesis using assms by (auto simp: bm_mem_def bm_ins_def)
qed

lemma bm_shape_index: "bm_shape b n \<Longrightarrow> i < n \<Longrightarrow> i div 8 < length b"
  using split8 [of n] split8 [of i] split8 [of "n + 7"] unfolding bm_shape_def by linarith

lemma bm_shape_ins: "bm_shape b n \<Longrightarrow> i < n \<Longrightarrow> bm_shape (bm_ins i b) n"
  using bm_mem_ins [OF bm_shape_index, of b n i] by (auto simp: bm_shape_def bm_ins_def)

interpretation bm: index_set bm_shape bm_mem bm_ins
proof
  show "i < n" if "bm_shape b n" and "bm_mem b i" for b n i
    using that by (simp add: bm_shape_def)
  show "bm_shape (bm_ins i b) n" if "bm_shape b n" and "i < n" for b n i
    using that by (rule bm_shape_ins)
  show "bm_mem (bm_ins i b) j \<longleftrightarrow> j = i \<or> bm_mem b j" if "bm_shape b n" and "i < n" for b n i j
    by (rule bm_mem_ins [OF bm_shape_index [OF that]])
qed

interpretation rp: resume_progress planner_ok "\<lambda>p. nat (Count p)" seg_lo seg_hi Size bm_shape bm_mem bm_ins
  by unfold_locales

section \<open>Counting bits\<close>

definition popcount_table_ok :: bool where
  "popcount_table_ok \<longleftrightarrow>
     list_all (\<lambda>n. popcount8 (word_of_nat n) = length (filter (bit (word_of_nat n :: byte)) [0..<8])) [0..<256]"

lemma popcount_table: "popcount_table_ok"
  by code_simp

lemma popcount8_eq: "popcount8 v = card {k. bit v k}"
proof -
  have "unat v < 256" using unsigned_less [of v, where 'a = nat] by simp
  then have "popcount8 (word_of_nat (unat v)) = length (filter (bit (word_of_nat (unat v) :: byte)) [0..<8])"
    using popcount_table unfolding popcount_table_ok_def list_all_iff set_upt
    by (metis atLeastLessThan_iff le0)
  then have "popcount8 v = length (filter (bit v) [0..<8])" by simp
  also have "\<dots> = card (set (filter (bit v) [0..<8]))"
    by (simp add: distinct_card flip: distinct_card)
  also have "set (filter (bit v) [0..<8]) = {k. bit v k}"
    using bit_imp_le_length [of v] by auto
  finally show ?thesis .
qed

lemma bm_mem_Cons:
  "{i. bm_mem (v # b) i} = {k. bit v k} \<union> (\<lambda>i. i + 8) ` {i. bm_mem b i}" (is "?L = ?R")
proof (rule set_eqI)
  fix i
  have small: "bit v k \<Longrightarrow> k < 8" for k
    using bit_imp_le_length [of v k] by simp
  show "i \<in> ?L \<longleftrightarrow> i \<in> ?R"
  proof (cases "i < 8")
    case True
    then show ?thesis by (auto simp: bm_mem_def)
  next
    case False
    then obtain j where j: "i = j + 8" by (metis add.commute le_Suc_ex not_less)
    have "(j + 8) div 8 = Suc (j div 8)" by simp
    then have "bm_mem (v # b) (j + 8) \<longleftrightarrow> bm_mem b j" by (simp add: bm_mem_def)
    then show ?thesis
      using j by (auto dest: small)
  qed
qed

lemma bm_mem_finite: "finite {i. bm_mem b i}"
  by (rule finite_subset [of _ "{..< 8 * length b}"])
    (auto simp: bm_mem_def dest: split8 [THEN conjunct1, THEN eq_refl, THEN le_less_trans])

lemma card_bm_mem_Cons: "card {i. bm_mem (v # b) i} = popcount8 v + card {i. bm_mem b i}"
proof -
  have small: "bit v k \<Longrightarrow> k < 8" for k
    using bit_imp_le_length [of v k] by simp
  have "finite {k. bit v k}"
    by (rule finite_subset [of _ "{..<8}"]) (auto dest: small)
  moreover have "{k. bit v k} \<inter> (\<lambda>i. i + 8) ` {i. bm_mem b i} = {}"
    by (auto dest: small)
  ultimately show ?thesis
    by (simp add: bm_mem_Cons card_Un_disjoint bm_mem_finite card_image popcount8_eq)
qed

lemma popcount8_le: "popcount8 v \<le> 8"
proof -
  have "{k. bit v k} \<subseteq> {..<8}" using bit_imp_le_length [of v] by auto
  then show ?thesis
    using card_mono [of "{..<8::nat}" "{k. bit v k}"] by (simp add: popcount8_eq)
qed

lemma bitmap_Count_fold:
  "0 \<le> acc \<Longrightarrow> acc + 8 * int (length b) \<le> max_int64 \<Longrightarrow>
   foldl (\<lambda>count value. i64 (count + int (popcount8 value))) acc b = acc + int (card {i. bm_mem b i})"
proof (induction b arbitrary: acc)
  case Nil
  then show ?case by (simp add: bm_mem_def)
next
  case (Cons v b)
  have "i64 (acc + int (popcount8 v)) = acc + int (popcount8 v)"
    using Cons.prems popcount8_le [of v] by (simp add: go_arith)
  with Cons popcount8_le [of v] show ?case
    by (simp add: card_bm_mem_Cons)
qed

lemma bitmap_Count_eq:
  assumes "bm_shape b n"
  shows "bitmap_Count b = int (card {i. bm_mem b i})"
  unfolding bitmap_Count_def
  using assms by (subst bitmap_Count_fold) (auto simp: bm_shape_def MaxBitmapBytes_def max_int64_def)

section \<open>Accounting\<close>

lemma committed_loop_eq:
  assumes p: "planner_ok p" and xs: "\<forall>x\<in>set xs. int x < Count p"
    and c: "0 \<le> c" "c + (\<Sum>i\<leftarrow>filter (bm_mem b) xs. seg_hi p i - seg_lo p i + 1) \<le> max_int64"
  shows "committed_loop p b (map int xs) c = c + (\<Sum>i\<leftarrow>filter (bm_mem b) xs. seg_hi p i - seg_lo p i + 1)"
  using xs c
proof (induction xs arbitrary: c)
  case Nil
  then show ?case by simp
next
  case (Cons x xs)
  have nn: "0 \<le> (\<Sum>i\<leftarrow>filter (bm_mem b) xs. seg_hi p i - seg_lo p i + 1)"
    using Cons.prems segment_Size_eq(2) [OF p] by (intro sum_list_nonneg) (force simp: add_increasing)
  show ?case
  proof (cases "bm_mem b x")
    case False
    then show ?thesis using Cons by (simp add: bitmap_IsSet_eq)
  next
    case True
    have x: "int x < Count p" using Cons.prems by simp
    note sz = segment_Size_eq [OF p x]
    have "i64 (c + (seg_hi p x - seg_lo p x + 1)) = c + (seg_hi p x - seg_lo p x + 1)"
      using Cons.prems nn sz(2) True by (intro i64_nonneg) simp_all
    moreover have "committed_loop p b (map int xs) (c + (seg_hi p x - seg_lo p x + 1)) =
        c + (seg_hi p x - seg_lo p x + 1) + (\<Sum>i\<leftarrow>filter (bm_mem b) xs. seg_hi p i - seg_lo p i + 1)"
      using Cons.prems True sz(2) by (intro Cons.IH) auto
    ultimately show ?thesis
      using True by (simp add: bitmap_IsSet_eq planner_Segment_eq [OF p x] sz(1))
  qed
qed

lemma upto_map_int: "[0..int n - 1] = map int [0..<n]"
proof (induction n)
  case (Suc n)
  have "[0..int n] = [0..int n - 1] @ [int n]" by (simp add: upto_rec2)
  with Suc show ?case by simp
qed simp

lemma filter_sum_eq_done:
  assumes "planner_ok p"
  shows "(\<Sum>i\<leftarrow>filter (bm_mem b) [0..<nat (Count p)]. seg_hi p i - seg_lo p i + 1) = rp.done_bytes p b"
proof -
  have "set (filter (bm_mem b) [0..<nat (Count p)]) = {i. i < nat (Count p) \<and> bm_mem b i}" by auto
  then show ?thesis
    by (simp add: rp.done_bytes_def sum_list_distinct_conv_sum_set)
qed

lemma planner_ok_count: "planner_ok p \<Longrightarrow> Count p = int (nat (Count p))"
  by (auto simp: planner_ok_def pos_imp_zdiv_nonneg_iff)

lemma upto_count: "planner_ok p \<Longrightarrow> [0..Count p - 1] = map int [0..<nat (Count p)]"
  by (metis planner_ok_count upto_map_int)

lemma in_range_upt: "\<forall>x\<in>set [0..<nat c]. int x < c"
  by auto

lemma committedBytes_eq:
  assumes p: "planner_ok p"
  shows "committedBytes p b = rp.done_bytes p b"
proof -
  have "rp.done_bytes p b \<le> max_int64"
    using rp.done_bytes_bounds(2) [OF p, of b] p by (simp add: planner_ok_def)
  then show ?thesis
    using committed_loop_eq [OF p in_range_upt, of 0 b]
    by (simp add: committedBytes_def filter_sum_eq_done [OF p] upto_count [OF p])
qed

lemma pending_loop_eq:
  assumes p: "planner_ok p" and "\<forall>x\<in>set xs. int x < Count p"
  shows "pending_loop p b (map int xs) acc =
     Inr (acc @ map (\<lambda>i. \<lparr>Index = int i, Start = seg_lo p i, End = seg_hi p i\<rparr>) (filter (Not \<circ> bm_mem b) xs))"
  using assms(2)
  by (induction xs arbitrary: acc) (simp_all add: bitmap_IsSet_eq planner_Segment_eq [OF p])

lemma valid_bitmap_shape:
  assumes "planner_ok p" and "bitmap_Validate b (Count p) = None"
  shows "bm_shape b (nat (Count p))"
proof -
  have "Count p \<le> max_int64"
  proof (cases "0 < Size p")
    case True
    then have "(Size p - 1) div SegmentSize p \<le> Size p - 1"
      using int_div_le_self [of "Size p - 1" "SegmentSize p"] by (cases "Size p = 1") simp_all
    then show ?thesis using assms True by (simp add: planner_ok_def)
  next
    case False
    then show ?thesis using assms by (simp add: planner_ok_def max_int64_def)
  qed
  then show ?thesis
    using assms bitmap_Validate_iff [of "nat (Count p)" b] planner_ok_count [OF assms(1)] by simp
qed

lemmas planned = NewSegmentPlanner_ok NewSegmentPlanner_cases

lemma ex1_int_nat:
  assumes "\<exists>!i. i < nat c \<and> P (int i)"
  shows "\<exists>!i. 0 \<le> i \<and> i < c \<and> P i"
proof -
  from assms obtain i where i: "i < nat c" "P (int i)"
    and u: "\<And>j. j < nat c \<and> P (int j) \<Longrightarrow> j = i" by (elim ex1E) blast
  show ?thesis
  proof (rule ex1I [of _ "int i"])
    show "0 \<le> int i \<and> int i < c \<and> P (int i)" using i by simp
    show "j = int i" if "0 \<le> j \<and> j < c \<and> P j" for j
      using u [of "nat j"] that by auto
  qed
qed

section \<open>Properties\<close>



text \<open>
  C20. Resume planning loses nothing: for a bitmap that \<open>Validate\<close> accepts, \<open>Pending\<close>
  succeeds and returns exactly the unmarked segments in ascending order, and their bytes
  plus the committed bytes of the marked ones are the file size.
\<close>

theorem pending_complements_committed:
  assumes "NewSegmentPlanner fileSize segmentSize = Inr p"
    and "segmentSize \<le> max_int64" and "fileSize \<le> max_int64 - segmentSize + 1"
    and "bitmap_Validate b (Count p) = None"
  shows "\<exists>ss. planner_Pending p b = Inr ss \<and>
     map Index ss = filter (\<lambda>i. \<not> bitmap_IsSet b i) [0..Count p - 1] \<and>
     (\<Sum>s\<leftarrow>ss. segment_Size s) + committedBytes p b = fileSize"
proof -
  have p: "planner_ok p" by (rule NewSegmentPlanner_ok [OF assms(1-3)])
  define seg where "seg = (\<lambda>i. \<lparr>Index = int i, Start = seg_lo p i, End = seg_hi p i\<rparr>)"
  define len where "len = (\<lambda>i. seg_hi p i - seg_lo p i + 1)"
  define xs where "xs = [0..<nat (Count p)]"
  have "Count p \<le> maxInt"
    using valid_bitmap_shape [OF p assms(4)] planner_ok_count [OF p]
    by (simp add: bm_shape_def max_int64_def maxInt_def)
  then have run: "planner_Pending p b = Inr (map seg (filter (Not \<circ> bm_mem b) xs))"
    using assms(4) pending_loop_eq [OF p in_range_upt, of b "[]"]
    by (simp add: planner_Pending_def upto_count [OF p] seg_def xs_def)
  have "map Index (map seg (filter (Not \<circ> bm_mem b) xs)) = map int (filter (Not \<circ> bm_mem b) xs)"
    by (simp add: seg_def)
  also have "\<dots> = filter (\<lambda>i. \<not> bitmap_IsSet b i) [0..Count p - 1]"
    by (simp add: upto_count [OF p] filter_map bitmap_IsSet_eq xs_def comp_def)
  finally have idx: "map Index (map seg (filter (Not \<circ> bm_mem b) xs)) =
      filter (\<lambda>i. \<not> bitmap_IsSet b i) [0..Count p - 1]" .
  have "(\<Sum>s\<leftarrow>map seg (filter (Not \<circ> bm_mem b) xs). segment_Size s) = (\<Sum>i\<leftarrow>filter (Not \<circ> bm_mem b) xs. len i)"
    using segment_Size_eq(1) [OF p]
    by (intro arg_cong [where f = sum_list]) (auto simp: seg_def len_def xs_def comp_def)
  moreover have "(\<Sum>i\<leftarrow>filter (Not \<circ> bm_mem b) xs. len i) + (\<Sum>i\<leftarrow>filter (bm_mem b) xs. len i) = (\<Sum>i\<leftarrow>xs. len i)"
    by (induction xs) auto
  moreover have "(\<Sum>i\<leftarrow>xs. len i) = Size p"
    using plan.sizes_sum [OF p] by (simp add: xs_def len_def sum_list_distinct_conv_sum_set atLeast0LessThan)
  moreover have "(\<Sum>i\<leftarrow>filter (bm_mem b) xs. len i) = committedBytes p b"
    using filter_sum_eq_done [OF p, of b] committedBytes_eq [OF p, of b] by (simp add: xs_def len_def)
  ultimately show ?thesis
    using run idx NewSegmentPlanner_cases(3) [OF assms(1)] by simp
qed

theorem pending_complements_committed_witness:
  "\<exists>ss. planner_Pending \<lparr>Size = 20, SegmentSize = 8, Count = 3\<rparr> [2] = Inr ss \<and>
     map Index ss = [0, 2] \<and>
     (\<Sum>s\<leftarrow>ss. segment_Size s) + committedBytes \<lparr>Size = 20, SegmentSize = 8, Count = 3\<rparr> [2] = 20"
proof -
  have n: "NewSegmentPlanner 20 8 = Inr \<lparr>Size = 20, SegmentSize = 8, Count = 3\<rparr>"
    by (simp add: NewSegmentPlanner_def go_div_def i64_def)
  have v: "bitmap_Validate [2] (Count \<lparr>Size = 20, SegmentSize = 8, Count = 3\<rparr>) = None"
    by code_simp
  have f: "filter (\<lambda>i. \<not> bitmap_IsSet [2] i) [0..Count \<lparr>Size = 20, SegmentSize = 8, Count = 3\<rparr> - 1] = [0, 2]"
    by code_simp
  show ?thesis
    using pending_complements_committed [OF n _ _ v] unfolding f by (simp add: max_int64_def)
qed

text \<open>
  Marking one unfinished segment is exactly one step of progress: \<open>Set\<close> succeeds, the
  bitmap stays valid, only that segment's mark changes, the bit count grows by one and the
  committed byte count grows by that segment's size.
\<close>

lemma bitmap_Set_progress:
  assumes "NewSegmentPlanner fileSize segmentSize = Inr p"
    and "segmentSize \<le> max_int64" and "fileSize \<le> max_int64 - segmentSize + 1"
    and "bitmap_Validate b (Count p) = None"
    and "0 \<le> i" and "i < Count p" and "\<not> bitmap_IsSet b i"
  shows "\<exists>b' s. bitmap_Set b i = Inr b' \<and> bitmap_Validate b' (Count p) = None \<and>
     (\<forall>j. bitmap_IsSet b' j \<longleftrightarrow> j = i \<or> bitmap_IsSet b j) \<and>
     bitmap_Count b' = bitmap_Count b + 1 \<and>
     planner_Segment p i = Inr s \<and> committedBytes p b' = committedBytes p b + segment_Size s"
proof -
  have p: "planner_ok p" by (rule NewSegmentPlanner_ok [OF assms(1-3)])
  obtain k where k: "i = int k" using assms(5) nonneg_eq_int by blast
  have sh: "bm_shape b (nat (Count p))" by (rule valid_bitmap_shape [OF p assms(4)])
  have kc: "k < nat (Count p)" and nk: "\<not> bm_mem b k"
    using assms(6,7) by (auto simp: k bitmap_IsSet_eq)
  note sh' = bm.wf_ins [OF sh kc]
  have "bitmap_Set b i = Inr (bm_ins k b)"
    using bm_shape_index [OF sh kc] by (simp add: k bitmap_Set_eq)
  moreover have "bitmap_Validate (bm_ins k b) (Count p) = None"
    using sh' bitmap_Validate_iff [of "nat (Count p)"] planner_ok_count [OF p] by (simp add: bm_shape_def)
  moreover have "bitmap_IsSet (bm_ins k b) j \<longleftrightarrow> j = i \<or> bitmap_IsSet b j" for j
  proof (cases "j < 0")
    case True
    then show ?thesis using k by (auto simp: bitmap_IsSet_def)
  next
    case False
    then obtain m where "j = int m" by (metis nonneg_eq_int not_less)
    then show ?thesis by (simp add: bitmap_IsSet_eq k bm.mem_ins [OF sh kc])
  qed
  moreover have "bitmap_Count (bm_ins k b) = bitmap_Count b + 1"
    using nk bm.finite_members [OF sh]
    by (simp add: bitmap_Count_eq [OF sh] bitmap_Count_eq [OF sh'] bm.members_ins [OF sh kc])
  moreover have "committedBytes p (bm_ins k b) = committedBytes p b + (seg_hi p k - seg_lo p k + 1)"
    by (simp add: committedBytes_eq [OF p] rp.done_bytes_ins [OF sh kc nk])
  ultimately show ?thesis
    using planner_Segment_eq [OF p, of k] segment_Size_eq(1) [OF p, of k] kc by (auto simp: k)
qed

text \<open>
  The committed byte count reaches the file size exactly when every segment is marked,
  and otherwise stays strictly below it, so a file can never look complete while a range is
  missing.
\<close>

lemma committed_full_iff_all_marked:
  assumes "NewSegmentPlanner fileSize segmentSize = Inr p"
    and "segmentSize \<le> max_int64" and "fileSize \<le> max_int64 - segmentSize + 1"
    and "bitmap_Validate b (Count p) = None"
  shows "0 \<le> committedBytes p b \<and> committedBytes p b \<le> fileSize \<and>
     (committedBytes p b = fileSize \<longleftrightarrow> bitmap_Count b = Count p)"
proof -
  have p: "planner_ok p" by (rule NewSegmentPlanner_ok [OF assms(1-3)])
  have sh: "bm_shape b (nat (Count p))" by (rule valid_bitmap_shape [OF p assms(4)])
  have "bitmap_Count b = Count p \<longleftrightarrow> (\<forall>i<nat (Count p). bm_mem b i)"
    using bm.full_iff [OF sh] planner_ok_count [OF p] by (auto simp: bitmap_Count_eq [OF sh])
  then show ?thesis
    using rp.done_bytes_full [OF p sh] rp.done_bytes_bounds [OF p, of b] NewSegmentPlanner_cases(3) [OF assms(1)]
    by (simp add: committedBytes_eq [OF p])
qed

end
