(* ===== verification/Lifecycle.thy ===== *)
theory Lifecycle
  imports Prelude
begin

text \<open>
  Job and file lifecycles (\<^verbatim>\<open>internal/download/state.go\<close>): the two state enumerations, the
  transition tables, and the classification predicates. The locale \<open>lifecycle\<close> states the
  two facts the rest of the engine relies on, that some states are final and that a goal
  state is entered only through its gate, and derives what follows for whole histories; it
  is interpreted on the job table and on the file table.
\<close>

section \<open>Histories of a lifecycle\<close>

text \<open>
  A history is the list of states an object goes through, each step allowed by the table.
\<close>

locale lifecycle =
  fixes allowed :: "'s \<Rightarrow> 's \<Rightarrow> bool"
    and final :: "'s \<Rightarrow> bool"
  assumes final_absorbing: "final s \<Longrightarrow> allowed s t \<Longrightarrow> t = s"
begin

lemma history_final_constant:
  "successively allowed (s # h) \<Longrightarrow> final s \<Longrightarrow> set h \<subseteq> {s}"
proof (induction h)
  case Nil
  then show ?case by simp
next
  case (Cons t h)
  then have "t = s" using final_absorbing by simp
  with Cons show ?case by simp
qed

end

text \<open>A goal state that is entered from one gate state only.\<close>

locale gated_lifecycle = lifecycle +
  fixes gate goal :: 's
  assumes only_gate: "allowed s goal \<Longrightarrow> s = gate \<or> s = goal"
begin

lemma goal_through_gate:
  assumes "successively allowed h" and "j < length h" and "h ! j = goal" and "h ! 0 \<noteq> goal"
  shows "\<exists>i<j. h ! i = gate \<and> h ! Suc i = goal"
  using assms(2,3)
proof (induction j)
  case 0
  with assms(4) show ?case by simp
next
  case (Suc j)
  have "allowed (h ! j) (h ! Suc j)"
    using assms(1) Suc.prems(1) by (simp add: successively_conv_nth)
  then have "h ! j = gate \<or> h ! j = goal" using only_gate Suc.prems(2) by simp
  then show ?case
  proof
    assume "h ! j = gate"
    with Suc.prems show ?thesis by blast
  next
    assume "h ! j = goal"
    with Suc show ?thesis by (meson Suc_lessD less_SucI)
  qed
qed

end

section \<open>Job and file states\<close>

datatype JobState = JobQueued | JobResolving | JobReady | JobDownloading | JobPaused
  | JobPausedRecovery | JobWaitingQuota | JobFinalizing | JobCompleted | JobFailed | JobCancelled

datatype FileState = FilePending | FileDownloading | FilePaused | FileWaiting | FileVerifying
  | FileMoving | FileCompleted | FileFailed | FileCancelled

datatype state_error = ErrInvalidJobTransition JobState JobState
  | ErrInvalidFileTransition FileState FileState

fun job_allowed :: "JobState \<Rightarrow> JobState list" where
  "job_allowed JobQueued = [JobResolving, JobDownloading, JobPaused, JobCancelled]"
| "job_allowed JobResolving = [JobReady, JobQueued, JobPausedRecovery, JobFailed, JobCancelled]"
| "job_allowed JobReady = [JobQueued, JobDownloading, JobPaused, JobCancelled]"
| "job_allowed JobDownloading =
     [JobPaused, JobPausedRecovery, JobWaitingQuota, JobFinalizing, JobFailed, JobCancelled]"
| "job_allowed JobPaused = [JobQueued, JobDownloading, JobCancelled]"
| "job_allowed JobPausedRecovery = [JobQueued, JobDownloading, JobCancelled]"
| "job_allowed JobWaitingQuota = [JobQueued, JobDownloading, JobPaused, JobCancelled, JobFailed]"
| "job_allowed JobFinalizing = [JobCompleted, JobFailed, JobPausedRecovery, JobCancelled]"
| "job_allowed JobCompleted = []"
| "job_allowed JobFailed = [JobQueued, JobCancelled]"
| "job_allowed JobCancelled = []"

text \<open>\<open>None\<close> is the nil error.\<close>

definition TransitionJobState :: "JobState \<Rightarrow> JobState \<Rightarrow> state_error option" where
  "TransitionJobState src dst =
     (if src = dst then None
      else if dst \<in> set (job_allowed src) then None
      else Some (ErrInvalidJobTransition src dst))"

fun file_allowed :: "FileState \<Rightarrow> FileState list" where
  "file_allowed FilePending = [FileDownloading, FilePaused, FileCancelled]"
| "file_allowed FileDownloading = [FilePaused, FileWaiting, FileVerifying, FileFailed, FileCancelled]"
| "file_allowed FilePaused = [FileDownloading, FileCancelled]"
| "file_allowed FileWaiting = [FileDownloading, FilePaused, FileFailed, FileCancelled]"
| "file_allowed FileVerifying = [FileMoving, FileFailed, FilePaused]"
| "file_allowed FileMoving = [FileDownloading, FileCompleted, FileFailed, FilePaused]"
| "file_allowed FileCompleted = []"
| "file_allowed FileFailed = [FileDownloading, FileCancelled]"
| "file_allowed FileCancelled = []"

definition TransitionFileState :: "FileState \<Rightarrow> FileState \<Rightarrow> state_error option" where
  "TransitionFileState src dst =
     (if src = dst then None
      else if dst \<in> set (file_allowed src) then None
      else Some (ErrInvalidFileTransition src dst))"

definition IsTerminalJobState :: "JobState \<Rightarrow> bool" where
  "IsTerminalJobState s \<longleftrightarrow> s = JobCompleted \<or> s = JobFailed \<or> s = JobCancelled"

fun IsActiveJobState :: "JobState \<Rightarrow> bool" where
  "IsActiveJobState JobResolving = True"
| "IsActiveJobState JobDownloading = True"
| "IsActiveJobState JobFinalizing = True"
| "IsActiveJobState _ = False"

definition IsTerminalFileState :: "FileState \<Rightarrow> bool" where
  "IsTerminalFileState s \<longleftrightarrow> s = FileCompleted \<or> s = FileFailed \<or> s = FileCancelled"

section \<open>The tables as relations\<close>

abbreviation job_step :: "JobState \<Rightarrow> JobState \<Rightarrow> bool" where
  "job_step s t \<equiv> TransitionJobState s t = None"

abbreviation file_step :: "FileState \<Rightarrow> FileState \<Rightarrow> bool" where
  "file_step s t \<equiv> TransitionFileState s t = None"

abbreviation job_final :: "JobState \<Rightarrow> bool" where
  "job_final s \<equiv> s = JobCompleted \<or> s = JobCancelled"

abbreviation file_final :: "FileState \<Rightarrow> bool" where
  "file_final s \<equiv> s = FileCompleted \<or> s = FileCancelled"

lemma job_step_iff: "job_step s t \<longleftrightarrow> s = t \<or> t \<in> set (job_allowed s)"
  by (simp add: TransitionJobState_def)

lemma file_step_iff: "file_step s t \<longleftrightarrow> s = t \<or> t \<in> set (file_allowed s)"
  by (simp add: TransitionFileState_def)

interpretation job_completion: gated_lifecycle job_step job_final JobFinalizing JobCompleted
proof unfold_locales
  show "job_final s \<Longrightarrow> job_step s t \<Longrightarrow> t = s" for s t
    by (auto simp: job_step_iff)
  show "job_step s JobCompleted \<Longrightarrow> s = JobFinalizing \<or> s = JobCompleted" for s
    by (cases s) (simp_all add: job_step_iff)
qed

interpretation job_finalizing: gated_lifecycle job_step job_final JobDownloading JobFinalizing
proof unfold_locales
  show "job_step s JobFinalizing \<Longrightarrow> s = JobDownloading \<or> s = JobFinalizing" for s
    by (cases s) (simp_all add: job_step_iff)
qed

interpretation file_completion: gated_lifecycle file_step file_final FileMoving FileCompleted
proof unfold_locales
  show "file_final s \<Longrightarrow> file_step s t \<Longrightarrow> t = s" for s t
    by (auto simp: file_step_iff)
  show "file_step s FileCompleted \<Longrightarrow> s = FileMoving \<or> s = FileCompleted" for s
    by (cases s) (simp_all add: file_step_iff)
qed

interpretation file_moving: gated_lifecycle file_step file_final FileVerifying FileMoving
proof unfold_locales
  show "file_step s FileMoving \<Longrightarrow> s = FileVerifying \<or> s = FileMoving" for s
    by (cases s) (simp_all add: file_step_iff)
qed

interpretation file_verifying: gated_lifecycle file_step file_final FileDownloading FileVerifying
proof unfold_locales
  show "file_step s FileVerifying \<Longrightarrow> s = FileDownloading \<or> s = FileVerifying" for s
    by (cases s) (simp_all add: file_step_iff)
qed

lemma successively_take: "successively P h \<Longrightarrow> successively P (take n h)"
  by (metis append_take_drop_id successively_append_iff)

section \<open>Properties\<close>

text \<open>
  C21. A file is published only after verification: along every history the tables allow that
  starts in \<open>pending\<close>, each occurrence of \<open>completed\<close> comes after \<open>downloading\<close>, then
  \<open>verifying\<close>, then \<open>moving\<close>, in this order and each entered from the one before; and
  once \<open>completed\<close> the history stays there.
\<close>

theorem completed_file_was_verified:
  assumes "successively file_step h" and "h ! 0 = FilePending"
    and "k < length h" and "h ! k = FileCompleted"
  shows "(\<exists>a b c. a < b \<and> b < c \<and> c < k \<and>
           h ! a = FileDownloading \<and> h ! Suc a = FileVerifying \<and>
           h ! b = FileVerifying \<and> h ! Suc b = FileMoving \<and>
           h ! c = FileMoving \<and> h ! Suc c = FileCompleted) \<and>
         set (drop k h) \<subseteq> {FileCompleted}"
proof -
  obtain c where c: "c < k" "h ! c = FileMoving" "h ! Suc c = FileCompleted"
    using file_completion.goal_through_gate [OF assms(1,3,4)] assms(2) by auto
  then obtain b where b: "b < c" "h ! b = FileVerifying" "h ! Suc b = FileMoving"
    using file_moving.goal_through_gate [OF assms(1), of c] assms(2,3) by auto
  then obtain a where a: "a < b" "h ! a = FileDownloading" "h ! Suc a = FileVerifying"
    using file_verifying.goal_through_gate [OF assms(1), of b] assms(2,3) c by auto
  have "successively file_step (FileCompleted # drop (Suc k) h)"
    using assms(1,3,4) by (metis Cons_nth_drop_Suc append_take_drop_id successively_append_iff)
  then have "set (drop (Suc k) h) \<subseteq> {FileCompleted}"
    using file_completion.history_final_constant by blast
  then have "set (drop k h) \<subseteq> {FileCompleted}"
    using assms(3,4) by (simp flip: Cons_nth_drop_Suc)
  with a b c show ?thesis by blast
qed

theorem completed_file_was_verified_witness:
  "(\<exists>a b c. a < b \<and> b < c \<and> c < (4 :: nat) \<and>
      [FilePending, FileDownloading, FileVerifying, FileMoving, FileCompleted] ! a = FileDownloading \<and>
      [FilePending, FileDownloading, FileVerifying, FileMoving, FileCompleted] ! Suc b = FileMoving)"
  using completed_file_was_verified
    [of "[FilePending, FileDownloading, FileVerifying, FileMoving, FileCompleted]" 4]
  by (auto simp: TransitionFileState_def numeral_eq_Suc)

lemma job_reaches_completed: "\<not> job_final s \<Longrightarrow> job_step\<^sup>*\<^sup>* s JobCompleted"
proof -
  assume s: "\<not> job_final s"
  have fz: "job_step\<^sup>*\<^sup>* JobFinalizing JobCompleted"
    by (rule r_into_rtranclp) (simp add: TransitionJobState_def)
  have dl: "job_step\<^sup>*\<^sup>* JobDownloading JobCompleted"
    by (rule converse_rtranclp_into_rtranclp [OF _ fz]) (simp add: TransitionJobState_def)
  have q: "job_step\<^sup>*\<^sup>* JobQueued JobCompleted"
    by (rule converse_rtranclp_into_rtranclp [OF _ dl]) (simp add: TransitionJobState_def)
  have "s = JobFinalizing \<or> s = JobDownloading \<or> job_step s JobQueued"
    using s by (cases s) (simp_all add: TransitionJobState_def)
  then show ?thesis
    using fz dl converse_rtranclp_into_rtranclp [of job_step, OF _ q] by blast
qed

lemma job_reaches_cancelled: "\<not> job_final s \<Longrightarrow> job_step s JobCancelled"
  by (cases s) (simp_all add: TransitionJobState_def)

lemma job_final_stays: "job_step\<^sup>*\<^sup>* s t \<Longrightarrow> job_final s \<Longrightarrow> t = s"
  by (induction rule: rtranclp_induct) (auto simp: job_step_iff)

text \<open>
  A job completes only after \<open>finalizing\<close>, which is entered only from \<open>downloading\<close>,
  along every allowed history from \<open>queued\<close>.
\<close>

theorem completed_job_was_finalized:
  assumes "successively job_step h" and "h ! 0 = JobQueued"
    and "k < length h" and "h ! k = JobCompleted"
  shows "\<exists>a b. a < b \<and> b < k \<and> h ! a = JobDownloading \<and> h ! Suc a = JobFinalizing \<and>
           h ! b = JobFinalizing \<and> h ! Suc b = JobCompleted"
proof -
  obtain b where b: "b < k" "h ! b = JobFinalizing" "h ! Suc b = JobCompleted"
    using job_completion.goal_through_gate [OF assms(1,3,4)] assms(2) by auto
  then obtain a where "a < b" "h ! a = JobDownloading" "h ! Suc a = JobFinalizing"
    using job_finalizing.goal_through_gate [OF assms(1), of b] assms(2,3) by auto
  with b show ?thesis by blast
qed

theorem completed_job_was_finalized_witness:
  "\<exists>a b. a < b \<and> b < 6 \<and>
     [JobQueued, JobDownloading, JobPaused, JobQueued, JobDownloading, JobFinalizing, JobCompleted] ! a = JobDownloading \<and>
     [JobQueued, JobDownloading, JobPaused, JobQueued, JobDownloading, JobFinalizing, JobCompleted] ! b = JobFinalizing"
  using completed_job_was_finalized
    [of "[JobQueued, JobDownloading, JobPaused, JobQueued, JobDownloading, JobFinalizing, JobCompleted]" 6]
  by (auto simp: TransitionJobState_def numeral_eq_Suc)

text \<open>
  No job state but \<open>completed\<close> and \<open>cancelled\<close> is a dead end: a job can still reach
  \<open>completed\<close> through allowed transitions exactly when it is not cancelled, and \<open>cancelled\<close>
  exactly when it is not completed.
\<close>

lemma job_lifecycle_not_stuck:
  "(job_step\<^sup>*\<^sup>* s JobCompleted \<longleftrightarrow> s \<noteq> JobCancelled) \<and> (job_step\<^sup>*\<^sup>* s JobCancelled \<longleftrightarrow> s \<noteq> JobCompleted)"
proof -
  have "job_step\<^sup>*\<^sup>* s JobCancelled" if "\<not> job_final s"
    using job_reaches_cancelled [OF that] by (rule r_into_rtranclp)
  then show ?thesis
    using job_reaches_completed [of s] job_final_stays [of s JobCompleted] job_final_stays [of s JobCancelled]
    by auto
qed

end
