(* ===== verification/GoText.thy ===== *)
theory GoText
  imports Prelude
begin

text \<open>
  The parts of Go's \<^verbatim>\<open>strings\<close>, \<^verbatim>\<open>unicode/utf8\<close> and \<^verbatim>\<open>strconv\<close> packages the program calls on
  its byte strings: trimming of white space, lower-casing against ASCII text, substring
  search, quoting, and the error values with the chain that \<^verbatim>\<open>errors.As\<close> walks.
\<close>

section \<open>TrimSpace\<close>

text \<open>The UTF-8 encodings of the code points \<^verbatim>\<open>unicode.IsSpace\<close> accepts.\<close>

definition space_seqs :: "string list" where
  "space_seqs =
     [[CHR 0x09], [CHR 0x0A], [CHR 0x0B], [CHR 0x0C], [CHR 0x0D], [CHR 0x20],
      [CHR 0xC2, CHR 0x85], [CHR 0xC2, CHR 0xA0], [CHR 0xE1, CHR 0x9A, CHR 0x80],
      [CHR 0xE2, CHR 0x80, CHR 0x80], [CHR 0xE2, CHR 0x80, CHR 0x81], [CHR 0xE2, CHR 0x80, CHR 0x82],
      [CHR 0xE2, CHR 0x80, CHR 0x83], [CHR 0xE2, CHR 0x80, CHR 0x84], [CHR 0xE2, CHR 0x80, CHR 0x85],
      [CHR 0xE2, CHR 0x80, CHR 0x86], [CHR 0xE2, CHR 0x80, CHR 0x87], [CHR 0xE2, CHR 0x80, CHR 0x88],
      [CHR 0xE2, CHR 0x80, CHR 0x89], [CHR 0xE2, CHR 0x80, CHR 0x8A], [CHR 0xE2, CHR 0x80, CHR 0xA8],
      [CHR 0xE2, CHR 0x80, CHR 0xA9], [CHR 0xE2, CHR 0x80, CHR 0xAF], [CHR 0xE2, CHR 0x81, CHR 0x9F],
      [CHR 0xE3, CHR 0x80, CHR 0x80]]"

function trim_left :: "string \<Rightarrow> string" where
  "trim_left s =
     (case find (\<lambda>p. has_prefix s p) space_seqs of
        None \<Rightarrow> s
      | Some p \<Rightarrow> if p = [] then s else trim_left (drop (length p) s))"
  by pat_completeness auto

lemma find_SomeD: "find P xs = Some x \<Longrightarrow> P x \<and> x \<in> set xs"
  by (induction xs) (auto split: if_splits)

lemma has_prefix_shrinks: "has_prefix s p \<Longrightarrow> p \<noteq> [] \<Longrightarrow> length s - length p < length s"
  by (cases s) (auto simp: has_prefix_def)

termination trim_left
  by (relation "measure length") (auto dest!: find_SomeD simp: has_prefix_shrinks)

function trim_right :: "string \<Rightarrow> string" where
  "trim_right s =
     (case find (\<lambda>p. has_suffix s p) space_seqs of
        None \<Rightarrow> s
      | Some p \<Rightarrow> if p = [] then s else trim_right (take (length s - length p) s))"
  by pat_completeness auto

lemma has_suffix_shrinks: "has_suffix s p \<Longrightarrow> p \<noteq> [] \<Longrightarrow> length s - length p < length s"
  by (cases s) (auto simp: has_suffix_def)

termination trim_right
  by (relation "measure length") (auto dest!: find_SomeD simp: has_suffix_shrinks)

declare trim_left.simps [simp del] trim_right.simps [simp del]

definition trim_space :: "string \<Rightarrow> string" where
  "trim_space s = trim_right (trim_left s)"

text \<open>A printable ASCII byte other than the blank ends no white space encoding.\<close>

definition graphic :: "char \<Rightarrow> bool" where
  "graphic c \<longleftrightarrow> 32 < (of_char c :: nat) \<and> (of_char c :: nat) < 127"

lemma space_seqs_table:
  "list_all (\<lambda>p. p \<noteq> [] \<and> \<not> graphic (hd p) \<and> \<not> graphic (last p)) space_seqs"
  by code_simp

lemma space_seqs_hd_last:
  "p \<in> set space_seqs \<Longrightarrow> p \<noteq> [] \<and> \<not> graphic (hd p) \<and> \<not> graphic (last p)"
  using space_seqs_table by (simp add: list_all_iff)

lemma trim_left_graphic: "s = [] \<or> graphic (hd s) \<Longrightarrow> trim_left s = s"
proof -
  assume s: "s = [] \<or> graphic (hd s)"
  have "\<not> has_prefix s p" if p: "p \<in> set space_seqs" for p
  proof
    assume "has_prefix s p"
    then have "hd p = hd s" "s \<noteq> []"
      using space_seqs_hd_last [OF p] by (cases s; cases p; auto simp: has_prefix_def)+
    then show False using s space_seqs_hd_last [OF p] by auto
  qed
  then have "find (\<lambda>p. has_prefix s p) space_seqs = None"
    by (simp add: find_None_iff)
  then show ?thesis by (subst trim_left.simps) simp
qed

lemma trim_right_graphic: "s = [] \<or> graphic (last s) \<Longrightarrow> trim_right s = s"
proof -
  assume s: "s = [] \<or> graphic (last s)"
  have "\<not> has_suffix s p" if p: "p \<in> set space_seqs" for p
  proof
    assume h: "has_suffix s p"
    then obtain q where q: "s = q @ p" unfolding has_suffix_def by (metis append_take_drop_id)
    then show False using s space_seqs_hd_last [OF p] by auto
  qed
  then have "find (\<lambda>p. has_suffix s p) space_seqs = None"
    by (simp add: find_None_iff)
  then show ?thesis by (subst trim_right.simps) simp
qed

lemma trim_space_graphic:
  "s = [] \<or> graphic (hd s) \<and> graphic (last s) \<Longrightarrow> trim_space s = s"
  by (auto simp: trim_space_def trim_left_graphic trim_right_graphic)

lemma digit_graphic: "is_digit c \<Longrightarrow> graphic c"
  by (simp add: is_digit_def graphic_def)

section \<open>Lower case, search, quoting\<close>

text \<open>
  \<^verbatim>\<open>strings.ToLower\<close> as far as ASCII results go: the ASCII letters and the two other code
  points whose lower case is an ASCII letter (U+0130 and U+212A). The program only compares
  the result with ASCII text, which no other lower-cased code point can match.
\<close>

fun to_lower :: "string \<Rightarrow> string" where
  "to_lower [] = []"
| "to_lower (c # cs) =
     (if c = CHR 0xC4 \<and> cs \<noteq> [] \<and> hd cs = CHR 0xB0 then CHR ''i'' # to_lower (tl cs)
      else if c = CHR 0xE2 \<and> take 2 cs = [CHR 0x84, CHR 0xAA] then CHR ''k'' # to_lower (drop 2 cs)
      else (let n = (of_char c :: nat) in if 65 \<le> n \<and> n \<le> 90 then char_of (n + 32) else c) # to_lower cs)"

fun contains_str :: "string \<Rightarrow> string \<Rightarrow> bool" where
  "contains_str [] p \<longleftrightarrow> p = []"
| "contains_str (c # s) p \<longleftrightarrow> has_prefix (c # s) p \<or> contains_str s p"

lemma contains_str_iff: "contains_str s p \<longleftrightarrow> (\<exists>a b. s = a @ p @ b)"
proof (induction s)
  case Nil
  then show ?case by simp
next
  case (Cons c s)
  have "has_prefix (c # s) p \<longleftrightarrow> (\<exists>b. c # s = p @ b)"
    unfolding has_prefix_def by (metis append_eq_conv_conj)
  then show ?case
    using Cons by (simp add: Cons_eq_append_conv) (metis append_Nil)
qed

text \<open>The conversion \<^verbatim>\<open>[]byte(s)\<close>; a Go string is its bytes.\<close>

definition text_bytes :: "string \<Rightarrow> bytes" where
  "text_bytes s = map (\<lambda>c. of_nat (of_char c)) s"

text \<open>\<^verbatim>\<open>%q\<close> of package \<^verbatim>\<open>fmt\<close>; a byte above 0x7E is written as an escape.\<close>

definition hex_digit :: "nat \<Rightarrow> char" where
  "hex_digit n = (if n < 10 then char_of (48 + n) else char_of (87 + n))"

definition quote_byte :: "char \<Rightarrow> string" where
  "quote_byte c =
     (let n = (of_char c :: nat) in
      if n = 34 then [CHR 0x5C, CHR 0x22] else if n = 92 then [CHR 0x5C, CHR 0x5C]
      else if n = 7 then [CHR 0x5C, CHR ''a''] else if n = 8 then [CHR 0x5C, CHR ''b'']
      else if n = 12 then [CHR 0x5C, CHR ''f''] else if n = 10 then [CHR 0x5C, CHR ''n'']
      else if n = 13 then [CHR 0x5C, CHR ''r''] else if n = 9 then [CHR 0x5C, CHR ''t'']
      else if n = 11 then [CHR 0x5C, CHR ''v'']
      else if 32 \<le> n \<and> n < 127 then [c]
      else [CHR 0x5C, CHR ''x'', hex_digit (n div 16), hex_digit (n mod 16)])"

definition go_quote :: "string \<Rightarrow> string" where
  "go_quote s = [CHR 0x22] @ concat (map quote_byte s) @ [CHR 0x22]"

section \<open>Error values\<close>

text \<open>
  A Go error: its text and the chain of errors \<^verbatim>\<open>errors.Is\<close> and \<^verbatim>\<open>errors.As\<close> walk, outermost
  first. A node carries what the program asks of an error of that type.
\<close>

datatype errno = ECONNRESET | EPIPE | ECONNREFUSED | OtherErrno nat

datatype err_node =
    NAPIError int                  \<comment> \<open>\<^verbatim>\<open>*mega.APIError\<close>: Code\<close>
  | NQuotaError int                \<comment> \<open>\<^verbatim>\<open>*QuotaError\<close>: RetryAfter\<close>
  | NErrQuota
  | NHTTPStatus int string string  \<comment> \<open>\<^verbatim>\<open>*HTTPStatusError\<close>: StatusCode, Status, RetryAfter\<close>
  | NErrno errno bool bool         \<comment> \<open>\<^verbatim>\<open>syscall.Errno\<close>: Timeout(), Temporary()\<close>
  | NNetError bool bool            \<comment> \<open>any other \<^verbatim>\<open>net.Error\<close>\<close>
  | NEOF | NUnexpectedEOF | NShortWrite
  | NCanceled                      \<comment> \<open>\<^verbatim>\<open>context.Canceled\<close>\<close>
  | NDeadlineExceeded              \<comment> \<open>\<^verbatim>\<open>context.DeadlineExceeded\<close>, a \<^verbatim>\<open>net.Error\<close> with Timeout() and Temporary()\<close>
  | NIntegrityMismatch | NFinalizationPending | NCrossDevice
  | NSessionRejected | NReauthRequired | NAccountUnavailable
  | NInvalidTransition
  | NOther

record go_error =
  chain :: "err_node list"
  err_text :: string

definition errors_New :: "string \<Rightarrow> go_error" where
  "errors_New t = \<lparr>chain = [NOther], err_text = t\<rparr>"

text \<open>\<^verbatim>\<open>fmt.Errorf("prefix%w", err)\<close>.\<close>

definition wrap_error :: "string \<Rightarrow> go_error \<Rightarrow> go_error" where
  "wrap_error prefix e = \<lparr>chain = NOther # chain e, err_text = prefix @ err_text e\<rparr>"

definition io_EOF :: go_error where
  "io_EOF = \<lparr>chain = [NEOF], err_text = ''EOF''\<rparr>"

definition io_ErrUnexpectedEOF :: go_error where
  "io_ErrUnexpectedEOF = \<lparr>chain = [NUnexpectedEOF], err_text = ''unexpected EOF''\<rparr>"

definition io_ErrShortWrite :: go_error where
  "io_ErrShortWrite = \<lparr>chain = [NShortWrite], err_text = ''short write''\<rparr>"

definition context_Canceled :: go_error where
  "context_Canceled = \<lparr>chain = [NCanceled], err_text = ''context canceled''\<rparr>"

definition errors_Is :: "go_error \<Rightarrow> err_node \<Rightarrow> bool" where
  "errors_Is e n \<longleftrightarrow> n \<in> set (chain e)"

lemma errors_Is_wrap: "errors_Is e n \<Longrightarrow> errors_Is (wrap_error p e) n"
  by (simp add: errors_Is_def wrap_error_def)

end
