(* ===== verification/Retry.thy ===== *)
theory Retry
  imports GoText
begin

text \<open>
  The retry policy (\<^verbatim>\<open>internal/download/retry.go\<close>): classification of a transfer error,
  the exponential backoff with jitter, and the Retry-After header. Durations are in
  nanoseconds. The random source is the function behind \<^verbatim>\<open>Int63n\<close>, and \<^verbatim>\<open>http.ParseTime\<close> is
  a parameter giving the parsed instant.
\<close>

section \<open>Classification\<close>

datatype RetryClass = RetryNone | RetryTransport | RetryRateLimit | RetryServer
  | RetryRefreshURL | RetryQuota

fun as_api_error :: "err_node list \<Rightarrow> int option" where
  "as_api_error [] = None"
| "as_api_error (NAPIError c # ns) = Some c"
| "as_api_error (_ # ns) = as_api_error ns"

fun as_http_status :: "err_node list \<Rightarrow> (int \<times> string \<times> string) option" where
  "as_http_status [] = None"
| "as_http_status (NHTTPStatus c s r # ns) = Some (c, s, r)"
| "as_http_status (_ # ns) = as_http_status ns"

fun as_net_error :: "err_node list \<Rightarrow> (bool \<times> bool) option" where
  "as_net_error [] = None"
| "as_net_error (NNetError t p # ns) = Some (t, p)"
| "as_net_error (NErrno e t p # ns) = Some (t, p)"
| "as_net_error (NDeadlineExceeded # ns) = Some (True, True)"
| "as_net_error (_ # ns) = as_net_error ns"

fun as_errno :: "err_node list \<Rightarrow> errno list" where
  "as_errno [] = []"
| "as_errno (NErrno e t p # ns) = e # as_errno ns"
| "as_errno (_ # ns) = as_errno ns"

fun has_quota_node :: "err_node list \<Rightarrow> bool" where
  "has_quota_node [] = False"
| "has_quota_node (NQuotaError r # ns) = True"
| "has_quota_node (NErrQuota # ns) = True"
| "has_quota_node (_ # ns) = has_quota_node ns"

definition IsQuotaError :: "go_error \<Rightarrow> bool" where
  "IsQuotaError e = has_quota_node (chain e)"

text \<open>The quota error a worker hands to the scheduler: \<^verbatim>\<open>&QuotaError{Cause, RetryAfter}\<close>.\<close>

definition QuotaError :: "go_error \<Rightarrow> int \<Rightarrow> go_error" where
  "QuotaError cause retryAfter =
     \<lparr>chain = NQuotaError retryAfter # chain cause,
      err_text = ''MEGA transfer quota is exhausted: '' @ err_text cause\<rparr>"

definition classify_status :: "int \<Rightarrow> RetryClass" where
  "classify_status code =
     (if code = 429 then RetryRateLimit
      else if code \<in> {401, 403, 404, 410} then RetryRefreshURL
      else if code \<in> {500, 501, 502, 503, 504} then RetryServer
      else if code = 509 then RetryQuota
      else if code \<ge> 500 \<and> code \<le> 599 then RetryServer
      else RetryNone)"

text \<open>\<open>None\<close> is the nil error.\<close>

definition ClassifyRetry :: "go_error option \<Rightarrow> RetryClass" where
  "ClassifyRetry err =
     (case err of
        None \<Rightarrow> RetryNone
      | Some e \<Rightarrow>
          if as_api_error (chain e) = Some (- 17) \<or> as_api_error (chain e) = Some (- 24) then RetryQuota
          else if IsQuotaError e then RetryQuota
          else
            (case as_http_status (chain e) of
               Some (code, _, _) \<Rightarrow> classify_status code
             | None \<Rightarrow>
                 if \<exists>n\<in>set (as_errno (chain e)). n \<in> {ECONNRESET, EPIPE, ECONNREFUSED} then RetryTransport
                 else if (case as_net_error (chain e) of Some (t, p) \<Rightarrow> t \<or> p | None \<Rightarrow> False) then RetryTransport
                 else
                   (let text = to_lower (err_text e) in
                    if contains_str text ''unexpected eof'' \<or> contains_str text ''connection reset'' \<or>
                       contains_str text ''payload ended'' \<or> contains_str text ''temporary'' \<or>
                       contains_str text ''timeout''
                    then RetryTransport else RetryNone)))"

definition IsRetryableHTTPStatus :: "int \<Rightarrow> bool" where
  "IsRetryableHTTPStatus s \<longleftrightarrow> s = 429 \<or> s = 509 \<or> s \<ge> 500 \<and> s \<le> 599"

section \<open>Delays\<close>

definition second :: int where "second = 1000000000"

definition minute :: int where "minute = 60 * second"

definition hour :: int where "hour = 60 * minute"

text \<open>\<^verbatim>\<open>Time.Sub\<close> saturates at the range of \<^verbatim>\<open>time.Duration\<close>.\<close>

definition time_sub :: "int \<Rightarrow> int \<Rightarrow> int" where
  "time_sub a b = max (- (2 ^ 63)) (min max_int64 (a - b))"

text \<open>\<open>None\<close> is \<^verbatim>\<open>(0, false)\<close>.\<close>

definition ParseRetryAfter :: "(string \<Rightarrow> int option) \<Rightarrow> string \<Rightarrow> int \<Rightarrow> int option" where
  "ParseRetryAfter parse_time value now =
     (let v = trim_space value in
      if v = [] then None
      else
        (case parse_int v of
           Some seconds0 \<Rightarrow>
             (let seconds1 = (if seconds0 < 0 then 0 else seconds0);
                  cap = go_div (24 * hour) second;
                  seconds = (if seconds1 > cap then cap else seconds1)
              in Some (i64 (seconds * second)))
         | None \<Rightarrow>
             (case parse_time v of
                None \<Rightarrow> None
              | Some t \<Rightarrow>
                  (let delay0 = time_sub t now;
                       delay1 = (if delay0 < 0 then 0 else delay0)
                   in Some (if delay1 > 24 * hour then 24 * hour else delay1)))))"

definition backoff_base :: "int \<Rightarrow> int" where
  "backoff_base attempt =
     (let a1 = (if attempt < 1 then 1 else attempt);
          a2 = (if a1 > 9 then 9 else a1);
          delay = i64 (second * 2 ^ nat (a2 - 1))
      in if delay > 5 * minute then 5 * minute else delay)"

definition ExponentialBackoff ::
  "(string \<Rightarrow> int option) \<Rightarrow> (int \<Rightarrow> int) \<Rightarrow> int \<Rightarrow> string \<Rightarrow> int \<Rightarrow> int" where
  "ExponentialBackoff parse_time int63n attempt retryAfter now =
     (case (if retryAfter \<noteq> [] then ParseRetryAfter parse_time retryAfter now else None) of
        Some delay \<Rightarrow> delay
      | None \<Rightarrow>
          (let delay = backoff_base attempt;
               result = i64 (delay + int63n (go_div delay 4 + 1))
           in if result > 5 * minute then 5 * minute else result))"

section \<open>Lemmas\<close>

lemma ParseRetryAfter_bounds:
  "ParseRetryAfter pt v now = Some d \<Longrightarrow> 0 \<le> d \<and> d \<le> 24 * hour"
proof -
  assume p: "ParseRetryAfter pt v now = Some d"
  have cap: "go_div (24 * hour) second = 86400"
    by (simp add: go_div_nonneg hour_def minute_def second_def)
  have sec: "0 \<le> i64 (s * second) \<and> i64 (s * second) \<le> 24 * hour" if "0 \<le> s" "s \<le> 86400" for s
    using that by (simp add: i64_nonneg max_int64_def hour_def minute_def second_def)
  have h: "0 \<le> 24 * hour" by (simp add: hour_def minute_def second_def)
  show ?thesis
  proof (cases "parse_int (trim_space v)")
    case None
    then show ?thesis
      using p h by (auto simp: ParseRetryAfter_def Let_def split: if_splits option.splits)
  next
    case (Some s)
    then have "d = i64 (max 0 (min 86400 s) * second)"
      using p cap by (auto simp: ParseRetryAfter_def Let_def split: if_splits)
    then show ?thesis using sec [of "max 0 (min 86400 s)"] by simp
  qed
qed

lemma backoff_base_eq:
  "backoff_base attempt = (if attempt \<le> 1 then second else if attempt \<ge> 10 then 256 * second
     else second * 2 ^ nat (attempt - 1))"
proof (cases "attempt \<le> 1 \<or> attempt \<ge> 10")
  case True
  then show ?thesis
    by (auto simp: backoff_base_def second_def minute_def i64_def Let_def)
next
  case False
  then have "attempt \<in> {2, 3, 4, 5, 6, 7, 8, 9}" by auto
  then show ?thesis
    by (auto simp: backoff_base_def second_def minute_def i64_def Let_def)
qed

lemma backoff_base_range: "second \<le> backoff_base attempt \<and> backoff_base attempt \<le> 256 * second"
proof (cases "attempt \<le> 1 \<or> attempt \<ge> 10")
  case True
  then show ?thesis by (auto simp: backoff_base_eq second_def)
next
  case False
  then have "attempt \<in> {2, 3, 4, 5, 6, 7, 8, 9}" by auto
  then show ?thesis by (auto simp: backoff_base_eq second_def)
qed

lemma backoff_base_mono: "a \<le> b \<Longrightarrow> backoff_base a \<le> backoff_base b"
proof (cases "a \<le> 1 \<or> b \<ge> 10")
  case True
  assume "a \<le> b"
  with True show ?thesis
    using backoff_base_range [of a] backoff_base_range [of b]
    by (auto simp: backoff_base_eq [of a] backoff_base_eq [of b])
next
  case False
  assume "a \<le> b"
  with False show ?thesis
    by (simp add: backoff_base_eq [of a] backoff_base_eq [of b] second_def)
qed

section \<open>Properties\<close>

text \<open>
  C22. The delay before a retry is bounded. Without a usable Retry-After it lies between the
  base delay and the base plus a quarter, is never more than five minutes, and the base
  doubles with every attempt from one second up to 256 seconds and never decreases; with
  one it is the server's delay cut to between zero and twenty-four hours.
\<close>

theorem backoff_bounded:
  assumes "\<And>n. 0 < n \<Longrightarrow> 0 \<le> int63n n \<and> int63n n < n"
  shows "(\<forall>d. retryAfter \<noteq> [] \<and> ParseRetryAfter pt retryAfter now = Some d \<longrightarrow>
            ExponentialBackoff pt int63n attempt retryAfter now = d \<and> 0 \<le> d \<and> d \<le> 24 * hour) \<and>
         (retryAfter = [] \<or> ParseRetryAfter pt retryAfter now = None \<longrightarrow>
            backoff_base attempt \<le> ExponentialBackoff pt int63n attempt retryAfter now \<and>
            ExponentialBackoff pt int63n attempt retryAfter now
              \<le> min (5 * minute) (backoff_base attempt + backoff_base attempt div 4)) \<and>
         backoff_base 1 = second \<and> backoff_base attempt \<le> backoff_base (attempt + 1) \<and>
         (1 \<le> attempt \<and> attempt < 9 \<longrightarrow> backoff_base (attempt + 1) = 2 * backoff_base attempt)"
proof (intro conjI allI impI)
  fix d
  assume d: "retryAfter \<noteq> [] \<and> ParseRetryAfter pt retryAfter now = Some d"
  then show "ExponentialBackoff pt int63n attempt retryAfter now = d"
    by (simp add: ExponentialBackoff_def)
  show "0 \<le> d" "d \<le> 24 * hour"
    using ParseRetryAfter_bounds d by blast+
next
  assume "retryAfter = [] \<or> ParseRetryAfter pt retryAfter now = None"
  then have e: "ExponentialBackoff pt int63n attempt retryAfter now =
      (let result = i64 (backoff_base attempt + int63n (go_div (backoff_base attempt) 4 + 1))
       in if result > 5 * minute then 5 * minute else result)"
    by (auto simp: ExponentialBackoff_def Let_def)
  let ?b = "backoff_base attempt"
  have q: "go_div ?b 4 = ?b div 4"
    using backoff_base_range [of attempt] by (simp add: go_div_nonneg second_def)
  have r: "0 \<le> int63n (?b div 4 + 1)" "int63n (?b div 4 + 1) \<le> ?b div 4"
    using assms [of "?b div 4 + 1"] backoff_base_range [of attempt] by (auto simp: second_def)
  have i: "i64 (?b + int63n (?b div 4 + 1)) = ?b + int63n (?b div 4 + 1)"
    using r backoff_base_range [of attempt]
    by (intro i64_nonneg; simp add: second_def max_int64_def; linarith)
  show "?b \<le> ExponentialBackoff pt int63n attempt retryAfter now"
    and "ExponentialBackoff pt int63n attempt retryAfter now \<le> min (5 * minute) (?b + ?b div 4)"
    using r backoff_base_range [of attempt] unfolding e q i Let_def
    by (auto simp: minute_def second_def)
next
  show "backoff_base 1 = second" by (simp add: backoff_base_eq)
  show "backoff_base attempt \<le> backoff_base (attempt + 1)" by (rule backoff_base_mono) simp
  assume "1 \<le> attempt \<and> attempt < 9"
  then have "attempt \<in> {1, 2, 3, 4, 5, 6, 7, 8}" by auto
  then show "backoff_base (attempt + 1) = 2 * backoff_base attempt"
    by (auto simp: backoff_base_eq second_def)
qed

theorem backoff_bounded_witness:
  "backoff_base 3 \<le> ExponentialBackoff (\<lambda>_. None) (\<lambda>n. n div 2) 3 '''' 0 \<and>
   ExponentialBackoff (\<lambda>_. None) (\<lambda>n. n div 2) 3 '''' 0 \<le> 5 * minute \<and>
   backoff_base 4 = 2 * backoff_base 3"
  using backoff_bounded [of "\<lambda>n. n div 2" "''''" "\<lambda>_. None" 0 3] by simp



end
