(* ===== verification/Crypto.thy ===== *)
theory Crypto
  imports GoText
begin

text \<open>
  Key decoding, the AES-CTR content stream and the condensed file MAC
  (\<^verbatim>\<open>internal/mega/crypto.go\<close>, \<^verbatim>\<open>internal/mega/integrity.go\<close>). The block cipher is a pair of
  functions \<open>E\<close>, \<open>D\<close> from a key and a 16-byte block to a 16-byte block, and every theorem
  holds for each such pair; the URL-safe base64 decoder of go-mega and the JSON decoder are
  parameters too. The stream objects of \<^verbatim>\<open>crypto/cipher\<close> are written out as state: the CTR
  counter with the unread key stream, and the CBC chaining block.
\<close>

section \<open>Big-endian words\<close>

definition be_uint32 :: "bytes \<Rightarrow> 32 word" where
  "be_uint32 b = push_bit 24 (ucast (b ! 0)) OR push_bit 16 (ucast (b ! 1))
     OR push_bit 8 (ucast (b ! 2)) OR ucast (b ! 3)"

definition put_uint32 :: "32 word \<Rightarrow> bytes" where
  "put_uint32 w = [ucast (drop_bit 24 w), ucast (drop_bit 16 w), ucast (drop_bit 8 w), ucast w]"

text \<open>\<^verbatim>\<open>BigEndian.PutUint64\<close>, for any number of bytes.\<close>

fun be_bytes :: "nat \<Rightarrow> nat \<Rightarrow> bytes" where
  "be_bytes 0 n = []"
| "be_bytes (Suc k) n = be_bytes k (n div 256) @ [of_nat (n mod 256)]"

definition xor_bytes :: "bytes \<Rightarrow> bytes \<Rightarrow> bytes" where
  "xor_bytes xs ys = map2 (XOR) xs ys"

lemma length_be_bytes [simp]: "length (be_bytes k n) = k"
  by (induction k arbitrary: n) simp_all

lemma length_xor_bytes [simp]: "length (xor_bytes xs ys) = min (length xs) (length ys)"
  by (simp add: xor_bytes_def)

lemma nth_xor_bytes: "i < length xs \<Longrightarrow> i < length ys \<Longrightarrow> xor_bytes xs ys ! i = xs ! i XOR ys ! i"
  by (simp add: xor_bytes_def)

lemma xor_bytes_append:
  "length a = length c \<Longrightarrow> xor_bytes (a @ b) (c @ d) = xor_bytes a c @ xor_bytes b d"
  by (simp add: xor_bytes_def)

lemma xor_bytes_twice: "length xs \<le> length ks \<Longrightarrow> xor_bytes (xor_bytes xs ks) ks = xs"
  by (rule nth_equalityI) (simp_all add: nth_xor_bytes xor.assoc)

lemma put_xor_uint32:
  assumes "length x = 4" "length y = 4"
  shows "put_uint32 (be_uint32 x XOR be_uint32 y) = xor_bytes x y"
proof -
  obtain a b c d where x: "x = [a, b, c, d]"
    using assms(1) by (auto simp: numeral_eq_Suc length_Suc_conv)
  obtain e f g h where y: "y = [e, f, g, h]"
    using assms(2) by (auto simp: numeral_eq_Suc length_Suc_conv)
  have z: "\<not> bit (v :: byte) n" if "8 \<le> n" for v n
    using that bit_imp_le_length [of v n] by auto
  show ?thesis
    unfolding x y put_uint32_def be_uint32_def xor_bytes_def
    by (auto simp: bit_eq_iff bit_simps z)
qed

section \<open>Keys\<close>

datatype crypto_error = ErrInvalidKey | ErrInvalidAttributes | ErrIntegrityMismatch

record FileKey =
  Raw :: bytes
  AESKey :: bytes
  Nonce :: bytes
  MetaMAC :: bytes

record NodeKey =
  node_Raw :: bytes
  node_AESKey :: bytes

definition sub_list :: "nat \<Rightarrow> nat \<Rightarrow> 'a list \<Rightarrow> 'a list" where
  "sub_list lo hi xs = take (hi - lo) (drop lo xs)"

text \<open>The loop over the four word pairs of both decoders.\<close>

definition xor_words :: "bytes \<Rightarrow> bytes" where
  "xor_words decoded =
     concat (map (\<lambda>index. put_uint32 (be_uint32 (sub_list (index * 4) (index * 4 + 4) decoded) XOR
                                      be_uint32 (sub_list ((index + 4) * 4) ((index + 4) * 4 + 4) decoded)))
                 [0, 1, 2, 3])"

definition decodeFileKeyBytes :: "bytes \<Rightarrow> crypto_error + FileKey" where
  "decodeFileKeyBytes decoded =
     (if length decoded \<noteq> 32 then Inl ErrInvalidKey
      else Inr \<lparr>Raw = decoded, AESKey = xor_words decoded,
                Nonce = sub_list 16 24 decoded, MetaMAC = sub_list 24 32 decoded\<rparr>)"

definition DecodeFileKey :: "(string \<Rightarrow> bytes option) \<Rightarrow> string \<Rightarrow> crypto_error + FileKey" where
  "DecodeFileKey b64 encoded =
     (case b64 encoded of None \<Rightarrow> Inl ErrInvalidKey | Some decoded \<Rightarrow> decodeFileKeyBytes decoded)"

definition decodeNodeKeyBytes :: "bytes \<Rightarrow> crypto_error + NodeKey" where
  "decodeNodeKeyBytes decoded =
     (if length decoded \<noteq> 16 \<and> length decoded \<noteq> 32 then Inl ErrInvalidKey
      else if length decoded = 16 then Inr \<lparr>node_Raw = decoded, node_AESKey = decoded\<rparr>
      else Inr \<lparr>node_Raw = decoded, node_AESKey = xor_words decoded\<rparr>)"

definition DecodeNodeKey :: "(string \<Rightarrow> bytes option) \<Rightarrow> string \<Rightarrow> crypto_error + NodeKey" where
  "DecodeNodeKey b64 encoded =
     (case b64 encoded of None \<Rightarrow> Inl ErrInvalidKey | Some decoded \<Rightarrow> decodeNodeKeyBytes decoded)"

text \<open>The 16-byte blocks of a byte string (a short last block stays short).\<close>

function blocks16 :: "bytes \<Rightarrow> bytes list" where
  "blocks16 b = (if b = [] then [] else take 16 b # blocks16 (drop 16 b))"
  by pat_completeness auto
termination by (relation "measure length") auto

declare blocks16.simps [simp del]

definition DecryptNodeKey ::
  "(bytes \<Rightarrow> bytes \<Rightarrow> bytes) \<Rightarrow> (string \<Rightarrow> bytes option) \<Rightarrow> string \<Rightarrow> NodeKey \<Rightarrow> crypto_error + bytes" where
  "DecryptNodeKey D b64 encoded master =
     (case b64 encoded of
        None \<Rightarrow> Inl ErrInvalidKey
      | Some ciphertext \<Rightarrow>
          if length ciphertext = 0 \<or> length ciphertext mod 16 \<noteq> 0 then Inl ErrInvalidKey
          else
            (let plaintext = concat (map (D (node_AESKey master)) (blocks16 ciphertext)) in
             if length plaintext \<noteq> 16 \<and> length plaintext \<noteq> 32 then Inl ErrInvalidKey
             else Inr plaintext))"

text \<open>\<^verbatim>\<open>CBCDecrypter.CryptBlocks\<close> over whole blocks.\<close>

fun cbc_decrypt :: "(bytes \<Rightarrow> bytes) \<Rightarrow> bytes \<Rightarrow> bytes list \<Rightarrow> bytes" where
  "cbc_decrypt dec iv [] = []"
| "cbc_decrypt dec iv (c # cs) = xor_bytes (dec c) iv @ cbc_decrypt dec c cs"

definition trim_right_zero :: "bytes \<Rightarrow> bytes" where
  "trim_right_zero b = rev (dropWhile (\<lambda>x. x = 0) (rev b))"

definition DecryptAttributes ::
  "(bytes \<Rightarrow> bytes \<Rightarrow> bytes) \<Rightarrow> (string \<Rightarrow> bytes option) \<Rightarrow> (bytes \<Rightarrow> 'j option) \<Rightarrow> string \<Rightarrow> bytes
     \<Rightarrow> crypto_error + 'j" where
  "DecryptAttributes D b64 unmarshal encoded aesKey =
     (case b64 encoded of
        None \<Rightarrow> Inl ErrInvalidAttributes
      | Some ciphertext \<Rightarrow>
          if length ciphertext = 0 \<or> length ciphertext mod 16 \<noteq> 0 then Inl ErrInvalidAttributes
          else if length aesKey \<notin> {16, 24, 32} then Inl ErrInvalidAttributes
          else
            (let plaintext = cbc_decrypt (D aesKey) (replicate 16 0) (blocks16 ciphertext) in
             if length plaintext < 4 \<or> take 4 plaintext \<noteq> [0x4D, 0x45, 0x47, 0x41] then Inl ErrInvalidAttributes
             else
               (case unmarshal (trim_right_zero (drop 4 plaintext)) of
                  None \<Rightarrow> Inl ErrInvalidAttributes
                | Some attributes \<Rightarrow> Inr attributes)))"

section \<open>The CTR stream\<close>

text \<open>\<^verbatim>\<open>cipher.NewCTR\<close>: the counter block, incremented as one big-endian number, and the key
  stream bytes of the current block not yet used.\<close>

record ctr_stream =
  ctr_key :: bytes
  ctr_counter :: bytes
  ctr_out :: bytes

fun inc_le :: "bytes \<Rightarrow> bytes" where
  "inc_le [] = []"
| "inc_le (b # bs) = (if b = 255 then 0 # inc_le bs else (b + 1) # bs)"

definition inc_counter :: "bytes \<Rightarrow> bytes" where
  "inc_counter c = rev (inc_le (rev c))"

definition ctr_refill :: "(bytes \<Rightarrow> bytes \<Rightarrow> bytes) \<Rightarrow> ctr_stream \<Rightarrow> ctr_stream" where
  "ctr_refill E s =
     (if ctr_out s = [] then s\<lparr>ctr_out := E (ctr_key s) (ctr_counter s),
                               ctr_counter := inc_counter (ctr_counter s)\<rparr> else s)"

fun XORKeyStream :: "(bytes \<Rightarrow> bytes \<Rightarrow> bytes) \<Rightarrow> ctr_stream \<Rightarrow> bytes \<Rightarrow> bytes \<times> ctr_stream" where
  "XORKeyStream E s [] = ([], s)"
| "XORKeyStream E s (b # bs) =
     (let s1 = ctr_refill E s;
          (rest, s2) = XORKeyStream E (s1\<lparr>ctr_out := tl (ctr_out s1)\<rparr>) bs
      in ((b XOR hd (ctr_out s1)) # rest, s2))"

definition NewCTR :: "(bytes \<Rightarrow> bytes \<Rightarrow> bytes) \<Rightarrow> FileKey \<Rightarrow> int \<Rightarrow> crypto_error + ctr_stream" where
  "NewCTR E key offset =
     (if offset < 0 then Inl ErrInvalidKey
      else
        (let counter = take 8 (Nonce key) @ be_bytes 8 (nat (go_div offset 16));
             stream = \<lparr>ctr_key = AESKey key, ctr_counter = counter, ctr_out = []\<rparr>;
             remainder = go_rem offset 16
         in Inr (if remainder \<noteq> 0 then snd (XORKeyStream E stream (replicate (nat remainder) 0)) else stream)))"

definition DecryptAt :: "(bytes \<Rightarrow> bytes \<Rightarrow> bytes) \<Rightarrow> bytes \<Rightarrow> FileKey \<Rightarrow> int \<Rightarrow> crypto_error + bytes" where
  "DecryptAt E ciphertext key offset =
     (case NewCTR E key offset of
        Inl e \<Rightarrow> Inl e
      | Inr stream \<Rightarrow> Inr (fst (XORKeyStream E stream ciphertext)))"

definition CryptAt :: "(bytes \<Rightarrow> bytes \<Rightarrow> bytes) \<Rightarrow> bytes \<Rightarrow> FileKey \<Rightarrow> int \<Rightarrow> crypto_error + bytes" where
  "CryptAt E plaintext key offset = DecryptAt E plaintext key offset"

section \<open>The condensed MAC\<close>

definition firstMegaChunkSize :: int where "firstMegaChunkSize = 128 * 1024"

definition steadyMegaChunk :: int where "steadyMegaChunk = 1024 * 1024"

definition megaChunkSize :: "int \<Rightarrow> int" where
  "megaChunkSize number = (if number \<le> 8 then number * firstMegaChunkSize else steadyMegaChunk)"

text \<open>\<^verbatim>\<open>CBCEncrypter.CryptBlocks\<close> on one block: output and next chaining value are the same.\<close>

definition cbc_step :: "(bytes \<Rightarrow> bytes) \<Rightarrow> bytes \<Rightarrow> bytes \<Rightarrow> bytes" where
  "cbc_step enc prev blk = enc (xor_bytes blk prev)"

definition pad16 :: "bytes \<Rightarrow> bytes" where
  "pad16 plain = plain @ replicate ((length plain + 15) div 16 * 16 - length plain) 0"

definition chunk_mac :: "(bytes \<Rightarrow> bytes) \<Rightarrow> bytes \<Rightarrow> bytes \<Rightarrow> bytes" where
  "chunk_mac enc iv plain = foldl (cbc_step enc) iv (blocks16 (pad16 plain))"

text \<open>
  The loop over chunks: \<open>reader\<close> is what the reader can still deliver, \<open>finalMAC\<close> the chaining
  block of \<^verbatim>\<open>chunkMACs\<close>. \<open>Inl\<close> is the error of a short read. Chunk numbers start at one and
  grow, so the second exit condition never holds; it bounds the recursion for every argument.
\<close>

function mac_loop :: "(bytes \<Rightarrow> bytes) \<Rightarrow> bytes \<Rightarrow> bytes \<Rightarrow> int \<Rightarrow> int \<Rightarrow> bytes \<Rightarrow> crypto_error + bytes" where
  "mac_loop enc macIV reader remaining chunkNumber finalMAC =
     (if remaining \<le> 0 \<or> chunkNumber < 1 then Inr finalMAC
      else
        (let c0 = megaChunkSize chunkNumber;
             chunkSize = (if c0 > remaining then remaining else c0);
             plain = take (nat chunkSize) reader
         in if length plain < nat chunkSize then Inl ErrIntegrityMismatch
            else mac_loop enc macIV (drop (nat chunkSize) reader) (remaining - chunkSize) (chunkNumber + 1)
                   (cbc_step enc finalMAC (chunk_mac enc macIV plain))))"
  by pat_completeness auto

lemma megaChunkSize_pos: "1 \<le> n \<Longrightarrow> 0 < megaChunkSize n"
  by (simp add: megaChunkSize_def firstMegaChunkSize_def steadyMegaChunk_def)

termination mac_loop
  by (relation "measure (\<lambda>(_, _, _, r, _, _). nat r)") (auto simp: megaChunkSize_pos not_le)

declare mac_loop.simps [simp del]

definition condense_mac :: "bytes \<Rightarrow> bytes" where
  "condense_mac finalMAC =
     put_uint32 (be_uint32 (sub_list 0 4 finalMAC) XOR be_uint32 (sub_list 4 8 finalMAC)) @
     put_uint32 (be_uint32 (sub_list 8 12 finalMAC) XOR be_uint32 (sub_list 12 16 finalMAC))"

definition VerifyIntegrity ::
  "(bytes \<Rightarrow> bytes \<Rightarrow> bytes) \<Rightarrow> bytes \<Rightarrow> int \<Rightarrow> FileKey \<Rightarrow> crypto_error option" where
  "VerifyIntegrity E reader fileSize key =
     (if fileSize < 0 then Some ErrIntegrityMismatch
      else if fileSize = 0 then (if replicate 8 0 \<noteq> MetaMAC key then Some ErrIntegrityMismatch else None)
      else
        (let macIV = Nonce key @ Nonce key in
         case mac_loop (E (AESKey key)) macIV reader fileSize 1 (replicate 16 0) of
           Inl e \<Rightarrow> Some e
         | Inr finalMAC \<Rightarrow>
             if condense_mac finalMAC \<noteq> MetaMAC key then Some ErrIntegrityMismatch else None))"

section \<open>Random access: the stream interface\<close>

text \<open>
  What the transfer worker relies on: a stream positioned at \<open>i\<close> combines the next bytes with
  the key stream bytes from \<open>i\<close> on, and moves on by their number.
\<close>

locale seekable_stream =
  fixes at :: "'e \<Rightarrow> 's \<Rightarrow> nat \<Rightarrow> bool"
    and feed :: "'e \<Rightarrow> 's \<Rightarrow> bytes \<Rightarrow> bytes \<times> 's"
    and ks :: "'e \<Rightarrow> nat \<Rightarrow> byte"
    and limit :: nat
  assumes feed_out: "at e s i \<Longrightarrow> i + length bs \<le> limit \<Longrightarrow>
      fst (feed e s bs) = xor_bytes bs (map (ks e) [i..<i + length bs])"
    and feed_at: "at e s i \<Longrightarrow> i + length bs \<le> limit \<Longrightarrow> at e (snd (feed e s bs)) (i + length bs)"
begin

lemma feed_append:
  assumes "at e s i" and "i + length (a @ b) \<le> limit"
  shows "fst (feed e s (a @ b)) = fst (feed e s a) @ fst (feed e (snd (feed e s a)) b)"
proof -
  have "[i..<i + length (a @ b)] = [i..<i + length a] @ [i + length a..<i + length a + length b]"
    by (metis add.assoc length_append le_add1 upt_add_eq_append)
  then show ?thesis
    using assms feed_out [OF assms] feed_out [of e s i a] feed_out [OF feed_at [of e s i a], of b]
    by (simp add: xor_bytes_append add.assoc)
qed

lemma feed_twice:
  assumes "at e s i" and "at e t i" and "i + length a \<le> limit"
  shows "fst (feed e t (fst (feed e s a))) = a"
  using feed_out [OF assms(1,3)] feed_out [OF assms(2), of "fst (feed e s a)"] assms(3)
  by (simp add: xor_bytes_twice)

end

definition ctr_block :: "FileKey \<Rightarrow> nat \<Rightarrow> bytes" where
  "ctr_block key n = take 8 (Nonce key) @ be_bytes 8 n"

definition keystream :: "(bytes \<Rightarrow> bytes \<Rightarrow> bytes) \<Rightarrow> FileKey \<Rightarrow> nat \<Rightarrow> byte" where
  "keystream E key i = E (AESKey key) (ctr_block key (i div 16)) ! (i mod 16)"

definition block_cipher :: "(bytes \<Rightarrow> bytes \<Rightarrow> bytes) \<Rightarrow> bool" where
  "block_cipher E \<longleftrightarrow> (\<forall>k b. length (E k b) = 16)"

definition stream_at :: "(bytes \<Rightarrow> bytes \<Rightarrow> bytes) \<Rightarrow> FileKey \<Rightarrow> ctr_stream \<Rightarrow> nat \<Rightarrow> bool" where
  "stream_at E key s i \<longleftrightarrow> block_cipher E \<and> ctr_key s = AESKey key \<and>
     (if i mod 16 = 0 then ctr_out s = [] \<and> ctr_counter s = ctr_block key (i div 16)
      else ctr_out s = drop (i mod 16) (E (AESKey key) (ctr_block key (i div 16))) \<and>
           ctr_counter s = ctr_block key (i div 16 + 1))"

lemma inc_counter_snoc:
  "inc_counter (xs @ [b]) = (if b = 255 then inc_counter xs @ [0] else xs @ [b + 1])"
  by (simp add: inc_counter_def)

lemma inc_counter_be: "n + 1 < 256 ^ k \<Longrightarrow> inc_counter (p @ be_bytes k n) = p @ be_bytes k (n + 1)"
proof (induction k arbitrary: n)
  case 0
  then show ?case by simp
next
  case (Suc k)
  have m: "n mod 256 < 256" by simp
  show ?case
  proof (cases "n mod 256 = 255")
    case True
    then have d: "(n + 1) div 256 = n div 256 + 1" "(n + 1) mod 256 = 0"
      by (simp_all add: div_Suc mod_Suc)
    then have "n div 256 + 1 < 256 ^ k"
      using Suc.prems by (metis less_mult_imp_div_less mult.commute power_Suc)
    with Suc.IH [of "n div 256"] True d show ?thesis
      by (simp add: inc_counter_snoc flip: append_assoc)
  next
    case False
    then have d: "(n + 1) div 256 = n div 256" "(n + 1) mod 256 = n mod 256 + 1"
      by (simp_all add: div_Suc mod_Suc)
    have "unat (of_nat (n mod 256) :: byte) = n mod 256"
      by (simp add: unat_of_nat)
    then have "(of_nat (n mod 256) :: byte) \<noteq> 255"
      using False by auto
    with d show ?thesis
      by (simp add: inc_counter_snoc add.commute flip: append_assoc)
  qed
qed

lemma inc_ctr_block: "n + 1 < 2 ^ 64 \<Longrightarrow> inc_counter (ctr_block key n) = ctr_block key (n + 1)"
  unfolding ctr_block_def by (rule inc_counter_be) simp

lemma stream_at_step:
  assumes "stream_at E key s i" and "i < 2 ^ 63"
  shows "hd (ctr_out (ctr_refill E s)) = keystream E key i"
    and "stream_at E key ((ctr_refill E s)\<lparr>ctr_out := tl (ctr_out (ctr_refill E s))\<rparr>) (Suc i)"
proof -
  let ?blk = "E (AESKey key) (ctr_block key (i div 16))"
  have len: "length ?blk = 16" using assms(1) by (simp add: stream_at_def block_cipher_def)
  have bound: "i div 16 + 1 < 2 ^ 64" using assms(2) by simp
  have r: "ctr_out (ctr_refill E s) = drop (i mod 16) ?blk \<and>
           ctr_counter (ctr_refill E s) = ctr_block key (i div 16 + 1) \<and> ctr_key (ctr_refill E s) = AESKey key"
  proof (cases "i mod 16 = 0")
    case True
    then show ?thesis using assms(1) inc_ctr_block [OF bound] by (simp add: stream_at_def ctr_refill_def)
  next
    case False
    have "i mod 16 < 16" by simp
    with False show ?thesis using assms(1) len by (auto simp: stream_at_def ctr_refill_def)
  qed
  have m: "i mod 16 < 16" by simp
  show "hd (ctr_out (ctr_refill E s)) = keystream E key i"
    using r m len by (simp add: keystream_def hd_drop_conv_nth)
  show "stream_at E key ((ctr_refill E s)\<lparr>ctr_out := tl (ctr_out (ctr_refill E s))\<rparr>) (Suc i)"
  proof (cases "Suc i mod 16 = 0")
    case True
    then have "i mod 16 = 15" and "Suc i div 16 = i div 16 + 1"
      by (simp_all add: div_Suc mod_Suc split: if_splits)
    moreover have "tl (drop 15 ?blk) = []" using len by (simp flip: length_0_conv)
    ultimately show ?thesis using True r assms(1) by (simp add: stream_at_def)
  next
    case False
    then have "Suc i mod 16 = Suc (i mod 16)" and "Suc i div 16 = i div 16"
      by (simp_all add: div_Suc mod_Suc split: if_splits)
    with False r assms(1) show ?thesis by (simp add: stream_at_def tl_drop drop_Suc)
  qed
qed

lemma XORKeyStream_at:
  "stream_at E key s i \<Longrightarrow> i + length bs \<le> 2 ^ 63 \<Longrightarrow>
     fst (XORKeyStream E s bs) = xor_bytes bs (map (keystream E key) [i..<i + length bs]) \<and>
     stream_at E key (snd (XORKeyStream E s bs)) (i + length bs)"
proof (induction bs arbitrary: s i)
  case Nil
  then show ?case by (simp add: xor_bytes_def)
next
  case (Cons b bs)
  let ?s = "(ctr_refill E s)\<lparr>ctr_out := tl (ctr_out (ctr_refill E s))\<rparr>"
  have i: "i < 2 ^ 63" using Cons.prems(2) by simp
  note step = stream_at_step [OF Cons.prems(1) i]
  have "[i..<i + length (b # bs)] = i # [Suc i..<Suc i + length bs]"
    using upt_conv_Cons [of i "i + length (b # bs)"] by simp
  with Cons.IH [OF step(2)] Cons.prems(2) step(1) show ?case
    by (simp add: case_prod_beta Let_def xor_bytes_def)
qed

interpretation ctr: seekable_stream
  "\<lambda>(E, key) s i. stream_at E key s i" "\<lambda>(E, key) s bs. XORKeyStream E s bs"
  "\<lambda>(E, key). keystream E key" "2 ^ 63"
  by unfold_locales (auto simp: XORKeyStream_at)

lemma NewCTR_at:
  assumes "block_cipher E" and "0 \<le> offset" and "offset \<le> max_int64"
  shows "\<exists>s. NewCTR E key offset = Inr s \<and> stream_at E key s (nat offset)"
proof -
  obtain n where n: "offset = int n" using assms(2) nonneg_eq_int by blast
  let ?s = "\<lparr>ctr_key = AESKey key, ctr_counter = take 8 (Nonce key) @ be_bytes 8 (n div 16), ctr_out = []\<rparr>"
  have d: "nat (go_div offset 16) = n div 16" "go_rem offset 16 = int (n mod 16)"
    using n by (simp_all add: go_arith zdiv_int zmod_int nat_div_distrib)
  have base: "stream_at E key ?s (16 * (n div 16))"
    using assms(1) by (simp add: stream_at_def ctr_block_def)
  have "16 * (n div 16) + n mod 16 = n" by simp
  moreover have "n \<le> 2 ^ 63" using assms(3) n by (simp add: max_int64_def)
  ultimately have "stream_at E key (snd (XORKeyStream E ?s (replicate (n mod 16) 0))) n"
    using XORKeyStream_at [OF base, of "replicate (n mod 16) 0"] by simp
  moreover have "stream_at E key ?s n" if "n mod 16 = 0"
    using base that by (metis \<open>16 * (n div 16) + n mod 16 = n\<close> add.right_neutral)
  ultimately show ?thesis
    using assms(2) d n by (auto simp: NewCTR_def Let_def)
qed

lemma DecryptAt_eq:
  assumes "block_cipher E" and "0 \<le> offset" and "offset + int (length ct) \<le> max_int64"
  shows "DecryptAt E ct key offset =
     Inr (xor_bytes ct (map (keystream E key) [nat offset..<nat offset + length ct]))"
proof -
  obtain s where s: "NewCTR E key offset = Inr s" "stream_at E key s (nat offset)"
    using NewCTR_at [of E offset key] assms by auto
  have "nat offset + length ct \<le> 2 ^ 63" using assms(2,3) by (simp add: max_int64_def)
  with s show ?thesis
    using XORKeyStream_at [OF s(2), of ct] by (simp add: DecryptAt_def)
qed

lemma xor_words_eq:
  assumes "length d = 32"
  shows "xor_words d = xor_bytes (take 16 d) (drop 16 d)"
proof -
  have s: "length (sub_list (k * 4) (k * 4 + 4) d) = 4" if "k < 8" for k
    using that assms by (simp add: sub_list_def)
  have "take 16 d = sub_list 0 4 d @ sub_list 4 8 d @ sub_list 8 12 d @ sub_list 12 16 d"
    by (rule nth_equalityI) (use assms in \<open>auto simp: sub_list_def nth_append\<close>)
  moreover have "drop 16 d = sub_list 16 20 d @ sub_list 20 24 d @ sub_list 24 28 d @ sub_list 28 32 d"
    by (rule nth_equalityI) (use assms in \<open>auto simp: sub_list_def nth_append\<close>)
  ultimately show ?thesis
    using s [of 0] s [of 1] s [of 2] s [of 3] s [of 4] s [of 5] s [of 6] s [of 7]
    by (simp add: xor_words_def put_xor_uint32 xor_bytes_append)
qed

section \<open>The condensed MAC in closed form\<close>

text \<open>
  Where chunk number \<open>k\<close> (from zero) starts: the sizes grow by 128 KiB up to 1 MiB and then
  stay there.
\<close>

definition chunk_boundary :: "nat \<Rightarrow> nat" where
  "chunk_boundary k = (if k \<le> 8 then 131072 * (k * (k + 1) div 2) else 131072 * 36 + (k - 8) * 1048576)"

definition chunk_of :: "bytes \<Rightarrow> nat \<Rightarrow> bytes" where
  "chunk_of pt k = sub_list (chunk_boundary k) (chunk_boundary (k + 1)) pt"

definition file_chunks :: "bytes \<Rightarrow> bytes list" where
  "file_chunks pt = map (chunk_of pt) (filter (\<lambda>k. chunk_boundary k < length pt) [0..<length pt])"

definition mac_of_chunks :: "(bytes \<Rightarrow> bytes) \<Rightarrow> bytes \<Rightarrow> bytes \<Rightarrow> bytes list \<Rightarrow> bytes" where
  "mac_of_chunks enc iv = foldl (\<lambda>m c. cbc_step enc m (chunk_mac enc iv c))"

definition condensed_file_mac :: "(bytes \<Rightarrow> bytes \<Rightarrow> bytes) \<Rightarrow> FileKey \<Rightarrow> bytes \<Rightarrow> bytes" where
  "condensed_file_mac E key pt =
     condense_mac (mac_of_chunks (E (AESKey key)) (Nonce key @ Nonce key) (replicate 16 0) (file_chunks pt))"

lemma megaChunkSize_boundary:
  "megaChunkSize (int k + 1) = int (chunk_boundary (k + 1)) - int (chunk_boundary k)"
proof (cases "k < 8")
  case True
  then have "k \<in> {0, 1, 2, 3, 4, 5, 6, 7}" by auto
  then show ?thesis by (auto simp: megaChunkSize_def chunk_boundary_def firstMegaChunkSize_def)
next
  case False
  then obtain j where "k = 8 + j" by (metis le_Suc_ex not_less)
  then show ?thesis
    by (simp add: megaChunkSize_def chunk_boundary_def steadyMegaChunk_def algebra_simps)
qed

lemma chunk_boundary_less: "chunk_boundary k < chunk_boundary (Suc k)"
  using megaChunkSize_boundary [of k] megaChunkSize_pos [of "int k + 1"] by simp

lemma chunk_boundary_mono: "j < k \<Longrightarrow> chunk_boundary j < chunk_boundary k"
  by (rule lift_Suc_mono_less [of chunk_boundary, OF chunk_boundary_less])

lemma chunk_boundary_ge: "k \<le> chunk_boundary k"
  by (induction k) (auto intro: le_trans [OF _ Suc_leI [OF chunk_boundary_less]])

definition chunks_needed :: "nat \<Rightarrow> nat" where
  "chunks_needed n = (LEAST k. n \<le> chunk_boundary k)"

lemma chunks_needed: "n \<le> chunk_boundary (chunks_needed n)" "k < chunks_needed n \<Longrightarrow> chunk_boundary k < n"
proof -
  show "n \<le> chunk_boundary (chunks_needed n)"
    unfolding chunks_needed_def by (rule LeastI [of _ n]) (rule chunk_boundary_ge)
  show "k < chunks_needed n \<Longrightarrow> chunk_boundary k < n"
    unfolding chunks_needed_def using not_less_Least [of k "\<lambda>k. n \<le> chunk_boundary k"] by simp
qed

lemma chunks_needed_iff: "chunk_boundary k < n \<longleftrightarrow> k < chunks_needed n"
  by (metis chunk_boundary_mono chunks_needed leD le_trans linorder_less_linear less_or_eq_imp_le)

lemma filter_less_upt: "filter (\<lambda>k. k < a) [0..<b] = [0..<min a b]"
  by (induction b) (auto simp: min_def le_Suc_eq)

lemma file_chunks_upt: "file_chunks pt = map (chunk_of pt) [0..<chunks_needed (length pt)]"
proof -
  have "chunks_needed (length pt) \<le> length pt"
    unfolding chunks_needed_def by (rule Least_le) (rule chunk_boundary_ge)
  then show ?thesis
    by (simp add: file_chunks_def chunks_needed_iff filter_less_upt min_absorb1)
qed

lemma mac_loop_done: "mac_loop enc iv r n c m = Inr m" if "n \<le> 0"
  using that by (subst mac_loop.simps) simp

lemma mac_loop_chunk:
  assumes "chunk_boundary k < n"
  shows "mac_loop enc iv (drop (chunk_boundary k) r) (int n - int (chunk_boundary k)) (int k + 1) m =
    (if length r < min n (chunk_boundary (k + 1)) then Inl ErrIntegrityMismatch
     else mac_loop enc iv (drop (chunk_boundary (k + 1)) r) (int n - int (chunk_boundary (k + 1)))
            (int (k + 1) + 1) (cbc_step enc m (chunk_mac enc iv (sub_list (chunk_boundary k) (min n (chunk_boundary (k + 1))) r))))"
proof -
  let ?b = "chunk_boundary k" and ?c = "chunk_boundary (k + 1)"
  have bc: "?b < ?c" using chunk_boundary_less by simp
  let ?sz = "min n ?c - ?b"
  have sz: "nat (if int ?c - int ?b > int n - int ?b then int n - int ?b else int ?c - int ?b) = ?sz"
    using assms bc by auto
  have rest: "mac_loop enc iv (drop ?sz (drop ?b r)) (int n - int ?b - int ?sz) (int k + 1 + 1) x =
      mac_loop enc iv (drop ?c r) (int n - int ?c) (int (k + 1) + 1) x" for x
  proof (cases "?c \<le> n")
    case True
    with assms bc show ?thesis by (simp add: of_nat_diff add.commute)
  next
    case False
    then have "int n - int ?b - int ?sz \<le> 0" "int n - int ?c \<le> 0" using assms by auto
    then show ?thesis by (simp only: mac_loop_done)
  qed
  have szi: "(if int ?c - int ?b > int n - int ?b then int n - int ?b else int ?c - int ?b) = int ?sz"
    using assms bc by auto
  have len: "length (take ?sz (drop ?b r)) < ?sz \<longleftrightarrow> length r < min n ?c"
    using assms bc by auto
  show ?thesis
    using assms
    by (subst mac_loop.simps)
      (simp only: megaChunkSize_boundary Let_def szi nat_int len rest sub_list_def if_False; simp)
qed

lemma mac_loop_eq:
  assumes "k \<le> chunks_needed n" and "n \<le> length r"
  shows "mac_loop enc iv (drop (chunk_boundary k) r) (int n - int (chunk_boundary k)) (int k + 1) m =
     Inr (mac_of_chunks enc iv m (map (chunk_of (take n r)) [k..<chunks_needed n]))"
  using assms(1)
proof (induction "chunks_needed n - k" arbitrary: k m)
  case 0
  then have "n \<le> chunk_boundary k" using chunks_needed(1) [of n] by simp
  with 0 show ?case by (simp add: mac_loop_done mac_of_chunks_def)
next
  case (Suc d)
  then have k: "k < chunks_needed n" by simp
  have c: "sub_list (chunk_boundary k) (min n (chunk_boundary (k + 1))) r = chunk_of (take n r) k"
    by (simp add: chunk_of_def sub_list_def drop_take min_diff min.commute)
  have "[k..<chunks_needed n] = k # [k + 1..<chunks_needed n]" using k by (simp add: upt_conv_Cons)
  with Suc.hyps(1) [of "k + 1"] Suc.hyps(2) k assms(2) show ?case
    by (simp add: mac_loop_chunk [OF chunks_needed(2) [OF k]] c [simplified] mac_of_chunks_def)
qed

lemma mac_loop_short:
  assumes "k \<le> chunks_needed n" and "length r < n" and "chunk_boundary k \<le> length r"
  shows "mac_loop enc iv (drop (chunk_boundary k) r) (int n - int (chunk_boundary k)) (int k + 1) m =
     Inl ErrIntegrityMismatch"
  using assms(1,3)
proof (induction "chunks_needed n - k" arbitrary: k m)
  case 0
  then have "n \<le> chunk_boundary k" using chunks_needed(1) [of n] by simp
  with 0 assms(2) show ?case by simp
next
  case (Suc d)
  then have k: "k < chunks_needed n" by simp
  show ?case
  proof (cases "length r < min n (chunk_boundary (k + 1))")
    case True
    then show ?thesis by (simp add: mac_loop_chunk [OF chunks_needed(2) [OF k]])
  next
    case False
    then have "chunk_boundary (k + 1) \<le> length r" using assms(2) by simp
    with False Suc.hyps(1) [of "k + 1"] Suc.hyps(2) k show ?thesis
      by (simp only: mac_loop_chunk [OF chunks_needed(2) [OF k]] if_False)
  qed
qed

section \<open>Properties\<close>

text \<open>
  C24. The content stream is randomly accessible: decrypting at any offset combines each byte
  with the key stream byte of its absolute position, which is byte \<open>i mod 16\<close> of the
  encrypted counter block \<open>nonce || i div 16\<close>; so a range decrypted in two parts at their
  offsets is the range decrypted at once, and decrypting twice gives the data back.
\<close>

theorem decrypt_random_access:
  assumes "\<And>k b. length (E k b) = 16"
    and "0 \<le> offset" and "offset + int (length (a @ b)) \<le> max_int64"
  shows "\<exists>x y. DecryptAt E a key offset = Inr x \<and>
     DecryptAt E b key (offset + int (length a)) = Inr y \<and>
     DecryptAt E (a @ b) key offset = Inr (x @ y) \<and>
     DecryptAt E x key offset = Inr a \<and>
     (\<forall>j<length a. x ! j = a ! j XOR
        E (AESKey key) (take 8 (Nonce key) @ be_bytes 8 ((nat offset + j) div 16)) ! ((nat offset + j) mod 16))"
proof -
  have E: "block_cipher E" using assms(1) by (simp add: block_cipher_def)
  let ?ks = "keystream E key" and ?o = "nat offset"
  let ?x = "xor_bytes a (map ?ks [?o..<?o + length a])"
  let ?y = "xor_bytes b (map ?ks [?o + length a..<?o + length a + length b])"
  have n: "nat (offset + int (length a)) = ?o + length a" using assms(2) by simp
  have "[?o..<?o + length (a @ b)] = [?o..<?o + length a] @ [?o + length a..<?o + length a + length b]"
    by (metis add.assoc length_append le_add1 upt_add_eq_append)
  then have xy: "DecryptAt E (a @ b) key offset = Inr (?x @ ?y)"
    using DecryptAt_eq [OF E assms(2,3)] by (simp add: xor_bytes_append)
  have x: "DecryptAt E a key offset = Inr ?x" and y: "DecryptAt E b key (offset + int (length a)) = Inr ?y"
    using DecryptAt_eq [OF E, of offset a] DecryptAt_eq [OF E, of "offset + int (length a)" b] assms n
    by simp_all
  have "DecryptAt E ?x key offset = Inr a"
    using DecryptAt_eq [OF E, of offset ?x] assms by (simp add: xor_bytes_twice)
  with x y xy show ?thesis
    by (intro exI [of _ ?x] exI [of _ ?y]) (simp add: nth_xor_bytes keystream_def ctr_block_def)
qed

theorem decrypt_random_access_witness:
  "\<exists>x y. DecryptAt (\<lambda>k b. replicate 16 (hd (rev b))) [1, 2, 3]
        \<lparr>Raw = [], AESKey = [7], Nonce = [9], MetaMAC = []\<rparr> 14 = Inr x \<and>
     DecryptAt (\<lambda>k b. replicate 16 (hd (rev b))) [4]
        \<lparr>Raw = [], AESKey = [7], Nonce = [9], MetaMAC = []\<rparr> 17 = Inr y \<and>
     DecryptAt (\<lambda>k b. replicate 16 (hd (rev b))) [1, 2, 3, 4]
        \<lparr>Raw = [], AESKey = [7], Nonce = [9], MetaMAC = []\<rparr> 14 = Inr (x @ y)"
proof -
  have off: "(14 :: int) + int (length ([1, 2, 3] @ [4] :: bytes)) \<le> max_int64"
    by (simp add: max_int64_def)
  show ?thesis
    using decrypt_random_access [of "\<lambda>k b. replicate 16 (hd (rev b))", OF length_replicate _ off,
        of "\<lparr>Raw = [], AESKey = [7], Nonce = [9], MetaMAC = []\<rparr>"] by simp blast
qed

text \<open>
  C8. Verification accepts a file exactly when the reader delivers at least the recorded
  size and the condensed MAC of those bytes, computed over the chunks at the fixed
  boundaries, is the one in the key; for every block cipher.
\<close>

theorem verify_integrity_iff:
  assumes "0 < fileSize"
  shows "VerifyIntegrity E reader fileSize key = None \<longleftrightarrow>
     fileSize \<le> int (length reader) \<and> condensed_file_mac E key (take (nat fileSize) reader) = MetaMAC key"
proof -
  obtain n where n: "fileSize = int n" "0 < n" using assms by (metis nonneg_eq_int less_imp_le of_nat_0_less_iff)
  let ?enc = "E (AESKey key)" and ?iv = "Nonce key @ Nonce key"
  have b0: "chunk_boundary 0 = 0" by (simp add: chunk_boundary_def)
  show ?thesis
  proof (cases "length reader < n")
    case True
    then have "mac_loop ?enc ?iv reader fileSize 1 (replicate 16 0) = Inl ErrIntegrityMismatch"
      using mac_loop_short [of 0 n reader ?enc ?iv "replicate 16 0"] b0 n by simp
    with True n show ?thesis by (simp add: VerifyIntegrity_def)
  next
    case False
    then have len: "n \<le> length reader" by simp
    have "mac_loop ?enc ?iv reader fileSize 1 (replicate 16 0) =
        Inr (mac_of_chunks ?enc ?iv (replicate 16 0) (file_chunks (take n reader)))"
      using mac_loop_eq [of 0 n reader ?enc ?iv "replicate 16 0"] b0 n len
      by (simp add: file_chunks_upt)
    with n len show ?thesis by (simp add: VerifyIntegrity_def condensed_file_mac_def)
  qed
qed

theorem verify_integrity_iff_witness:
  "VerifyIntegrity (\<lambda>k b. b) [1, 2, 3] 3
      \<lparr>Raw = replicate 32 0, AESKey = replicate 16 0, Nonce = replicate 8 0, MetaMAC = [1, 2, 3, 0, 0, 0, 0, 0]\<rparr> = None \<longleftrightarrow>
   (3 :: int) \<le> 3 \<and> condensed_file_mac (\<lambda>k b. b)
      \<lparr>Raw = replicate 32 0, AESKey = replicate 16 0, Nonce = replicate 8 0, MetaMAC = [1, 2, 3, 0, 0, 0, 0, 0]\<rparr>
      [1, 2, 3] = [1, 2, 3, 0, 0, 0, 0, 0]"
  using verify_integrity_iff [of 3 "\<lambda>k b. b" "[1, 2, 3]"
      "\<lparr>Raw = replicate 32 0, AESKey = replicate 16 0, Nonce = replicate 8 0, MetaMAC = [1, 2, 3, 0, 0, 0, 0, 0]\<rparr>"]
  by simp

text \<open>
  Decoding a file key splits its 32 bytes into content key, nonce and MAC without losing
  anything: every other length is refused, and the raw key is recovered from the parts.
\<close>

lemma file_key_decoding:
  "(\<forall>k. decodeFileKeyBytes d = Inr k \<longrightarrow>
      length d = 32 \<and> Raw k = d \<and> length (AESKey k) = 16 \<and> length (Nonce k) = 8 \<and> length (MetaMAC k) = 8 \<and>
      xor_bytes (AESKey k) (Nonce k @ MetaMAC k) @ Nonce k @ MetaMAC k = d) \<and>
   (length d \<noteq> 32 \<longrightarrow> decodeFileKeyBytes d = Inl ErrInvalidKey) \<and>
   (length d = 32 \<longrightarrow> is_ok (decodeFileKeyBytes d))"
proof (cases "length d = 32")
  case True
  have h: "sub_list 16 24 d @ sub_list 24 32 d = drop 16 d"
    by (rule nth_equalityI) (use True in \<open>auto simp: sub_list_def nth_append\<close>)
  have "xor_bytes (xor_bytes (take 16 d) (drop 16 d)) (drop 16 d) @ drop 16 d = d"
    using True by (simp add: xor_bytes_twice)
  then show ?thesis
    using True h by (auto simp: decodeFileKeyBytes_def xor_words_eq sub_list_def)
next
  case False
  then show ?thesis by (simp add: decodeFileKeyBytes_def)
qed

end
