(* ===== verification/Paths.thy ===== *)
theory Paths
  imports GoText
begin

text \<open>
  Path strings: the parts of \<^verbatim>\<open>path/filepath\<close> the program calls (Unix), component and path
  sanitizing (\<^verbatim>\<open>internal/fsroot/paths.go\<close>, \<^verbatim>\<open>splitRelative\<close> of \<^verbatim>\<open>root.go\<close>), the job-scoped
  partial path (\<^verbatim>\<open>internal/download/writer.go\<close>), and the two path helpers of the create
  handler (\<^verbatim>\<open>internal/api/api.go\<close>).
\<close>

section \<open>Package filepath\<close>

abbreviation slash :: char where "slash \<equiv> CHR ''/''"

fun clean_comps :: "bool \<Rightarrow> string list \<Rightarrow> string list \<Rightarrow> string list" where
  "clean_comps rooted out [] = rev out"
| "clean_comps rooted out (c # cs) =
     (if c = [] \<or> c = ''.'' then clean_comps rooted out cs
      else if c = ''..'' then
        (case out of
           [] \<Rightarrow> if rooted then clean_comps rooted [] cs else clean_comps rooted [''..''] cs
         | d # ds \<Rightarrow> if d = ''..'' then clean_comps rooted (''..'' # out) cs else clean_comps rooted ds cs)
      else clean_comps rooted (c # out) cs)"

definition filepath_Clean :: "string \<Rightarrow> string" where
  "filepath_Clean p =
     (if p = [] then ''.''
      else
        (let rooted = (hd p = slash);
             body = join_with slash (clean_comps rooted [] (split_on slash p))
         in if rooted then slash # body else if body = [] then ''.'' else body))"

definition filepath_Join :: "string list \<Rightarrow> string" where
  "filepath_Join elems =
     (let ne = filter (\<lambda>e. e \<noteq> []) elems in
      if ne = [] then [] else filepath_Clean (join_with slash ne))"

text \<open>The bytes up to and including the last slash, and the rest.\<close>

definition dir_part :: "string \<Rightarrow> string" where
  "dir_part p = rev (dropWhile (\<lambda>c. c \<noteq> slash) (rev p))"

definition base_part :: "string \<Rightarrow> string" where
  "base_part p = rev (takeWhile (\<lambda>c. c \<noteq> slash) (rev p))"

definition filepath_Dir :: "string \<Rightarrow> string" where
  "filepath_Dir p = filepath_Clean (dir_part p)"

definition filepath_Base :: "string \<Rightarrow> string" where
  "filepath_Base p =
     (if p = [] then ''.''
      else (let q = rev (dropWhile (\<lambda>c. c = slash) (rev p)) in
            if q = [] then ''/'' else base_part q))"

definition filepath_Ext :: "string \<Rightarrow> string" where
  "filepath_Ext p =
     (let b = base_part p; e = rev (takeWhile (\<lambda>c. c \<noteq> CHR ''.'') (rev b)) in
      if CHR ''.'' \<in> set b then CHR ''.'' # e else [])"

section \<open>Sanitizing\<close>

datatype path_error = ErrInvalidPath | ErrSymlink | ErrConflict | ErrInvalidPolicy | ErrNotExist
  | ErrClosed | ErrNotRegular | ErrNotDir | ErrNotEmpty | ErrIsDir | ErrExist | ErrCrossDevicePath | ErrIO

definition SanitizeComponent :: "string \<Rightarrow> path_error + string" where
  "SanitizeComponent component =
     (if component = [] \<or> component = ''.'' \<or> component = ''..'' then Inl ErrInvalidPath
      else if CHR 0x00 \<in> set component \<or> slash \<in> set component \<or> CHR 0x5C \<in> set component
        then Inl ErrInvalidPath
      else Inr component)"

fun sanitize_parts :: "string list \<Rightarrow> string list \<Rightarrow> path_error + string list" where
  "sanitize_parts [] clean = Inr clean"
| "sanitize_parts (part # parts) clean =
     (case SanitizeComponent part of
        Inl e \<Rightarrow> Inl e
      | Inr component \<Rightarrow> sanitize_parts parts (clean @ [component]))"

definition SanitizeRelativePath :: "string \<Rightarrow> path_error + string" where
  "SanitizeRelativePath v =
     (if v = [] then Inr []
      else if CHR 0x00 \<in> set v \<or> has_prefix v ''/'' \<or> CHR 0x5C \<in> set v then Inl ErrInvalidPath
      else
        (case sanitize_parts (split_on slash v) [] of
           Inl e \<Rightarrow> Inl e
         | Inr clean \<Rightarrow> Inr (filepath_Join clean)))"

definition splitRelative :: "string \<Rightarrow> string \<times> string" where
  "splitRelative relative =
     (let parent = filepath_Dir relative in
      (if parent = ''.'' then [] else parent, filepath_Base relative))"

definition PartialSuffix :: string where
  "PartialSuffix = ''.mega.part''"

definition PartialRelativePath :: "string \<Rightarrow> string \<Rightarrow> path_error + string" where
  "PartialRelativePath jobID remotePath =
     (case SanitizeComponent jobID of
        Inl e \<Rightarrow> Inl e
      | Inr job \<Rightarrow>
          (case SanitizeRelativePath remotePath of
             Inl e \<Rightarrow> Inl e
           | Inr path \<Rightarrow>
               if path = [] then Inl ErrInvalidPath
               else Inr (filepath_Join [job, path @ PartialSuffix])))"

section \<open>Names chosen by the create handler\<close>

definition joinRelative :: "string \<Rightarrow> string \<Rightarrow> string" where
  "joinRelative prefix v =
     (if prefix = [] then v else if v = [] then prefix else prefix @ ''/'' @ v)"

text \<open>\<^verbatim>\<open>strings.LastIndexByte(value, '.')\<close> gives the split point when it is positive.\<close>

definition split_last_dot :: "string \<Rightarrow> string \<times> string" where
  "split_last_dot v =
     (let e = rev (takeWhile (\<lambda>c. c \<noteq> CHR ''.'') (rev v)); n = length v - length e in
      if CHR ''.'' \<in> set v \<and> 1 < n then (take (n - 1) v, drop (n - 1) v) else (v, []))"

definition numbered_name :: "string \<Rightarrow> string \<Rightarrow> nat \<Rightarrow> string" where
  "numbered_name base ext index = base @ '' ('' @ digits_of index @ '')'' @ ext"

lemma numbered_name_inj: "numbered_name b e i = numbered_name b e j \<Longrightarrow> i = j"
  by (simp add: numbered_name_def) (metis digits_of_inj)

lemma numbered_name_finite: "finite {i. numbered_name b e i \<in> set seen}"
  using finite_vimageI [of "set seen" "numbered_name b e"]
  by (simp add: vimage_def inj_def) (metis numbered_name_inj)

text \<open>The unbounded search of \<^verbatim>\<open>uniqueRelativePath\<close>; it ends because only finitely many
  candidates are taken.\<close>

function unique_loop :: "string \<Rightarrow> string \<Rightarrow> string list \<Rightarrow> nat \<Rightarrow> string" where
  "unique_loop base ext seen index =
     (if numbered_name base ext index \<notin> set seen then numbered_name base ext index
      else unique_loop base ext seen (index + 1))"
  by pat_completeness auto

termination unique_loop
proof (relation "measure (\<lambda>(b, e, seen, i). card {j. i \<le> j \<and> numbered_name b e j \<in> set seen})")
  show "wf (measure (\<lambda>(b, e, seen, i). card {j. i \<le> j \<and> numbered_name b e j \<in> set seen}))" by simp
next
  fix b e seen i
  assume "\<not> numbered_name b e i \<notin> set seen"
  then have "i \<in> {j. i \<le> j \<and> numbered_name b e j \<in> set seen}" by simp
  moreover have "{j. i + 1 \<le> j \<and> numbered_name b e j \<in> set seen} =
      {j. i \<le> j \<and> numbered_name b e j \<in> set seen} - {i}"
    by auto
  ultimately have "{j. i + 1 \<le> j \<and> numbered_name b e j \<in> set seen} \<subset> {j. i \<le> j \<and> numbered_name b e j \<in> set seen}"
    by blast
  moreover have "finite {j. i \<le> j \<and> numbered_name b e j \<in> set seen}"
    by (rule finite_subset [OF _ numbered_name_finite [of b e seen]]) auto
  ultimately show "((b, e, seen, i + 1), b, e, seen, i)
      \<in> measure (\<lambda>(b, e, seen, i). card {j. i \<le> j \<and> numbered_name b e j \<in> set seen})"
    by (simp add: psubset_card_mono)
qed

declare unique_loop.simps [simp del]

definition uniqueRelativePath :: "string \<Rightarrow> string list \<Rightarrow> string" where
  "uniqueRelativePath v seen =
     (if v \<notin> set seen then v
      else (let (base, ext) = split_last_dot v in unique_loop base ext seen 1))"

section \<open>Lemmas\<close>

definition safe_component :: "string \<Rightarrow> bool" where
  "safe_component c \<longleftrightarrow> c \<noteq> [] \<and> c \<noteq> ''.'' \<and> c \<noteq> ''..'' \<and>
     CHR 0x00 \<notin> set c \<and> slash \<notin> set c \<and> CHR 0x5C \<notin> set c"

definition safe_path :: "string \<Rightarrow> bool" where
  "safe_path p \<longleftrightarrow> (\<forall>c\<in>set (split_on slash p). safe_component c)"

lemma SanitizeComponent_iff:
  "SanitizeComponent c = (if safe_component c then Inr c else Inl ErrInvalidPath)"
  by (auto simp: SanitizeComponent_def safe_component_def)

lemma sanitize_parts_eq:
  "sanitize_parts parts clean =
     (if \<forall>p\<in>set parts. safe_component p then Inr (clean @ parts) else Inl ErrInvalidPath)"
  by (induction parts arbitrary: clean) (auto simp: SanitizeComponent_iff)

lemma clean_comps_safe:
  "\<forall>c\<in>set cs. safe_component c \<Longrightarrow> clean_comps r out cs = rev out @ cs"
  by (induction cs arbitrary: out) (simp_all add: safe_component_def)

lemma safe_path_nonempty: "safe_path p \<Longrightarrow> p \<noteq> [] \<and> hd p \<noteq> slash"
proof -
  assume "safe_path p"
  then have "[] \<notin> set (split_on slash p)" unfolding safe_path_def safe_component_def by blast
  then show ?thesis by (cases p) auto
qed

lemma filepath_Clean_safe: "safe_path p \<Longrightarrow> filepath_Clean p = p"
  using safe_path_nonempty [of p] clean_comps_safe [of "split_on slash p" False "[]"]
  by (simp add: filepath_Clean_def safe_path_def Let_def)

lemma join_safe:
  "cs \<noteq> [] \<Longrightarrow> \<forall>c\<in>set cs. safe_component c \<Longrightarrow> safe_path (join_with slash cs) \<and> split_on slash (join_with slash cs) = cs"
  using split_join [of cs slash] by (simp add: safe_path_def safe_component_def)

lemma filepath_Join_safe:
  "cs \<noteq> [] \<Longrightarrow> \<forall>c\<in>set cs. safe_component c \<Longrightarrow> filepath_Join cs = join_with slash cs"
proof -
  assume cs: "cs \<noteq> []" "\<forall>c\<in>set cs. safe_component c"
  then have "filter (\<lambda>e. e \<noteq> []) cs = cs" by (auto simp: safe_component_def)
  then show ?thesis
    using cs join_safe [OF cs] by (simp add: filepath_Join_def filepath_Clean_safe)
qed

lemma no_sep_nul_iff: "c \<noteq> slash \<Longrightarrow> c \<in> set v \<longleftrightarrow> (\<exists>p\<in>set (split_on slash v). c \<in> set p)"
  using set_join_with [of slash "split_on slash v"] join_with_mem [of _ "split_on slash v" slash] by auto

lemma SanitizeRelativePath_eq:
  "SanitizeRelativePath v = (if v = [] \<or> safe_path v then Inr v else Inl ErrInvalidPath)"
proof (cases "v = []")
  case True
  then show ?thesis by (simp add: SanitizeRelativePath_def)
next
  case False
  have pre: "has_prefix v ''/'' \<longleftrightarrow> hd v = slash" using False by (cases v) (auto simp: has_prefix_def)
  have "\<not> safe_path v" if "CHR 0x00 \<in> set v \<or> hd v = slash \<or> CHR 0x5C \<in> set v"
    using that safe_path_nonempty [of v] no_sep_nul_iff [of "CHR 0x00" v] no_sep_nul_iff [of "CHR 0x5C" v]
    by (auto simp: safe_path_def safe_component_def)
  moreover have "safe_path v \<Longrightarrow> filepath_Join (split_on slash v) = v"
    using filepath_Join_safe [of "split_on slash v"] by (simp add: safe_path_def)
  ultimately show ?thesis
    using False pre by (auto simp: SanitizeRelativePath_def sanitize_parts_eq safe_path_def)
qed

lemma safe_path_suffix: "safe_path p \<Longrightarrow> safe_path (p @ PartialSuffix)"
proof -
  assume p: "safe_path p"
  obtain cs c where cs: "split_on slash p = cs @ [c]"
    by (metis append_butlast_last_id split_on_nonempty)
  have s: "split_on slash (p @ x) = butlast (split_on slash p) @ [last (split_on slash p) @ x]"
    if "slash \<notin> set x" for x
    using that
  proof (induction p)
    case Nil
    then show ?case by (simp add: split_single)
  next
    case (Cons a p)
    obtain q qs where "split_on slash p = q # qs" by (cases "split_on slash p") auto
    with Cons show ?case by (cases qs) auto
  qed
  have suf: "slash \<notin> set PartialSuffix" "CHR 0x00 \<notin> set PartialSuffix" "CHR 0x5C \<notin> set PartialSuffix"
    "length PartialSuffix = 10"
    by (simp_all add: PartialSuffix_def)
  have "safe_component (c @ PartialSuffix)"
  proof -
    have "c @ PartialSuffix \<noteq> ''.''" "c @ PartialSuffix \<noteq> ''..''" "c @ PartialSuffix \<noteq> []"
      using suf(4) by (auto dest!: arg_cong [of _ _ length])
    then show ?thesis using p cs suf by (auto simp: safe_path_def safe_component_def)
  qed
  then show ?thesis using p cs s [OF suf(1)] by (auto simp: safe_path_def)
qed

lemma PartialRelativePath_eq:
  "PartialRelativePath j p =
     (if safe_component j \<and> safe_path p then Inr (j @ ''/'' @ p @ PartialSuffix) else Inl ErrInvalidPath)"
proof (cases "safe_component j \<and> safe_path p")
  case True
  let ?q = "p @ PartialSuffix"
  have "safe_path ?q" using True by (simp add: safe_path_suffix)
  moreover have "split_on slash (j @ slash # ?q) = j # split_on slash ?q"
    using True by (intro split_append_sep) (simp add: safe_component_def)
  ultimately have "safe_path (j @ slash # ?q)" using True by (simp add: safe_path_def)
  with True show ?thesis
    using safe_path_nonempty [of p]
    by (auto simp: PartialRelativePath_def SanitizeComponent_iff SanitizeRelativePath_eq filepath_Join_def
        filepath_Clean_safe safe_component_def)
next
  case False
  then show ?thesis
    by (auto simp: PartialRelativePath_def SanitizeComponent_iff SanitizeRelativePath_eq)
qed

lemma unique_loop_fresh: "unique_loop b e seen i \<notin> set seen"
  by (induction b e seen i rule: unique_loop.induct) (subst unique_loop.simps, simp)

section \<open>Properties\<close>

text \<open>
  C25. Sanitizing a relative path accepts exactly the empty path and the paths whose every
  component is non-empty, is not a dot or dot-dot, and has no NUL, slash or backslash; an
  accepted path is returned unchanged, so sanitizing again changes nothing.
\<close>

theorem sanitize_relative_path_sound:
  "SanitizeRelativePath v =
     (if v = [] \<or> (\<forall>c\<in>set (split_on slash v). c \<notin> {[], ''.'', ''..''} \<and>
                      set c \<inter> {CHR 0x00, slash, CHR 0x5C} = {})
      then Inr v else Inl ErrInvalidPath)"
  by (auto simp: SanitizeRelativePath_eq safe_path_def safe_component_def)

theorem sanitize_relative_path_sound_witness:
  "SanitizeRelativePath ''a/b.txt'' = Inr ''a/b.txt'' \<and> SanitizeRelativePath ''a/../b'' = Inl ErrInvalidPath"
  unfolding sanitize_relative_path_sound by simp

text \<open>
  Partial files of different jobs or of different remote paths never share a path: the
  partial path is \<open>job/path.mega.part\<close> and determines both; it is itself a sanitized path
  below the job's own directory.
\<close>

lemma partial_path_injective:
  assumes "PartialRelativePath j p = Inr x" and "PartialRelativePath j' p' = Inr x'"
  shows "(x = x' \<longleftrightarrow> j = j' \<and> p = p') \<and> SanitizeRelativePath x = Inr x \<and>
     hd (split_on slash x) = j \<and> has_suffix x PartialSuffix"
proof -
  have j: "safe_component j" "safe_path p" and x: "x = j @ slash # (p @ PartialSuffix)"
    using assms(1) by (auto simp: PartialRelativePath_eq split: if_splits)
  have j': "safe_component j'" and x': "x' = j' @ slash # (p' @ PartialSuffix)"
    using assms(2) by (auto simp: PartialRelativePath_eq split: if_splits)
  have sp: "cut_at slash x = Some (j, p @ PartialSuffix)" "cut_at slash x' = Some (j', p' @ PartialSuffix)"
    using j j' x x' by (auto simp: cut_at_append safe_component_def)
  have spl: "split_on slash x = j # split_on slash (p @ PartialSuffix)"
    using j x by (simp add: split_append_sep safe_component_def)
  then have "safe_path x" using j safe_path_suffix [OF j(2)] by (auto simp: safe_path_def)
  moreover have "has_suffix x PartialSuffix" using x by (simp add: has_suffix_def)
  moreover have "x = x' \<longleftrightarrow> j = j' \<and> p = p'"
    using sp x x' by (metis append_same_eq option.inject prod.inject)
  ultimately show ?thesis using spl by (simp add: SanitizeRelativePath_eq)
qed

text \<open>
  The create handler gives every file of a job its own destination: the chosen path is
  never one already taken, and a free path is kept as it is; the search always ends.
\<close>

lemma unique_relative_path_fresh:
  "uniqueRelativePath v seen \<notin> set seen \<and> (v \<notin> set seen \<longrightarrow> uniqueRelativePath v seen = v)"
  by (simp add: uniqueRelativePath_def unique_loop_fresh case_prod_beta Let_def)

text \<open>The last dot is looked for in the whole path, so a dotted directory is renamed.\<close>

lemma unique_path_renames_directory:
  "uniqueRelativePath ''a.b/c'' [''a.b/c''] = ''a (1).b/c''"
  by code_simp

end
