(* ===== verification/Worker.thy ===== *)
theory Worker
  imports Segments Retry Crypto Paths
begin

text \<open>
  The range worker and the partial file (\<^verbatim>\<open>internal/download/worker.go\<close>, \<^verbatim>\<open>writer.go\<close>), and the
  retry loop around one segment (\<^verbatim>\<open>downloadSegmentWithRetry\<close> of \<^verbatim>\<open>manager.go\<close>). The HTTP
  response is a value: status, headers, and a body that delivers its chunks in order and
  then its final error (\<^verbatim>\<open>io.EOF\<close> for a complete body; the read-idle wrapper ends it with its
  timeout error). The operating system's part of a positioned write, the bandwidth
  limiters, the payload URL refresh and cancellation are functions of the call number, so
  the theorems hold for every behaviour of theirs.
\<close>

section \<open>The partial file\<close>

record partial_file =
  p_open :: bool
  p_data :: bytes
  p_size :: int
  p_calls :: nat   \<comment> \<open>number of positioned writes handed to the operating system\<close>

definition overwrite :: "bytes \<Rightarrow> nat \<Rightarrow> bytes \<Rightarrow> bytes" where
  "overwrite d off bs = take off d @ bs @ drop (off + length bs) d"

text \<open>\<open>os\<close>: how many bytes the k-th \<^verbatim>\<open>os.File.WriteAt\<close> wrote and its error.\<close>

type_synonym os_write = "nat \<Rightarrow> bytes \<Rightarrow> nat \<times> go_error option"

definition partial_WriteAt ::
  "os_write \<Rightarrow> partial_file \<Rightarrow> bytes \<Rightarrow> int \<Rightarrow> nat \<times> go_error option \<times> partial_file" where
  "partial_WriteAt os p data offset =
     (if \<not> p_open p then (0, Some (errors_New ''partial file is closed''), p)
      else if offset < 0 \<or> offset > p_size p \<or> int (length data) > i64 (p_size p - offset)
        then (0, Some (errors_New ''partial write is outside file bounds''), p)
      else (let (n, e) = os (p_calls p) data in
            (n, e, p\<lparr>p_data := overwrite (p_data p) (nat offset) (take n data), p_calls := p_calls p + 1\<rparr>)))"

text \<open>\<^verbatim>\<open>OpenPartialFile\<close> once the rooted open has delivered the file's old contents:
  \<^verbatim>\<open>Truncate(size)\<close> cuts it or extends it with zero bytes.\<close>

definition truncate_to :: "bytes \<Rightarrow> nat \<Rightarrow> bytes" where
  "truncate_to old n = take n old @ replicate (n - length old) 0"

definition OpenPartialFile ::
  "(string \<Rightarrow> path_error + (bytes \<times> bool)) \<Rightarrow> bool \<Rightarrow> string \<Rightarrow> string \<Rightarrow> int \<Rightarrow> path_error + (partial_file \<times> bool)" where
  "OpenPartialFile open_or_create truncate_ok jobID remotePath fileSize =
     (if fileSize < 0 then Inl ErrIO
      else
        (case PartialRelativePath jobID remotePath of
           Inl e \<Rightarrow> Inl e
         | Inr relative \<Rightarrow>
             (case open_or_create relative of
                Inl e \<Rightarrow> Inl e
              | Inr (old, existed) \<Rightarrow>
                  if \<not> truncate_ok then Inl ErrIO
                  else Inr (\<lparr>p_open = True, p_data = truncate_to old (nat fileSize), p_size = fileSize, p_calls = 0\<rparr>,
                            existed))))"

definition partial_Sync :: "(nat \<Rightarrow> go_error option) \<Rightarrow> partial_file \<Rightarrow> go_error option" where
  "partial_Sync sync p =
     (if \<not> p_open p then Some (errors_New ''partial file is closed'') else sync (p_calls p))"

definition partial_Close :: "partial_file \<Rightarrow> partial_file" where
  "partial_Close p = p\<lparr>p_open := False\<rparr>"

text \<open>\<^verbatim>\<open>writeAllAt\<close> over any writer.\<close>

function writeAllAt ::
  "('w \<Rightarrow> bytes \<Rightarrow> int \<Rightarrow> nat \<times> go_error option \<times> 'w) \<Rightarrow> 'w \<Rightarrow> bytes \<Rightarrow> int \<Rightarrow> go_error option \<times> 'w" where
  "writeAllAt W w data offset =
     (if data = [] then (None, w)
      else
        (let (n, err, w') = W w data offset in
         case err of
           Some e \<Rightarrow> (Some (wrap_error ''write plaintext range: '' e), w')
         | None \<Rightarrow> if n = 0 then (Some io_ErrShortWrite, w')
                   else writeAllAt W w' (drop n data) (i64 (offset + int n))))"
  by pat_completeness auto
termination
  by (relation "measure (\<lambda>(_, _, d, _). length d)") auto

declare writeAllAt.simps [simp del]

section \<open>The response\<close>

record body =
  pending_chunks :: "bytes list"
  body_end :: go_error

record response =
  StatusCode :: int
  resp_Status :: string
  h_RetryAfter :: string
  h_ContentRange :: string
  ContentLength :: int
  resp_Body :: body

definition body_Read :: "nat \<Rightarrow> body \<Rightarrow> bytes \<times> go_error option \<times> body" where
  "body_Read k b =
     (case pending_chunks b of
        [] \<Rightarrow> ([], Some (body_end b), b)
      | c # cs \<Rightarrow> (take k c, None, b\<lparr>pending_chunks := (if length c \<le> k then cs else drop k c # cs)\<rparr>))"

text \<open>\<^verbatim>\<open>io.ReadAtLeast(io.LimitReader(body, left), buffer[:k], 1)\<close>: reads until something or an
  error arrives.\<close>

function read_some :: "int \<Rightarrow> nat \<Rightarrow> body \<Rightarrow> bytes \<times> go_error option \<times> body" where
  "read_some left k b =
     (if left \<le> 0 then ([], Some io_EOF, b)
      else
        (let (d, e, b') = body_Read (min k (nat left)) b in
         if d \<noteq> [] then (d, None, b')
         else case e of Some err \<Rightarrow> ([], Some err, b')
              | None \<Rightarrow> if length (pending_chunks b') < length (pending_chunks b) then read_some left k b'
                        else ([], None, b')))"
  by pat_completeness auto
termination
  by (relation "measure (\<lambda>(_, _, b). length (pending_chunks b))") auto

declare read_some.simps [simp del]

definition validateContentRange :: "string \<Rightarrow> segment \<Rightarrow> int \<Rightarrow> go_error option" where
  "validateContentRange v0 seg fileSize =
     (let v = trim_space v0;
          invalid = Some (errors_New (''payload Content-Range '' @ go_quote v @ '' is invalid''))
      in
      if \<not> has_prefix v ''bytes '' then invalid
      else
        (case cut_at slash (drop 6 v) of
           None \<Rightarrow> invalid
         | Some (rangePart, totalPart) \<Rightarrow>
             (case cut_at (CHR ''-'') rangePart of
                None \<Rightarrow> invalid
              | Some (startText, endText) \<Rightarrow>
                  if parse_int startText = Some (Start seg) \<and> parse_int endText = Some (End seg) \<and>
                     parse_int totalPart = Some fileSize
                  then None
                  else Some (errors_New (''payload Content-Range '' @ go_quote v @ '' does not match bytes '' @
                         format_int (Start seg) @ ''-'' @ format_int (End seg) @ ''/'' @ format_int fileSize)))))"

definition HTTPStatusError :: "response \<Rightarrow> go_error" where
  "HTTPStatusError r =
     \<lparr>chain = [NHTTPStatus (StatusCode r) (resp_Status r) (h_RetryAfter r)],
      err_text = ''payload HTTP status '' @ resp_Status r\<rparr>"

section \<open>The range worker\<close>

definition transferBufferSize :: int where
  "transferBufferSize = 512 * 1024"

text \<open>The two limiters of \<^verbatim>\<open>TransferOptions\<close>: the error of the k-th \<^verbatim>\<open>WaitN\<close>, if any.\<close>

record transfer_options =
  opt_Limiter :: "(nat \<Rightarrow> int \<Rightarrow> go_error option) option"
  opt_GlobalLimiter :: "(nat \<Rightarrow> int \<Rightarrow> go_error option) option"

record 'w dl_result =
  dl_written :: int
  dl_err :: "go_error option"
  dl_writer :: 'w
  dl_meter :: int   \<comment> \<open>what \<^verbatim>\<open>Meter.Add\<close> received\<close>

definition limiter_wait :: "(nat \<Rightarrow> int \<Rightarrow> go_error option) option \<Rightarrow> nat \<Rightarrow> int \<Rightarrow> go_error option" where
  "limiter_wait l k n = (case l of None \<Rightarrow> None | Some f \<Rightarrow> f k n)"

text \<open>
  The read loop; \<open>k\<close> counts its rounds. It stops after the last byte with the unread body, or
  with the error to return. \<^verbatim>\<open>ReadAtLeast\<close> delivers a byte or an error, never neither, so the
  branch without both is not taken.
\<close>

function download_loop ::
  "(bytes \<Rightarrow> bytes \<Rightarrow> bytes) \<Rightarrow> ('w \<Rightarrow> bytes \<Rightarrow> int \<Rightarrow> nat \<times> go_error option \<times> 'w) \<Rightarrow> transfer_options
     \<Rightarrow> int \<Rightarrow> int \<Rightarrow> nat \<Rightarrow> body \<Rightarrow> ctr_stream \<Rightarrow> 'w \<Rightarrow> int \<Rightarrow> int \<Rightarrow> 'w dl_result \<times> body" where
  "download_loop E W opts start want k b stream w written metered =
     (if written \<ge> want then (\<lparr>dl_written = written, dl_err = None, dl_writer = w, dl_meter = metered\<rparr>, b)
      else
        (let remaining = want - written;
             readSize = (if remaining < transferBufferSize then remaining else transferBufferSize);
             stop = (\<lambda>wr e m w'. (\<lparr>dl_written = wr, dl_err = Some e, dl_writer = w', dl_meter = m\<rparr>, b))
         in
         case limiter_wait (opt_Limiter opts) k readSize of Some e \<Rightarrow> stop written e metered w | None \<Rightarrow>
         (case limiter_wait (opt_GlobalLimiter opts) k readSize of Some e \<Rightarrow> stop written e metered w | None \<Rightarrow>
         (let (d, readErr, b') = read_some remaining (nat readSize) b in
          if d = [] then
            (case readErr of
               Some e \<Rightarrow>
                 if errors_Is e NEOF \<or> errors_Is e NUnexpectedEOF
                 then stop written (wrap_error (''payload ended after '' @ format_int written @ '' of '' @
                        format_int want @ '' bytes: '') e) metered w
                 else stop written (wrap_error ''read encrypted payload: '' e) metered w
             | None \<Rightarrow> stop written io_ErrUnexpectedEOF metered w)
          else
            (let (plain, stream') = XORKeyStream E stream d;
                 (werr, w') = writeAllAt W w plain (i64 (start + written))
             in case werr of
                  Some e \<Rightarrow> stop written e metered w'
                | None \<Rightarrow> download_loop E W opts start want (k + 1) b' stream' w'
                           (written + int (length d)) (metered + int (length d)))))))"
  by pat_completeness auto
termination
  by (relation "measure (\<lambda>(_, _, _, _, want, _, _, _, _, written, _). nat (want - written))") auto

declare download_loop.simps [simp del]

definition DownloadRangeWithOptions ::
  "(bytes \<Rightarrow> bytes \<Rightarrow> bytes) \<Rightarrow> ('w \<Rightarrow> bytes \<Rightarrow> int \<Rightarrow> nat \<times> go_error option \<times> 'w)
     \<Rightarrow> (int \<Rightarrow> int \<Rightarrow> go_error + response option) option \<Rightarrow> transfer_options \<Rightarrow> 'w \<Rightarrow> FileKey \<Rightarrow> segment \<Rightarrow> int
     \<Rightarrow> 'w dl_result" where
  "DownloadRangeWithOptions E W fetcher opts w key seg fileSize =
     (let fail = (\<lambda>e. \<lparr>dl_written = 0, dl_err = Some e, dl_writer = w, dl_meter = 0\<rparr>) in
      case fetcher of None \<Rightarrow> fail (errors_New ''payload fetcher is unavailable'') | Some fetch \<Rightarrow>
      if Start seg < 0 \<or> End seg < Start seg \<or> End seg \<ge> fileSize then
        fail (errors_New (''invalid segment range '' @ format_int (Start seg) @ ''-'' @ format_int (End seg) @
               '' for file size '' @ format_int fileSize))
      else
      (case fetch (Start seg) (End seg) of Inl e \<Rightarrow> fail e
       | Inr None \<Rightarrow> fail (errors_New ''payload fetcher returned no response body'')
       | Inr (Some r) \<Rightarrow>
      if StatusCode r \<noteq> 206 then fail (HTTPStatusError r)
      else
      (case validateContentRange (h_ContentRange r) seg fileSize of Some e \<Rightarrow> fail e | None \<Rightarrow>
      (let want = segment_Size seg in
      if ContentLength r \<ge> 0 \<and> ContentLength r \<noteq> want then
        fail (errors_New (''payload content length '' @ format_int (ContentLength r) @ '', want '' @ format_int want))
      else
      (case NewCTR E key (Start seg) of Inl _ \<Rightarrow> fail (errors_New ''invalid MEGA key'') | Inr stream \<Rightarrow>
      (let (res, b) = download_loop E W opts (Start seg) want 0 (resp_Body r) stream w 0 0 in
       case dl_err res of Some _ \<Rightarrow> res | None \<Rightarrow>
       (let (d, readErr, _) = body_Read 1 b in
        case readErr of
          None \<Rightarrow> res\<lparr>dl_err := Some (errors_New (''payload returned more than '' @ format_int want @ '' bytes''))\<rparr>
        | Some e \<Rightarrow>
            if d \<noteq> [] then
              res\<lparr>dl_err := Some (errors_New (''payload returned more than '' @ format_int want @ '' bytes''))\<rparr>
            else if chain e \<noteq> [NEOF] \<and> \<not> errors_Is e NUnexpectedEOF then
              res\<lparr>dl_err := Some (wrap_error ''validate payload length: '' e)\<rparr>
            else res)))))))"

section \<open>Lemmas\<close>

definition body_content :: "body \<Rightarrow> bytes" where
  "body_content b = concat (pending_chunks b)"

definition os_contract :: "os_write \<Rightarrow> bool" where
  "os_contract os \<longleftrightarrow> (\<forall>k d. fst (os k d) \<le> length d \<and> (snd (os k d) = None \<longrightarrow> fst (os k d) = length d))"

definition partial_ok :: "partial_file \<Rightarrow> bool" where
  "partial_ok p \<longleftrightarrow> p_open p \<and> 0 \<le> p_size p \<and> p_size p \<le> max_int64 \<and> int (length (p_data p)) = p_size p"

lemma body_Read_content:
  "body_Read k b = (d, e, b') \<Longrightarrow> body_content b = d @ body_content b' \<and> body_end b' = body_end b \<and>
     length d \<le> k \<and> (e = None \<longleftrightarrow> pending_chunks b \<noteq> [])"
  by (auto simp: body_Read_def body_content_def split: list.splits if_splits)

lemma read_some_content:
  assumes "0 < left" and "0 < k"
  shows "read_some left k b = (d, e, b') \<Longrightarrow>
    body_content b = d @ body_content b' \<and> body_end b' = body_end b \<and> length d \<le> min k (nat left) \<and>
    (d = [] \<longrightarrow> e = Some (body_end b) \<and> body_content b = [])"
proof (induction "length (pending_chunks b)" arbitrary: b rule: less_induct)
  case less
  have m: "0 < min k (nat left)" using assms by simp
  show ?case
  proof (cases "pending_chunks b")
    case Nil
    then show ?thesis
      using less.prems assms
      by (subst (asm) read_some.simps) (auto simp: body_Read_def body_content_def)
  next
    case (Cons c cs)
    show ?thesis
    proof (cases "c = []")
      case True
      then have "read_some left k b = read_some left k (b\<lparr>pending_chunks := cs\<rparr>)"
        using Cons assms by (subst read_some.simps) (simp add: body_Read_def)
      moreover have "body_content (b\<lparr>pending_chunks := cs\<rparr>) = body_content b"
        using Cons True by (simp add: body_content_def)
      ultimately show ?thesis
        using less.hyps [of "b\<lparr>pending_chunks := cs\<rparr>"] less.prems Cons by auto
    next
      case False
      obtain d1 e1 b1 where r: "body_Read (min k (nat left)) b = (d1, e1, b1)" by (metis surj_pair)
      have "d1 \<noteq> []" using r Cons False m by (auto simp: body_Read_def)
      then have "read_some left k b = (d1, None, b1)"
        using r assms by (subst read_some.simps) simp
      with less.prems body_Read_content [OF r] \<open>d1 \<noteq> []\<close> show ?thesis by auto
    qed
  qed
qed

lemma length_overwrite: "off + length bs \<le> length d \<Longrightarrow> length (overwrite d off bs) = length d"
  by (simp add: overwrite_def)

lemma nth_overwrite:
  "off + length bs \<le> length d \<Longrightarrow> i < length d \<Longrightarrow>
     overwrite d off bs ! i = (if off \<le> i \<and> i < off + length bs then bs ! (i - off) else d ! i)"
  by (auto simp: overwrite_def nth_append min_def)

lemma writeAllAt_partial:
  assumes "os_contract os" and "partial_ok p" and "0 \<le> off" and "off + int (length data) \<le> p_size p"
    and "writeAllAt (partial_WriteAt os) p data off = (err, p')"
  shows "partial_ok p' \<and> p_size p' = p_size p \<and>
    (\<forall>i<length (p_data p). \<not> (nat off \<le> i \<and> i < nat off + length data) \<longrightarrow> p_data p' ! i = p_data p ! i) \<and>
    (err = None \<longrightarrow> p_data p' = overwrite (p_data p) (nat off) data)"
proof (cases "data = []")
  case True
  with assms show ?thesis by (subst (asm) writeAllAt.simps) (simp add: overwrite_def)
next
  case False
  obtain n e where o: "os (p_calls p) data = (n, e)" by (metis surj_pair)
  have c: "n \<le> length data" "e = None \<Longrightarrow> n = length data"
    using assms(1) o unfolding os_contract_def by (metis fst_conv snd_conv)+
  let ?p = "p\<lparr>p_data := overwrite (p_data p) (nat off) (take n data), p_calls := p_calls p + 1\<rparr>"
  have i: "i64 (p_size p - off) = p_size p - off"
    using assms(2,3,4) by (intro i64_nonneg) (auto simp: partial_ok_def)
  have W: "partial_WriteAt os p data off = (n, e, ?p)"
    using assms(2,3,4) o i by (simp add: partial_WriteAt_def partial_ok_def)
  have bound: "nat off + length (take n data) \<le> length (p_data p)"
    using assms(2,3,4) c(1) by (auto simp: partial_ok_def)
  have ok: "partial_ok ?p" using assms(2) length_overwrite [OF bound] by (simp add: partial_ok_def)
  have "p' = ?p \<and> (err = None \<longrightarrow> e = None)"
  proof (cases e)
    case None
    then show ?thesis
      using assms(5) W c False
      by (subst (asm) writeAllAt.simps) (simp add: writeAllAt.simps [of _ _ "[]"])
  next
    case (Some x)
    then show ?thesis using assms(5) W False by (subst (asm) writeAllAt.simps) auto
  qed
  moreover have "p_data ?p ! i = p_data p ! i"
    if "i < length (p_data p)" "\<not> (nat off \<le> i \<and> i < nat off + length data)" for i
    using that c(1) nth_overwrite [OF bound that(1)] by auto
  ultimately show ?thesis using ok c(2) by auto
qed

text \<open>What holds of the partial file while a range is being received: the first \<open>n\<close> bytes of the
  range are decrypted, everything outside the range is as before.\<close>

definition range_state ::
  "(bytes \<Rightarrow> bytes \<Rightarrow> bytes) \<Rightarrow> FileKey \<Rightarrow> partial_file \<Rightarrow> nat \<Rightarrow> nat \<Rightarrow> bytes \<Rightarrow> nat \<Rightarrow> partial_file \<Rightarrow> bool" where
  "range_state E key p0 start want ct n p \<longleftrightarrow>
     partial_ok p \<and> p_size p = p_size p0 \<and> n \<le> want \<and> n \<le> length ct \<and>
     (\<forall>i<length (p_data p0). \<not> (start \<le> i \<and> i < start + want) \<longrightarrow> p_data p ! i = p_data p0 ! i) \<and>
     (\<forall>j<n. p_data p ! (start + j) = ct ! j XOR keystream E key (start + j))"

lemma range_state_write:
  assumes "os_contract os" and "range_state E key p0 start want ct n p"
    and "partial_ok p0" and "int (start + want) \<le> p_size p0" and "n + length d \<le> want"
    and "ct = pre @ d @ rest" and "length pre = n"
    and "writeAllAt (partial_WriteAt os) p (xor_bytes d (map (keystream E key) [start + n..<start + n + length d]))
           (int start + int n) = (err, p')"
  shows "range_state E key p0 start want ct n p' \<and>
    (err = None \<longrightarrow> range_state E key p0 start want ct (n + length d) p')"
proof -
  let ?pl = "xor_bytes d (map (keystream E key) [start + n..<start + n + length d])"
  let ?off = "int start + int n"
  have off: "nat ?off = start + n" by simp
  have st: "partial_ok p" "p_size p = p_size p0" using assms(2) by (simp_all add: range_state_def)
  have len: "length (p_data p) = length (p_data p0)" using st assms(3) by (simp add: partial_ok_def)
  have b: "?off + int (length ?pl) \<le> p_size p" using assms(4,5) st by simp
  have "0 \<le> ?off" by simp
  note w = writeAllAt_partial [OF assms(1) st(1) this b assms(8)]
  have lenp: "length (p_data p') = length (p_data p)" using w st by (simp add: partial_ok_def)
  have inb: "start + want \<le> length (p_data p0)" using assms(3,4) by (simp add: partial_ok_def)
  have outside: "p_data p' ! i = p_data p0 ! i" if "i < length (p_data p0)" "\<not> (start \<le> i \<and> i < start + want)" for i
  proof -
    have "\<not> (nat ?off \<le> i \<and> i < nat ?off + length ?pl)" using that assms(5) by auto
    then have "p_data p' ! i = p_data p ! i" using w that(1) len by auto
    then show ?thesis using assms(2) that by (simp add: range_state_def)
  qed
  have pref: "p_data p' ! (start + j) = ct ! j XOR keystream E key (start + j)" if "j < n" for j
  proof -
    have "start + j < length (p_data p)" using that assms(5) inb len by auto
    moreover have "\<not> (nat ?off \<le> start + j \<and> start + j < nat ?off + length ?pl)" using that by auto
    ultimately have "p_data p' ! (start + j) = p_data p ! (start + j)" using w by blast
    then show ?thesis using assms(2) that by (simp add: range_state_def)
  qed
  have base: "range_state E key p0 start want ct n p'"
    using w st outside pref assms(2) by (simp add: range_state_def)
  moreover have "range_state E key p0 start want ct (n + length d) p'" if "err = None"
  proof -
    have o: "p_data p' = overwrite (p_data p) (start + n) ?pl" using w that by (simp add: off)
    have bound: "start + n + length ?pl \<le> length (p_data p)" using assms(5) inb len by simp
    have new: "p_data p' ! (start + j) = ct ! j XOR keystream E key (start + j)" if "n \<le> j" "j < n + length d" for j
    proof -
      have "start + j < length (p_data p)" using that bound by simp
      then have "p_data p' ! (start + j) = ?pl ! (j - n)"
        using o nth_overwrite [OF bound, of "start + j"] that by (simp add: add.commute)
      also have "\<dots> = d ! (j - n) XOR keystream E key (start + j)"
        using that by (subst nth_xor_bytes) (auto simp: nth_map_upt)
      also have "d ! (j - n) = ct ! j"
      proof -
        have "j - n < length d" using that by linarith
        then show ?thesis using that assms(6,7) by (simp add: nth_append)
      qed
      finally show ?thesis .
    qed
    have "n + length d \<le> length ct" using assms(6,7) by simp
    then show ?thesis
      using base new pref assms(5) unfolding range_state_def by (meson not_less)
  qed
  ultimately show ?thesis by blast
qed

lemma download_loop_inv:
  assumes "os_contract os" and "partial_ok p0" and "int (start + want) \<le> p_size p0"
  shows "range_state E key p0 start want ct n p \<Longrightarrow> stream_at E key stream (start + n) \<Longrightarrow>
    ct = pre @ body_content b \<Longrightarrow> length pre = n \<Longrightarrow>
    download_loop E (partial_WriteAt os) opts (int start) (int want) k b stream p (int n) (int n) = (res, b') \<Longrightarrow>
    \<exists>m. range_state E key p0 start want ct m (dl_writer res) \<and> dl_written res = int m \<and> dl_meter res = int m \<and>
      n \<le> m \<and> (dl_err res = None \<longrightarrow> m = want \<and> (\<exists>pre'. length pre' = m \<and> ct = pre' @ body_content b'))"
proof (induction "want - n" arbitrary: n p stream pre b k rule: less_induct)
  case less
  let ?stop = "\<lambda>p' e. (\<lparr>dl_written = int n, dl_err = Some e, dl_writer = p', dl_meter = int n\<rparr>, b)"
  have stop: ?case if "(res, b') = ?stop p' e" "range_state E key p0 start want ct n p'" for p' e
    using that by auto
  show ?case
  proof (cases "want \<le> n")
    case True
    then have "n = want" using less.prems(1) by (simp add: range_state_def)
    moreover from this have "download_loop E (partial_WriteAt os) opts (int start) (int want) k b stream p (int n) (int n) =
        (\<lparr>dl_written = int n, dl_err = None, dl_writer = p, dl_meter = int n\<rparr>, b)"
      by (subst download_loop.simps) simp
    ultimately show ?thesis using less.prems by auto
  next
    case False
    let ?rem = "int want - int n"
    let ?rs = "if ?rem < transferBufferSize then ?rem else transferBufferSize"
    have rs: "0 < ?rem" "0 < nat ?rs" using False by (auto simp: transferBufferSize_def)
    obtain d e b1 where r: "read_some ?rem (nat ?rs) b = (d, e, b1)" by (metis surj_pair)
    note rc = read_some_content [OF rs r]
    obtain plain stream1 where x: "XORKeyStream E stream d = (plain, stream1)" by (metis surj_pair)
    obtain werr p1 where w: "writeAllAt (partial_WriteAt os) p plain (i64 (int start + int n)) = (werr, p1)"
      by (metis surj_pair)
    have dl: "n + length d \<le> want" using rc False by auto
    have max: "int (start + want) \<le> max_int64" using assms(2,3) by (auto simp: partial_ok_def)
    have sb: "start + n + length d \<le> 2 ^ 63"
      using dl max by (simp add: max_int64_def)
    have i: "i64 (int start + int n) = int start + int n"
      using dl max by (intro i64_nonneg) auto
    have pl: "plain = xor_bytes d (map (keystream E key) [start + n..<start + n + length d])"
      and s1: "stream_at E key stream1 (start + (n + length d))"
      using XORKeyStream_at [OF less.prems(2) sb] x by (simp_all add: add.assoc)
    have ct: "ct = pre @ d @ body_content b1" using less.prems(3) rc by simp
    note ws = range_state_write [OF assms(1) less.prems(1) assms(2,3) dl ct less.prems(4), folded pl, of werr p1]
    have ws': "range_state E key p0 start want ct n p1"
      "werr = None \<Longrightarrow> range_state E key p0 start want ct (n + length d) p1"
      using ws w i by simp_all
    have unf: "download_loop E (partial_WriteAt os) opts (int start) (int want) k b stream p (int n) (int n) =
        (case limiter_wait (opt_Limiter opts) k ?rs of Some e \<Rightarrow> ?stop p e | None \<Rightarrow>
         case limiter_wait (opt_GlobalLimiter opts) k ?rs of Some e \<Rightarrow> ?stop p e | None \<Rightarrow>
           if d = [] then (case e of
               Some e \<Rightarrow> if errors_Is e NEOF \<or> errors_Is e NUnexpectedEOF
                 then ?stop p (wrap_error (''payload ended after '' @ format_int (int n) @ '' of '' @
                        format_int (int want) @ '' bytes: '') e)
                 else ?stop p (wrap_error ''read encrypted payload: '' e)
             | None \<Rightarrow> ?stop p io_ErrUnexpectedEOF)
           else case werr of Some e \<Rightarrow> ?stop p1 e | None \<Rightarrow>
             download_loop E (partial_WriteAt os) opts (int start) (int want) (k + 1) b1 stream1 p1
               (int n + int (length d)) (int n + int (length d)))"
      using False by (subst download_loop.simps) (simp only: Let_def r x w prod.case; simp)
    show ?thesis
    proof (cases "limiter_wait (opt_Limiter opts) k ?rs = None \<and> limiter_wait (opt_GlobalLimiter opts) k ?rs = None
        \<and> d \<noteq> [] \<and> werr = None")
      case True
      then have go: "download_loop E (partial_WriteAt os) opts (int start) (int want) (k + 1) b1 stream1 p1
               (int (n + length d)) (int (n + length d)) = (res, b')"
        using unf less.prems(5) by simp
      have "0 < length d" using True by simp
      then have "want - (n + length d) < want - n" using dl False by linarith
      from less.hyps [OF this ws'(2) s1 _ _ go, of "pre @ d"] True ct less.prems(4)
      obtain m where "range_state E key p0 start want ct m (dl_writer res)" "dl_written res = int m"
        "dl_meter res = int m" "n + length d \<le> m"
        "dl_err res = None \<longrightarrow> m = want \<and> (\<exists>pre'. length pre' = m \<and> ct = pre' @ body_content b')"
        by auto
      then show ?thesis by (intro exI [of _ m]) auto
    next
      case F: False
      have "\<exists>p' e. (res, b') = ?stop p' e \<and> range_state E key p0 start want ct n p'"
        using F unf less.prems(1,5) ws'(1) by (auto split: option.splits if_splits)
      then show ?thesis using stop by blast
    qed
  qed
qed

lemma range_state_prefix:
  assumes "block_cipher E" and "range_state E key p0 start want ct n p" and "partial_ok p0"
    and "int (start + want) \<le> p_size p0"
  shows "DecryptAt E (take n ct) key (int start) = Inr (take n (drop start (p_data p)))"
proof -
  have n: "n \<le> length ct" "n \<le> want" using assms(2) by (simp_all add: range_state_def)
  have max: "int start + int n \<le> max_int64" using assms(3,4) n by (simp add: partial_ok_def)
  have len: "start + n \<le> length (p_data p)"
    using assms(2,3,4) n by (simp add: range_state_def partial_ok_def)
  have "xor_bytes (take n ct) (map (keystream E key) [start..<start + n]) = take n (drop start (p_data p))"
    by (rule nth_equalityI)
      (use n len assms(2) in \<open>auto simp: nth_xor_bytes range_state_def\<close>)
  then show ?thesis
    using DecryptAt_eq [OF assms(1), of "int start" "take n ct" key] max n by simp
qed

lemma range_state_init: "partial_ok p \<Longrightarrow> range_state E key p start want ct 0 p"
  by (simp add: range_state_def)

lemma body_Read_end: "body_Read 1 b = (d, Some e, b') \<Longrightarrow> d = [] \<and> body_content b = []"
  by (auto simp: body_Read_def body_content_def split: list.splits)

text \<open>Every outcome of the range operation, by where it leaves off.\<close>

lemma DownloadRange_cases:
  fixes opts :: transfer_options
  assumes "block_cipher E" and "os_contract os" and "partial_ok p"
    and seg: "0 \<le> Start seg" "Start seg \<le> End seg" "End seg < p_size p"
    and res: "res = DownloadRangeWithOptions E (partial_WriteAt os) (Some fetch) opts p key seg (p_size p)"
  defines "start \<equiv> nat (Start seg)" and "want \<equiv> nat (segment_Size seg)"
  shows "(dl_written res = 0 \<and> dl_err res \<noteq> None \<and> dl_writer res = p \<and> dl_meter res = 0) \<or>
    (\<exists>r m. fetch (Start seg) (End seg) = Inr (Some r) \<and> StatusCode r = 206 \<and>
       validateContentRange (h_ContentRange r) seg (p_size p) = None \<and>
       range_state E key p start want (body_content (resp_Body r)) m (dl_writer res) \<and>
       dl_written res = int m \<and> dl_meter res = int m \<and>
       (dl_err res = None \<longrightarrow> m = want \<and> length (body_content (resp_Body r)) = want))"
proof (cases "fetch (Start seg) (End seg)")
  case (Inl e)
  then show ?thesis using seg res by (simp add: DownloadRangeWithOptions_def)
next
  case (Inr ro)
  show ?thesis
  proof (cases ro)
    case None
    then show ?thesis using Inr seg res by (simp add: DownloadRangeWithOptions_def)
  next
    case (Some r)
    have want: "segment_Size seg = int want" and startI: "Start seg = int start"
      using seg assms(3) by (simp_all add: want_def start_def segment_Size_def partial_ok_def go_arith)
    have bound: "int (start + want) \<le> p_size p"
      using seg assms(3) by (simp add: want_def start_def segment_Size_def partial_ok_def go_arith)
    obtain stream where st: "NewCTR E key (Start seg) = Inr stream" "stream_at E key stream start"
      using NewCTR_at [OF assms(1), of "Start seg" key] seg assms(3) by (auto simp: partial_ok_def start_def)
    show ?thesis
    proof (cases "StatusCode r \<noteq> 206 \<or> validateContentRange (h_ContentRange r) seg (p_size p) \<noteq> None \<or>
        (ContentLength r \<ge> 0 \<and> ContentLength r \<noteq> segment_Size seg)")
      case True
      then show ?thesis
        using Inr Some seg res by (auto simp: DownloadRangeWithOptions_def Let_def split: option.splits)
    next
      case False
      obtain lr b where l: "download_loop E (partial_WriteAt os) opts (Start seg) (segment_Size seg) 0
          (resp_Body r) stream p 0 0 = (lr, b)" by (metis surj_pair)
      obtain d e b2 where br: "body_Read 1 b = (d, e, b2)" by (metis surj_pair)
      have "range_state E key p start want (body_content (resp_Body r)) 0 p"
        by (rule range_state_init [OF assms(3)])
      from download_loop_inv [OF assms(2,3) bound this, of stream "[]" "resp_Body r" opts 0 lr b] l st
      obtain m where mm: "range_state E key p start want (body_content (resp_Body r)) m (dl_writer lr)"
        "dl_written lr = int m" "dl_meter lr = int m"
        "dl_err lr = None \<longrightarrow> m = want \<and> (\<exists>pre'. length pre' = m \<and> body_content (resp_Body r) = pre' @ body_content b)"
        by (auto simp: want startI)
      have eq: "res = (case dl_err lr of Some _ \<Rightarrow> lr | None \<Rightarrow>
          (case e of None \<Rightarrow> lr\<lparr>dl_err := Some (errors_New (''payload returned more than '' @ format_int (segment_Size seg) @ '' bytes''))\<rparr>
           | Some x \<Rightarrow> if d \<noteq> [] then
               lr\<lparr>dl_err := Some (errors_New (''payload returned more than '' @ format_int (segment_Size seg) @ '' bytes''))\<rparr>
             else if chain x \<noteq> [NEOF] \<and> \<not> errors_Is x NUnexpectedEOF then
               lr\<lparr>dl_err := Some (wrap_error ''validate payload length: '' x)\<rparr> else lr))"
        using False Inr Some seg res st l br by (auto simp: DownloadRangeWithOptions_def Let_def split: option.splits)
      have same: "dl_writer res = dl_writer lr" "dl_written res = dl_written lr" "dl_meter res = dl_meter lr"
        using eq by (auto split: option.splits)
      have "length (body_content (resp_Body r)) = want" if "dl_err res = None"
      proof -
        have "dl_err lr = None" "body_content b = []"
          using that eq br body_Read_end [of b d _ b2] by (auto split: option.splits if_splits)
        with mm show ?thesis by auto
      qed
      moreover have "dl_err res = None \<Longrightarrow> m = want"
        using eq mm(4) by (auto split: option.splits)
      ultimately show ?thesis using mm same False Inr Some by auto
    qed
  qed
qed

section \<open>Properties\<close>

text \<open>
  C1. A range is written correctly or reported: whatever the server sends and however writes,
  limiters and the connection fail, the worker never touches a byte outside the segment, the
  reported count is that of bytes decrypted in place (each from the payload byte at the same
  position), and no error means that status and Content-Range matched, the payload had exactly
  the segment's length, and the segment now holds its decryption.
\<close>

theorem download_range_correct:
  fixes opts :: transfer_options
  assumes "\<And>k b. length (E k b) = 16"
    and "\<And>k d. fst (os k d) \<le> length d \<and> (snd (os k d) = None \<longrightarrow> fst (os k d) = length d)"
    and "p_open p" and "int (length (p_data p)) = p_size p" and "p_size p \<le> max_int64"
    and "0 \<le> Start seg" and "Start seg \<le> End seg" and "End seg < p_size p"
    and "res = DownloadRangeWithOptions E (partial_WriteAt os) (Some fetch) opts p key seg (p_size p)"
  shows "length (p_data (dl_writer res)) = length (p_data p) \<and>
    (\<forall>i<length (p_data p). int i < Start seg \<or> End seg < int i \<longrightarrow> p_data (dl_writer res) ! i = p_data p ! i) \<and>
    dl_meter res = dl_written res \<and> 0 \<le> dl_written res \<and> dl_written res \<le> segment_Size seg \<and>
    (\<forall>r. fetch (Start seg) (End seg) = Inr (Some r) \<longrightarrow>
       DecryptAt E (take (nat (dl_written res)) (body_content (resp_Body r))) key (Start seg) =
         Inr (take (nat (dl_written res)) (drop (nat (Start seg)) (p_data (dl_writer res))))) \<and>
    (dl_err res = None \<longrightarrow>
       (\<exists>r. fetch (Start seg) (End seg) = Inr (Some r) \<and> StatusCode r = 206 \<and>
          validateContentRange (h_ContentRange r) seg (p_size p) = None \<and>
          dl_written res = segment_Size seg \<and> int (length (body_content (resp_Body r))) = segment_Size seg \<and>
          DecryptAt E (body_content (resp_Body r)) key (Start seg) =
            Inr (take (nat (segment_Size seg)) (drop (nat (Start seg)) (p_data (dl_writer res))))))"
proof -
  have E: "block_cipher E" and os: "os_contract os" and p: "partial_ok p"
    using assms(1-5,6-8) by (auto simp: block_cipher_def os_contract_def partial_ok_def)
  let ?start = "nat (Start seg)" and ?want = "nat (segment_Size seg)"
  have sz: "segment_Size seg = End seg - Start seg + 1" "segment_Size seg = int ?want"
    using assms(5-8) by (simp_all add: segment_Size_def go_arith)
  have bound: "int (?start + ?want) \<le> p_size p" using sz assms(6-8) by simp
  consider (early) "dl_written res = 0" "dl_err res \<noteq> None" "dl_writer res = p" "dl_meter res = 0"
    | (body) r m where "fetch (Start seg) (End seg) = Inr (Some r)" "StatusCode r = 206"
       "validateContentRange (h_ContentRange r) seg (p_size p) = None"
       "range_state E key p ?start ?want (body_content (resp_Body r)) m (dl_writer res)"
       "dl_written res = int m" "dl_meter res = int m"
       "dl_err res = None \<longrightarrow> m = ?want \<and> length (body_content (resp_Body r)) = ?want"
    using DownloadRange_cases [OF E os p assms(6-9)] by (elim disjE exE conjE) simp_all
  then show ?thesis
  proof cases
    case early
    then show ?thesis
      using sz assms(6,7) DecryptAt_eq [OF E, of "Start seg" "[]" key] assms(5,8)
      by (auto simp: xor_bytes_def)
  next
    case body
    have d: "DecryptAt E (take m (body_content (resp_Body r))) key (Start seg) =
        Inr (take m (drop ?start (p_data (dl_writer res))))"
      using range_state_prefix [OF E body(4) p bound] assms(6) by simp
    have outside: "p_data (dl_writer res) ! i = p_data p ! i"
      if "i < length (p_data p)" "int i < Start seg \<or> End seg < int i" for i
    proof -
      have "\<not> (?start \<le> i \<and> i < ?start + ?want)" using that(2) sz assms(6,7) by auto
      then show ?thesis using body(4) that(1) by (simp add: range_state_def)
    qed
    have len: "length (p_data (dl_writer res)) = length (p_data p)"
      using body(4) p by (auto simp: range_state_def partial_ok_def)
    have "m \<le> ?want" using body(4) by (simp add: range_state_def)
    then have "int m \<le> segment_Size seg" using sz(2) by linarith
    then show ?thesis
      using body d outside len sz(2) by auto
  qed
qed

theorem download_range_correct_witness:
  "dl_written (DownloadRangeWithOptions (\<lambda>k b. replicate 16 1) (partial_WriteAt (\<lambda>k d. (length d, None)))
      (Some (\<lambda>s e. Inr (Some \<lparr>StatusCode = 206, resp_Status = ''206'', h_RetryAfter = ''7'',
         h_ContentRange = ''bytes 1-2/4'', ContentLength = 2,
         resp_Body = \<lparr>pending_chunks = [[5], [6]], body_end = io_EOF\<rparr>\<rparr>)))
      \<lparr>opt_Limiter = None, opt_GlobalLimiter = None\<rparr>
      \<lparr>p_open = True, p_data = [9, 9, 9, 9], p_size = 4, p_calls = 0\<rparr>
      \<lparr>Raw = [], AESKey = [], Nonce = [], MetaMAC = []\<rparr> \<lparr>Index = 0, Start = 1, End = 2\<rparr> 4) \<le> 2"
proof -
  have ok: "\<And>k d. fst ((\<lambda>k d. (length d, None :: go_error option)) (k :: nat) (d :: bytes)) \<le> length d \<and>
      (snd ((\<lambda>k d. (length d, None :: go_error option)) k d) = None \<longrightarrow>
       fst ((\<lambda>k d. (length d, None :: go_error option)) k d) = length d)"
    by simp
  show ?thesis
    using download_range_correct [of "\<lambda>k b. replicate 16 1", OF length_replicate ok _ _ _ _ _ _ refl,
        of "\<lparr>p_open = True, p_data = [9, 9, 9, 9], p_size = 4, p_calls = 0\<rparr>" "\<lparr>Index = 0, Start = 1, End = 2\<rparr>"
          "\<lambda>s e. Inr (Some \<lparr>StatusCode = 206, resp_Status = ''206'', h_RetryAfter = ''7'',
             h_ContentRange = ''bytes 1-2/4'', ContentLength = 2,
             resp_Body = \<lparr>pending_chunks = [[5], [6]], body_end = io_EOF\<rparr>\<rparr>)"
          "\<lparr>opt_Limiter = None, opt_GlobalLimiter = None\<rparr>" "\<lparr>Raw = [], AESKey = [], Nonce = [], MetaMAC = []\<rparr>",
        THEN conjunct2, THEN conjunct2, THEN conjunct2, THEN conjunct2, THEN conjunct1]
    by (simp add: max_int64_def segment_Size_def i64_def)
qed

text \<open>
  The Content-Range a server sends for exactly the requested range is accepted and one for
  any other range or total size is refused.
\<close>

lemma content_range_exact:
  assumes "0 \<le> s" and "s \<le> max_int64" and "0 \<le> e" and "e \<le> max_int64" and "0 \<le> t" and "t \<le> max_int64"
  shows "validateContentRange (''bytes '' @ format_int s @ ''-'' @ format_int e @ ''/'' @ format_int t) seg fileSize = None
    \<longleftrightarrow> Start seg = s \<and> End seg = e \<and> fileSize = t"
proof -
  let ?v = "''bytes '' @ format_int s @ ''-'' @ format_int e @ ''/'' @ format_int t"
  have dig: "c \<in> set (format_int n) \<Longrightarrow> is_digit c" if "0 \<le> n" for c n
    using that set_digits_of by (auto simp: format_int_def)
  have nd: "slash \<notin> set (format_int n)" "CHR ''-'' \<notin> set (format_int n)" if "0 \<le> n" for n
    using dig [OF that, of slash] dig [OF that, of "CHR ''-''"] by (auto simp: is_digit_def)
  have "format_int t \<noteq> []" by (simp add: format_int_def)
  then have "last ?v \<in> set (format_int t)" by (simp add: last_in_set)
  then have "graphic (last ?v)" using dig [OF assms(5)] digit_graphic by blast
  moreover have "graphic (hd ?v)" by (simp add: graphic_def)
  ultimately have trim: "trim_space ?v = ?v" by (intro trim_space_graphic) blast
  have c1: "cut_at slash (drop 6 ?v) = Some (format_int s @ CHR ''-'' # format_int e, format_int t)"
    using nd(1) [OF assms(1)] nd(1) [OF assms(3)]
      cut_at_append [of slash "format_int s @ CHR ''-'' # format_int e" "format_int t"] by simp
  have c2: "cut_at (CHR ''-'') (format_int s @ CHR ''-'' # format_int e) = Some (format_int s, format_int e)"
    by (rule cut_at_append [OF nd(2) [OF assms(1)]])
  have i: "parse_int (format_int s) = Some s" "parse_int (format_int e) = Some e" "parse_int (format_int t) = Some t"
    using assms by (simp_all add: parse_int_format_int is_i64_nonneg)
  have pre: "has_prefix ?v ''bytes ''" by (simp add: has_prefix_def)
  show ?thesis
    unfolding validateContentRange_def Let_def trim c1 using pre c2 i by auto
qed

end
