(* ===== verification/SegmentRetry.thy ===== *)
theory SegmentRetry
  imports Worker
begin

text \<open>
  The retry loop around one segment (\<^verbatim>\<open>downloadSegmentWithRetry\<close> in
  \<^verbatim>\<open>internal/download/manager.go\<close>). What a call of the range worker, of the URL refresh, of the
  account client or of the timer does is a function of the call number; the range worker also
  takes and returns the partial file, so its theorem composes with this one.
\<close>

section \<open>The loop\<close>

record 'w retry_env =
  env_attempt :: "nat \<Rightarrow> string \<Rightarrow> 'w \<Rightarrow> 'w dl_result"
  env_refresh :: "nat \<Rightarrow> go_error + string"
  env_worker :: "nat \<Rightarrow> go_error option"   \<comment> \<open>error of the k-th \<^verbatim>\<open>workerForJob\<close>\<close>
  env_cancelled :: "nat \<Rightarrow> bool"          \<comment> \<open>context done during the k-th wait\<close>
  env_now :: "nat \<Rightarrow> int"
  env_int63n :: "nat \<Rightarrow> int \<Rightarrow> int"
  env_parse_time :: "string \<Rightarrow> int option"

record 'w retry_result =
  rr_written :: int
  rr_err :: "go_error option"
  rr_writer :: 'w
  rr_attempts :: nat
  rr_refreshes :: nat
  rr_delays :: "int list"

definition is_session_rejected :: "go_error \<Rightarrow> bool" where
  "is_session_rejected e \<longleftrightarrow> NSessionRejected \<in> set (chain e) \<or> NAPIError (- 15) \<in> set (chain e)"

text \<open>The refresh block: one refresh, and when the account's session was rejected one new account
  client and a second refresh.\<close>

definition refresh_url :: "'w retry_env \<Rightarrow> bool \<Rightarrow> go_error + string" where
  "refresh_url env hasAccount =
     (case env_refresh env 0 of
        Inr url \<Rightarrow> Inr url
      | Inl e \<Rightarrow>
          if is_session_rejected e \<and> hasAccount then
            (case env_worker env 1 of
               None \<Rightarrow> env_refresh env 1
             | Some authErr \<Rightarrow> Inl authErr)
          else Inl e)"

definition retry_after_of :: "go_error \<Rightarrow> string" where
  "retry_after_of e = (case as_http_status (chain e) of Some (_, _, ra) \<Rightarrow> ra | None \<Rightarrow> [])"

function retry_loop ::
  "'w retry_env \<Rightarrow> bool \<Rightarrow> int \<Rightarrow> nat \<Rightarrow> nat \<Rightarrow> string \<Rightarrow> 'w \<Rightarrow> int list \<Rightarrow> 'w retry_result" where
  "retry_loop env hasAccount limit retry refreshes url w delays =
     (let r = env_attempt env retry url w;
          w' = dl_writer r;
          done = (\<lambda>err n. \<lparr>rr_written = dl_written r, rr_err = err, rr_writer = w', rr_attempts = retry + 1,
                           rr_refreshes = n, rr_delays = delays\<rparr>)
      in
      case dl_err r of
        None \<Rightarrow> done None refreshes
      | Some err \<Rightarrow>
          (let class = ClassifyRetry (Some err) in
           if class = RetryQuota then
             (let retryAfter =
                (case as_http_status (chain err) of
                   None \<Rightarrow> 0
                 | Some (_, _, ra) \<Rightarrow>
                     (case ParseRetryAfter (env_parse_time env) ra (env_now env retry) of None \<Rightarrow> 0 | Some d \<Rightarrow> d))
              in done (Some (QuotaError err retryAfter)) refreshes)
           else
             (let (fresh, err1, n) =
                (if class = RetryRefreshURL \<and> refreshes < 1 then
                   (case refresh_url env hasAccount of
                      Inr u \<Rightarrow> (Some u, err, 1)
                    | Inl e \<Rightarrow> (None, wrap_error ''refresh MEGA payload URL: '' e, 1))
                 else (None, err, refreshes))
              in
              case fresh of
                Some u \<Rightarrow> if refreshes < 1 then retry_loop env hasAccount limit (retry + 1) 1 u w' delays
                          else done (Some err1) n
              | None \<Rightarrow>
                  (let class1 = ClassifyRetry (Some err1) in
                   if class1 \<notin> {RetryTransport, RetryRateLimit, RetryServer} \<or> int retry \<ge> limit then done (Some err1) n
                   else
                     (let delay = ExponentialBackoff (env_parse_time env) (env_int63n env retry) (int retry + 1)
                                    (retry_after_of err1) (env_now env retry)
                      in if env_cancelled env retry then
                           (done (Some context_Canceled) n)\<lparr>rr_delays := delays @ [delay]\<rparr>
                         else retry_loop env hasAccount limit (retry + 1) n url w' (delays @ [delay]))))))"
  by pat_completeness auto

lemma retry_measure: "int retry < limit \<Longrightarrow> nat limit - Suc retry < nat limit - retry"
  by (simp add: nat_less_iff zless_nat_eq_int_zless)

termination retry_loop
  by (relation "measures [\<lambda>(_, _, limit, retry, refreshes, _, _, _). 1 - refreshes,
                          \<lambda>(_, _, limit, retry, refreshes, _, _, _). nat limit - retry]")
    (auto simp: retry_measure not_le split: if_splits sum.splits)

declare retry_loop.simps [simp del]

definition downloadSegmentWithRetry :: "'w retry_env \<Rightarrow> bool \<Rightarrow> int \<Rightarrow> string \<Rightarrow> 'w \<Rightarrow> 'w retry_result" where
  "downloadSegmentWithRetry env hasAccount normalRetryLimit payloadURL w =
     (case env_worker env 0 of
        Some e \<Rightarrow> \<lparr>rr_written = 0, rr_err = Some e, rr_writer = w, rr_attempts = 0, rr_refreshes = 0, rr_delays = []\<rparr>
      | None \<Rightarrow> retry_loop env hasAccount normalRetryLimit 0 0 payloadURL w [])"

section \<open>Lemmas\<close>

definition retry_ok :: "'w retry_env \<Rightarrow> int \<Rightarrow> 'w retry_result \<Rightarrow> bool" where
  "retry_ok env limit res \<longleftrightarrow>
     rr_attempts res \<le> nat limit + 2 \<and> rr_refreshes res \<le> 1 \<and> length (rr_delays res) \<le> nat limit \<and>
     (\<forall>d\<in>set (rr_delays res). 0 \<le> d \<and> d \<le> 24 * hour) \<and>
     (rr_err res = None \<longrightarrow> (\<exists>k u v. k < rr_attempts res \<and> dl_err (env_attempt env k u v) = None \<and>
        rr_writer res = dl_writer (env_attempt env k u v) \<and> rr_written res = dl_written (env_attempt env k u v)))"

definition int63n_contract :: "(nat \<Rightarrow> int \<Rightarrow> int) \<Rightarrow> bool" where
  "int63n_contract f \<longleftrightarrow> (\<forall>k n. 0 < n \<longrightarrow> 0 \<le> f k n \<and> f k n < n)"

lemma backoff_range:
  assumes "\<And>n. 0 < n \<Longrightarrow> 0 \<le> f n \<and> f n < (n :: int)"
  shows "0 \<le> ExponentialBackoff pt f attempt ra now \<and> ExponentialBackoff pt f attempt ra now \<le> 24 * hour"
proof (cases "if ra \<noteq> [] then ParseRetryAfter pt ra now else None")
  case None
  let ?b = "backoff_base attempt"
  have b: "second \<le> ?b" "?b \<le> 256 * second" using backoff_base_range [of attempt] by auto
  then have q: "go_div ?b 4 = ?b div 4" by (simp add: go_div_nonneg second_def)
  have "0 < ?b div 4 + 1" "?b div 4 \<le> ?b" using b by (auto simp: second_def)
  then have "0 \<le> f (?b div 4 + 1)" "f (?b div 4 + 1) \<le> ?b"
    using assms [of "?b div 4 + 1"] by linarith+
  then have "i64 (?b + f (?b div 4 + 1)) = ?b + f (?b div 4 + 1)"
    using b by (intro i64_nonneg) (auto simp: second_def max_int64_def)
  with None q \<open>0 \<le> f _\<close> b show ?thesis
    by (simp add: ExponentialBackoff_def Let_def hour_def minute_def second_def)
next
  case (Some d)
  then have "ParseRetryAfter pt ra now = Some d" by (simp split: if_splits)
  with Some show ?thesis
    using ParseRetryAfter_bounds by (simp add: ExponentialBackoff_def)
qed

text \<open>One round: it returns, or goes on with a fresh URL, or goes on after a wait.\<close>

lemma retry_loop_cases:
  assumes "int63n_contract (env_int63n env)"
  defines "r \<equiv> \<lambda>retry url w. env_attempt env retry url w"
  shows "(\<exists>err ds n. retry_loop env acc limit retry refreshes url w delays =
            \<lparr>rr_written = dl_written (r retry url w), rr_err = err, rr_writer = dl_writer (r retry url w),
             rr_attempts = retry + 1, rr_refreshes = n, rr_delays = ds\<rparr> \<and>
            (err = None \<longrightarrow> dl_err (r retry url w) = None) \<and> n \<le> max refreshes 1 \<and>
            (ds = delays \<or> int retry < limit \<and> (\<exists>d. ds = delays @ [d] \<and> 0 \<le> d \<and> d \<le> 24 * hour))) \<or>
         (\<exists>u. refreshes = 0 \<and> retry_loop env acc limit retry refreshes url w delays =
            retry_loop env acc limit (retry + 1) 1 u (dl_writer (r retry url w)) delays) \<or>
         (\<exists>d n. int retry < limit \<and> 0 \<le> d \<and> d \<le> 24 * hour \<and> (n = refreshes \<or> n = 1) \<and>
            retry_loop env acc limit retry refreshes url w delays =
            retry_loop env acc limit (retry + 1) n url (dl_writer (r retry url w)) (delays @ [d]))"
    (is "?ret \<or> ?fresh \<or> ?wait")
proof -
  have bo: "0 \<le> ExponentialBackoff pt (env_int63n env k) a ra now \<and>
      ExponentialBackoff pt (env_int63n env k) a ra now \<le> 24 * hour" for pt k a ra now
    by (rule backoff_range) (use assms(1) in \<open>simp add: int63n_contract_def\<close>)
  show ?thesis
  proof (cases "dl_err (env_attempt env retry url w)")
    case None
    then have ?ret by (subst retry_loop.simps) (simp add: r_def Let_def)
    then show ?thesis by blast
  next
    case err: (Some err)
    show ?thesis
    proof (cases "ClassifyRetry (Some err) = RetryQuota")
      case True
      then have ?ret using err by (subst retry_loop.simps) (simp add: r_def Let_def)
      then show ?thesis by blast
    next
      case nq: False
      show ?thesis
      proof (cases "ClassifyRetry (Some err) = RetryRefreshURL \<and> refreshes < 1 \<and> (\<exists>u. refresh_url env acc = Inr u)")
        case True
        then obtain u where "refresh_url env acc = Inr u" by blast
        then have ?fresh using True nq err by (subst retry_loop.simps) (auto simp: r_def Let_def)
        then show ?thesis by blast
      next
        case nf: False
        define en where "en = (if ClassifyRetry (Some err) = RetryRefreshURL \<and> refreshes < 1
          then (wrap_error ''refresh MEGA payload URL: '' (case refresh_url env acc of Inl e \<Rightarrow> e | Inr _ \<Rightarrow> err), 1)
          else (err, refreshes))"
        have sel: "(if ClassifyRetry (Some err) = RetryRefreshURL \<and> refreshes < 1 then
                   (case refresh_url env acc of
                      Inr u \<Rightarrow> (Some u, err, 1)
                    | Inl e \<Rightarrow> (None, wrap_error ''refresh MEGA payload URL: '' e, 1))
                 else (None, err, refreshes)) = (None, fst en, snd en)"
          using nf by (auto simp: en_def split: sum.splits)
        have n: "snd en = refreshes \<or> snd en = 1" "snd en \<le> max refreshes 1" by (auto simp: en_def)
        show ?thesis
        proof (cases "ClassifyRetry (Some (fst en)) \<notin> {RetryTransport, RetryRateLimit, RetryServer} \<or> int retry \<ge> limit")
          case True
          then have ?ret using err nq n
            by (subst retry_loop.simps) (simp only: Let_def err option.case sel prod.case if_False; simp add: r_def)
          then show ?thesis by blast
        next
          case False
          then have lt: "int retry < limit" by simp
          show ?thesis
          proof (cases "env_cancelled env retry")
            case True
            then have ?ret using False err nq n lt bo
              by (subst retry_loop.simps) (simp only: Let_def err option.case sel prod.case if_False; simp add: r_def)
            then show ?thesis by blast
          next
            case go: False
            then have ?wait using False err nq n lt bo
              by (subst retry_loop.simps)
                (simp only: Let_def err option.case sel prod.case if_False if_True; simp add: r_def; blast)
            then show ?thesis by blast
          qed
        qed
      qed
    qed
  qed
qed

lemma retry_loop_ok:
  assumes "int63n_contract (env_int63n env)"
  shows "refreshes \<le> 1 \<Longrightarrow> retry \<le> nat limit + refreshes \<Longrightarrow> length delays \<le> retry \<Longrightarrow> length delays \<le> nat limit \<Longrightarrow>
    \<forall>d\<in>set delays. 0 \<le> d \<and> d \<le> 24 * hour \<Longrightarrow>
    retry_ok env limit (retry_loop env acc limit retry refreshes url w delays)"
proof (induction "(1 - refreshes) + (nat limit + 1 - retry)" arbitrary: retry refreshes url w delays rule: less_induct)
  case less
  let ?r = "env_attempt env retry url w"
  consider (ret) err ds n where "retry_loop env acc limit retry refreshes url w delays =
            \<lparr>rr_written = dl_written ?r, rr_err = err, rr_writer = dl_writer ?r,
             rr_attempts = retry + 1, rr_refreshes = n, rr_delays = ds\<rparr>"
            "err = None \<longrightarrow> dl_err ?r = None" "n \<le> max refreshes 1"
            "ds = delays \<or> int retry < limit \<and> (\<exists>d. ds = delays @ [d] \<and> 0 \<le> d \<and> d \<le> 24 * hour)"
    | (fresh) u where "refreshes = 0" "retry_loop env acc limit retry refreshes url w delays =
            retry_loop env acc limit (retry + 1) 1 u (dl_writer ?r) delays"
    | (wait) d n where "int retry < limit" "0 \<le> d" "d \<le> 24 * hour" "n = refreshes \<or> n = 1"
            "retry_loop env acc limit retry refreshes url w delays =
             retry_loop env acc limit (retry + 1) n url (dl_writer ?r) (delays @ [d])"
    using retry_loop_cases [OF assms, of acc limit retry refreshes url w delays]
    apply (rule disjE)
    subgoal by (elim exE conjE) (rule that(1); assumption)
    apply (erule disjE)
    subgoal by (elim exE conjE) (rule that(2); assumption)
    subgoal by (elim exE conjE) (rule that(3); assumption)
    done
  then show ?case
  proof cases
    case ret
    have "length ds \<le> nat limit" "\<forall>d\<in>set ds. 0 \<le> d \<and> d \<le> 24 * hour"
      using ret(4) less.prems by auto
    then show ?thesis
      using ret(1,2,3) less.prems by (auto simp: retry_ok_def)
  next
    case fresh
    then show ?thesis
      using less.hyps [of 1 "retry + 1" delays u "dl_writer ?r"] less.prems by simp
  next
    case wait
    have "Suc retry \<le> nat limit" using wait(1) by simp
    then show ?thesis
      using wait less.hyps [of n "retry + 1" "delays @ [d]" url "dl_writer ?r"] less.prems by auto
  qed
qed

section \<open>Properties\<close>



end
