(* ===== verification/Store.thy ===== *)
theory Store
  imports Lifecycle Segments "HOL-Library.Multiset" "HOL-Library.Char_ord" "HOL-Library.List_Lexorder"
begin

text \<open>
  The download tables and the operations on them (\<^verbatim>\<open>internal/store/downloads.go\<close>, with
  \<^verbatim>\<open>WithTx\<close> and the pragmas of \<^verbatim>\<open>db.go\<close> and the constraints of \<^verbatim>\<open>migrations.go\<close>). The database is
  a record of row lists in insertion order; each operation is its SQL statements on them. A
  failing statement is given by \<open>flt\<close>, the set of statement numbers (within the operation)
  at which the driver reports an error, so the theorems hold for every failure; a
  transaction that fails leaves the database as it was. Times are nanoseconds, with Go's
  zero time as a distinguished value.
\<close>

section \<open>Keyed tables\<close>

text \<open>\<^verbatim>\<open>UPDATE ... WHERE key = k\<close> and \<^verbatim>\<open>SELECT ... WHERE key = k\<close> on a list of rows.\<close>

definition update_rows :: "('r \<Rightarrow> 'k) \<Rightarrow> 'k \<Rightarrow> ('r \<Rightarrow> 'r) \<Rightarrow> 'r list \<Rightarrow> 'r list" where
  "update_rows key k f rows = map (\<lambda>r. if key r = k then f r else r) rows"

definition find_row :: "('r \<Rightarrow> 'k) \<Rightarrow> 'k \<Rightarrow> 'r list \<Rightarrow> 'r option" where
  "find_row key k rows = find (\<lambda>r. key r = k) rows"

definition affected :: "('r \<Rightarrow> 'k) \<Rightarrow> 'k \<Rightarrow> 'r list \<Rightarrow> nat" where
  "affected key k rows = length (filter (\<lambda>r. key r = k) rows)"

lemma update_rows_keys: "(\<And>r. key (f r) = key r) \<Longrightarrow> map key (update_rows key k f rows) = map key rows"
  by (simp add: update_rows_def)

lemma find_row_update_same:
  "(\<And>r. key (f r) = key r) \<Longrightarrow> find_row key k (update_rows key k f rows) = map_option f (find_row key k rows)"
  by (induction rows) (auto simp: find_row_def update_rows_def)

lemma find_row_update_other:
  "(\<And>r. key (f r) = key r) \<Longrightarrow> k \<noteq> k' \<Longrightarrow> find_row key k' (update_rows key k f rows) = find_row key k' rows"
  by (induction rows) (auto simp: find_row_def update_rows_def)

lemma find_row_SomeD: "find_row key k rows = Some r \<Longrightarrow> key r = k \<and> r \<in> set rows"
  by (induction rows) (auto simp: find_row_def split: if_splits)

lemma find_row_None: "find_row key k rows = None \<longleftrightarrow> k \<notin> key ` set rows"
  by (induction rows) (auto simp: find_row_def)

lemma update_rows_absent: "k \<notin> key ` set rows \<Longrightarrow> update_rows key k f rows = rows"
  by (induction rows) (auto simp: update_rows_def)

lemma affected_distinct: "distinct (map key rows) \<Longrightarrow> affected key k rows = (if k \<in> key ` set rows then 1 else 0)"
proof (induction rows)
  case Nil
  then show ?case by (simp add: affected_def)
next
  case (Cons r rows)
  then show ?case by (auto simp: affected_def)
qed

lemma set_update_rows: "set (update_rows key k f rows) = (\<lambda>r. if key r = k then f r else r) ` set rows"
  by (simp add: update_rows_def)

text \<open>A register of states: what a component that stores lifecycle states promises.\<close>

locale state_register =
  fixes get :: "'d \<Rightarrow> 'k \<Rightarrow> 's option"
    and put :: "'k \<Rightarrow> 's \<Rightarrow> 'd \<Rightarrow> 'd"
  assumes get_put_same: "get d k \<noteq> None \<Longrightarrow> get (put k s d) k = Some s"
    and get_put_other: "k \<noteq> k' \<Longrightarrow> get (put k s d) k' = get d k'"
    and put_absent: "get d k = None \<Longrightarrow> get (put k s d) k = None"
begin

definition puts :: "('k \<times> 's) list \<Rightarrow> 'd \<Rightarrow> 'd" where
  "puts ps d = foldl (\<lambda>d (k, s). put k s d) d ps"

lemma dom_put: "get (put k s d) k' = None \<longleftrightarrow> get d k' = None"
  by (cases "k = k'"; cases "get d k'") (simp_all add: get_put_same get_put_other put_absent)

lemma puts_untouched: "k \<notin> fst ` set ps \<Longrightarrow> get (puts ps d) k = get d k"
  by (induction ps arbitrary: d) (auto simp: puts_def get_put_other)

lemma puts_last_wins:
  assumes "get d k \<noteq> None" and "k \<notin> fst ` set qs"
  shows "get (puts (ps @ (k, s) # qs) d) k = Some s"
proof -
  have dom: "get (puts ps d) k = None \<longleftrightarrow> get d k = None" for ps d
    by (induction ps arbitrary: d) (auto simp: puts_def dom_put)
  have "puts (ps @ (k, s) # qs) d = puts qs (put k s (puts ps d))"
    by (simp add: puts_def)
  then show ?thesis
    using assms dom puts_untouched [OF assms(2)] get_put_same by metis
qed

lemma put_keeps_transitions:
  assumes "get d k = Some s" and "R s s'" and "\<And>k t. get d k = Some t \<Longrightarrow> P k t" and "\<And>t t'. P k t \<Longrightarrow> R t t' \<Longrightarrow> P k t'"
    and "get (put k s' d) j = Some t"
  shows "P j t"
  using assms by (cases "j = k") (auto simp: get_put_same get_put_other)

end

section \<open>Rows\<close>

record job_row =
  job_ID :: string
  SourceKind :: string
  SourceHandle :: string
  SourceKeyCiphertext :: bytes
  SourceSelectedPath :: string
  SourceSelectedNode :: string
  DisplayName :: string
  TotalBytes :: int
  AccountID :: string
  ProxyID :: string
  DestinationSubdir :: string
  CompleteRoot :: string
  IncompleteRoot :: string
  job_State :: JobState
  job_CreatedAt :: int
  job_UpdatedAt :: int
  QuotaNextRetryAt :: "int option"
  QuotaRetryIndex :: int
  job_LastErrorCode :: string
  job_LastErrorMessage :: string

record file_row =
  file_ID :: string
  file_JobID :: string
  RemoteNodeID :: string
  RemotePath :: string
  FinalRelativePath :: string
  SizeBytes :: int
  SegmentSizeBytes :: int
  SegmentCount :: int
  CompletedBitmap :: bytes
  BytesCommitted :: int
  FileKeyCiphertext :: bytes
  PayloadURLCiphertext :: bytes
  PayloadContext :: string
  file_State :: FileState
  file_LastErrorCode :: string
  file_LastErrorMessage :: string
  file_CreatedAt :: int
  file_UpdatedAt :: int
  CompletedAt :: "int option"

record event_row =
  event_ID :: nat
  event_JobID :: string
  event_FileID :: string
  event_Kind :: string
  event_Message :: string
  event_CreatedAt :: int

record database =
  jobs :: "job_row list"
  files :: "file_row list"
  events :: "event_row list"
  event_sequence :: nat
  accounts :: "string list"
  proxies :: "string list"
  foreign_keys :: bool
  checkpointTransactions :: nat

datatype store_error = ErrNotFoundRow | ErrSQL | ErrInput

type_synonym faults = "nat \<Rightarrow> bool"

definition zero_time :: int where
  "zero_time = - 62135596800000000000"

definition norm_time :: "int \<Rightarrow> int \<Rightarrow> int" where
  "norm_time now when = (if when = zero_time then now else when)"

record job_record =
  rec_row :: job_row
  rec_Files :: "file_row list"
  rec_BytesCommitted :: int
  rec_Events :: "event_row list"

section \<open>Operations\<close>

text \<open>\<^verbatim>\<open>WithTx\<close>: the whole function succeeds and commits, or nothing changes.\<close>

definition WithTx :: "(database \<Rightarrow> store_error + database) \<Rightarrow> bool \<Rightarrow> database \<Rightarrow> store_error option \<times> database" where
  "WithTx f commit_ok d =
     (case f d of Inl e \<Rightarrow> (Some e, d) | Inr d' \<Rightarrow> if commit_ok then (None, d') else (Some ErrSQL, d))"

record file_input =
  in_file_ID :: string
  in_RemoteNodeID :: string
  in_RemotePath :: string
  in_FinalRelativePath :: string
  in_SizeBytes :: int
  in_SegmentSizeBytes :: int
  in_SegmentCount :: int
  in_FileKeyCiphertext :: bytes
  in_PayloadURLCiphertext :: bytes
  in_PayloadContext :: string
  in_file_State :: "FileState option"

record job_input =
  in_ID :: string
  in_SourceKind :: string
  in_SourceHandle :: string
  in_SourceKeyCiphertext :: bytes
  in_SourceSelectedPath :: string
  in_SourceSelectedNode :: string
  in_DisplayName :: string
  in_TotalBytes :: int
  in_AccountID :: string
  in_ProxyID :: string
  in_DestinationSubdir :: string
  in_CompleteRoot :: string
  in_IncompleteRoot :: string
  in_State :: "JobState option"
  in_CreatedAt :: int
  in_UpdatedAt :: int
  in_Files :: "file_input list"

definition insert_file_row :: "string \<Rightarrow> string \<Rightarrow> file_input \<Rightarrow> int \<Rightarrow> int \<Rightarrow> file_row" where
  "insert_file_row fid jobID f when updated =
     \<lparr>file_ID = fid, file_JobID = jobID, RemoteNodeID = in_RemoteNodeID f,
      RemotePath = in_RemotePath f, FinalRelativePath = in_FinalRelativePath f,
      SizeBytes = in_SizeBytes f, SegmentSizeBytes = in_SegmentSizeBytes f,
      SegmentCount = in_SegmentCount f, CompletedBitmap = [], BytesCommitted = 0,
      FileKeyCiphertext = in_FileKeyCiphertext f, PayloadURLCiphertext = in_PayloadURLCiphertext f,
      PayloadContext = in_PayloadContext f,
      file_State = (case in_file_State f of None \<Rightarrow> FilePending | Some s \<Rightarrow> s),
      file_LastErrorCode = [], file_LastErrorMessage = [], file_CreatedAt = when, file_UpdatedAt = updated,
      CompletedAt = None\<rparr>"

text \<open>The loop over the files of \<^verbatim>\<open>InsertDownloadJob\<close>; \<open>ids\<close> are the identifiers \<^verbatim>\<open>newID\<close> draws. The
  primary key and the CHECK constraints of the table make a statement fail.\<close>

fun insert_files :: "(nat \<Rightarrow> string option) \<Rightarrow> faults \<Rightarrow> string \<Rightarrow> int \<Rightarrow> int \<Rightarrow> nat \<Rightarrow> file_input list \<Rightarrow> database
     \<Rightarrow> store_error + database" where
  "insert_files ids flt jobID when updated k [] d = Inr d"
| "insert_files ids flt jobID when updated k (f # fs) d =
     (case (if in_file_ID f = [] then ids k else Some (in_file_ID f)) of
        None \<Rightarrow> Inl ErrInput
      | Some fid \<Rightarrow>
          if in_FileKeyCiphertext f = [] then Inl ErrInput
          else if flt k \<or> fid \<in> file_ID ` set (files d) \<or> in_SizeBytes f < 0 \<or> in_SegmentCount f < 0
            then Inl ErrSQL
          else insert_files ids flt jobID when updated (k + 1) fs
                 (d\<lparr>files := files d @ [insert_file_row fid jobID f when updated]\<rparr>))"

definition insert_job_row :: "string \<Rightarrow> job_input \<Rightarrow> int \<Rightarrow> int \<Rightarrow> job_row" where
  "insert_job_row jid i when updated =
     \<lparr>job_ID = jid, SourceKind = in_SourceKind i, SourceHandle = in_SourceHandle i,
      SourceKeyCiphertext = in_SourceKeyCiphertext i, SourceSelectedPath = in_SourceSelectedPath i,
      SourceSelectedNode = in_SourceSelectedNode i, DisplayName = in_DisplayName i, TotalBytes = in_TotalBytes i,
      AccountID = in_AccountID i, ProxyID = in_ProxyID i, DestinationSubdir = in_DestinationSubdir i,
      CompleteRoot = in_CompleteRoot i, IncompleteRoot = in_IncompleteRoot i,
      job_State = (case in_State i of None \<Rightarrow> JobReady | Some s \<Rightarrow> s), job_CreatedAt = when, job_UpdatedAt = updated,
      QuotaNextRetryAt = None, QuotaRetryIndex = 0, job_LastErrorCode = [], job_LastErrorMessage = []\<rparr>"

text \<open>\<^verbatim>\<open>GetDownloadJob\<close>: the files ordered by identifier and the committed bytes added up.\<close>

definition GetDownloadJob :: "database \<Rightarrow> string \<Rightarrow> store_error + job_record" where
  "GetDownloadJob d jid =
     (case find_row job_ID jid (jobs d) of
        None \<Rightarrow> Inl ErrNotFoundRow
      | Some r \<Rightarrow>
          (let fs = sort_key file_ID (filter (\<lambda>f. file_JobID f = jid) (files d)) in
           Inr \<lparr>rec_row = r, rec_Files = fs, rec_BytesCommitted = foldl (\<lambda>a f. i64 (a + BytesCommitted f)) 0 fs,
                rec_Events = []\<rparr>))"

definition InsertDownloadJob ::
  "(nat \<Rightarrow> string option) \<Rightarrow> faults \<Rightarrow> bool \<Rightarrow> int \<Rightarrow> job_input \<Rightarrow> database \<Rightarrow> (store_error + job_record) \<times> database" where
  "InsertDownloadJob ids flt commit_ok now i d =
     (case (if in_ID i = [] then ids 0 else Some (in_ID i)) of
        None \<Rightarrow> (Inl ErrInput, d)
      | Some jid \<Rightarrow>
          if in_Files i = [] then (Inl ErrInput, d)
          else if in_SourceKind i = [] \<or> in_SourceHandle i = [] \<or> in_SourceKeyCiphertext i = [] then (Inl ErrInput, d)
          else
            (let when = norm_time now (in_CreatedAt i);
                 updated = norm_time when (in_UpdatedAt i);
                 body = (\<lambda>d. if flt 0 \<or> jid \<in> job_ID ` set (jobs d) \<or> in_TotalBytes i < 0 \<or>
                                foreign_keys d \<and> (in_AccountID i \<noteq> [] \<and> in_AccountID i \<notin> set (accounts d) \<or>
                                                   in_ProxyID i \<noteq> [] \<and> in_ProxyID i \<notin> set (proxies d))
                             then Inl ErrSQL
                             else insert_files ids flt jid when updated 1 (in_Files i)
                                    (d\<lparr>jobs := jobs d @ [insert_job_row jid i when updated]\<rparr>))
             in case WithTx body commit_ok d of
                  (Some e, d') \<Rightarrow> (Inl e, d')
                | (None, d') \<Rightarrow> (GetDownloadJob d' jid, d')))"

definition ListDownloadEvents :: "database \<Rightarrow> string \<Rightarrow> int \<Rightarrow> event_row list" where
  "ListDownloadEvents d jid limit0 =
     (let limit = (if limit0 \<le> 0 \<or> limit0 > 500 then 200 else limit0);
          newest_first = rev (sort_key event_ID (filter (\<lambda>e. event_JobID e = jid) (events d)))
      in rev (take (nat limit) newest_first))"

definition GetDownloadJobDetail :: "database \<Rightarrow> string \<Rightarrow> store_error + job_record" where
  "GetDownloadJobDetail d jid =
     (case GetDownloadJob d jid of
        Inl e \<Rightarrow> Inl e
      | Inr r \<Rightarrow> Inr (r\<lparr>rec_Events := ListDownloadEvents d jid 200\<rparr>))"

text \<open>\<^verbatim>\<open>DELETE FROM download_jobs\<close>; the cascades run while foreign keys are enforced.\<close>

definition DeleteDownloadJob :: "faults \<Rightarrow> string \<Rightarrow> database \<Rightarrow> store_error option \<times> database" where
  "DeleteDownloadJob flt jid d =
     (if flt 0 then (Some ErrSQL, d)
      else
        (let d1 = d\<lparr>jobs := filter (\<lambda>r. job_ID r \<noteq> jid) (jobs d)\<rparr>;
             gone = file_ID ` set (filter (\<lambda>f. file_JobID f = jid) (files d));
             d' = (if foreign_keys d
                   then d1\<lparr>files := filter (\<lambda>f. file_JobID f \<noteq> jid) (files d),
                           events := filter (\<lambda>e. event_JobID e \<noteq> jid \<and> (event_FileID e = [] \<or> event_FileID e \<notin> gone)) (events d)\<rparr>
                   else d1)
         in if affected job_ID jid (jobs d) \<noteq> 1 then (Some ErrNotFoundRow, d') else (None, d')))"

fun get_jobs :: "database \<Rightarrow> string list \<Rightarrow> store_error + job_record list" where
  "get_jobs d [] = Inr []"
| "get_jobs d (jid # jids) =
     (case GetDownloadJob d jid of
        Inl e \<Rightarrow> Inl e
      | Inr r \<Rightarrow> (case get_jobs d jids of Inl e \<Rightarrow> Inl e | Inr rs \<Rightarrow> Inr (r # rs)))"

text \<open>\<^verbatim>\<open>ORDER BY created_at, id\<close> compares the stored text of the time, which \<open>fmt\<close> produces.\<close>

definition ListDownloadJobs :: "(int \<Rightarrow> string) \<Rightarrow> database \<Rightarrow> store_error + job_record list" where
  "ListDownloadJobs fmt d =
     get_jobs d (map job_ID (sort_key (\<lambda>r. fmt (job_CreatedAt r)) (sort_key job_ID (jobs d))))"

record file_checkpoint =
  cp_FileID :: string
  cp_CompletedBitmap :: bytes
  cp_BytesCommitted :: int
  cp_State :: "FileState option"
  cp_LastErrorCode :: string
  cp_LastErrorMessage :: string
  cp_UpdatedAt :: int

definition touch_job :: "string \<Rightarrow> int \<Rightarrow> database \<Rightarrow> database" where
  "touch_job jid when d = d\<lparr>jobs := update_rows job_ID jid (\<lambda>r. r\<lparr>job_UpdatedAt := when\<rparr>) (jobs d)\<rparr>"

fun checkpoint_updates :: "faults \<Rightarrow> int \<Rightarrow> nat \<Rightarrow> file_checkpoint list \<Rightarrow> database \<Rightarrow> store_error + database" where
  "checkpoint_updates flt now k [] d = Inr d"
| "checkpoint_updates flt now k (u # us) d =
     (if cp_FileID u = [] then Inl ErrInput
      else
        (let when = norm_time now (cp_UpdatedAt u);
             st = (case cp_State u of None \<Rightarrow> FileDownloading | Some s \<Rightarrow> s)
         in if flt (2 * k) \<or> cp_BytesCommitted u < 0 \<and> affected file_ID (cp_FileID u) (files d) \<noteq> 0 then Inl ErrSQL
            else if affected file_ID (cp_FileID u) (files d) \<noteq> 1 then Inl ErrNotFoundRow
            else if flt (2 * k + 1) then Inl ErrSQL
            else
              (let d1 = d\<lparr>files := update_rows file_ID (cp_FileID u)
                     (\<lambda>f. f\<lparr>CompletedBitmap := cp_CompletedBitmap u, BytesCommitted := cp_BytesCommitted u, file_State := st,
                            file_LastErrorCode := cp_LastErrorCode u, file_LastErrorMessage := cp_LastErrorMessage u,
                            file_UpdatedAt := when\<rparr>) (files d)\<rparr>;
                   d2 = (case find_row file_ID (cp_FileID u) (files d1) of
                           None \<Rightarrow> d1 | Some f \<Rightarrow> touch_job (file_JobID f) when d1)
               in checkpoint_updates flt now (k + 1) us d2)))"

definition CheckpointDownloadFiles ::
  "faults \<Rightarrow> bool \<Rightarrow> int \<Rightarrow> file_checkpoint list \<Rightarrow> database \<Rightarrow> store_error option \<times> database" where
  "CheckpointDownloadFiles flt commit_ok now us d =
     (if us = [] then (None, d)
      else
        (case WithTx (checkpoint_updates flt now 0 us) commit_ok d of
           (None, d') \<Rightarrow> (None, d'\<lparr>checkpointTransactions := checkpointTransactions d' + 1\<rparr>)
         | (Some e, d') \<Rightarrow> (Some e, d')))"

text \<open>One \<^verbatim>\<open>UPDATE download_files ... WHERE id = ?\<close> with the check of the affected rows; the same for
  jobs.\<close>

definition update_file :: "faults \<Rightarrow> string \<Rightarrow> (file_row \<Rightarrow> file_row) \<Rightarrow> database \<Rightarrow> store_error option \<times> database" where
  "update_file flt fid f d =
     (if flt 0 then (Some ErrSQL, d)
      else (let d' = d\<lparr>files := update_rows file_ID fid f (files d)\<rparr> in
            if affected file_ID fid (files d) \<noteq> 1 then (Some ErrNotFoundRow, d') else (None, d')))"

definition update_job :: "faults \<Rightarrow> string \<Rightarrow> (job_row \<Rightarrow> job_row) \<Rightarrow> database \<Rightarrow> store_error option \<times> database" where
  "update_job flt jid f d =
     (if flt 0 then (Some ErrSQL, d)
      else (let d' = d\<lparr>jobs := update_rows job_ID jid f (jobs d)\<rparr> in
            if affected job_ID jid (jobs d) \<noteq> 1 then (Some ErrNotFoundRow, d') else (None, d')))"

definition UpdateDownloadFileState ::
  "faults \<Rightarrow> int \<Rightarrow> string \<Rightarrow> FileState \<Rightarrow> string \<Rightarrow> string \<Rightarrow> int \<Rightarrow> database \<Rightarrow> store_error option \<times> database" where
  "UpdateDownloadFileState flt now fid st code message when d =
     update_file flt fid (\<lambda>f. f\<lparr>file_State := st, file_LastErrorCode := code, file_LastErrorMessage := message,
                                file_UpdatedAt := norm_time now when\<rparr>) d"

definition PrepareDownloadFileMove ::
  "faults \<Rightarrow> int \<Rightarrow> string \<Rightarrow> string \<Rightarrow> int \<Rightarrow> database \<Rightarrow> store_error option \<times> database" where
  "PrepareDownloadFileMove flt now fid finalRelativePath when d =
     update_file flt fid (\<lambda>f. f\<lparr>FinalRelativePath := finalRelativePath, file_State := FileMoving,
                                file_UpdatedAt := norm_time now when\<rparr>) d"

definition CompleteDownloadFile ::
  "faults \<Rightarrow> int \<Rightarrow> string \<Rightarrow> string \<Rightarrow> int \<Rightarrow> database \<Rightarrow> store_error option \<times> database" where
  "CompleteDownloadFile flt now fid finalRelativePath when d =
     update_file flt fid (\<lambda>f. f\<lparr>FinalRelativePath := finalRelativePath, file_State := FileCompleted,
                                CompletedAt := Some (norm_time now when), BytesCommitted := SizeBytes f,
                                file_LastErrorCode := [], file_LastErrorMessage := [],
                                file_UpdatedAt := norm_time now when\<rparr>) d"

definition UpdateDownloadPayloadURL :: "faults \<Rightarrow> int \<Rightarrow> string \<Rightarrow> bytes \<Rightarrow> int \<Rightarrow> database \<Rightarrow> store_error option \<times> database" where
  "UpdateDownloadPayloadURL flt now fid ciphertext when d =
     update_file flt fid (\<lambda>f. f\<lparr>PayloadURLCiphertext := ciphertext, file_UpdatedAt := norm_time now when\<rparr>) d"

definition SetDownloadJobState ::
  "faults \<Rightarrow> int \<Rightarrow> string \<Rightarrow> JobState \<Rightarrow> int \<Rightarrow> database \<Rightarrow> store_error option \<times> database" where
  "SetDownloadJobState flt now jid st when d =
     update_job flt jid (\<lambda>r. r\<lparr>job_State := st, job_UpdatedAt := norm_time now when\<rparr>) d"

definition SetDownloadQuotaState ::
  "faults \<Rightarrow> int \<Rightarrow> string \<Rightarrow> JobState \<Rightarrow> string \<Rightarrow> string \<Rightarrow> int option \<Rightarrow> int \<Rightarrow> int \<Rightarrow> database
     \<Rightarrow> store_error option \<times> database" where
  "SetDownloadQuotaState flt now jid st code message next_retry retryIndex when d =
     update_job flt jid (\<lambda>r. r\<lparr>job_State := st, QuotaNextRetryAt := next_retry, QuotaRetryIndex := retryIndex,
                                job_LastErrorCode := code, job_LastErrorMessage := message,
                                job_UpdatedAt := norm_time now when\<rparr>) d"

definition ClearDownloadQuotaState ::
  "faults \<Rightarrow> int \<Rightarrow> string \<Rightarrow> JobState \<Rightarrow> int \<Rightarrow> database \<Rightarrow> store_error option \<times> database" where
  "ClearDownloadQuotaState flt now jid st when d = SetDownloadQuotaState flt now jid st [] [] None 0 when d"

definition recovery_jobs :: "int \<Rightarrow> job_row list \<Rightarrow> job_row list" where
  "recovery_jobs when rows =
     map (\<lambda>r. if job_State r \<in> {JobResolving, JobDownloading, JobFinalizing}
              then r\<lparr>job_State := JobPausedRecovery, job_UpdatedAt := when\<rparr> else r) rows"

definition recovery_files :: "int \<Rightarrow> job_row list \<Rightarrow> file_row list \<Rightarrow> file_row list" where
  "recovery_files when js fs =
     map (\<lambda>f. if file_State f \<in> {FileDownloading, FileVerifying} \<and>
                 file_JobID f \<in> job_ID ` set (filter (\<lambda>r. job_State r = JobPausedRecovery) js)
              then f\<lparr>file_State := FilePaused, file_UpdatedAt := when\<rparr> else f) fs"

definition MarkDownloadsForRecovery :: "faults \<Rightarrow> bool \<Rightarrow> int \<Rightarrow> int \<Rightarrow> database \<Rightarrow> store_error option \<times> database" where
  "MarkDownloadsForRecovery flt commit_ok now when0 d =
     (let when = norm_time now when0 in
      WithTx (\<lambda>d. if flt 0 then Inl ErrSQL
                  else let js = recovery_jobs when (jobs d) in
                    if flt 1 then Inl ErrSQL
                    else Inr (d\<lparr>jobs := js, files := recovery_files when js (files d)\<rparr>)) commit_ok d)"

text \<open>The two statements of \<^verbatim>\<open>AddDownloadEvent\<close> are not in one transaction.\<close>

definition trim_events :: "string \<Rightarrow> event_row list \<Rightarrow> event_row list" where
  "trim_events jid es =
     (let keep = map event_ID (take 500 (rev (sort_key event_ID (filter (\<lambda>e. event_JobID e = jid) es)))) in
      filter (\<lambda>e. event_JobID e \<noteq> jid \<or> event_ID e \<in> set keep) es)"

definition AddDownloadEvent ::
  "faults \<Rightarrow> int \<Rightarrow> string \<Rightarrow> string \<Rightarrow> string \<Rightarrow> string \<Rightarrow> int \<Rightarrow> database \<Rightarrow> store_error option \<times> database" where
  "AddDownloadEvent flt now jid fid kind message when d =
     (if jid = [] \<or> kind = [] then (Some ErrInput, d)
      else if flt 0 \<or> foreign_keys d \<and> (jid \<notin> job_ID ` set (jobs d) \<or> fid \<noteq> [] \<and> fid \<notin> file_ID ` set (files d))
        then (Some ErrSQL, d)
      else
        (let n = event_sequence d + 1;
             d1 = d\<lparr>events := events d @ [\<lparr>event_ID = n, event_JobID = jid, event_FileID = fid, event_Kind = kind,
                      event_Message = message, event_CreatedAt = norm_time now when\<rparr>], event_sequence := n\<rparr>
         in if flt 1 then (Some ErrSQL, d1) else (None, d1\<lparr>events := trim_events jid (events d1)\<rparr>)))"

text \<open>A new connection of the pool: the pragmas of \<^verbatim>\<open>Open\<close> were issued on the old one only.\<close>

definition reconnect :: "database \<Rightarrow> database" where
  "reconnect d = d\<lparr>foreign_keys := False\<rparr>"

section \<open>The store as a state machine\<close>

text \<open>Every operation that writes, with any input and any failures.\<close>

inductive store_step :: "database \<Rightarrow> database \<Rightarrow> bool" where
  insert: "(r, d') = InsertDownloadJob ids flt ok now i d \<Longrightarrow> store_step d d'"
| delete: "(e, d') = DeleteDownloadJob flt jid d \<Longrightarrow> store_step d d'"
| checkpoint: "(e, d') = CheckpointDownloadFiles flt ok now us d \<Longrightarrow> store_step d d'"
| file_state: "(e, d') = UpdateDownloadFileState flt now fid st code msg when d \<Longrightarrow> store_step d d'"
| prepare: "(e, d') = PrepareDownloadFileMove flt now fid path when d \<Longrightarrow> store_step d d'"
| complete: "(e, d') = CompleteDownloadFile flt now fid path when d \<Longrightarrow> store_step d d'"
| payload: "(e, d') = UpdateDownloadPayloadURL flt now fid ct when d \<Longrightarrow> store_step d d'"
| job_state: "(e, d') = SetDownloadJobState flt now jid jst when d \<Longrightarrow> store_step d d'"
| quota: "(e, d') = SetDownloadQuotaState flt now jid jst code msg nxt idx when d \<Longrightarrow> store_step d d'"
| recover: "(e, d') = MarkDownloadsForRecovery flt ok now when d \<Longrightarrow> store_step d d'"
| event: "(e, d') = AddDownloadEvent flt now jid fid kind msg when d \<Longrightarrow> store_step d d'"

inductive_cases store_stepE: "store_step d d'"

text \<open>Referential integrity and the CHECK constraints.\<close>

definition file_row_ok :: "string set \<Rightarrow> file_row \<Rightarrow> bool" where
  "file_row_ok js f \<longleftrightarrow> file_JobID f \<in> js \<and> 0 \<le> SizeBytes f \<and> 0 \<le> SegmentCount f \<and> 0 \<le> BytesCommitted f"

definition event_row_ok :: "string set \<Rightarrow> string set \<Rightarrow> nat \<Rightarrow> event_row \<Rightarrow> bool" where
  "event_row_ok js fs n e \<longleftrightarrow> event_JobID e \<in> js \<and> (event_FileID e = [] \<or> event_FileID e \<in> fs) \<and> event_ID e \<le> n"

definition db_ok :: "database \<Rightarrow> bool" where
  "db_ok d \<longleftrightarrow> foreign_keys d \<and> distinct (map job_ID (jobs d)) \<and> distinct (map file_ID (files d)) \<and>
     (\<forall>f\<in>set (files d). file_row_ok (job_ID ` set (jobs d)) f) \<and>
     distinct (map event_ID (events d)) \<and>
     (\<forall>e\<in>set (events d). event_row_ok (job_ID ` set (jobs d)) (file_ID ` set (files d)) (event_sequence d) e)"

lemma keys_update_rows: "(\<And>r. key (f r) = key r) \<Longrightarrow> key ` set (update_rows key k f rows) = key ` set rows"
  by (metis list.set_map update_rows_keys)

lemma db_ok_files:
  assumes "db_ok d" and "map file_ID fs = map file_ID (files d)"
    and "\<And>f. f \<in> set fs \<Longrightarrow> file_row_ok (job_ID ` set (jobs d)) f"
  shows "db_ok (d\<lparr>files := fs\<rparr>)"
  using assms by (simp add: db_ok_def) (metis list.set_map)

lemma db_ok_jobs:
  assumes "db_ok d" and "map job_ID js = map job_ID (jobs d)"
  shows "db_ok (d\<lparr>jobs := js\<rparr>)"
  using assms by (simp add: db_ok_def) (metis list.set_map)

lemma update_file_ok:
  assumes "db_ok d" and "update_file flt fid f d = (e, d')"
    and "\<And>r. file_ID (f r) = file_ID r"
    and "\<And>r js. file_row_ok js r \<Longrightarrow> file_row_ok js (f r)"
  shows "db_ok d'"
proof -
  have "db_ok (d\<lparr>files := update_rows file_ID fid f (files d)\<rparr>)"
  proof (rule db_ok_files [OF assms(1)])
    show "map file_ID (update_rows file_ID fid f (files d)) = map file_ID (files d)"
      by (rule update_rows_keys [of file_ID f, OF assms(3)])
    show "file_row_ok (job_ID ` set (jobs d)) r" if "r \<in> set (update_rows file_ID fid f (files d))" for r
      using that assms(1,4) by (auto simp: set_update_rows db_ok_def split: if_splits)
  qed
  then show ?thesis using assms(1,2) by (auto simp: update_file_def Let_def split: if_splits)
qed

lemma update_job_ok:
  assumes "db_ok d" and "update_job flt jid f d = (e, d')" and "\<And>r. job_ID (f r) = job_ID r"
  shows "db_ok d'"
  using db_ok_jobs [OF assms(1) update_rows_keys [of job_ID f, OF assms(3)]] assms(1,2)
  by (auto simp: update_job_def Let_def split: if_splits)

lemma checkpoint_updates_ok:
  "db_ok d \<Longrightarrow> checkpoint_updates flt now k us d = Inr d' \<Longrightarrow> db_ok d'"
proof (induction us arbitrary: k d)
  case Nil
  then show ?case by simp
next
  case (Cons u us)
  let ?st = "case cp_State u of None \<Rightarrow> FileDownloading | Some s \<Rightarrow> s"
  let ?f = "\<lambda>f. f\<lparr>CompletedBitmap := cp_CompletedBitmap u, BytesCommitted := cp_BytesCommitted u, file_State := ?st,
      file_LastErrorCode := cp_LastErrorCode u, file_LastErrorMessage := cp_LastErrorMessage u,
      file_UpdatedAt := norm_time now (cp_UpdatedAt u)\<rparr>"
  let ?d1 = "d\<lparr>files := update_rows file_ID (cp_FileID u) ?f (files d)\<rparr>"
  have ok: "0 \<le> cp_BytesCommitted u" using Cons.prems(2) by (auto simp: Let_def split: if_splits)
  have "db_ok ?d1"
  proof (rule db_ok_files [OF Cons.prems(1)])
    show "map file_ID (update_rows file_ID (cp_FileID u) ?f (files d)) = map file_ID (files d)"
      by (rule update_rows_keys) simp
    show "file_row_ok (job_ID ` set (jobs d)) r" if "r \<in> set (update_rows file_ID (cp_FileID u) ?f (files d))" for r
      using that Cons.prems(1) ok by (auto simp: set_update_rows db_ok_def file_row_ok_def split: if_splits)
  qed
  then have "db_ok (case find_row file_ID (cp_FileID u) (files ?d1) of
      None \<Rightarrow> ?d1 | Some f \<Rightarrow> touch_job (file_JobID f) (norm_time now (cp_UpdatedAt u)) ?d1)"
    unfolding touch_job_def by (auto intro!: db_ok_jobs update_rows_keys split: option.split)
  with Cons.IH Cons.prems(2) show ?case by (auto simp: Let_def split: if_splits)
qed

lemma insert_files_ok:
  "db_ok d \<Longrightarrow> jid \<in> job_ID ` set (jobs d) \<Longrightarrow> insert_files ids flt jid when upd k fs d = Inr d' \<Longrightarrow>
     db_ok d' \<and> jobs d' = jobs d"
proof (induction fs arbitrary: k d)
  case Nil
  then show ?case by simp
next
  case (Cons f fs)
  obtain fid where fid: "(if in_file_ID f = [] then ids k else Some (in_file_ID f)) = Some fid"
    using Cons.prems(3) by (auto split: option.splits)
  let ?d = "d\<lparr>files := files d @ [insert_file_row fid jid f when upd]\<rparr>"
  have guards: "fid \<notin> file_ID ` set (files d)" "0 \<le> in_SizeBytes f" "0 \<le> in_SegmentCount f"
    and rest: "insert_files ids flt jid when upd (k + 1) fs ?d = Inr d'"
    using Cons.prems(3) fid by (auto split: if_splits)
  have "db_ok ?d"
    using Cons.prems(1,2) guards
    by (auto simp: db_ok_def file_row_ok_def event_row_ok_def insert_file_row_def)
  from Cons.IH [OF this _ rest] Cons.prems(2) show ?case by simp
qed

lemma insert_job_ok: "db_ok d \<Longrightarrow> InsertDownloadJob ids flt ok now i d = (r, d') \<Longrightarrow> db_ok d'"
proof -
  assume d: "db_ok d" and r: "InsertDownloadJob ids flt ok now i d = (r, d')"
  have "db_ok x" if "jid \<notin> job_ID ` set (jobs d)"
    "insert_files ids flt jid w u 1 fs (d\<lparr>jobs := jobs d @ [insert_job_row jid i w u]\<rparr>) = Inr x" for jid w u fs x
  proof -
    have "db_ok (d\<lparr>jobs := jobs d @ [insert_job_row jid i w u]\<rparr>)"
      using d that(1) by (auto simp: db_ok_def file_row_ok_def event_row_ok_def insert_job_row_def)
    from insert_files_ok [OF this _ that(2)] show ?thesis by (simp add: insert_job_row_def)
  qed
  with d r show ?thesis
    by (auto simp: InsertDownloadJob_def WithTx_def Let_def split: option.splits if_splits sum.splits)
qed

lemma map_key_id: "(\<And>r. r \<in> set rows \<Longrightarrow> key (f r) = key r) \<Longrightarrow> map key (map f rows) = map key rows"
  by simp

lemma recovery_ok: "db_ok d \<Longrightarrow> MarkDownloadsForRecovery flt ok now w d = (e, d') \<Longrightarrow> db_ok d'"
proof -
  assume d: "db_ok d" and r: "MarkDownloadsForRecovery flt ok now w d = (e, d')"
  have "db_ok (d\<lparr>jobs := recovery_jobs t (jobs d)\<rparr>)" for t
    unfolding recovery_jobs_def by (rule db_ok_jobs [OF d], rule map_key_id) simp
  then have "db_ok (d\<lparr>jobs := recovery_jobs t (jobs d), files := recovery_files t js (files d)\<rparr>)" for t js
  proof -
    let ?d1 = "d\<lparr>jobs := recovery_jobs t (jobs d)\<rparr>"
    assume ok: "\<And>t. db_ok (d\<lparr>jobs := recovery_jobs t (jobs d)\<rparr>)"
    have "db_ok (?d1\<lparr>files := recovery_files t js (files d)\<rparr>)"
    proof (rule db_ok_files [OF ok])
      show "map file_ID (recovery_files t js (files d)) = map file_ID (files ?d1)"
        unfolding recovery_files_def by simp
      fix f
      assume "f \<in> set (recovery_files t js (files d))"
      then obtain g where "g \<in> set (files d)" "f = g \<or> f = g\<lparr>file_State := FilePaused, file_UpdatedAt := t\<rparr>"
        by (auto simp: recovery_files_def)
      moreover from this have "file_row_ok (job_ID ` set (jobs ?d1)) g" using ok [of t] unfolding db_ok_def by simp
      ultimately show "file_row_ok (job_ID ` set (jobs ?d1)) f" by (auto simp: file_row_ok_def)
    qed
    then show ?thesis by simp
  qed
  with d r show ?thesis
    by (auto simp: MarkDownloadsForRecovery_def WithTx_def Let_def split: if_splits)
qed

lemma delete_ok: "db_ok d \<Longrightarrow> DeleteDownloadJob flt jid d = (e, d') \<Longrightarrow> db_ok d'"
proof -
  assume d: "db_ok d" and r: "DeleteDownloadJob flt jid d = (e, d')"
  let ?gone = "file_ID ` set (filter (\<lambda>f. file_JobID f = jid) (files d))"
  let ?d = "d\<lparr>jobs := filter (\<lambda>r. job_ID r \<noteq> jid) (jobs d), files := filter (\<lambda>f. file_JobID f \<noteq> jid) (files d),
     events := filter (\<lambda>e. event_JobID e \<noteq> jid \<and> (event_FileID e = [] \<or> event_FileID e \<notin> ?gone)) (events d)\<rparr>"
  have fk: "foreign_keys d" using d by (simp add: db_ok_def)
  have "db_ok ?d"
    unfolding db_ok_def
  proof (intro conjI ballI)
    show "foreign_keys ?d" using fk by simp
    show "distinct (map job_ID (jobs ?d))" "distinct (map file_ID (files ?d))" "distinct (map event_ID (events ?d))"
      using d by (simp_all add: db_ok_def distinct_map_filter)
    show "file_row_ok (job_ID ` set (jobs ?d)) f" if "f \<in> set (files ?d)" for f
      using that d by (auto simp: db_ok_def file_row_ok_def)
    show "event_row_ok (job_ID ` set (jobs ?d)) (file_ID ` set (files ?d)) (event_sequence ?d) x"
      if "x \<in> set (events ?d)" for x
    proof -
      have x: "x \<in> set (events d)" "event_JobID x \<noteq> jid" "event_FileID x = [] \<or> event_FileID x \<notin> ?gone"
        using that by auto
      then have "event_row_ok (job_ID ` set (jobs d)) (file_ID ` set (files d)) (event_sequence d) x"
        using d by (simp add: db_ok_def)
      with x show ?thesis by (auto simp: event_row_ok_def)
    qed
  qed
  with fk d r show ?thesis by (auto simp: DeleteDownloadJob_def Let_def split: if_splits)
qed

lemma event_ok: "db_ok d \<Longrightarrow> AddDownloadEvent flt now jid fid kind msg w d = (e, d') \<Longrightarrow> db_ok d'"
proof -
  assume d: "db_ok d" and r: "AddDownloadEvent flt now jid fid kind msg w d = (e, d')"
  let ?n = "event_sequence d + 1"
  let ?x = "\<lparr>event_ID = ?n, event_JobID = jid, event_FileID = fid, event_Kind = kind,
                      event_Message = msg, event_CreatedAt = norm_time now w\<rparr>"
  let ?d = "d\<lparr>events := events d @ [?x], event_sequence := ?n\<rparr>"
  have fresh: "?n \<notin> event_ID ` set (events d)" using d by (auto simp: db_ok_def event_row_ok_def)
  have add: "db_ok ?d" if "jid \<in> job_ID ` set (jobs d)" "fid = [] \<or> fid \<in> file_ID ` set (files d)"
    using that d fresh by (auto simp: db_ok_def event_row_ok_def)
  have "db_ok (?d\<lparr>events := trim_events jid (events ?d)\<rparr>)" if "db_ok ?d"
    using that by (auto simp: db_ok_def trim_events_def Let_def distinct_map_filter)
  moreover have "d' = d \<or> jid \<in> job_ID ` set (jobs d) \<and> (fid = [] \<or> fid \<in> file_ID ` set (files d)) \<and>
      (d' = ?d \<or> d' = ?d\<lparr>events := trim_events jid (events ?d)\<rparr>)"
    using r d unfolding AddDownloadEvent_def Let_def db_ok_def by (simp split: if_splits)
  ultimately show ?thesis using add d by metis
qed

lemma checkpoint_ok: "db_ok d \<Longrightarrow> CheckpointDownloadFiles flt ok now us d = (e, d') \<Longrightarrow> db_ok d'"
proof -
  assume d: "db_ok d" and r: "CheckpointDownloadFiles flt ok now us d = (e, d')"
  have "db_ok (x\<lparr>checkpointTransactions := n\<rparr>)" if "checkpoint_updates flt now 0 us d = Inr x" for x n
    using checkpoint_updates_ok [OF d that] by (simp add: db_ok_def)
  with d r show ?thesis
    by (auto simp: CheckpointDownloadFiles_def WithTx_def split: if_splits sum.splits)
qed

lemmas update_ops = UpdateDownloadFileState_def PrepareDownloadFileMove_def CompleteDownloadFile_def
  UpdateDownloadPayloadURL_def SetDownloadJobState_def SetDownloadQuotaState_def

lemma store_step_ok: "store_step d d' \<Longrightarrow> db_ok d \<Longrightarrow> db_ok d'"
proof (induction rule: store_step.induct)
  case (insert r d' ids flt ok now i d)
  then show ?case using insert_job_ok by metis
next
  case (delete e d' flt jid d)
  then show ?case using delete_ok by metis
next
  case (checkpoint e d' flt ok now us d)
  then show ?case using checkpoint_ok by metis
next
  case (file_state e d' flt now fid st code msg w d)
  then show ?case
    by (intro update_file_ok [OF file_state(2) file_state(1) [unfolded update_ops, symmetric]])
      (auto simp: file_row_ok_def)
next
  case (prepare e d' flt now fid path w d)
  then show ?case
    by (intro update_file_ok [OF prepare(2) prepare(1) [unfolded update_ops, symmetric]])
      (auto simp: file_row_ok_def)
next
  case (complete e d' flt now fid path w d)
  then show ?case
    by (intro update_file_ok [OF complete(2) complete(1) [unfolded update_ops, symmetric]])
      (auto simp: file_row_ok_def)
next
  case (payload e d' flt now fid ct w d)
  then show ?case
    by (intro update_file_ok [OF payload(2) payload(1) [unfolded update_ops, symmetric]])
      (auto simp: file_row_ok_def)
next
  case (job_state e d' flt now jid jst w d)
  then show ?case
    by (intro update_job_ok [OF job_state(2) job_state(1) [unfolded update_ops, symmetric]]) simp
next
  case (quota e d' flt now jid jst code msg nxt idx w d)
  then show ?case
    by (intro update_job_ok [OF quota(2) quota(1) [unfolded update_ops, symmetric]]) simp
next
  case (recover e d' flt ok now w d)
  then show ?case using recovery_ok by metis
next
  case (event e d' flt now jid fid kind msg w d)
  then show ?case using event_ok by metis
qed

definition stored_job_state :: "database \<Rightarrow> string \<Rightarrow> JobState option" where
  "stored_job_state d jid = map_option job_State (find_row job_ID jid (jobs d))"

definition stored_file_state :: "database \<Rightarrow> string \<Rightarrow> FileState option" where
  "stored_file_state d fid = map_option file_State (find_row file_ID fid (files d))"

lemma jobs_SetDownloadJobState:
  "jobs (snd (SetDownloadJobState flt now jid s w d)) =
     (if flt 0 then jobs d else update_rows job_ID jid (\<lambda>r. r\<lparr>job_State := s, job_UpdatedAt := norm_time now w\<rparr>) (jobs d))"
  by (simp add: SetDownloadJobState_def update_job_def Let_def)

lemma files_UpdateDownloadFileState:
  "files (snd (UpdateDownloadFileState flt now fid s c m w d)) =
     (if flt 0 then files d else update_rows file_ID fid
        (\<lambda>f. f\<lparr>file_State := s, file_LastErrorCode := c, file_LastErrorMessage := m, file_UpdatedAt := norm_time now w\<rparr>) (files d))"
  by (simp add: UpdateDownloadFileState_def update_file_def Let_def)

interpretation job_register: state_register
  stored_job_state "\<lambda>jid s d. snd (SetDownloadJobState (\<lambda>_. False) now jid s w d)" for now w
  by unfold_locales
    (auto simp: stored_job_state_def jobs_SetDownloadJobState find_row_update_same find_row_update_other option.map_comp comp_def)

interpretation file_register: state_register
  stored_file_state "\<lambda>fid s d. snd (UpdateDownloadFileState (\<lambda>_. False) now fid s c m w d)" for now c m w
  by unfold_locales
    (auto simp: stored_file_state_def files_UpdateDownloadFileState find_row_update_same find_row_update_other option.map_comp comp_def)

lemma store_steps_ok: "store_step\<^sup>*\<^sup>* d d' \<Longrightarrow> db_ok d \<Longrightarrow> db_ok d'"
  by (induction rule: rtranclp_induct) (auto intro: store_step_ok)

lemma checkpoint_updates_rows:
  assumes "distinct (map file_ID (files d))" and "distinct (map cp_FileID us)"
    and "checkpoint_updates flt now k us d = Inr d'"
  shows "(\<forall>u\<in>set us. \<exists>f. find_row file_ID (cp_FileID u) (files d') = Some f \<and>
            CompletedBitmap f = cp_CompletedBitmap u \<and> BytesCommitted f = cp_BytesCommitted u) \<and>
         (\<forall>x. x \<notin> cp_FileID ` set us \<longrightarrow> find_row file_ID x (files d') = find_row file_ID x (files d))"
  using assms
proof (induction us arbitrary: k d)
  case Nil
  then show ?case by simp
next
  case (Cons u us)
  let ?st = "case cp_State u of None \<Rightarrow> FileDownloading | Some s \<Rightarrow> s"
  let ?f = "\<lambda>f. f\<lparr>CompletedBitmap := cp_CompletedBitmap u, BytesCommitted := cp_BytesCommitted u, file_State := ?st,
      file_LastErrorCode := cp_LastErrorCode u, file_LastErrorMessage := cp_LastErrorMessage u,
      file_UpdatedAt := norm_time now (cp_UpdatedAt u)\<rparr>"
  let ?d1 = "d\<lparr>files := update_rows file_ID (cp_FileID u) ?f (files d)\<rparr>"
  define d2 where "d2 = (case find_row file_ID (cp_FileID u) (files ?d1) of
      None \<Rightarrow> ?d1 | Some f \<Rightarrow> touch_job (file_JobID f) (norm_time now (cp_UpdatedAt u)) ?d1)"
  have fd2: "files d2 = update_rows file_ID (cp_FileID u) ?f (files d)"
    by (simp add: d2_def touch_job_def split: option.split)
  have rest: "checkpoint_updates flt now (k + 1) us d2 = Inr d'"
    and aff: "affected file_ID (cp_FileID u) (files d) = 1"
    using Cons.prems(3) by (auto simp: Let_def d2_def split: if_splits)
  have dist: "distinct (map file_ID (files d2))"
    using Cons.prems(1) by (simp add: fd2 update_rows_keys)
  have "cp_FileID u \<in> file_ID ` set (files d)"
    using aff Cons.prems(1) by (simp add: affected_distinct split: if_splits)
  then obtain g where g: "find_row file_ID (cp_FileID u) (files d) = Some g"
    using find_row_None [of file_ID "cp_FileID u" "files d"] by auto
  have u: "find_row file_ID (cp_FileID u) (files d2) = Some (?f g)"
    using find_row_update_same [of file_ID ?f "cp_FileID u" "files d"] g by (simp add: fd2)
  have o: "x \<noteq> cp_FileID u \<Longrightarrow> find_row file_ID x (files d2) = find_row file_ID x (files d)" for x
    using find_row_update_other [of file_ID ?f "cp_FileID u" x "files d"] by (simp add: fd2)
  note IH = Cons.IH [OF dist _ rest]
  from Cons.prems(2) have "cp_FileID u \<notin> cp_FileID ` set us" "distinct (map cp_FileID us)" by auto
  with IH u o show ?case by auto
qed

lemma filter_newest:
  assumes "distinct (map key xs)"
  shows "filter (\<lambda>e. key e \<in> key ` set (drop m xs)) xs = drop m xs"
proof -
  have split: "xs = take m xs @ drop m xs" by simp
  have "distinct (map key (take m xs) @ map key (drop m xs))"
    using assms by (metis append_take_drop_id map_append)
  then have "key ` set (take m xs) \<inter> key ` set (drop m xs) = {}" by simp
  then have "filter (\<lambda>e. key e \<in> key ` set (drop m xs)) (take m xs) = []" by (auto simp: filter_empty_conv)
  moreover have "filter (\<lambda>e. key e \<in> key ` set (drop m xs)) (drop m xs) = drop m xs" by (simp add: filter_id_conv)
  ultimately show ?thesis by (metis append_Nil append_take_drop_id filter_append)
qed

lemma sorted_take_drop_less:
  assumes "sorted (map key xs)" and "distinct (map key xs)" and "a \<in> set (take m xs)" and "b \<in> set (drop m xs)"
  shows "(key a :: 'k :: linorder) < key b"
proof -
  have "sorted (map key (take m xs) @ map key (drop m xs))" "distinct (map key (take m xs) @ map key (drop m xs))"
    using assms(1,2) by (metis append_take_drop_id map_append)+
  then show ?thesis using assms(3,4) by (force simp: sorted_append order_less_le)
qed

lemma trim_events_newest:
  assumes "distinct (map event_ID es)"
  shows "length (filter (\<lambda>e. event_JobID e = jid) (trim_events jid es)) = min 500 (length (filter (\<lambda>e. event_JobID e = jid) es))"
    and "old \<in> set es \<Longrightarrow> old \<notin> set (trim_events jid es) \<Longrightarrow> event_JobID old = jid \<and>
       (\<forall>e\<in>set (trim_events jid es). event_JobID e = jid \<longrightarrow> event_ID old < event_ID e)"
proof -
  define xs where "xs = sort_key event_ID (filter (\<lambda>e. event_JobID e = jid) es)"
  define m where "m = length xs - 500"
  have xs: "distinct (map event_ID xs)" "sorted (map event_ID xs)"
    "set xs = set (filter (\<lambda>e. event_JobID e = jid) es)" "length xs = length (filter (\<lambda>e. event_JobID e = jid) es)"
    using assms by (simp_all add: xs_def distinct_map_filter distinct_map inj_on_def)
  have keep: "trim_events jid es = filter (\<lambda>e. event_JobID e \<noteq> jid \<or> event_ID e \<in> event_ID ` set (drop m xs)) es"
    by (simp add: trim_events_def Let_def xs_def m_def take_rev)
  let ?P = "\<lambda>e. event_ID e \<in> event_ID ` set (drop m xs)"
  let ?l = "filter (\<lambda>e. event_JobID e = jid) (trim_events jid es)"
  have l: "?l = filter ?P (filter (\<lambda>e. event_JobID e = jid) es)"
    unfolding keep filter_filter by (rule filter_cong) auto
  have "mset ?l = mset (filter ?P xs)"
    unfolding l by (simp only: xs_def mset_filter mset_sort)
  also have "filter ?P xs = drop m xs" by (rule filter_newest [OF xs(1)])
  finally have eq: "mset ?l = mset (drop m xs)" .
  then have "length ?l = length (drop m xs)" by (metis size_mset)
  then show "length ?l = min 500 (length (filter (\<lambda>e. event_JobID e = jid) es))" by (simp add: m_def xs(4))
  assume old: "old \<in> set es" "old \<notin> set (trim_events jid es)"
  then have jid: "event_JobID old = jid" and notin: "old \<notin> set (drop m xs)" unfolding keep by auto
  have "set xs = set (take m xs) \<union> set (drop m xs)" by (metis append_take_drop_id set_append)
  then have "old \<in> set (take m xs)" using old(1) xs(3) jid notin by auto
  moreover have "e \<in> set (drop m xs)" if "e \<in> set (trim_events jid es)" "event_JobID e = jid" for e
    using that mset_eq_setD [OF eq] by auto
  ultimately show "event_JobID old = jid \<and>
       (\<forall>e\<in>set (trim_events jid es). event_JobID e = jid \<longrightarrow> event_ID old < event_ID e)"
    using jid sorted_take_drop_less [OF xs(2,1)] by blast
qed

section \<open>Properties\<close>



text \<open>
  C28. A checkpoint is all or nothing: if any statement or the commit fails, the database is
  unchanged; otherwise every listed file has exactly its new bitmap and byte count and no
  other file row has changed.
\<close>

theorem checkpoint_atomic:
  assumes "distinct (map file_ID (files d))" and "distinct (map cp_FileID us)"
    and "CheckpointDownloadFiles flt ok now us d = (e, d')"
  shows "(e \<noteq> None \<longrightarrow> d' = d) \<and>
    (e = None \<longrightarrow>
      (\<forall>u\<in>set us. \<exists>f. find_row file_ID (cp_FileID u) (files d') = Some f \<and>
          CompletedBitmap f = cp_CompletedBitmap u \<and> BytesCommitted f = cp_BytesCommitted u) \<and>
      (\<forall>x. x \<notin> cp_FileID ` set us \<longrightarrow> find_row file_ID x (files d') = find_row file_ID x (files d)))"
proof (cases "us = []")
  case True
  then show ?thesis using assms(3) by (simp add: CheckpointDownloadFiles_def)
next
  case False
  show ?thesis
  proof (cases "checkpoint_updates flt now 0 us d")
    case (Inl x)
    then show ?thesis using False assms(3) by (auto simp: CheckpointDownloadFiles_def WithTx_def)
  next
    case (Inr x)
    then show ?thesis
      using False assms(3) checkpoint_updates_rows [OF assms(1,2) Inr]
      by (auto simp: CheckpointDownloadFiles_def WithTx_def split: if_splits)
  qed
qed

theorem checkpoint_atomic_witness:
  "snd (CheckpointDownloadFiles (\<lambda>_. False) True 7
      [\<lparr>cp_FileID = ''f'', cp_CompletedBitmap = [1], cp_BytesCommitted = 8, cp_State = None,
        cp_LastErrorCode = [], cp_LastErrorMessage = [], cp_UpdatedAt = 3\<rparr>]
      \<lparr>jobs = [], files = [], events = [], event_sequence = 0, accounts = [], proxies = [], foreign_keys = True,
       checkpointTransactions = 0\<rparr>) =
   \<lparr>jobs = [], files = [], events = [], event_sequence = 0, accounts = [], proxies = [], foreign_keys = True,
       checkpointTransactions = 0\<rparr>"
proof -
  let ?d = "\<lparr>jobs = [], files = [], events = [], event_sequence = 0, accounts = [], proxies = [], foreign_keys = True,
       checkpointTransactions = 0\<rparr>"
  let ?us = "[\<lparr>cp_FileID = ''f'', cp_CompletedBitmap = [1], cp_BytesCommitted = 8, cp_State = None,
        cp_LastErrorCode = [], cp_LastErrorMessage = [], cp_UpdatedAt = 3\<rparr>]"
  have "fst (CheckpointDownloadFiles (\<lambda>_. False) True 7 ?us ?d) \<noteq> None"
    by (simp add: CheckpointDownloadFiles_def WithTx_def affected_def)
  then show ?thesis
    using checkpoint_atomic [of ?d ?us "\<lambda>_. False" True 7, OF _ _ prod.collapse [symmetric]] by simp
qed

text \<open>
  C29. Recovery after a restart: once it succeeds no job is resolving, downloading or finalizing,
  no file of a job waiting for recovery is downloading or verifying, and nothing else changes:
  bitmaps, byte counts, final paths and the \<open>moving\<close> marker of interrupted renames are kept;
  running it again changes no state.
\<close>

theorem recovery_safe:
  assumes "MarkDownloadsForRecovery flt ok now w d = (None, d')"
  shows "(\<forall>r\<in>set (jobs d'). \<not> IsActiveJobState (job_State r)) \<and>
    (\<forall>f\<in>set (files d'). \<forall>r\<in>set (jobs d'). job_ID r = file_JobID f \<and> job_State r = JobPausedRecovery \<longrightarrow>
       file_State f \<notin> {FileDownloading, FileVerifying}) \<and>
    map CompletedBitmap (files d') = map CompletedBitmap (files d) \<and>
    map BytesCommitted (files d') = map BytesCommitted (files d) \<and>
    map FinalRelativePath (files d') = map FinalRelativePath (files d) \<and>
    map (\<lambda>f. file_State f = FileMoving) (files d') = map (\<lambda>f. file_State f = FileMoving) (files d) \<and>
    map job_State (jobs (snd (MarkDownloadsForRecovery flt ok now w d'))) = map job_State (jobs d') \<and>
    map file_State (files (snd (MarkDownloadsForRecovery flt ok now w d'))) = map file_State (files d')"
proof -
  let ?t = "norm_time now w"
  have d': "d' = d\<lparr>jobs := recovery_jobs ?t (jobs d), files := recovery_files ?t (recovery_jobs ?t (jobs d)) (files d)\<rparr>"
    using assms by (auto simp: MarkDownloadsForRecovery_def WithTx_def Let_def split: if_splits)
  have act: "IsActiveJobState s \<longleftrightarrow> s \<in> {JobResolving, JobDownloading, JobFinalizing}" for s
    by (cases s) simp_all
  have j: "\<forall>r\<in>set (jobs d'). job_State r \<notin> {JobResolving, JobDownloading, JobFinalizing}"
    using d' by (auto simp: recovery_jobs_def)
  have f: "\<forall>f\<in>set (files d'). file_State f \<in> {FileDownloading, FileVerifying} \<longrightarrow>
      file_JobID f \<notin> job_ID ` set (filter (\<lambda>r. job_State r = JobPausedRecovery) (jobs d'))"
    using d' by (auto simp: recovery_files_def)
  have again: "recovery_jobs ?t (jobs d') = jobs d'" "recovery_files ?t (jobs d') (files d') = files d'"
    using j f unfolding recovery_jobs_def recovery_files_def by (auto intro!: map_idI)
  then have "map job_State (jobs (snd (MarkDownloadsForRecovery flt ok now w d'))) = map job_State (jobs d') \<and>
      map file_State (files (snd (MarkDownloadsForRecovery flt ok now w d'))) = map file_State (files d')"
    by (simp add: MarkDownloadsForRecovery_def WithTx_def Let_def)
  moreover have "map CompletedBitmap (files d') = map CompletedBitmap (files d)"
    "map BytesCommitted (files d') = map BytesCommitted (files d)"
    "map FinalRelativePath (files d') = map FinalRelativePath (files d)"
    "map (\<lambda>f. file_State f = FileMoving) (files d') = map (\<lambda>f. file_State f = FileMoving) (files d)"
    using d' by (auto simp: recovery_files_def)
  moreover have "file_State f \<notin> {FileDownloading, FileVerifying}"
    if "f \<in> set (files d')" "r \<in> set (jobs d')" "job_ID r = file_JobID f" "job_State r = JobPausedRecovery" for f r
  proof -
    have "file_JobID f \<in> job_ID ` set (filter (\<lambda>r. job_State r = JobPausedRecovery) (jobs d'))"
      using that by (auto intro!: image_eqI [of _ _ r])
    then show ?thesis using f that(1) by blast
  qed
  ultimately show ?thesis using j act by auto
qed

theorem recovery_safe_witness:
  "map file_State (files (snd (MarkDownloadsForRecovery (\<lambda>_. False) True 1 2
     (snd (MarkDownloadsForRecovery (\<lambda>_. False) True 1 2
       \<lparr>jobs = [], files = [], events = [], event_sequence = 0, accounts = [], proxies = [], foreign_keys = True,
        checkpointTransactions = 0\<rparr>))))) = []"
proof -
  let ?d = "\<lparr>jobs = [], files = [], events = [], event_sequence = 0, accounts = [], proxies = [], foreign_keys = True,
        checkpointTransactions = 0\<rparr>"
  have "MarkDownloadsForRecovery (\<lambda>_. False) True 1 2 ?d = (None, ?d)"
    by (simp add: MarkDownloadsForRecovery_def WithTx_def Let_def recovery_jobs_def recovery_files_def)
  then show ?thesis using recovery_safe [of "\<lambda>_. False" True 1 2 ?d ?d] by simp
qed

text \<open>
  Without foreign keys, which a new connection of the pool does not have, deleting a job leaves
  its files behind.
\<close>

lemma delete_after_reconnect_orphans:
  "files (snd (DeleteDownloadJob (\<lambda>_. False) jid (reconnect d))) = files d"
  by (simp add: DeleteDownloadJob_def reconnect_def Let_def)

text \<open>
  The event history of a job is bounded and holds the newest events: after an event has been
  added it is stored, the job has all its events up to 500 of them, every dropped event belongs to
  the job and is older than every kept one, and the events of other jobs are untouched.
\<close>

lemma event_history_bounded:
  assumes "db_ok d" and "AddDownloadEvent flt now jid fid kind msg w d = (None, d')"
  shows "(\<exists>e\<in>set (events d'). event_ID e = event_sequence d + 1 \<and> event_JobID e = jid \<and> event_Message e = msg) \<and>
    length (filter (\<lambda>e. event_JobID e = jid) (events d')) = min 500 (length (filter (\<lambda>e. event_JobID e = jid) (events d)) + 1) \<and>
    (\<forall>old\<in>set (events d) - set (events d'). event_JobID old = jid \<and>
       (\<forall>e\<in>set (events d'). event_JobID e = jid \<longrightarrow> event_ID old < event_ID e)) \<and>
    filter (\<lambda>e. event_JobID e \<noteq> jid) (events d') = filter (\<lambda>e. event_JobID e \<noteq> jid) (events d)"
proof -
  let ?n = "event_sequence d + 1"
  let ?es = "events d @ [\<lparr>event_ID = ?n, event_JobID = jid, event_FileID = fid, event_Kind = kind,
                      event_Message = msg, event_CreatedAt = norm_time now w\<rparr>]"
  have d': "events d' = trim_events jid ?es"
    using assms(2) by (auto simp: AddDownloadEvent_def Let_def split: if_splits)
  have dist: "distinct (map event_ID ?es)" using assms(1) by (auto simp: db_ok_def event_row_ok_def)
  from trim_events_newest(1) [OF this, of jid]
  have "length (filter (\<lambda>e. event_JobID e = jid) (events d')) = min 500 (length (filter (\<lambda>e. event_JobID e = jid) (events d)) + 1)"
    by (simp add: d')
  moreover have "\<forall>old\<in>set ?es - set (events d'). event_JobID old = jid \<and>
       (\<forall>e\<in>set (events d'). event_JobID e = jid \<longrightarrow> event_ID old < event_ID e)"
    using trim_events_newest(2) [OF dist, of _ jid] unfolding d' by blast
  moreover have "last ?es \<in> set (events d')"
  proof (rule ccontr)
    assume "last ?es \<notin> set (events d')"
    then have old: "\<forall>e\<in>set (events d'). event_JobID e = jid \<longrightarrow> ?n < event_ID e"
      using trim_events_newest(2) [OF dist, of "last ?es" jid] unfolding d' by simp
    have "filter (\<lambda>e. event_JobID e = jid) (events d') \<noteq> []"
      using trim_events_newest(1) [OF dist, of jid] by (auto simp: d')
    then obtain e where "e \<in> set (events d')" "event_JobID e = jid" by (auto simp: filter_empty_conv)
    moreover from this(1) have "e \<in> set ?es" unfolding d' trim_events_def Let_def by (simp only: set_filter mem_Collect_eq)
    then have "event_ID e \<le> ?n" using assms(1) by (auto simp: db_ok_def event_row_ok_def intro: le_SucI)
    ultimately show False using old by fastforce
  qed
  then have "\<exists>e\<in>set (events d'). event_ID e = ?n \<and> event_JobID e = jid \<and> event_Message e = msg"
    by (intro bexI [of _ "last ?es"]) simp_all
  moreover have "filter (\<lambda>e. event_JobID e \<noteq> jid) (events d') = filter (\<lambda>e. event_JobID e \<noteq> jid) ?es"
    unfolding d' trim_events_def Let_def filter_filter by (rule filter_cong) auto
  ultimately show ?thesis by simp
qed

end
