(* ===== verification/HeapQueue.thy ===== *)
theory HeapQueue
  imports Prelude "HOL-Library.Multiset"
begin

text \<open>
  The priority queue of the download manager: the heap algorithms of package
  \<^verbatim>\<open>container/heap\<close> (\<^verbatim>\<open>Push\<close>, \<^verbatim>\<open>Pop\<close>, \<^verbatim>\<open>Init\<close> over an array) applied to \<^verbatim>\<open>jobQueue\<close> of
  \<^verbatim>\<open>internal/download/manager.go\<close> with its \<^verbatim>\<open>Less\<close>, \<^verbatim>\<open>Swap\<close>, \<^verbatim>\<open>Push\<close> and \<^verbatim>\<open>Pop\<close>. The locale
  \<open>priority_queue\<close> is what the dispatcher relies on; it is interpreted on the array heap.
\<close>

section \<open>Interface\<close>

text \<open>\<open>before x y\<close>: \<open>x\<close> must leave the queue before \<open>y\<close>.\<close>

locale priority_queue =
  fixes before :: "'a \<Rightarrow> 'a \<Rightarrow> bool"
    and valid :: "'q \<Rightarrow> bool"
    and items :: "'q \<Rightarrow> 'a multiset"
    and push :: "'a \<Rightarrow> 'q \<Rightarrow> 'q"
    and pop :: "'q \<Rightarrow> 'a \<times> 'q"
  assumes push_valid: "valid q \<Longrightarrow> valid (push x q)"
    and push_items: "valid q \<Longrightarrow> items (push x q) = add_mset x (items q)"
    and pop_valid: "valid q \<Longrightarrow> items q \<noteq> {#} \<Longrightarrow> valid (snd (pop q))"
    and pop_items: "valid q \<Longrightarrow> items q \<noteq> {#} \<Longrightarrow> items q = add_mset (fst (pop q)) (items (snd (pop q)))"
    and pop_first: "valid q \<Longrightarrow> items q \<noteq> {#} \<Longrightarrow> y \<in># items q \<Longrightarrow> \<not> before y (fst (pop q))"
begin

primrec drain :: "nat \<Rightarrow> 'q \<Rightarrow> 'a list" where
  "drain 0 q = []"
| "drain (Suc n) q = (let (x, q') = pop q in x # drain n q')"

lemma drain_mset: "valid q \<Longrightarrow> mset (drain (size (items q)) q) = items q"
proof (induction "size (items q)" arbitrary: q)
  case 0
  then show ?case by simp
next
  case (Suc n)
  then have ne: "items q \<noteq> {#}" by auto
  note pi = pop_items [OF Suc.prems ne]
  then have n: "n = size (items (snd (pop q)))" using Suc.hyps(2) by (metis Suc_inject size_add_mset)
  show ?case
    using Suc.hyps(1) [OF n pop_valid [OF Suc.prems ne]] pi n [symmetric]
    by (simp add: Suc.hyps(2) [symmetric] case_prod_beta)
qed

lemma drain_sorted: "valid q \<Longrightarrow> sorted_wrt (\<lambda>x y. \<not> before y x) (drain (size (items q)) q)"
proof (induction "size (items q)" arbitrary: q)
  case 0
  then show ?case by simp
next
  case (Suc n)
  then have ne: "items q \<noteq> {#}" by auto
  note pi = pop_items [OF Suc.prems ne] and pv = pop_valid [OF Suc.prems ne]
  then have n: "n = size (items (snd (pop q)))" using Suc.hyps(2) by (metis Suc_inject size_add_mset)
  have "set (drain n (snd (pop q))) = set_mset (items (snd (pop q)))"
    using drain_mset [OF pv] n by (metis set_mset_mset)
  then have "\<forall>y\<in>set (drain n (snd (pop q))). \<not> before y (fst (pop q))"
    using pop_first [OF Suc.prems ne] pi by (metis union_single_eq_member insert_iff set_mset_add_mset_insert)
  with Suc.hyps(1) [OF n pv] n show ?case
    by (simp add: Suc.hyps(2) [symmetric] case_prod_beta)
qed

end

section \<open>The array heap\<close>

definition swap_at :: "nat \<Rightarrow> nat \<Rightarrow> 'a list \<Rightarrow> 'a list" where
  "swap_at i j q = q[i := q ! j, j := q ! i]"

fun heap_up :: "('a \<Rightarrow> 'a \<Rightarrow> bool) \<Rightarrow> 'a list \<Rightarrow> nat \<Rightarrow> 'a list" where
  "heap_up lt q j =
     (if j = 0 then q
      else (let i = (j - 1) div 2 in
            if \<not> lt (q ! j) (q ! i) then q else heap_up lt (swap_at i j q) i))"

function heap_down :: "('a \<Rightarrow> 'a \<Rightarrow> bool) \<Rightarrow> 'a list \<Rightarrow> nat \<Rightarrow> nat \<Rightarrow> 'a list" where
  "heap_down lt q i n =
     (let j1 = 2 * i + 1 in
      if j1 \<ge> n then q
      else
        (let j = (if j1 + 1 < n \<and> lt (q ! (j1 + 1)) (q ! j1) then j1 + 1 else j1) in
         if \<not> lt (q ! j) (q ! i) then q else heap_down lt (swap_at i j q) j n))"
  by pat_completeness auto
termination by (relation "measure (\<lambda>(_, _, i, n). n - i)") (auto simp: Let_def split: if_splits)

declare heap_up.simps [simp del] heap_down.simps [simp del]

definition heap_Push :: "('a \<Rightarrow> 'a \<Rightarrow> bool) \<Rightarrow> 'a \<Rightarrow> 'a list \<Rightarrow> 'a list" where
  "heap_Push lt x q = heap_up lt (q @ [x]) (length q)"

definition heap_Pop :: "('a \<Rightarrow> 'a \<Rightarrow> bool) \<Rightarrow> 'a list \<Rightarrow> 'a \<times> 'a list" where
  "heap_Pop lt q =
     (let n = length q - 1; q' = heap_down lt (swap_at 0 n q) 0 n in (last q', butlast q'))"

fun heap_Init_from :: "('a \<Rightarrow> 'a \<Rightarrow> bool) \<Rightarrow> nat \<Rightarrow> 'a list \<Rightarrow> 'a list" where
  "heap_Init_from lt 0 q = q"
| "heap_Init_from lt (Suc i) q = heap_Init_from lt i (heap_down lt q i (length q))"

definition heap_Init :: "('a \<Rightarrow> 'a \<Rightarrow> bool) \<Rightarrow> 'a list \<Rightarrow> 'a list" where
  "heap_Init lt q = heap_Init_from lt (length q div 2) q"

section \<open>Correctness of the heap\<close>

definition strict_order :: "('a \<Rightarrow> 'a \<Rightarrow> bool) \<Rightarrow> bool" where
  "strict_order lt \<longleftrightarrow> (\<forall>x y. lt x y \<longrightarrow> \<not> lt y x) \<and> (\<forall>x y z. \<not> lt y x \<longrightarrow> \<not> lt z y \<longrightarrow> \<not> lt z x)"

text \<open>The heap order on the first \<open>n\<close> cells, for parents from \<open>lo\<close> on.\<close>

definition heap_from :: "('a \<Rightarrow> 'a \<Rightarrow> bool) \<Rightarrow> nat \<Rightarrow> nat \<Rightarrow> 'a list \<Rightarrow> bool" where
  "heap_from lt lo n q \<longleftrightarrow> (\<forall>k. 0 < k \<and> k < n \<and> lo \<le> (k - 1) div 2 \<longrightarrow> \<not> lt (q ! k) (q ! ((k - 1) div 2)))"

abbreviation is_heap :: "('a \<Rightarrow> 'a \<Rightarrow> bool) \<Rightarrow> 'a list \<Rightarrow> bool" where
  "is_heap lt q \<equiv> heap_from lt 0 (length q) q"

lemma length_swap_at [simp]: "length (swap_at i j q) = length q"
  by (simp add: swap_at_def)

lemma nth_swap_at:
  "i < length q \<Longrightarrow> j < length q \<Longrightarrow>
     swap_at i j q ! k = (if k = j then q ! i else if k = i then q ! j else q ! k)"
  by (auto simp: swap_at_def nth_list_update)

lemma mset_swap_at: "i < length q \<Longrightarrow> j < length q \<Longrightarrow> mset (swap_at i j q) = mset q"
  unfolding swap_at_def using mset_swap [of j q i] by (metis list_update_swap list_update_id)

lemma parent_less: "0 < k \<Longrightarrow> (k - 1) div 2 < (k :: nat)"
  by auto

lemma child_iff: "0 < k \<Longrightarrow> (k - 1) div 2 = i \<longleftrightarrow> k = 2 * i + 1 \<or> k = 2 * i + 2" for k i :: nat
  by auto

lemma heap_up_mset: "j < length q \<Longrightarrow> mset (heap_up lt q j) = mset q \<and> length (heap_up lt q j) = length q"
proof (induction lt q j rule: heap_up.induct)
  case (1 lt q j)
  show ?case
  proof (cases "j = 0 \<or> \<not> lt (q ! j) (q ! ((j - 1) div 2))")
    case True
    then have "heap_up lt q j = q" by (subst heap_up.simps) (auto simp: Let_def)
    then show ?thesis by simp
  next
    case False
    then have "heap_up lt q j = heap_up lt (swap_at ((j - 1) div 2) j q) ((j - 1) div 2)"
      by (subst heap_up.simps) (simp add: Let_def)
    with 1 False parent_less [of j] show ?thesis by (simp add: mset_swap_at)
  qed
qed

text \<open>The child a parent is compared with.\<close>

definition best_child :: "('a \<Rightarrow> 'a \<Rightarrow> bool) \<Rightarrow> 'a list \<Rightarrow> nat \<Rightarrow> nat \<Rightarrow> nat" where
  "best_child lt q i n = (if 2 * i + 1 + 1 < n \<and> lt (q ! (2 * i + 1 + 1)) (q ! (2 * i + 1)) then 2 * i + 1 + 1 else 2 * i + 1)"

lemma heap_down_unfold:
  "heap_down lt q i n =
     (if 2 * i + 1 \<ge> n \<or> \<not> lt (q ! best_child lt q i n) (q ! i) then q
      else heap_down lt (swap_at i (best_child lt q i n) q) (best_child lt q i n) n)"
proof -
  have "heap_down lt q i n = (if 2 * i + 1 \<ge> n then q
      else if \<not> lt (q ! best_child lt q i n) (q ! i) then q
      else heap_down lt (swap_at i (best_child lt q i n) q) (best_child lt q i n) n)"
    by (subst heap_down.simps) (simp only: Let_def best_child_def)
  then show ?thesis by argo
qed

lemma best_child_bounds: "\<not> n \<le> 2 * i + 1 \<Longrightarrow> best_child lt q i n < n \<and> i < best_child lt q i n \<and>
    (best_child lt q i n - 1) div 2 = i"
  by (auto simp: best_child_def)

lemma heap_down_mset:
  "n \<le> length q \<Longrightarrow> i < n \<Longrightarrow> mset (heap_down lt q i n) = mset q \<and> length (heap_down lt q i n) = length q \<and>
     (\<forall>k\<ge>n. heap_down lt q i n ! k = q ! k)"
proof (induction "n - i" arbitrary: q i rule: less_induct)
  case less
  let ?j = "best_child lt q i n"
  show ?case
  proof (cases "2 * i + 1 \<ge> n \<or> \<not> lt (q ! ?j) (q ! i)")
    case True
    then have "heap_down lt q i n = q" by (subst heap_down_unfold) simp
    then show ?thesis by simp
  next
    case False
    then have eq: "heap_down lt q i n = heap_down lt (swap_at i ?j q) ?j n"
      by (subst heap_down_unfold) simp
    have j: "?j < n" "i < ?j" "?j < length q" "i < length q"
      using best_child_bounds [of n i lt q] False less.prems by auto
    have "\<forall>k\<ge>n. swap_at i ?j q ! k = q ! k"
      using j less.prems by (simp add: nth_swap_at)
    moreover have "n - ?j < n - i" using j by simp
    ultimately show ?thesis
      using less.hyps [of ?j "swap_at i ?j q"] eq j less.prems by (simp add: mset_swap_at)
  qed
qed

lemma strict_orderD:
  "strict_order lt \<Longrightarrow> lt x y \<Longrightarrow> \<not> lt y x"
  "strict_order lt \<Longrightarrow> \<not> lt y x \<Longrightarrow> \<not> lt z y \<Longrightarrow> \<not> lt z x"
  unfolding strict_order_def by blast+

lemma heap_up_heap:
  "strict_order lt \<Longrightarrow> j < length q \<Longrightarrow>
    (\<forall>k. 0 < k \<and> k < length q \<and> k \<noteq> j \<longrightarrow> \<not> lt (q ! k) (q ! ((k - 1) div 2))) \<Longrightarrow>
    (\<forall>k. 0 < k \<and> k < length q \<and> (k - 1) div 2 = j \<and> 0 < j \<longrightarrow> \<not> lt (q ! k) (q ! ((j - 1) div 2))) \<Longrightarrow>
    is_heap lt (heap_up lt q j)"
proof (induction lt q j rule: heap_up.induct)
  case (1 lt q j)
  define i where "i = (j - 1) div 2"
  show ?case
  proof (cases "j = 0 \<or> \<not> lt (q ! j) (q ! i)")
    case True
    then have "heap_up lt q j = q" by (subst heap_up.simps) (auto simp: Let_def i_def)
    moreover have "\<not> lt (q ! k) (q ! ((k - 1) div 2))" if "0 < k" "k < length q" for k
      using "1.prems"(3) True that by (cases "k = j") (auto simp: i_def)
    ultimately show ?thesis by (simp add: heap_from_def)
  next
    case False
    let ?q = "swap_at i j q"
    have eq: "heap_up lt q j = heap_up lt ?q i"
      using False by (subst heap_up.simps) (simp add: Let_def i_def)
    have ij: "i < j" "i < length q" using False "1.prems"(2) parent_less [of j] by (auto simp: i_def)
    note nth = nth_swap_at [OF ij(2) "1.prems"(2)]
    have lt: "lt (q ! j) (q ! i)" "0 < j" using False by auto
    note D = strict_orderD [OF "1.prems"(1)]
    have "is_heap lt (heap_up lt ?q i)"
    proof (rule "1.IH" [OF _ i_def])
      show "j \<noteq> 0" "\<not> \<not> lt (q ! j) (q ! i)" using lt by auto
      show "strict_order lt" by (rule "1.prems"(1))
      show "i < length ?q" using ij by simp
      show "\<forall>k. 0 < k \<and> k < length ?q \<and> k \<noteq> i \<longrightarrow> \<not> lt (?q ! k) (?q ! ((k - 1) div 2))"
      proof (intro allI impI)
        fix k
        assume k: "0 < k \<and> k < length ?q \<and> k \<noteq> i"
        show "\<not> lt (?q ! k) (?q ! ((k - 1) div 2))"
        proof (cases "k = j")
          case True
          then show ?thesis using ij D(1) [OF lt(1)] by (simp add: nth i_def [simplified, symmetric])
        next
          case False
          then have old: "\<not> lt (q ! k) (q ! ((k - 1) div 2))" using "1.prems"(3) k by simp
          consider "(k - 1) div 2 = j" | "(k - 1) div 2 = i" | "(k - 1) div 2 \<noteq> j" "(k - 1) div 2 \<noteq> i" by blast
          then show ?thesis
          proof cases
            case 1
            then have "\<not> lt (q ! k) (q ! i)" using "1.prems"(4) k lt(2) by (simp add: i_def)
            with 1 k False show ?thesis by (simp add: nth)
          next
            case 2
            then have "\<not> lt (q ! k) (q ! i)" using old by simp
            then have "\<not> lt (q ! k) (q ! j)" using D(1) [OF lt(1)] D(2) by blast
            with 2 k False ij show ?thesis by (simp add: nth)
          next
            case 3
            with old k False show ?thesis by (simp add: nth)
          qed
        qed
      qed
      show "\<forall>k. 0 < k \<and> k < length ?q \<and> (k - 1) div 2 = i \<and> 0 < i \<longrightarrow> \<not> lt (?q ! k) (?q ! ((i - 1) div 2))"
      proof (intro allI impI)
        fix k
        assume k: "0 < k \<and> k < length ?q \<and> (k - 1) div 2 = i \<and> 0 < i"
        let ?p = "(i - 1) div 2"
        have p: "?p < i" using k parent_less [of i] by simp
        have pi: "\<not> lt (q ! i) (q ! ?p)" using "1.prems"(3) k ij by simp
        have "\<not> lt (?q ! k) (q ! ?p)"
        proof (cases "k = j")
          case True
          then show ?thesis using pi by (simp add: nth)
        next
          case False
          then have "\<not> lt (q ! k) (q ! i)" using "1.prems"(3) k by auto
          moreover have "k \<noteq> i" using k parent_less [of k] by auto
          ultimately show ?thesis using False pi D(2) by (simp add: nth)
        qed
        moreover have "?q ! ?p = q ! ?p" using p ij by (simp add: nth)
        ultimately show "\<not> lt (?q ! k) (?q ! ((i - 1) div 2))" by simp
      qed
    qed
    then show ?thesis using eq by simp
  qed
qed

lemma heap_down_heap:
  "strict_order lt \<Longrightarrow> n \<le> length q \<Longrightarrow> i < n \<Longrightarrow> lo \<le> i \<Longrightarrow>
    (\<forall>k. 0 < k \<and> k < n \<and> lo \<le> (k - 1) div 2 \<and> (k - 1) div 2 \<noteq> i \<longrightarrow> \<not> lt (q ! k) (q ! ((k - 1) div 2))) \<Longrightarrow>
    (\<forall>k. 0 < k \<and> k < n \<and> (k - 1) div 2 = i \<and> 0 < i \<and> lo \<le> (i - 1) div 2 \<longrightarrow> \<not> lt (q ! k) (q ! ((i - 1) div 2))) \<Longrightarrow>
    heap_from lt lo n (heap_down lt q i n)"
proof (induction "n - i" arbitrary: q i rule: less_induct)
  case less
  let ?j1 = "2 * i + 1"
  define j where "j = best_child lt q i n"
  note D = strict_orderD [OF less.prems(1)]
  have irr: "\<not> lt x x" for x using D(1) by blast
  have least: "\<not> lt (q ! k) (q ! j)" if "0 < k" "k < n" "(k - 1) div 2 = i" for k
  proof -
    have "k = ?j1 \<or> k = ?j1 + 1" using child_iff [OF that(1), of i] that(3) by simp
    then show ?thesis using that(2) D(1) irr by (auto simp: j_def best_child_def)
  qed
  show ?case
  proof (cases "?j1 \<ge> n \<or> \<not> lt (q ! j) (q ! i)")
    case True
    then have eq: "heap_down lt q i n = q"
      by (subst heap_down_unfold) (simp add: j_def)
    have "\<not> lt (q ! k) (q ! ((k - 1) div 2))" if "0 < k" "k < n" "lo \<le> (k - 1) div 2" for k
    proof (cases "(k - 1) div 2 = i")
      case ki: True
      then have "k = ?j1 \<or> k = ?j1 + 1" using child_iff [OF that(1), of i] by simp
      with that(2) True have "\<not> lt (q ! j) (q ! i)" by auto
      with least [OF that(1,2) ki] ki D(2) show ?thesis by metis
    next
      case False
      then show ?thesis using less.prems(5) that by simp
    qed
    then show ?thesis by (simp add: eq heap_from_def)
  next
    case False
    let ?q = "swap_at i j q"
    have lt: "lt (q ! j) (q ! i)" and j1: "\<not> ?j1 \<ge> n" using False by auto
    have eq: "heap_down lt q i n = heap_down lt ?q j n"
      using False by (subst heap_down_unfold) (simp add: j_def)
    have jn: "j < n" "j < length q" "i < length q" "i < j" "(j - 1) div 2 = i" "0 < j"
      using best_child_bounds [OF j1, of lt q] less.prems(2,3) by (auto simp: j_def)
    note nth = nth_swap_at [OF jn(3,2)]
    have IH: "heap_from lt lo n (heap_down lt ?q j n)"
    proof (rule less.hyps [of j])
      show "n - j < n - i" using jn by simp
      show "strict_order lt" "n \<le> length ?q" "j < n" "lo \<le> j" using less.prems(1,2,4) jn by auto
      show "\<forall>k. 0 < k \<and> k < n \<and> lo \<le> (k - 1) div 2 \<and> (k - 1) div 2 \<noteq> j \<longrightarrow> \<not> lt (?q ! k) (?q ! ((k - 1) div 2))"
      proof (intro allI impI)
        fix k
        assume k: "0 < k \<and> k < n \<and> lo \<le> (k - 1) div 2 \<and> (k - 1) div 2 \<noteq> j"
        show "\<not> lt (?q ! k) (?q ! ((k - 1) div 2))"
        proof (cases "(k - 1) div 2 = i")
          case True
          have "k \<noteq> i" using True k parent_less [of k] by auto
          then have "\<not> lt (?q ! k) (q ! j)"
            using least [of k] True k D(1) [OF lt] by (cases "k = j") (simp_all add: nth)
          with True jn show ?thesis by (simp add: nth)
        next
          case F: False
          then have old: "\<not> lt (q ! k) (q ! ((k - 1) div 2))" using less.prems(5) k by simp
          have kj: "k \<noteq> j" using F jn(5) by auto
          show ?thesis
          proof (cases "k = i")
            case True
            then have "\<not> lt (q ! j) (q ! ((i - 1) div 2))" using less.prems(6) k jn by simp
            then show ?thesis using True k F kj jn parent_less [of i] by (simp add: nth)
          next
            case False
            with old kj F k show ?thesis by (simp add: nth)
          qed
        qed
      qed
      show "\<forall>k. 0 < k \<and> k < n \<and> (k - 1) div 2 = j \<and> 0 < j \<and> lo \<le> (j - 1) div 2 \<longrightarrow> \<not> lt (?q ! k) (?q ! ((j - 1) div 2))"
      proof (intro allI impI)
        fix k
        assume k: "0 < k \<and> k < n \<and> (k - 1) div 2 = j \<and> 0 < j \<and> lo \<le> (j - 1) div 2"
        then have "\<not> lt (q ! k) (q ! j)" using less.prems(4,5) jn by (metis less_imp_le less_not_refl order.trans)
        moreover have "k \<noteq> i" "k \<noteq> j" using k jn parent_less [of k] by auto
        ultimately show "\<not> lt (?q ! k) (?q ! ((j - 1) div 2))" using jn by (simp add: nth)
      qed
    qed
    then show ?thesis using eq by simp
  qed
qed

lemma heap_root_least:
  assumes "strict_order lt" and "heap_from lt 0 n q" and "k < n"
  shows "\<not> lt (q ! k) (q ! 0)"
  using assms(3)
proof (induction k rule: less_induct)
  case (less k)
  show ?case
  proof (cases "k = 0")
    case True
    then show ?thesis using assms(1) by (auto dest: strict_orderD(1))
  next
    case False
    let ?p = "(k - 1) div 2"
    have "\<not> lt (q ! k) (q ! ?p)" using assms(2) False less.prems by (simp add: heap_from_def)
    moreover have "\<not> lt (q ! ?p) (q ! 0)" using less parent_less [of k] False by simp
    ultimately show ?thesis using strict_orderD(2) [OF assms(1)] by blast
  qed
qed

lemma heap_Push_correct:
  assumes "strict_order lt" and "is_heap lt q"
  shows "is_heap lt (heap_Push lt x q)" and "mset (heap_Push lt x q) = add_mset x (mset q)"
proof -
  let ?q = "q @ [x]"
  have j: "length q < length ?q" by simp
  have old: "\<not> lt (?q ! k) (?q ! ((k - 1) div 2))" if "0 < k" "k < length ?q" "k \<noteq> length q" for k
    using that assms(2) parent_less [of k] by (simp add: heap_from_def nth_append)
  have nochild: "(k - 1) div 2 \<noteq> length q" if "0 < k" "k < length ?q" for k
    using that parent_less [of k] by auto
  show "is_heap lt (heap_Push lt x q)"
    unfolding heap_Push_def using old nochild by (intro heap_up_heap [OF assms(1) j]) blast+
  show "mset (heap_Push lt x q) = add_mset x (mset q)"
    using heap_up_mset [OF j] by (simp add: heap_Push_def)
qed

lemma heap_Pop_correct:
  assumes "strict_order lt" and "is_heap lt q" and "q \<noteq> []"
  shows "is_heap lt (snd (heap_Pop lt q))" and "mset q = add_mset (fst (heap_Pop lt q)) (mset (snd (heap_Pop lt q)))"
    and "fst (heap_Pop lt q) = q ! 0"
proof -
  define n where "n = length q - 1"
  let ?s = "swap_at 0 n q"
  define q' where "q' = heap_down lt ?s 0 n"
  have n: "n < length q" "0 < length q" using assms(3) by (auto simp: n_def)
  have down: "mset q' = mset q \<and> length q' = length q \<and> q' ! n = q ! 0 \<and> heap_from lt 0 n q'"
  proof (cases "n = 0")
    case True
    then have "q' = ?s" unfolding q'_def by (subst heap_down_unfold) simp
    with True show ?thesis by (simp add: swap_at_def heap_from_def)
  next
    case False
    have c: "mset q' = mset ?s \<and> length q' = length ?s \<and> (\<forall>k\<ge>n. q' ! k = ?s ! k)"
      unfolding q'_def by (rule heap_down_mset) (use False n in auto)
    have "heap_from lt 0 n q'"
      unfolding q'_def
    proof (rule heap_down_heap [OF assms(1)])
      show "\<forall>k. 0 < k \<and> k < n \<and> 0 \<le> (k - 1) div 2 \<and> (k - 1) div 2 \<noteq> 0 \<longrightarrow> \<not> lt (?s ! k) (?s ! ((k - 1) div 2))"
        using assms(2) n parent_less by (auto simp: heap_from_def nth_swap_at)
    qed (use False n in auto)
    with c n show ?thesis by (simp add: mset_swap_at nth_swap_at)
  qed
  have pop: "heap_Pop lt q = (last q', butlast q')"
    by (simp add: heap_Pop_def Let_def n_def q'_def)
  have ne: "q' \<noteq> []" using down assms(3) by auto
  then have l: "last q' = q ! 0" using down n_def by (simp add: last_conv_nth)
  show "fst (heap_Pop lt q) = q ! 0" using pop l by simp
  have "q' = butlast q' @ [last q']" using ne by simp
  then show "mset q = add_mset (fst (heap_Pop lt q)) (mset (snd (heap_Pop lt q)))"
    using pop down by (metis add_mset_add_single fst_conv mset.simps(1) mset.simps(2) mset_append snd_conv)
  have bl: "butlast q' ! m = q' ! m" if "m < n" for m
    using that down n_def by (simp add: nth_butlast)
  have "\<not> lt (butlast q' ! k) (butlast q' ! ((k - 1) div 2))" if "0 < k" "k < n" for k
    using down that parent_less [OF that(1)] bl [of k] bl [of "(k - 1) div 2"] by (simp add: heap_from_def)
  then show "is_heap lt (snd (heap_Pop lt q))"
    using pop down n_def by (simp add: heap_from_def)
qed

lemma heap_Pop_length: "q \<noteq> [] \<Longrightarrow> length (snd (heap_Pop lt q)) < length q"
proof -
  assume q: "q \<noteq> []"
  have "length (heap_down lt (swap_at 0 (length q - 1) q) 0 (length q - 1)) = length q"
  proof (cases "length q - 1 = 0")
    case True
    then show ?thesis by (subst heap_down_unfold) simp
  next
    case False
    then show ?thesis using heap_down_mset [of "length q - 1" "swap_at 0 (length q - 1) q" 0 lt] by simp
  qed
  then show ?thesis using q by (simp add: heap_Pop_def Let_def)
qed

lemma heap_Init_from_correct:
  assumes "strict_order lt"
  shows "i \<le> length q div 2 \<Longrightarrow> heap_from lt i (length q) q \<Longrightarrow>
    is_heap lt (heap_Init_from lt i q) \<and> mset (heap_Init_from lt i q) = mset q"
proof (induction i arbitrary: q)
  case 0
  then show ?case by simp
next
  case (Suc i)
  let ?q = "heap_down lt q i (length q)"
  have i: "i < length q" using Suc.prems(1) by simp
  have m: "mset ?q = mset q" "length ?q = length q" using heap_down_mset [OF _ i] by auto
  have "heap_from lt i (length q) ?q"
    by (rule heap_down_heap [OF assms _ i])
      (use Suc.prems(2) parent_less [of i] in \<open>auto simp: heap_from_def Suc_le_eq\<close>)
  with Suc.IH [of ?q] Suc.prems(1) m show ?case by simp
qed

lemma heap_Init_correct: "strict_order lt \<Longrightarrow> is_heap lt (heap_Init lt q) \<and> mset (heap_Init lt q) = mset q"
  unfolding heap_Init_def by (rule heap_Init_from_correct) (auto simp: heap_from_def)

section \<open>The job queue\<close>

record queueItem =
  qi_jobID :: string
  qi_priority :: int
  qi_sequence :: nat

definition jobQueue_Less :: "queueItem \<Rightarrow> queueItem \<Rightarrow> bool" where
  "jobQueue_Less l r =
     (if qi_priority l \<noteq> qi_priority r then qi_priority l > qi_priority r else qi_sequence l < qi_sequence r)"

lemma jobQueue_order: "strict_order jobQueue_Less"
  unfolding strict_order_def jobQueue_Less_def by (auto split: if_splits)

interpretation jq: priority_queue jobQueue_Less "is_heap jobQueue_Less" mset
  "heap_Push jobQueue_Less" "heap_Pop jobQueue_Less"
proof unfold_locales
  fix q :: "queueItem list" and x y
  assume q: "is_heap jobQueue_Less q"
  show "is_heap jobQueue_Less (heap_Push jobQueue_Less x q)" "mset (heap_Push jobQueue_Less x q) = add_mset x (mset q)"
    using heap_Push_correct [OF jobQueue_order q] by auto
  assume "mset q \<noteq> {#}"
  then have ne: "q \<noteq> []" by auto
  note P = heap_Pop_correct [OF jobQueue_order q ne]
  show "is_heap jobQueue_Less (snd (heap_Pop jobQueue_Less q))" by (rule P(1))
  show "mset q = add_mset (fst (heap_Pop jobQueue_Less q)) (mset (snd (heap_Pop jobQueue_Less q)))" by (rule P(2))
  assume "y \<in># mset q"
  then obtain k where "k < length q" "y = q ! k" by (auto simp: in_set_conv_nth)
  then show "\<not> jobQueue_Less y (fst (heap_Pop jobQueue_Less q))"
    using heap_root_least [OF jobQueue_order q] P(3) by simp
qed

section \<open>Properties\<close>

text \<open>
  C30. The queue dispatches by priority and, among equal priorities, in the order of arrival:
  however the items were pushed, popping until it is empty delivers exactly the pushed items,
  higher priorities first and lower sequence numbers first within a priority.
\<close>

theorem queue_dispatch_order:
  "let q = foldl (\<lambda>q x. heap_Push jobQueue_Less x q) [] xs; out = jq.drain (length xs) q in
     mset out = mset xs \<and>
     sorted_wrt (\<lambda>a b. qi_priority a > qi_priority b \<or>
       qi_priority a = qi_priority b \<and> qi_sequence a \<le> qi_sequence b) out"
proof -
  have "is_heap jobQueue_Less (foldl (\<lambda>q x. heap_Push jobQueue_Less x q) q xs) \<and>
      mset (foldl (\<lambda>q x. heap_Push jobQueue_Less x q) q xs) = mset xs + mset q"
    if "is_heap jobQueue_Less q" for q
    using that by (induction xs arbitrary: q) (simp_all add: jq.push_valid jq.push_items)
  from this [of "[]"] have h: "is_heap jobQueue_Less (foldl (\<lambda>q x. heap_Push jobQueue_Less x q) [] xs)"
    and m: "mset (foldl (\<lambda>q x. heap_Push jobQueue_Less x q) [] xs) = mset xs"
    by (simp_all add: heap_from_def)
  have le: "\<not> jobQueue_Less b a \<longleftrightarrow> qi_priority a > qi_priority b \<or>
       qi_priority a = qi_priority b \<and> qi_sequence a \<le> qi_sequence b" for a b
    by (auto simp: jobQueue_Less_def)
  show ?thesis
    using jq.drain_mset [OF h] jq.drain_sorted [OF h] m unfolding Let_def le by simp
qed

end
