(* ===== verification/Queue.thy ===== *)
theory Queue
  imports HeapQueue "HOL-Library.AList"
begin

text \<open>
  The queue dispatcher of the download manager (\<^verbatim>\<open>internal/download/manager.go\<close>): the state
  guarded by \<^verbatim>\<open>Manager.mu\<close> and every critical section on it. Go maps are lists of distinct
  keys (sets) and association lists; where the code ranges over a map, the order is an
  argument. Each critical section is one step of the relation \<open>queue_step\<close>, so its invariants
  hold for every interleaving of requests, the dispatcher and finishing jobs. The sequence
  number is a natural number: it is counted up once per enqueue and does not reach \<open>2 ^ 64\<close>.
\<close>

section \<open>State\<close>

record jobControl =
  ctx_cancelled :: bool
  pauseRequested :: bool
  queuePauseRequested :: bool
  cancelRequested :: bool
  deletePartialFiles :: bool

definition new_control :: jobControl where
  "new_control = \<lparr>ctx_cancelled = False, pauseRequested = False, queuePauseRequested = False,
     cancelRequested = False, deletePartialFiles = False\<rparr>"

record manager =
  m_started :: bool
  m_promoted :: bool       \<comment> \<open>\<^verbatim>\<open>Start\<close> has reached \<^verbatim>\<open>promotePendingLocked\<close>\<close>
  m_closed :: bool
  m_ctx_done :: bool
  m_queue :: "queueItem list"
  m_pending :: "string list"
  m_pendingPrio :: "(string \<times> int) list"
  m_pendingSeq :: "(string \<times> nat) list"
  m_active :: "string list"
  m_controls :: "(string \<times> jobControl) list"
  m_queuePaused :: bool
  m_queuePausedIDs :: "string list"
  m_sequence :: nat
  m_maxActiveFiles :: nat
  m_wake :: "bool option"   \<comment> \<open>\<^verbatim>\<open>queueWake\<close>: nil before \<^verbatim>\<open>Start\<close>, else whether a signal is waiting\<close>

definition maxQueuedJobs :: nat where
  "maxQueuedJobs = 128"

datatype queue_error = ErrJobIDRequired | ErrClosedManager | ErrQueueFull | ErrLookup | ErrAlreadyRunning
  | ErrAlreadyQueued | ErrActiveLimit

definition new_manager :: "nat \<Rightarrow> manager" where
  "new_manager maxActive =
     \<lparr>m_started = False, m_promoted = False, m_closed = False, m_ctx_done = False, m_queue = heap_Init jobQueue_Less [],
      m_pending = [], m_pendingPrio = [], m_pendingSeq = [], m_active = [], m_controls = [], m_queuePaused = False,
      m_queuePausedIDs = [], m_sequence = 0, m_maxActiveFiles = maxActive, m_wake = None\<rparr>"

section \<open>Critical sections\<close>

definition signalLocked :: "manager \<Rightarrow> manager" where
  "signalLocked m = (if m_wake m = None then m else m\<lparr>m_wake := Some True\<rparr>)"

definition compactQueueLocked :: "manager \<Rightarrow> manager" where
  "compactQueueLocked m =
     (if length (m_queue m) \<le> maxQueuedJobs * 2 then m
      else m\<lparr>m_queue := heap_Init jobQueue_Less
               (filter (\<lambda>item. map_of (m_pendingSeq m) (qi_jobID item) = Some (qi_sequence item)) (m_queue m))\<rparr>)"

definition queue_push :: "string \<Rightarrow> int \<Rightarrow> nat \<Rightarrow> manager \<Rightarrow> manager" where
  "queue_push jobID priority sequence m =
     m\<lparr>m_queue := heap_Push jobQueue_Less \<lparr>qi_jobID = jobID, qi_priority = priority, qi_sequence = sequence\<rparr> (m_queue m)\<rparr>"

definition drop_pending :: "string \<Rightarrow> manager \<Rightarrow> manager" where
  "drop_pending jobID m =
     m\<lparr>m_pending := removeAll jobID (m_pending m), m_pendingPrio := AList.delete jobID (m_pendingPrio m),
       m_pendingSeq := AList.delete jobID (m_pendingSeq m)\<rparr>"

text \<open>\<open>lookup\<close> is the outcome of \<^verbatim>\<open>GetDownloadJob\<close> and \<^verbatim>\<open>validateTransferRoots\<close>.\<close>

definition StartJobWithPriority ::
  "bool \<Rightarrow> string \<Rightarrow> int \<Rightarrow> manager \<Rightarrow> queue_error option \<times> manager" where
  "StartJobWithPriority lookup_ok jobID priority m =
     (if jobID = [] then (Some ErrJobIDRequired, m)
      else if \<not> lookup_ok then (Some ErrLookup, m)
      else if m_closed m then (Some ErrClosedManager, m)
      else if jobID \<in> set (m_pending m) then (None, m)
      else if jobID \<in> set (m_active m) then (None, m)
      else if length (m_pending m) \<ge> maxQueuedJobs then (Some ErrQueueFull, m)
      else
        (let s = m_sequence m + 1;
             m1 = m\<lparr>m_pending := m_pending m @ [jobID], m_pendingPrio := AList.update jobID priority (m_pendingPrio m),
                    m_sequence := s, m_pendingSeq := AList.update jobID s (m_pendingSeq m)\<rparr>
         in (None, if m_started m then signalLocked (compactQueueLocked (queue_push jobID priority s m1)) else m1)))"

text \<open>\<open>order\<close>: the order in which the range over \<^verbatim>\<open>m.pending\<close> visits the keys.\<close>

definition promotePendingLocked :: "string list \<Rightarrow> manager \<Rightarrow> manager" where
  "promotePendingLocked order m =
     (let m1 = foldl (\<lambda>m jobID. queue_push jobID
                  (case map_of (m_pendingPrio m) jobID of None \<Rightarrow> 0 | Some p \<Rightarrow> p)
                  (case map_of (m_pendingSeq m) jobID of None \<Rightarrow> 0 | Some s \<Rightarrow> s) m) m order
      in (if m_pending m1 \<noteq> [] then signalLocked m1 else m1)\<lparr>m_promoted := True\<rparr>)"

definition pushPendingLocked :: "string \<Rightarrow> int \<Rightarrow> manager \<Rightarrow> manager" where
  "pushPendingLocked jobID priority m =
     (let s = m_sequence m + 1;
          m1 = m\<lparr>m_sequence := s, m_pendingPrio := AList.update jobID priority (m_pendingPrio m),
                 m_pendingSeq := AList.update jobID s (m_pendingSeq m)\<rparr>
      in compactQueueLocked (queue_push jobID priority s m1))"

text \<open>The dispatcher: the jobs it starts, in order, and the state afterwards.\<close>

definition launch_item :: "queueItem \<Rightarrow> manager \<Rightarrow> manager" where
  "launch_item item m =
     (let m1 = drop_pending (qi_jobID item) m in
      m1\<lparr>m_active := m_active m1 @ [qi_jobID item],
         m_controls := AList.update (qi_jobID item) new_control (m_controls m1)\<rparr>)"

function launchQueuedJobs :: "manager \<Rightarrow> string list \<times> manager" where
  "launchQueuedJobs m =
     (if m_queuePaused m \<or> length (m_active m) \<ge> m_maxActiveFiles m \<or> m_queue m = [] then ([], m)
      else
        (let (item, q) = heap_Pop jobQueue_Less (m_queue m);
             m1 = m\<lparr>m_queue := q\<rparr>
         in if map_of (m_pendingSeq m1) (qi_jobID item) \<noteq> Some (qi_sequence item) then launchQueuedJobs m1
            else (let (started, m2) = launchQueuedJobs (launch_item item m1) in (qi_jobID item # started, m2))))"
  by pat_completeness auto

lemma launch_item_queue [simp]: "m_queue (launch_item item m) = m_queue m"
  by (simp add: launch_item_def drop_pending_def Let_def)

termination launchQueuedJobs
  by (relation "measure (\<lambda>m. length (m_queue m))") (auto, metis heap_Pop_length snd_conv, metis heap_Pop_length snd_conv)

declare launchQueuedJobs.simps [simp del]

definition cancel_control :: "jobControl \<Rightarrow> jobControl" where
  "cancel_control c = c\<lparr>ctx_cancelled := True\<rparr>"

definition stopActiveJobs :: "manager \<Rightarrow> manager" where
  "stopActiveJobs m = m\<lparr>m_controls := map (\<lambda>(k, c). (k, cancel_control c)) (m_controls m)\<rparr>"

definition finishShutdown :: "manager \<Rightarrow> manager" where
  "finishShutdown m =
     m\<lparr>m_active := filter (\<lambda>j. j \<notin> fst ` set (m_controls m)) (m_active m), m_controls := []\<rparr>"

text \<open>\<^verbatim>\<open>finishJob\<close> takes the lock twice and cancels the persisted job in between. The first part
  yields what the second needs: whether to cancel, with which flag, and whether to requeue.\<close>

definition finishJob_first :: "string \<Rightarrow> manager \<Rightarrow> (bool \<times> bool \<times> bool) option \<times> manager" where
  "finishJob_first jobID m =
     (case map_of (m_controls m) jobID of
        None \<Rightarrow> (None, m)
      | Some c \<Rightarrow>
          (let individuallyPaused = pauseRequested c;
               queued = queuePauseRequested c \<and> \<not> cancelRequested c \<and> \<not> individuallyPaused;
               m1 = (if queued \<and> m_queuePaused m \<and> jobID \<notin> set (m_queuePausedIDs m)
                     then m\<lparr>m_queuePausedIDs := m_queuePausedIDs m @ [jobID]\<rparr> else m)
           in (Some (cancelRequested c, deletePartialFiles c, queued \<and> \<not> m_queuePaused m), m1)))"

definition finishJob_second :: "string \<Rightarrow> bool \<Rightarrow> manager \<Rightarrow> manager" where
  "finishJob_second jobID requeue m =
     (let m1 = m\<lparr>m_active := removeAll jobID (m_active m), m_controls := AList.delete jobID (m_controls m)\<rparr>;
          m2 = (if requeue
                then pushPendingLocked jobID 0
                       (m1\<lparr>m_pending := (if jobID \<in> set (m_pending m1) then m_pending m1 else m_pending m1 @ [jobID])\<rparr>)
                else m1)
      in signalLocked m2)"

definition RunJob_enter :: "string \<Rightarrow> manager \<Rightarrow> queue_error option \<times> manager" where
  "RunJob_enter jobID m =
     (if m_closed m then (Some ErrClosedManager, m)
      else if jobID \<in> set (m_active m) then (Some ErrAlreadyRunning, m)
      else if jobID \<in> set (m_pending m) then (Some ErrAlreadyQueued, m)
      else if length (m_active m) \<ge> m_maxActiveFiles m then (Some ErrActiveLimit, m)
      else (None, m\<lparr>m_active := m_active m @ [jobID]\<rparr>))"

definition RunJob_leave :: "string \<Rightarrow> manager \<Rightarrow> manager" where
  "RunJob_leave jobID m = signalLocked (m\<lparr>m_active := removeAll jobID (m_active m)\<rparr>)"

text \<open>The part of \<^verbatim>\<open>Start\<close> before and after recovery; \<^verbatim>\<open>abort\<close> when recovery or the listing failed.\<close>

definition Start_enter :: "manager \<Rightarrow> queue_error option \<times> manager" where
  "Start_enter m =
     (if m_closed m then (Some ErrClosedManager, m)
      else if m_started m then (None, m)
      else (None, m\<lparr>m_started := True, m_ctx_done := False, m_wake := Some False\<rparr>))"

definition Start_abort :: "manager \<Rightarrow> manager" where
  "Start_abort m = m\<lparr>m_started := False, m_ctx_done := True\<rparr>"

definition CloseContext :: "manager \<Rightarrow> manager" where
  "CloseContext m = (if m_closed m then m else m\<lparr>m_closed := True, m_ctx_done := m_started m \<or> m_ctx_done m\<rparr>)"

text \<open>The queue part of \<^verbatim>\<open>PauseJob\<close>: \<open>True\<close> when a running job was asked to stop.\<close>

definition PauseJob_queue :: "string \<Rightarrow> manager \<Rightarrow> bool \<times> manager" where
  "PauseJob_queue jobID m =
     (let m1 = m\<lparr>m_queuePausedIDs := removeAll jobID (m_queuePausedIDs m)\<rparr> in
      case map_of (m_controls m1) jobID of
        Some c \<Rightarrow> (True, m1\<lparr>m_controls := AList.update jobID (cancel_control (c\<lparr>pauseRequested := True\<rparr>)) (m_controls m1)\<rparr>)
      | None \<Rightarrow> (False, compactQueueLocked (drop_pending jobID m1)))"

definition CancelJob_queue :: "string \<Rightarrow> bool \<Rightarrow> manager \<Rightarrow> bool \<times> manager" where
  "CancelJob_queue jobID deletePartial m =
     (case map_of (m_controls m) jobID of
        Some c \<Rightarrow> (True, m\<lparr>m_controls := AList.update jobID
                      (cancel_control (c\<lparr>cancelRequested := True, deletePartialFiles := deletePartial\<rparr>)) (m_controls m)\<rparr>)
      | None \<Rightarrow> (False, drop_pending jobID m))"

definition DeleteJob_queue :: "string \<Rightarrow> manager \<Rightarrow> manager" where
  "DeleteJob_queue jobID m = compactQueueLocked (drop_pending jobID m)"

definition PauseQueue :: "manager \<Rightarrow> manager" where
  "PauseQueue m =
     signalLocked (m\<lparr>m_queuePaused := True,
       m_controls := map (\<lambda>(k, c). (k, cancel_control (c\<lparr>queuePauseRequested := True\<rparr>))) (m_controls m)\<rparr>)"

definition requeue_paused :: "manager \<Rightarrow> string \<Rightarrow> manager" where
  "requeue_paused m jobID =
     (let m1 = (if jobID \<notin> set (m_active m) \<and> jobID \<notin> set (m_pending m)
                then pushPendingLocked jobID 0 (m\<lparr>m_pending := m_pending m @ [jobID]\<rparr>) else m)
      in m1\<lparr>m_queuePausedIDs := removeAll jobID (m_queuePausedIDs m1)\<rparr>)"

definition ResumeQueue :: "string list \<Rightarrow> manager \<Rightarrow> manager" where
  "ResumeQueue order m = signalLocked (foldl requeue_paused (m\<lparr>m_queuePaused := False\<rparr>) order)"

section \<open>The dispatcher as a state machine\<close>

inductive queue_step :: "manager \<Rightarrow> manager \<Rightarrow> bool" where
  start_job: "(e, m') = StartJobWithPriority lookup_ok j p m \<Longrightarrow> queue_step m m'"
| start: "(e, m') = Start_enter m \<Longrightarrow> queue_step m m'"
| abort: "\<not> m_promoted m \<Longrightarrow> queue_step m (Start_abort m)"
| promote: "m_started m \<Longrightarrow> set order = set (m_pending m) \<Longrightarrow> queue_step m (promotePendingLocked order m)"
| launch: "(js, m') = launchQueuedJobs m \<Longrightarrow> queue_step m m'"
| finish1: "(r, m') = finishJob_first j m \<Longrightarrow> queue_step m m'"
| finish2: "j \<in> fst ` set (m_controls m) \<Longrightarrow> queue_step m (finishJob_second j requeue m)"
| run_enter: "(e, m') = RunJob_enter j m \<Longrightarrow> queue_step m m'"
| run_leave: "j \<notin> fst ` set (m_controls m) \<Longrightarrow> queue_step m (RunJob_leave j m)"
| stop: "queue_step m (stopActiveJobs m)"
| shutdown: "queue_step m (finishShutdown m)"
| close: "queue_step m (CloseContext m)"
| pause_job: "(b, m') = PauseJob_queue j m \<Longrightarrow> queue_step m m'"
| cancel_job: "(b, m') = CancelJob_queue j del m \<Longrightarrow> queue_step m m'"
| delete_job: "queue_step m (DeleteJob_queue j m)"
| pause_queue: "queue_step m (PauseQueue m)"
| resume_queue: "set order = set (m_queuePausedIDs m) \<Longrightarrow> queue_step m (ResumeQueue order m)"

inductive_cases queue_stepE: "queue_step m m'"

section \<open>Invariant\<close>

text \<open>The three pending maps have the same keys and sequence numbers are distinct.\<close>

definition keys_inv :: "manager \<Rightarrow> bool" where
  "keys_inv m \<longleftrightarrow> distinct (m_pending m) \<and>
     fst ` set (m_pendingSeq m) = set (m_pending m) \<and> fst ` set (m_pendingPrio m) = set (m_pending m) \<and>
     distinct (map fst (m_pendingSeq m)) \<and> distinct (map fst (m_pendingPrio m)) \<and>
     (\<forall>j s. map_of (m_pendingSeq m) j = Some s \<longrightarrow> s \<le> m_sequence m) \<and>
     (\<forall>j j' s. map_of (m_pendingSeq m) j = Some s \<and> map_of (m_pendingSeq m) j' = Some s \<longrightarrow> j = j')"

definition live :: "manager \<Rightarrow> queueItem \<Rightarrow> bool" where
  "live m it \<longleftrightarrow> map_of (m_pendingSeq m) (qi_jobID it) = Some (qi_sequence it)"

text \<open>The queue is a heap, and once the dispatcher runs every pending job has a live entry in it.\<close>

definition live_inv :: "manager \<Rightarrow> bool" where
  "live_inv m \<longleftrightarrow> is_heap jobQueue_Less (m_queue m) \<and> (m_promoted m \<longrightarrow> m_started m) \<and>
     (m_promoted m \<longrightarrow> (\<forall>j\<in>set (m_pending m). \<exists>it\<in>set (m_queue m). qi_jobID it = j \<and> live m it))"

definition active_inv :: "manager \<Rightarrow> bool" where
  "active_inv m \<longleftrightarrow> distinct (m_active m) \<and> set (m_pending m) \<inter> set (m_active m) = {} \<and>
     length (m_active m) \<le> m_maxActiveFiles m \<and>
     fst ` set (m_controls m) \<subseteq> set (m_active m) \<and> distinct (map fst (m_controls m))"

definition queue_inv :: "manager \<Rightarrow> bool" where
  "queue_inv m \<longleftrightarrow> keys_inv m \<and> live_inv m \<and> active_inv m"

lemmas queue_inv_defs = queue_inv_def keys_inv_def live_inv_def active_inv_def live_def

text \<open>Each part depends on some fields only.\<close>

lemma keys_inv_frame [simp]:
  "keys_inv (m\<lparr>m_controls := c\<rparr>) = keys_inv m" "keys_inv (m\<lparr>m_active := a\<rparr>) = keys_inv m"
  "keys_inv (m\<lparr>m_queue := q\<rparr>) = keys_inv m" "keys_inv (m\<lparr>m_queuePausedIDs := ids\<rparr>) = keys_inv m"
  "keys_inv (m\<lparr>m_queuePaused := b\<rparr>) = keys_inv m" "keys_inv (m\<lparr>m_closed := b\<rparr>) = keys_inv m"
  "keys_inv (m\<lparr>m_ctx_done := b\<rparr>) = keys_inv m" "keys_inv (m\<lparr>m_wake := w\<rparr>) = keys_inv m"
  "keys_inv (m\<lparr>m_started := b\<rparr>) = keys_inv m" "keys_inv (m\<lparr>m_promoted := b\<rparr>) = keys_inv m"
  by (simp_all add: keys_inv_def)

lemma active_inv_frame [simp]:
  "active_inv (m\<lparr>m_queue := q\<rparr>) = active_inv m" "active_inv (m\<lparr>m_queuePausedIDs := ids\<rparr>) = active_inv m"
  "active_inv (m\<lparr>m_queuePaused := b\<rparr>) = active_inv m" "active_inv (m\<lparr>m_closed := b\<rparr>) = active_inv m"
  "active_inv (m\<lparr>m_ctx_done := b\<rparr>) = active_inv m" "active_inv (m\<lparr>m_wake := w\<rparr>) = active_inv m"
  "active_inv (m\<lparr>m_started := b\<rparr>) = active_inv m" "active_inv (m\<lparr>m_promoted := b\<rparr>) = active_inv m"
  by (simp_all add: active_inv_def)

lemma live_frame [simp]:
  "live (m\<lparr>m_controls := c\<rparr>) = live m" "live (m\<lparr>m_active := a\<rparr>) = live m" "live (m\<lparr>m_queue := q\<rparr>) = live m"
  "live (m\<lparr>m_queuePausedIDs := ids\<rparr>) = live m" "live (m\<lparr>m_queuePaused := b\<rparr>) = live m"
  "live (m\<lparr>m_closed := b\<rparr>) = live m" "live (m\<lparr>m_ctx_done := b\<rparr>) = live m" "live (m\<lparr>m_wake := w\<rparr>) = live m"
  "live (m\<lparr>m_started := b\<rparr>) = live m" "live (m\<lparr>m_promoted := b\<rparr>) = live m"
  by (simp_all add: live_def fun_eq_iff)

lemma live_inv_frame [simp]:
  "live_inv (m\<lparr>m_controls := c\<rparr>) = live_inv m" "live_inv (m\<lparr>m_active := a\<rparr>) = live_inv m"
  "live_inv (m\<lparr>m_queuePausedIDs := ids\<rparr>) = live_inv m" "live_inv (m\<lparr>m_queuePaused := b\<rparr>) = live_inv m"
  "live_inv (m\<lparr>m_closed := b\<rparr>) = live_inv m" "live_inv (m\<lparr>m_ctx_done := b\<rparr>) = live_inv m"
  "live_inv (m\<lparr>m_wake := w\<rparr>) = live_inv m"
  by (simp_all add: live_inv_def)

lemma queue_inv_signal [simp]: "queue_inv (signalLocked m) = queue_inv m"
  by (simp add: queue_inv_def signalLocked_def)

lemma set_heap_Push: "is_heap jobQueue_Less q \<Longrightarrow> set (heap_Push jobQueue_Less x q) = insert x (set q)"
  using jq.push_items [of q x] by (metis set_mset_add_mset_insert set_mset_mset)

lemma set_heap_Init: "set (heap_Init jobQueue_Less q) = set q" "is_heap jobQueue_Less (heap_Init jobQueue_Less q)"
  using heap_Init_correct [OF jobQueue_order, of q] by (metis set_mset_mset)+

lemma queue_inv_compact: "queue_inv m \<Longrightarrow> queue_inv (compactQueueLocked m)"
  by (auto simp: compactQueueLocked_def queue_inv_def live_inv_def set_heap_Init live_def)

lemma queue_inv_push: "queue_inv m \<Longrightarrow> queue_inv (queue_push j p s m)"
  by (auto simp: queue_push_def queue_inv_def live_inv_def set_heap_Push jq.push_valid)

lemma map_of_AList_delete: "map_of (AList.delete k al) k' = (if k' = k then None else map_of al k')"
  by (simp add: delete_conv')

lemma fst_AList_delete: "fst ` set (AList.delete k al) = fst ` set al - {k}"
  using arg_cong [OF delete_keys [of k al], of set] by simp

lemma fst_AList_update: "fst ` set (AList.update k v al) = insert k (fst ` set al)"
  by (simp add: dom_update)

lemma distinct_fst_delete: "distinct (map fst al) \<Longrightarrow> distinct (map fst (AList.delete k al))"
  by (rule distinct_delete)

lemma distinct_fst_update: "distinct (map fst al) \<Longrightarrow> distinct (map fst (AList.update k v al))"
  by (rule distinct_update)

lemmas alist_simps = map_of_AList_delete fst_AList_delete fst_AList_update update_conv'
  distinct_fst_delete distinct_fst_update

lemma queue_inv_drop_pending: "queue_inv m \<Longrightarrow> queue_inv (drop_pending j m)"
proof -
  assume m: "queue_inv m"
  have "keys_inv (drop_pending j m)"
    using m unfolding queue_inv_def keys_inv_def drop_pending_def
    by (auto simp: alist_simps distinct_removeAll)
  moreover have "live_inv (drop_pending j m)"
    using m unfolding queue_inv_def live_inv_def drop_pending_def live_def by (auto simp: alist_simps)
  moreover have "active_inv (drop_pending j m)"
    using m unfolding queue_inv_def active_inv_def drop_pending_def by auto
  ultimately show ?thesis by (simp add: queue_inv_def)
qed

text \<open>Registering a job that is neither pending nor active, with the next sequence number.\<close>

definition register :: "string \<Rightarrow> int \<Rightarrow> manager \<Rightarrow> manager" where
  "register j p m =
     m\<lparr>m_pending := m_pending m @ [j], m_pendingPrio := AList.update j p (m_pendingPrio m),
       m_sequence := m_sequence m + 1, m_pendingSeq := AList.update j (m_sequence m + 1) (m_pendingSeq m)\<rparr>"

lemma keys_inv_register: "keys_inv m \<Longrightarrow> j \<notin> set (m_pending m) \<Longrightarrow> keys_inv (register j p m)"
proof -
  assume m: "keys_inv m" and j: "j \<notin> set (m_pending m)"
  have le: "map_of (m_pendingSeq m) i = Some s \<Longrightarrow> s \<le> m_sequence m" for i s
    using m by (auto simp: keys_inv_def)
  have inj: "map_of (m_pendingSeq m) i = Some s \<Longrightarrow> map_of (m_pendingSeq m) i' = Some s \<Longrightarrow> i = i'" for i i' s
    using m unfolding keys_inv_def by blast
  show ?thesis
    using m j le inj unfolding keys_inv_def register_def
    by (auto simp: alist_simps split: if_splits dest: le) (fastforce dest: le)+
qed

lemma active_inv_register: "active_inv m \<Longrightarrow> j \<notin> set (m_active m) \<Longrightarrow> active_inv (register j p m)"
  by (auto simp: active_inv_def register_def)

lemma queue_inv_register_push:
  assumes "queue_inv m" and "j \<notin> set (m_pending m)" and "j \<notin> set (m_active m)"
  shows "queue_inv (queue_push j p (m_sequence m + 1) (register j p m))"
proof -
  let ?m = "queue_push j p (m_sequence m + 1) (register j p m)"
  let ?it = "\<lparr>qi_jobID = j, qi_priority = p, qi_sequence = m_sequence m + 1\<rparr>"
  have heap: "is_heap jobQueue_Less (m_queue m)" using assms(1) by (simp add: queue_inv_def live_inv_def)
  have q: "set (m_queue ?m) = insert ?it (set (m_queue m))" "is_heap jobQueue_Less (m_queue ?m)"
    using heap by (simp_all add: queue_push_def register_def set_heap_Push jq.push_valid)
  have "keys_inv ?m" using keys_inv_register [OF _ assms(2)] assms(1)
    by (simp add: queue_inv_def queue_push_def keys_inv_def)
  moreover have "active_inv ?m" using active_inv_register [OF _ assms(3)] assms(1)
    by (simp add: queue_inv_def queue_push_def active_inv_def)
  moreover have "live_inv ?m"
    using assms(1,2) q unfolding queue_inv_def live_inv_def live_def
    by (auto simp: queue_push_def register_def alist_simps)
  ultimately show ?thesis by (simp add: queue_inv_def)
qed

lemma pushPending_register:
  "pushPendingLocked j p (m\<lparr>m_pending := m_pending m @ [j]\<rparr>) =
     compactQueueLocked (queue_push j p (m_sequence m + 1) (register j p m))"
proof -
  have "m\<lparr>m_pending := m_pending m @ [j]\<rparr>\<lparr>m_sequence := m_sequence m + 1,
      m_pendingPrio := AList.update j p (m_pendingPrio m),
      m_pendingSeq := AList.update j (m_sequence m + 1) (m_pendingSeq m)\<rparr> = register j p m"
    unfolding register_def by (rule manager.equality) simp_all
  then show ?thesis by (simp add: pushPendingLocked_def Let_def)
qed

lemma queue_inv_start_job:
  assumes "queue_inv m" and "(e, m') = StartJobWithPriority ok j p m"
  shows "queue_inv m'"
proof (cases "m' = m")
  case False
  then have j: "j \<notin> set (m_pending m)" "j \<notin> set (m_active m)"
    and m': "m' = (if m_started m then signalLocked (compactQueueLocked (queue_push j p (m_sequence m + 1) (register j p m)))
                   else register j p m)"
    using assms(2) by (auto simp: StartJobWithPriority_def register_def Let_def split: if_splits)
  show ?thesis
  proof (cases "m_started m")
    case True
    then show ?thesis using m' queue_inv_compact [OF queue_inv_register_push [OF assms(1) j]] by simp
  next
    case nst: False
    then have "\<not> m_promoted m" using assms(1) by (auto simp: queue_inv_def live_inv_def)
    then have "live_inv (register j p m)"
      using assms(1) by (simp add: queue_inv_def live_inv_def register_def)
    then show ?thesis
      using m' nst keys_inv_register [OF _ j(1)] active_inv_register [OF _ j(2)] assms(1)
      by (simp add: queue_inv_def)
  qed
qed (use assms(1) in simp)

lemma queue_inv_controls:
  assumes "queue_inv m" and "fst ` set cs \<subseteq> set (m_active m)" and "distinct (map fst cs)"
  shows "queue_inv (m\<lparr>m_controls := cs\<rparr>)"
  using assms by (simp add: queue_inv_def active_inv_def)

lemma queue_inv_finish2:
  assumes "queue_inv m" and "j \<in> fst ` set (m_controls m)"
  shows "queue_inv (finishJob_second j requeue m)"
proof -
  let ?m = "m\<lparr>m_active := removeAll j (m_active m), m_controls := AList.delete j (m_controls m)\<rparr>"
  have j: "j \<in> set (m_active m)" "j \<notin> set (m_pending m)" using assms by (auto simp: queue_inv_def active_inv_def)
  have len: "length (removeAll j (m_active m)) \<le> length (m_active m)" by (simp add: length_removeAll_less_eq)
  have m: "queue_inv ?m"
    using assms(1) by (auto simp: queue_inv_def active_inv_def alist_simps distinct_removeAll intro: le_trans [OF len])
  show ?thesis
  proof (cases requeue)
    case True
    have "queue_inv (compactQueueLocked (queue_push j 0 (m_sequence ?m + 1) (register j 0 ?m)))"
      using queue_inv_compact [OF queue_inv_register_push [OF m]] j by simp
    then show ?thesis
      using True j pushPending_register [of j 0 ?m] by (simp add: finishJob_second_def Let_def)
  next
    case False
    then show ?thesis using m by (simp add: finishJob_second_def Let_def)
  qed
qed

lemma queue_inv_requeue_paused: "queue_inv m \<Longrightarrow> queue_inv (requeue_paused m j)"
proof -
  assume m: "queue_inv m"
  have p: "queue_inv (x\<lparr>m_queuePausedIDs := ids\<rparr>)" if "queue_inv x" for x ids
    using that by (simp add: queue_inv_def)
  show ?thesis
  proof (cases "j \<notin> set (m_active m) \<and> j \<notin> set (m_pending m)")
    case True
    then have "queue_inv (compactQueueLocked (queue_push j 0 (m_sequence m + 1) (register j 0 m)))"
      using queue_inv_compact [OF queue_inv_register_push [OF m]] by simp
    with True p show ?thesis
      using pushPending_register [of j 0 m] by (simp add: requeue_paused_def Let_def)
  next
    case False
    with m p show ?thesis by (simp only: requeue_paused_def Let_def if_False)
  qed
qed

lemma queue_inv_launch_item:
  assumes "queue_inv m" and "live m it" and "length (m_active m) < m_maxActiveFiles m"
  shows "queue_inv (launch_item it m)"
proof -
  let ?j = "qi_jobID it" and ?m = "drop_pending (qi_jobID it) m"
  have "?j \<in> fst ` set (m_pendingSeq m)"
    using assms(2) by (metis domI dom_map_of_conv_image_fst live_def)
  then have "?j \<in> set (m_pending m)"
    using assms(1) by (simp add: queue_inv_def keys_inv_def)
  then have j: "?j \<notin> set (m_active m)" using assms(1) by (auto simp: queue_inv_def active_inv_def)
  have m: "queue_inv ?m" by (rule queue_inv_drop_pending [OF assms(1)])
  have same: "m_active ?m = m_active m" "m_controls ?m = m_controls m" "m_maxActiveFiles ?m = m_maxActiveFiles m"
    "?j \<notin> set (m_pending ?m)"
    by (simp_all add: drop_pending_def)
  have "active_inv (launch_item it m)"
    using m j assms(3) same unfolding queue_inv_def active_inv_def launch_item_def Let_def
    by (auto simp: alist_simps)
  moreover have "keys_inv (launch_item it m)" "live_inv (launch_item it m)"
    using m by (simp_all add: queue_inv_def launch_item_def Let_def)
  ultimately show ?thesis by (simp add: queue_inv_def)
qed

lemma queue_inv_pop_stale:
  assumes "queue_inv m" and "m_queue m \<noteq> []" and "heap_Pop jobQueue_Less (m_queue m) = (it, q)"
  shows "is_heap jobQueue_Less q" and "set (m_queue m) = insert it (set q)"
    and "\<not> live m it \<Longrightarrow> queue_inv (m\<lparr>m_queue := q\<rparr>)"
proof -
  have h: "is_heap jobQueue_Less (m_queue m)" "mset (m_queue m) \<noteq> {#}"
    using assms(1,2) by (auto simp: queue_inv_def live_inv_def)
  show q: "is_heap jobQueue_Less q" using jq.pop_valid [OF h] assms(3) by simp
  show s: "set (m_queue m) = insert it (set q)"
    using jq.pop_items [OF h] assms(3) by (metis fst_conv set_mset_add_mset_insert set_mset_mset snd_conv)
  show "queue_inv (m\<lparr>m_queue := q\<rparr>)" if "\<not> live m it"
    using assms(1) q s that by (auto simp: queue_inv_def live_inv_def)
qed

lemma launch_pop:
  assumes "queue_inv m" and "m_queue m \<noteq> []" and "heap_Pop jobQueue_Less (m_queue m) = (it, q)"
    and "live m it" and "length (m_active m) < m_maxActiveFiles m"
  shows "queue_inv (launch_item it (m\<lparr>m_queue := q\<rparr>))"
proof -
  have "queue_inv (launch_item it m)" by (rule queue_inv_launch_item [OF assms(1,4,5)])
  moreover have "\<not> live (launch_item it m) it"
    by (simp add: live_def launch_item_def drop_pending_def Let_def map_of_AList_delete)
  ultimately have "queue_inv ((launch_item it m)\<lparr>m_queue := q\<rparr>)"
    using queue_inv_pop_stale(3) [of "launch_item it m" it q] assms(2,3) by simp
  moreover have "launch_item it (m\<lparr>m_queue := q\<rparr>) = (launch_item it m)\<lparr>m_queue := q\<rparr>"
    by (simp add: launch_item_def drop_pending_def Let_def)
  ultimately show ?thesis by simp
qed

lemma queue_inv_launch:
  "queue_inv m \<Longrightarrow> launchQueuedJobs m = (js, m') \<Longrightarrow>
     queue_inv m' \<and> m_active m' = m_active m @ js \<and> set js \<subseteq> set (m_pending m) \<and>
     set (m_pending m') = set (m_pending m) - set js \<and> m_promoted m' = m_promoted m \<and>
     m_maxActiveFiles m' = m_maxActiveFiles m \<and> m_queuePaused m' = m_queuePaused m \<and>
     (m_queuePaused m' \<or> length (m_active m') \<ge> m_maxActiveFiles m' \<or> m_queue m' = [])"
proof (induction m arbitrary: js m' rule: launchQueuedJobs.induct)
  case (1 m)
  show ?case
  proof (cases "m_queuePaused m \<or> length (m_active m) \<ge> m_maxActiveFiles m \<or> m_queue m = []")
    case True
    then show ?thesis using "1.prems" by (subst (asm) launchQueuedJobs.simps) auto
  next
    case False
    obtain it q where pop: "heap_Pop jobQueue_Less (m_queue m) = (it, q)" by (metis surj_pair)
    let ?m1 = "m\<lparr>m_queue := q\<rparr>"
    note P = queue_inv_pop_stale [OF "1.prems"(1) _ pop]
    show ?thesis
    proof (cases "map_of (m_pendingSeq ?m1) (qi_jobID it) = Some (qi_sequence it)")
      case stale: False
      then have eq: "launchQueuedJobs m = launchQueuedJobs ?m1"
        using False pop by (subst launchQueuedJobs.simps) (simp add: Let_def)
      have "queue_inv ?m1" using P(3) False stale by (auto simp: live_def)
      from "1.IH"(1) [OF False pop [symmetric] refl refl stale this, of js m'] eq "1.prems"(2) show ?thesis by auto
    next
      case liv: True
      let ?l = "launch_item it ?m1"
      obtain js' m2 where rest: "launchQueuedJobs ?l = (js', m2)" by (metis surj_pair)
      have out: "js = qi_jobID it # js'" "m' = m2"
        using False pop liv rest "1.prems"(2) by (auto simp: launchQueuedJobs.simps [of m] Let_def)
      have lv: "live m it" using liv by (simp add: live_def)
      have inv: "queue_inv ?l" using launch_pop [OF "1.prems"(1) _ pop lv] False by simp
      have "qi_jobID it \<in> fst ` set (m_pendingSeq m)"
        using lv by (metis domI dom_map_of_conv_image_fst live_def)
      then have p: "qi_jobID it \<in> set (m_pending m)"
        using "1.prems"(1) by (simp add: queue_inv_def keys_inv_def)
      have fields: "m_active ?l = m_active m @ [qi_jobID it]" "set (m_pending ?l) = set (m_pending m) - {qi_jobID it}"
        "m_promoted ?l = m_promoted m" "m_maxActiveFiles ?l = m_maxActiveFiles m" "m_queuePaused ?l = m_queuePaused m"
        by (auto simp: launch_item_def drop_pending_def Let_def)
      have "\<not> map_of (m_pendingSeq ?m1) (qi_jobID it) \<noteq> Some (qi_sequence it)" using liv by simp
      from "1.IH"(2) [OF False pop [symmetric] refl refl this inv rest]
      show ?thesis using out fields p by auto
    qed
  qed
qed

lemma queue_inv_promote:
  assumes "queue_inv m" and "m_started m" and "set order = set (m_pending m)"
  shows "queue_inv (promotePendingLocked order m)"
proof -
  let ?f = "\<lambda>m jobID. queue_push jobID
                  (case map_of (m_pendingPrio m) jobID of None \<Rightarrow> 0 | Some p \<Rightarrow> p)
                  (case map_of (m_pendingSeq m) jobID of None \<Rightarrow> 0 | Some s \<Rightarrow> s) m"
  define m1 where "m1 = foldl ?f m order"
  have fold: "queue_inv (foldl ?f m order) \<and> m_pending (foldl ?f m order) = m_pending m \<and>
      m_pendingSeq (foldl ?f m order) = m_pendingSeq m \<and> m_started (foldl ?f m order) = m_started m \<and>
      set (m_queue m) \<subseteq> set (m_queue (foldl ?f m order)) \<and>
      (\<forall>j\<in>set order. \<forall>s. map_of (m_pendingSeq m) j = Some s \<longrightarrow>
         (\<exists>it\<in>set (m_queue (foldl ?f m order)). qi_jobID it = j \<and> qi_sequence it = s))"
    if "queue_inv m" for m order
    using that
  proof (induction order arbitrary: m)
    case Nil
    then show ?case by simp
  next
    case (Cons j order)
    let ?p = "case map_of (m_pendingPrio m) j of None \<Rightarrow> 0 | Some p \<Rightarrow> p"
    let ?s = "case map_of (m_pendingSeq m) j of None \<Rightarrow> 0 | Some s \<Rightarrow> s"
    let ?m = "queue_push j ?p ?s m"
    have h: "is_heap jobQueue_Less (m_queue m)" using Cons.prems by (simp add: queue_inv_def live_inv_def)
    have q: "set (m_queue ?m) = insert \<lparr>qi_jobID = j, qi_priority = ?p, qi_sequence = ?s\<rparr> (set (m_queue m))"
      using set_heap_Push [OF h] by (simp add: queue_push_def)
    have same: "m_pending ?m = m_pending m" "m_pendingSeq ?m = m_pendingSeq m" "m_started ?m = m_started m"
      by (simp_all add: queue_push_def)
    note IH = Cons.IH [OF queue_inv_push [OF Cons.prems]]
    have "\<exists>it\<in>set (m_queue (foldl ?f ?m order)). qi_jobID it = j \<and> qi_sequence it = s"
      if "map_of (m_pendingSeq m) j = Some s" for s
      using IH [of j ?p ?s] q that by (intro bexI [of _ "\<lparr>qi_jobID = j, qi_priority = ?p, qi_sequence = s\<rparr>"]) auto
    with IH [of j ?p ?s] q same show ?case by auto
  qed
  have m1: "queue_inv m1" "m_pending m1 = m_pending m" "m_pendingSeq m1 = m_pendingSeq m" "m_started m1 = m_started m"
    "\<forall>j\<in>set order. \<forall>s. map_of (m_pendingSeq m) j = Some s \<longrightarrow> (\<exists>it\<in>set (m_queue m1). qi_jobID it = j \<and> qi_sequence it = s)"
    using fold [OF assms(1), of order] unfolding m1_def by blast+
  have "\<exists>it\<in>set (m_queue m1). qi_jobID it = j \<and> live m1 it" if "j \<in> set (m_pending m1)" for j
  proof -
    have "j \<in> fst ` set (m_pendingSeq m)" using that m1(2) assms(1) by (simp add: queue_inv_def keys_inv_def)
    then obtain s where s: "map_of (m_pendingSeq m) j = Some s" by (metis domD dom_map_of_conv_image_fst)
    have "j \<in> set order" using that m1(2) assms(3) by simp
    with m1(5) s obtain it where "it \<in> set (m_queue m1)" "qi_jobID it = j" "qi_sequence it = s" by blast
    then show ?thesis using s m1(3) by (auto simp: live_def)
  qed
  then have "queue_inv (m1\<lparr>m_promoted := True\<rparr>)"
    using m1(1,4) assms(2) by (simp add: queue_inv_def live_inv_def)
  moreover have "promotePendingLocked order m = m1\<lparr>m_promoted := True\<rparr> \<or>
      promotePendingLocked order m = (signalLocked m1)\<lparr>m_promoted := True\<rparr>"
    by (simp add: promotePendingLocked_def m1_def Let_def)
  moreover have "(signalLocked m1)\<lparr>m_promoted := True\<rparr> = signalLocked (m1\<lparr>m_promoted := True\<rparr>)"
    by (simp add: signalLocked_def)
  ultimately show ?thesis by auto
qed

lemma map_cancel_fst [simp]: "map (fst \<circ> (\<lambda>(k, c). (k, f c))) cs = map fst cs"
  by auto

lemma map_cancel_set [simp]: "fst ` (\<lambda>(k, c). (k, f c)) ` A = fst ` A"
  by force

lemma queue_step_inv: "queue_step m m' \<Longrightarrow> queue_inv m \<Longrightarrow> queue_inv m'"
proof (induction rule: queue_step.induct)
  case (start_job e m' ok j p m)
  then show ?case using queue_inv_start_job by blast
next
  case (start e m' m)
  then show ?case
    by (auto simp: Start_enter_def queue_inv_def live_inv_def split: if_splits)
next
  case (abort m)
  then show ?case by (simp add: Start_abort_def queue_inv_def live_inv_def)
next
  case (promote m order)
  then show ?case using queue_inv_promote by blast
next
  case (launch js m' m)
  then show ?case using queue_inv_launch by metis
next
  case (finish1 r m' j m)
  then show ?case
    by (auto simp: finishJob_first_def Let_def queue_inv_def split: option.splits if_splits)
next
  case (finish2 j m requeue)
  then show ?case using queue_inv_finish2 by blast
next
  case (run_enter e m' j m)
  then show ?case
    by (auto simp: RunJob_enter_def queue_inv_def active_inv_def split: if_splits)
next
  case (run_leave j m)
  have "queue_inv (m\<lparr>m_active := removeAll j (m_active m)\<rparr>)"
    using run_leave by (auto simp: queue_inv_def active_inv_def distinct_removeAll
        intro: le_trans [OF length_removeAll_less_eq])
  then show ?case by (simp add: RunJob_leave_def)
next
  case (stop m)
  then show ?case by (simp add: stopActiveJobs_def queue_inv_def active_inv_def)
next
  case (shutdown m)
  then show ?case
    by (auto simp: finishShutdown_def queue_inv_def active_inv_def intro: le_trans [OF length_filter_le])
next
  case (close m)
  then show ?case by (simp add: CloseContext_def queue_inv_def)
next
  case (pause_job b m' j m)
  let ?m = "m\<lparr>m_queuePausedIDs := removeAll j (m_queuePausedIDs m)\<rparr>"
  have m: "queue_inv ?m" using pause_job(2) by (simp add: queue_inv_def)
  show ?case
  proof (cases "map_of (m_controls m) j")
    case None
    then show ?thesis
      using pause_job(1) queue_inv_compact [OF queue_inv_drop_pending [OF m]] by (simp add: PauseJob_queue_def)
  next
    case (Some c)
    then have "j \<in> fst ` set (m_controls m)" by (metis domI dom_map_of_conv_image_fst)
    with Some pause_job show ?thesis
      by (auto simp: PauseJob_queue_def queue_inv_def active_inv_def alist_simps)
  qed
next
  case (cancel_job b m' j del m)
  show ?case
  proof (cases "map_of (m_controls m) j")
    case None
    then show ?thesis
      using cancel_job(1) queue_inv_drop_pending [OF cancel_job(2)] by (simp add: CancelJob_queue_def)
  next
    case (Some c)
    then have "j \<in> fst ` set (m_controls m)" by (metis domI dom_map_of_conv_image_fst)
    with Some cancel_job show ?thesis
      by (auto simp: CancelJob_queue_def queue_inv_def active_inv_def alist_simps)
  qed
next
  case (delete_job m j)
  then show ?case by (simp add: DeleteJob_queue_def queue_inv_compact queue_inv_drop_pending)
next
  case (pause_queue m)
  have "queue_inv (m\<lparr>m_queuePaused := True,
      m_controls := map (\<lambda>(k, c). (k, cancel_control (c\<lparr>queuePauseRequested := True\<rparr>))) (m_controls m)\<rparr>)"
    using pause_queue by (simp add: queue_inv_def active_inv_def)
  then show ?case by (simp add: PauseQueue_def)
next
  case (resume_queue order m)
  have "queue_inv (foldl requeue_paused x js)" if "queue_inv x" for x js
    using that by (induction js arbitrary: x) (simp_all add: queue_inv_requeue_paused)
  moreover have "queue_inv (m\<lparr>m_queuePaused := False\<rparr>)" using resume_queue by (simp add: queue_inv_def)
  ultimately show ?case by (simp add: ResumeQueue_def)
qed

lemma new_manager_inv: "queue_inv (new_manager n)"
  by (simp add: new_manager_def queue_inv_def keys_inv_def live_inv_def active_inv_def set_heap_Init)

lemma queue_reachable_inv: "queue_step\<^sup>*\<^sup>* (new_manager n) m \<Longrightarrow> queue_inv m"
  by (induction rule: rtranclp_induct) (auto intro: queue_step_inv new_manager_inv)

section \<open>Properties\<close>

text \<open>
  C5. In every state the dispatcher can reach, under every interleaving of start, pause, cancel,
  delete, queue pause and resume, shutdown, dispatching and finishing: no more jobs run than
  allowed, no job is listed twice or both waiting and running, every running job with a
  control is active, and once the dispatcher runs each waiting job has a current entry in the
  queue, so none is forgotten.
\<close>

theorem queue_reachable_safe:
  assumes "queue_step\<^sup>*\<^sup>* (new_manager n) m"
  shows "length (m_active m) \<le> m_maxActiveFiles m \<and> distinct (m_active m) \<and> distinct (m_pending m) \<and>
    set (m_pending m) \<inter> set (m_active m) = {} \<and> fst ` set (m_controls m) \<subseteq> set (m_active m) \<and>
    (m_promoted m \<longrightarrow> (\<forall>j\<in>set (m_pending m). \<exists>it\<in>set (m_queue m).
       qi_jobID it = j \<and> map_of (m_pendingSeq m) j = Some (qi_sequence it)))"
proof -
  have m: "queue_inv m" using queue_reachable_inv [OF assms] .
  have "\<forall>j\<in>set (m_pending m). \<exists>it\<in>set (m_queue m). qi_jobID it = j \<and> map_of (m_pendingSeq m) j = Some (qi_sequence it)"
    if pr: "m_promoted m"
  proof
    fix j
    assume "j \<in> set (m_pending m)"
    then obtain it where "it \<in> set (m_queue m)" "qi_jobID it = j" "live m it"
      using m pr unfolding queue_inv_def live_inv_def by blast
    then show "\<exists>it\<in>set (m_queue m). qi_jobID it = j \<and> map_of (m_pendingSeq m) j = Some (qi_sequence it)"
      unfolding live_def by blast
  qed
  then show ?thesis using m unfolding queue_inv_def active_inv_def keys_inv_def by blast
qed

theorem queue_reachable_safe_witness:
  "length (m_active (snd (StartJobWithPriority True ''j'' 0 (new_manager 2)))) \<le>
     m_maxActiveFiles (snd (StartJobWithPriority True ''j'' 0 (new_manager 2)))"
proof -
  have "queue_step (new_manager 2) (snd (StartJobWithPriority True ''j'' 0 (new_manager 2)))"
    by (rule queue_step.start_job) (rule prod.collapse)
  then have "queue_step\<^sup>*\<^sup>* (new_manager 2) (snd (StartJobWithPriority True ''j'' 0 (new_manager 2)))"
    by (rule r_into_rtranclp)
  from queue_reachable_safe [OF this] show ?thesis by blast
qed



text \<open>
  When the queue is resumed between the two parts of \<^verbatim>\<open>finishJob\<close>, a job paused by the queue is
  dropped: it is neither running, nor waiting, nor remembered as paused by the queue.
\<close>

lemma resume_between_finish_parts_loses_job:
  "let m = (new_manager 2)\<lparr>m_started := True, m_active := [''j''], m_queuePaused := True,
             m_controls := [(''j'', new_control\<lparr>queuePauseRequested := True\<rparr>)]\<rparr>;
       (flags, m1) = finishJob_first ''j'' m;
       m2 = ResumeQueue [''j''] m1;
       m3 = finishJob_second ''j'' (case flags of Some (_, _, requeue) \<Rightarrow> requeue | None \<Rightarrow> False) m2
   in ''j'' \<notin> set (m_active m3) \<and> ''j'' \<notin> set (m_pending m3) \<and> ''j'' \<notin> set (m_queuePausedIDs m3)"
  by (simp add: new_manager_def new_control_def finishJob_first_def ResumeQueue_def requeue_paused_def
      finishJob_second_def signalLocked_def Let_def)

end
