(* ===== verification/FsTree.thy ===== *)
theory FsTree
  imports Prelude "HOL-Library.AList" "HOL-Library.Sublist"
begin

text \<open>
  The part of the operating system the anchored roots call: a file tree and the
  descriptor-relative system calls on it (\<^verbatim>\<open>openat\<close>, \<^verbatim>\<open>mkdirat\<close>, \<^verbatim>\<open>fstatat\<close>, \<^verbatim>\<open>unlinkat\<close>,
  \<^verbatim>\<open>renameat2\<close>). A directory descriptor is the component list of the directory it was opened
  at. Lookups never follow a symbolic link, as all callers pass \<^verbatim>\<open>O_NOFOLLOW\<close>. Any call may
  fail for another reason (permissions, I/O): \<open>k_fault\<close> says which calls do, so what is proved
  holds for every pattern of such failures. \<open>k_dev\<close> is the device of a directory.
\<close>

section \<open>Trees\<close>

datatype node = FFile bytes | FDir "(string \<times> node) list" | FLink string | FSpecial

fun look :: "node \<Rightarrow> string list \<Rightarrow> node option" where
  "look n [] = Some n"
| "look (FDir es) (c # cs) = (case map_of es c of None \<Rightarrow> None | Some n \<Rightarrow> look n cs)"
| "look _ (c # cs) = None"

definition set_entry :: "string \<Rightarrow> node option \<Rightarrow> (string \<times> node) list \<Rightarrow> (string \<times> node) list" where
  "set_entry name v es = (case v of None \<Rightarrow> AList.delete name es | Some n \<Rightarrow> AList.update name n es)"

text \<open>Bind or remove the entry \<open>name\<close> of the directory \<open>d\<close>.\<close>

fun put_entry :: "string list \<Rightarrow> string \<Rightarrow> node option \<Rightarrow> node \<Rightarrow> node" where
  "put_entry [] name v (FDir es) = FDir (set_entry name v es)"
| "put_entry (c # cs) name v (FDir es) =
     (case map_of es c of None \<Rightarrow> FDir es | Some n \<Rightarrow> FDir (AList.update c (put_entry cs name v n) es))"
| "put_entry _ name v n = n"

text \<open>What \<^verbatim>\<open>fstatat\<close> and reading show of one path.\<close>

datatype entry = EFile bytes | EDir | ELink string | ESpecial

primrec entry_of :: "node \<Rightarrow> entry" where
  "entry_of (FFile b) = EFile b"
| "entry_of (FDir es) = EDir"
| "entry_of (FLink t) = ELink t"
| "entry_of FSpecial = ESpecial"

definition at_path :: "node \<Rightarrow> string list \<Rightarrow> entry option" where
  "at_path fs p = map_option entry_of (look fs p)"

lemma entry_of_EDir [simp]: "entry_of n = EDir \<longleftrightarrow> (\<exists>es. n = FDir es)"
  by (cases n) auto

lemma at_path_Nil [simp]: "at_path n [] = Some (entry_of n)"
  by (simp add: at_path_def)

lemma at_path_Cons: "at_path (FDir es) (c # p) = (case map_of es c of None \<Rightarrow> None | Some n \<Rightarrow> at_path n p)"
  by (simp add: at_path_def split: option.splits)

lemma at_path_Cons_leaf: "entry_of n \<noteq> EDir \<Longrightarrow> at_path n (c # p) = None"
  by (cases n) (auto simp: at_path_def)

lemma look_append: "look fs (p @ q) = (case look fs p of None \<Rightarrow> None | Some n \<Rightarrow> look n q)"
proof (induction p arbitrary: fs)
  case Nil
  show ?case by simp
next
  case (Cons c p)
  then show ?case by (cases fs) (auto split: option.splits)
qed

lemma at_path_append: "at_path fs (p @ q) = (case look fs p of None \<Rightarrow> None | Some n \<Rightarrow> at_path n q)"
  by (simp add: at_path_def look_append split: option.splits)

lemma at_path_None_append: "at_path fs p = None \<Longrightarrow> at_path fs (p @ q) = None"
  by (simp add: at_path_append) (simp add: at_path_def)

lemma at_path_leaf_append: "at_path fs p = Some e \<Longrightarrow> e \<noteq> EDir \<Longrightarrow> q \<noteq> [] \<Longrightarrow> at_path fs (p @ q) = None"
proof -
  assume a: "at_path fs p = Some e" "e \<noteq> EDir" "q \<noteq> []"
  then obtain n c r where n: "look fs p = Some n" "entry_of n \<noteq> EDir" and q: "q = c # r"
    by (cases q) (auto simp: at_path_def)
  show ?thesis by (simp add: at_path_append n(1) q at_path_Cons_leaf [OF n(2)])
qed

lemma at_path_prefix_dir: "at_path fs (p @ c # q) \<noteq> None \<Longrightarrow> at_path fs p = Some EDir"
  by (metis at_path_None_append at_path_leaf_append list.distinct(1) option.exhaust)

lemma map_of_set_entry: "map_of (set_entry name v es) c = (if c = name then v else map_of es c)"
  by (cases v) (simp_all add: set_entry_def delete_conv' update_conv')

text \<open>The law of \<open>put_entry\<close>: everything at or below the entry is replaced, everything else is
  unchanged.\<close>

lemma at_path_put_entry:
  assumes "at_path fs d = Some EDir"
  shows "at_path (put_entry d name v fs) p =
    (if prefix (d @ [name]) p then (case v of None \<Rightarrow> None | Some n \<Rightarrow> at_path n (drop (length d + 1) p))
     else at_path fs p)"
  using assms
proof (induction d arbitrary: fs p)
  case Nil
  then obtain es where fs: "fs = FDir es" by auto
  show ?case
  proof (cases p)
    case Nil
    then show ?thesis by (simp add: fs)
  next
    case (Cons c q)
    then show ?thesis by (cases v) (auto simp: fs at_path_Cons map_of_set_entry)
  qed
next
  case (Cons c d)
  then obtain es n where fs: "fs = FDir es" "map_of es c = Some n" and d: "at_path n d = Some EDir"
    by (cases fs) (auto simp: at_path_def split: option.splits)
  show ?case
  proof (cases p)
    case Nil
    then show ?thesis by (simp add: fs)
  next
    case p: (Cons b q)
    show ?thesis
    proof (cases "b = c")
      case True
      then show ?thesis using Cons.IH [OF d, of q] by (cases v) (simp_all add: p fs at_path_Cons update_conv')
    next
      case False
      then show ?thesis by (simp add: p fs at_path_Cons update_conv')
    qed
  qed
qed

text \<open>
  What a file system promises to its clients: binding an entry of a directory shows in the
  lookups at and below that entry only, and what was bound is what is found.
\<close>

locale path_store =
  fixes get :: "'fs \<Rightarrow> string list \<Rightarrow> 'e option"
    and put :: "string list \<Rightarrow> string \<Rightarrow> 'n option \<Rightarrow> 'fs \<Rightarrow> 'fs"
    and sub :: "'n \<Rightarrow> string list \<Rightarrow> 'e option"
    and dir :: 'e
  assumes get_put: "get fs d = Some dir \<Longrightarrow> get (put d name v fs) p =
      (if prefix (d @ [name]) p then (case v of None \<Rightarrow> None | Some n \<Rightarrow> sub n (drop (length d + 1) p)) else get fs p)"
begin

lemma put_outside: "get fs d = Some dir \<Longrightarrow> \<not> prefix (d @ [name]) p \<Longrightarrow> get (put d name v fs) p = get fs p"
  by (simp add: get_put)

lemma put_removed: "get fs d = Some dir \<Longrightarrow> get (put d name None fs) (d @ name # q) = None"
  by (simp add: get_put)

lemma put_bound: "get fs d = Some dir \<Longrightarrow> get (put d name (Some n) fs) (d @ name # q) = sub n q"
  by (simp add: get_put)

text \<open>Moving an entry: the source is gone, the target holds it, all else is as before.\<close>

lemma move_entry:
  assumes sd: "get fs sd = Some dir" and dd: "get fs dd = Some dir"
    and apart: "\<not> prefix (sd @ [sn]) dd"
  shows "get (put dd dn (Some n) (put sd sn None fs)) p =
    (if prefix (dd @ [dn]) p then sub n (drop (length dd + 1) p)
     else if prefix (sd @ [sn]) p then None else get fs p)"
proof -
  have "get (put sd sn None fs) dd = Some dir" using put_outside [OF sd apart] dd by simp
  then show ?thesis by (simp add: get_put [OF sd] get_put)
qed

end

interpretation tree: path_store at_path put_entry at_path EDir
  by unfold_locales (rule at_path_put_entry)

section \<open>System calls\<close>

datatype sys_errno = ENOENT | ENOTDIR | ELOOP | EEXIST | ENOTEMPTY | EISDIR | EXDEV | EIO

datatype kcall = KOpen | KDup | KMkdir | KStat | KUnlink | KReaddir | KRename | KSync | KAccess | KClose

record kernel =
  k_fault :: "kcall \<Rightarrow> string list \<Rightarrow> bool"
  k_dev :: "string list \<Rightarrow> nat"

text \<open>The name \<^verbatim>\<open>.\<close> denotes the directory itself.\<close>

definition child :: "string list \<Rightarrow> string \<Rightarrow> string list" where
  "child d name = (if name = ''.'' then d else d @ [name])"

text \<open>\<^verbatim>\<open>openat\<close> with \<^verbatim>\<open>O_DIRECTORY|O_NOFOLLOW\<close>: a symbolic link is not a directory.\<close>

definition k_opendir :: "kernel \<Rightarrow> node \<Rightarrow> string list \<Rightarrow> string \<Rightarrow> sys_errno + string list" where
  "k_opendir k fs d name =
     (if k_fault k KOpen (child d name) then Inl EIO
      else case at_path fs (child d name) of
             None \<Rightarrow> Inl ENOENT
           | Some EDir \<Rightarrow> Inr (child d name)
           | Some _ \<Rightarrow> Inl ENOTDIR)"

definition k_mkdirat :: "kernel \<Rightarrow> string list \<Rightarrow> string \<Rightarrow> node \<Rightarrow> sys_errno option \<times> node" where
  "k_mkdirat k d name fs =
     (if k_fault k KMkdir (d @ [name]) then (Some EIO, fs)
      else if at_path fs d \<noteq> Some EDir then (Some ENOENT, fs)
      else if at_path fs (d @ [name]) \<noteq> None then (Some EEXIST, fs)
      else (None, put_entry d name (Some (FDir [])) fs))"

definition k_fstatat :: "kernel \<Rightarrow> node \<Rightarrow> string list \<Rightarrow> string \<Rightarrow> sys_errno + entry" where
  "k_fstatat k fs d name =
     (if k_fault k KStat (child d name) then Inl EIO
      else case at_path fs (child d name) of None \<Rightarrow> Inl ENOENT | Some e \<Rightarrow> Inr e)"

text \<open>\<open>dir\<close> is \<^verbatim>\<open>AT_REMOVEDIR\<close>.\<close>

definition k_unlinkat :: "kernel \<Rightarrow> string list \<Rightarrow> string \<Rightarrow> bool \<Rightarrow> node \<Rightarrow> sys_errno option \<times> node" where
  "k_unlinkat k d name dir fs =
     (if k_fault k KUnlink (d @ [name]) then (Some EIO, fs)
      else case look fs (d @ [name]) of
             None \<Rightarrow> (Some ENOENT, fs)
           | Some (FDir es) \<Rightarrow> if \<not> dir then (Some EISDIR, fs) else if es \<noteq> [] then (Some ENOTEMPTY, fs)
                              else (None, put_entry d name None fs)
           | Some _ \<Rightarrow> if dir then (Some ENOTDIR, fs) else (None, put_entry d name None fs))"

text \<open>\<^verbatim>\<open>renameat2\<close> of an entry that is not a directory.\<close>

definition k_renameat :: "kernel \<Rightarrow> string list \<Rightarrow> string \<Rightarrow> string list \<Rightarrow> string \<Rightarrow> bool \<Rightarrow> node \<Rightarrow> sys_errno option \<times> node" where
  "k_renameat k sd sn dd dn noreplace fs =
     (if k_fault k KRename (dd @ [dn]) then (Some EIO, fs)
      else case look fs (sd @ [sn]) of
             None \<Rightarrow> (Some ENOENT, fs)
           | Some n \<Rightarrow>
               if at_path fs dd \<noteq> Some EDir then (Some ENOENT, fs)
               else if k_dev k sd \<noteq> k_dev k dd then (Some EXDEV, fs)
               else if noreplace \<and> at_path fs (dd @ [dn]) \<noteq> None then (Some EEXIST, fs)
               else if at_path fs (dd @ [dn]) = Some EDir then (Some EISDIR, fs)
               else if sd @ [sn] = dd @ [dn] then (None, fs)
               else (None, put_entry dd dn (Some n) (put_entry sd sn None fs)))"

text \<open>\<^verbatim>\<open>openat\<close> of a file with \<^verbatim>\<open>O_NOFOLLOW\<close>: the contents, and whether an entry was made.\<close>

definition k_openfile :: "kernel \<Rightarrow> string list \<Rightarrow> string \<Rightarrow> bool \<Rightarrow> bool \<Rightarrow> bool \<Rightarrow> node \<Rightarrow> (sys_errno + entry) \<times> node" where
  "k_openfile k d name create excl writable fs =
     (if k_fault k KOpen (d @ [name]) then (Inl EIO, fs)
      else case at_path fs (d @ [name]) of
             None \<Rightarrow> if \<not> create then (Inl ENOENT, fs)
                     else if at_path fs d \<noteq> Some EDir then (Inl ENOENT, fs)
                     else (Inr (EFile []), put_entry d name (Some (FFile [])) fs)
           | Some e \<Rightarrow>
               if create \<and> excl then (Inl EEXIST, fs)
               else (case e of
                       ELink _ \<Rightarrow> (Inl ELOOP, fs)
                     | EDir \<Rightarrow> if writable then (Inl EISDIR, fs) else (Inr EDir, fs)
                     | _ \<Rightarrow> (Inr e, fs)))"

end
