(* ===== verification/FsRoot.thy ===== *)
theory FsRoot
  imports FsTree Paths
begin

text \<open>
  The anchored directory capability (\<^verbatim>\<open>internal/fsroot/root.go\<close>) and conflict planning
  (\<^verbatim>\<open>paths.go\<close>) over the file tree of \<^verbatim>\<open>FsTree\<close>. Every operation takes the tree and the root's
  own state (the lazily opened descriptor) and returns both. The test hooks (\<^verbatim>\<open>before\<close>) are nil
  in the program. Error values are those of \<open>path_error\<close>; the texts around them are left out.
\<close>

section \<open>Opening directories\<close>

record root =
  r_open :: bool    \<comment> \<open>\<^verbatim>\<open>fd >= 0\<close>\<close>
  r_path :: string
  r_closed :: bool

fun wrapPathError :: "sys_errno \<Rightarrow> path_error" where
  "wrapPathError ELOOP = ErrSymlink"
| "wrapPathError ENOENT = ErrNotExist"
| "wrapPathError ENOTDIR = ErrNotDir"
| "wrapPathError EEXIST = ErrExist"
| "wrapPathError ENOTEMPTY = ErrNotEmpty"
| "wrapPathError EISDIR = ErrIsDir"
| "wrapPathError EXDEV = ErrCrossDevicePath"
| "wrapPathError EIO = ErrIO"

definition openDirectoryAt :: "kernel \<Rightarrow> node \<Rightarrow> string list \<Rightarrow> string \<Rightarrow> sys_errno + string list" where
  "openDirectoryAt k fs d component =
     (case k_opendir k fs d component of
        Inl e \<Rightarrow>
          if e = ENOTDIR then
            (case k_fstatat k fs d component of Inr (ELink _) \<Rightarrow> Inl ELOOP | _ \<Rightarrow> Inl ENOTDIR)
          else Inl e
      | Inr d' \<Rightarrow> Inr d')"

text \<open>The component loop shared by \<^verbatim>\<open>openDirectory\<close> and \<^verbatim>\<open>openAbsoluteDirectory\<close>.\<close>

fun open_dirs :: "kernel \<Rightarrow> bool \<Rightarrow> string list \<Rightarrow> string list \<Rightarrow> node \<Rightarrow> (sys_errno + string list) \<times> node" where
  "open_dirs k create d [] fs = (Inr d, fs)"
| "open_dirs k create d (c # cs) fs =
     (case openDirectoryAt k fs d c of
        Inr d' \<Rightarrow> open_dirs k create d' cs fs
      | Inl e \<Rightarrow>
          if e = ENOENT \<and> create then
            (case k_mkdirat k d c fs of
               (mkdirErr, fs1) \<Rightarrow>
                 if mkdirErr \<noteq> None \<and> mkdirErr \<noteq> Some EEXIST then (Inl (the mkdirErr), fs1)
                 else (case openDirectoryAt k fs1 d c of
                         Inl e' \<Rightarrow> (Inl e', fs1)
                       | Inr d' \<Rightarrow> open_dirs k create d' cs fs1))
          else (Inl e, fs))"

definition root_dir :: "string \<Rightarrow> string list" where
  "root_dir path =
     filter (\<lambda>c. c \<noteq> [] \<and> c \<noteq> ''.'') (split_on slash (if has_prefix path ''/'' then drop 1 path else path))"

definition openAbsoluteDirectory :: "kernel \<Rightarrow> string \<Rightarrow> bool \<Rightarrow> node \<Rightarrow> (sys_errno + string list) \<times> node" where
  "openAbsoluteDirectory k path create fs =
     (case openDirectoryAt k fs [] ''.'' of
        Inl e \<Rightarrow> (Inl e, fs)
      | Inr d \<Rightarrow> open_dirs k create d (root_dir path) fs)"

definition New :: "kernel \<Rightarrow> string \<Rightarrow> node \<Rightarrow> path_error + root" where
  "New k path fs =
     (if path = [] \<or> CHR 0x00 \<in> set path \<or> \<not> has_prefix path ''/'' then Inl ErrInvalidPath
      else
        (let clean = filepath_Clean path in
         if clean = ''/'' then Inl ErrInvalidPath
         else (case fst (openAbsoluteDirectory k clean False fs) of
                 Inl e \<Rightarrow> if e = ENOENT then Inr \<lparr>r_open = False, r_path = clean, r_closed = False\<rparr>
                         else Inl (wrapPathError e)
               | Inr _ \<Rightarrow> Inr \<lparr>r_open = True, r_path = clean, r_closed = False\<rparr>)))"

definition root_Close :: "root \<Rightarrow> root" where
  "root_Close r = r\<lparr>r_closed := True, r_open := False\<rparr>"

definition rootDescriptor :: "kernel \<Rightarrow> bool \<Rightarrow> root \<Rightarrow> node \<Rightarrow> (path_error + string list) \<times> root \<times> node" where
  "rootDescriptor k create r fs =
     (if r_closed r then (Inl ErrClosed, r, fs)
      else
        (case (if r_open r then (Inr (root_dir (r_path r)), fs) else openAbsoluteDirectory k (r_path r) create fs) of
           (Inl e, fs1) \<Rightarrow> (Inl (wrapPathError e), r, fs1)
         | (Inr d, fs1) \<Rightarrow>
             (if k_fault k KDup d then Inl ErrIO else Inr d, r\<lparr>r_open := True\<rparr>, fs1)))"

definition openDirectory :: "kernel \<Rightarrow> string \<Rightarrow> bool \<Rightarrow> root \<Rightarrow> node \<Rightarrow> (path_error + string list) \<times> root \<times> node" where
  "openDirectory k relative create r fs =
     (case SanitizeRelativePath relative of
        Inl e \<Rightarrow> (Inl e, r, fs)
      | Inr safe \<Rightarrow>
          (case rootDescriptor k create r fs of
             (Inl e, r1, fs1) \<Rightarrow> (Inl e, r1, fs1)
           | (Inr d, r1, fs1) \<Rightarrow>
               if safe = [] then (Inr d, r1, fs1)
               else (case open_dirs k create d (split_on slash safe) fs1 of
                       (Inl e, fs2) \<Rightarrow> (Inl (wrapPathError e), r1, fs2)
                     | (Inr d', fs2) \<Rightarrow> (Inr d', r1, fs2))))"

section \<open>Operations\<close>

definition Ensure :: "kernel \<Rightarrow> root \<Rightarrow> node \<Rightarrow> path_error option \<times> root \<times> node" where
  "Ensure k r fs =
     (case rootDescriptor k True r fs of (Inl e, r1, fs1) \<Rightarrow> (Some e, r1, fs1) | (Inr d, r1, fs1) \<Rightarrow> (None, r1, fs1))"

definition RequireWritable :: "kernel \<Rightarrow> root \<Rightarrow> node \<Rightarrow> path_error option \<times> root \<times> node" where
  "RequireWritable k r fs =
     (case rootDescriptor k False r fs of
        (Inl e, r1, fs1) \<Rightarrow> (Some e, r1, fs1)
      | (Inr d, r1, fs1) \<Rightarrow> (if k_fault k KAccess d then Some ErrIO else None, r1, fs1))"

definition DeviceID :: "kernel \<Rightarrow> root \<Rightarrow> node \<Rightarrow> (path_error + nat) \<times> root \<times> node" where
  "DeviceID k r fs =
     (case rootDescriptor k False r fs of
        (Inl e, r1, fs1) \<Rightarrow> (Inl e, r1, fs1)
      | (Inr d, r1, fs1) \<Rightarrow> (if k_fault k KStat d then Inl ErrIO else Inr (k_dev k d), r1, fs1))"

definition MkdirAll :: "kernel \<Rightarrow> string \<Rightarrow> root \<Rightarrow> node \<Rightarrow> path_error option \<times> root \<times> node" where
  "MkdirAll k relative r fs =
     (case SanitizeRelativePath relative of
        Inl e \<Rightarrow> (Some e, r, fs)
      | Inr safe \<Rightarrow>
          (case openDirectory k safe True r fs of
             (Inl e, r1, fs1) \<Rightarrow> (Some e, r1, fs1)
           | (Inr d, r1, fs1) \<Rightarrow> (None, r1, fs1)))"

text \<open>\<^verbatim>\<open>openFileWithHook\<close>: what the opened descriptor reads, and whether the entry existed.\<close>

definition openFileWithHook ::
  "kernel \<Rightarrow> string \<Rightarrow> bool \<Rightarrow> bool \<Rightarrow> bool \<Rightarrow> root \<Rightarrow> node \<Rightarrow> (path_error + (entry \<times> bool)) \<times> root \<times> node" where
  "openFileWithHook k relative create writable reportExisted r fs =
     (case SanitizeRelativePath relative of
        Inl e \<Rightarrow> (Inl e, r, fs)
      | Inr safe \<Rightarrow>
          if safe = [] then (Inl ErrInvalidPath, r, fs)
          else
            (let (parent, name) = splitRelative safe in
             case openDirectory k parent create r fs of
               (Inl e, r1, fs1) \<Rightarrow> (Inl e, r1, fs1)
             | (Inr d, r1, fs1) \<Rightarrow>
                 (case k_openfile k d name create reportExisted writable fs1 of
                    (Inr e, fs2) \<Rightarrow> (Inr (e, False), r1, fs2)
                  | (Inl err, fs2) \<Rightarrow>
                      if reportExisted \<and> err = EEXIST then
                        (case k_openfile k d name create False writable fs2 of
                           (Inr e, fs3) \<Rightarrow> (Inr (e, True), r1, fs3)
                         | (Inl err', fs3) \<Rightarrow> (Inl (wrapPathError err'), r1, fs3))
                      else (Inl (wrapPathError err), r1, fs2))))"

definition OpenFile_rdonly :: "kernel \<Rightarrow> string \<Rightarrow> root \<Rightarrow> node \<Rightarrow> (path_error + entry) \<times> root \<times> node" where
  "OpenFile_rdonly k relative r fs =
     (case openFileWithHook k relative False False False r fs of
        (res, r1, fs1) \<Rightarrow> (map_sum id fst res, r1, fs1))"

definition OpenOrCreateFile :: "kernel \<Rightarrow> string \<Rightarrow> root \<Rightarrow> node \<Rightarrow> (path_error + (entry \<times> bool)) \<times> root \<times> node" where
  "OpenOrCreateFile k relative r fs = openFileWithHook k relative True True True r fs"

text \<open>\<^verbatim>\<open>lstatAt\<close>: the entry stands for \<^verbatim>\<open>EntryInfo\<close>'s type bits and size.\<close>

definition lstatAt :: "kernel \<Rightarrow> node \<Rightarrow> string list \<Rightarrow> string \<Rightarrow> path_error + entry" where
  "lstatAt k fs d name = (case k_fstatat k fs d name of Inl e \<Rightarrow> Inl (wrapPathError e) | Inr e \<Rightarrow> Inr e)"

fun IsSymlink :: "entry \<Rightarrow> bool" where
  "IsSymlink (ELink _) = True"
| "IsSymlink _ = False"

fun IsRegular :: "entry \<Rightarrow> bool" where
  "IsRegular (EFile _) = True"
| "IsRegular _ = False"

definition IsDir :: "entry \<Rightarrow> bool" where
  "IsDir e \<longleftrightarrow> e = EDir"

definition Lstat :: "kernel \<Rightarrow> string \<Rightarrow> root \<Rightarrow> node \<Rightarrow> (path_error + entry) \<times> root \<times> node" where
  "Lstat k relative r fs =
     (case SanitizeRelativePath relative of
        Inl e \<Rightarrow> (Inl e, r, fs)
      | Inr safe \<Rightarrow>
          (let (parent, name) = splitRelative safe in
           case openDirectory k parent False r fs of
             (Inl e, r1, fs1) \<Rightarrow> (Inl e, r1, fs1)
           | (Inr d, r1, fs1) \<Rightarrow> (lstatAt k fs1 d name, r1, fs1)))"

definition Remove :: "kernel \<Rightarrow> string \<Rightarrow> root \<Rightarrow> node \<Rightarrow> path_error option \<times> root \<times> node" where
  "Remove k relative r fs =
     (case SanitizeRelativePath relative of
        Inl e \<Rightarrow> (Some e, r, fs)
      | Inr safe \<Rightarrow>
          if safe = [] then (Some ErrInvalidPath, r, fs)
          else
            (let (parent, name) = splitRelative safe in
             case openDirectory k parent False r fs of
               (Inl e, r1, fs1) \<Rightarrow> (Some e, r1, fs1)
             | (Inr d, r1, fs1) \<Rightarrow>
                 (case lstatAt k fs1 d name of
                    Inl e \<Rightarrow> (Some e, r1, fs1)
                  | Inr info \<Rightarrow>
                      if IsSymlink info then (Some ErrSymlink, r1, fs1)
                      else (case k_unlinkat k d name (IsDir info) fs1 of
                              (Some e, fs2) \<Rightarrow> (Some (wrapPathError e), r1, fs2)
                            | (None, fs2) \<Rightarrow> (None, r1, fs2)))))"

text \<open>\<^verbatim>\<open>removeEntryAt\<close>: what remains of the entry at path \<open>p\<close>, and of the children of a directory in
  the order \<^verbatim>\<open>Readdirnames\<close> lists them.\<close>

lemma size_list_clearjunk: "size_list f (AList.clearjunk es) \<le> size_list f es"
proof (induction es rule: AList.clearjunk.induct)
  case 1
  then show ?case by simp
next
  case (2 p ps)
  have "size_list f (AList.delete k xs) \<le> size_list f xs" for k xs
    by (induction xs) (auto simp: AList.delete_eq)
  then show ?case using 2 by (simp add: le_trans)
qed

function remove_node :: "kernel \<Rightarrow> string list \<Rightarrow> node \<Rightarrow> path_error option \<times> node option"
  and remove_entries :: "kernel \<Rightarrow> string list \<Rightarrow> (string \<times> node) list \<Rightarrow> path_error option \<times> (string \<times> node) list" where
  "remove_node k p n =
     (if k_fault k KStat p then (Some ErrIO, Some n)
      else case n of
        FLink t \<Rightarrow> (Some ErrSymlink, Some n)
      | FDir es \<Rightarrow>
          if k_fault k KOpen p \<or> k_fault k KReaddir p then (Some ErrIO, Some n)
          else (case remove_entries k p (AList.clearjunk es) of
                  (Some e, es') \<Rightarrow> (Some e, Some (FDir es'))
                | (None, es') \<Rightarrow>
                    if k_fault k KClose p \<or> k_fault k KUnlink p then (Some ErrIO, Some (FDir es'))
                    else if es' \<noteq> [] then (Some ErrNotEmpty, Some (FDir es'))
                    else (None, None))
      | _ \<Rightarrow> if k_fault k KUnlink p then (Some ErrIO, Some n) else (None, None))"
| "remove_entries k p [] = (None, [])"
| "remove_entries k p ((c, n) # es) =
     (case remove_node k (p @ [c]) n of
        (Some e, rest) \<Rightarrow> (Some e, (case rest of None \<Rightarrow> [] | Some n' \<Rightarrow> [(c, n')]) @ es)
      | (None, _) \<Rightarrow> remove_entries k p es)"
  by pat_completeness auto
termination
  by (relation "measure (\<lambda>x. case x of Inl (k, p, n) \<Rightarrow> 2 * size n
       | Inr (k, p, es) \<Rightarrow> 2 * size_list (size_prod (\<lambda>_. 0) size) es + 1)")
    (auto intro: le_less_trans [OF mult_le_mono2 [OF size_list_clearjunk]])

declare remove_node.simps [simp del]

definition removeEntryAt :: "kernel \<Rightarrow> string list \<Rightarrow> string \<Rightarrow> node \<Rightarrow> path_error option \<times> node" where
  "removeEntryAt k d name fs =
     (if k_fault k KStat (d @ [name]) then (Some ErrIO, fs)
      else case look fs (d @ [name]) of
             None \<Rightarrow> (None, fs)
           | Some n \<Rightarrow> (let (e, rest) = remove_node k (d @ [name]) n in (e, put_entry d name rest fs)))"

definition RemoveAll :: "kernel \<Rightarrow> string \<Rightarrow> root \<Rightarrow> node \<Rightarrow> path_error option \<times> root \<times> node" where
  "RemoveAll k relative r fs =
     (case SanitizeRelativePath relative of
        Inl e \<Rightarrow> (Some e, r, fs)
      | Inr safe \<Rightarrow>
          if safe = [] then (Some ErrInvalidPath, r, fs)
          else
            (let (parent, name) = splitRelative safe in
             case openDirectory k parent False r fs of
               (Inl e, r1, fs1) \<Rightarrow> (if e = ErrNotExist then None else Some e, r1, fs1)
             | (Inr d, r1, fs1) \<Rightarrow> (let (e, fs2) = removeEntryAt k d name fs1 in (e, r1, fs2))))"

definition SyncDir :: "kernel \<Rightarrow> string \<Rightarrow> root \<Rightarrow> node \<Rightarrow> path_error option \<times> root \<times> node" where
  "SyncDir k relative r fs =
     (case SanitizeRelativePath relative of
        Inl e \<Rightarrow> (Some e, r, fs)
      | Inr safe \<Rightarrow>
          (case openDirectory k safe False r fs of
             (Inl e, r1, fs1) \<Rightarrow> (Some e, r1, fs1)
           | (Inr d, r1, fs1) \<Rightarrow> (if k_fault k KSync d \<or> k_fault k KClose d then Some ErrIO else None, r1, fs1)))"

text \<open>\<^verbatim>\<open>RenameFrom\<close> with the source root \<open>s\<close> and the receiver \<open>r\<close>.\<close>

definition RenameFrom ::
  "kernel \<Rightarrow> string \<Rightarrow> string \<Rightarrow> bool \<Rightarrow> root \<Rightarrow> root \<Rightarrow> node \<Rightarrow> path_error option \<times> root \<times> root \<times> node" where
  "RenameFrom k sourceRelative destinationRelative ovr s r fs =
     (case (SanitizeRelativePath sourceRelative, SanitizeRelativePath destinationRelative) of
        (Inl e, _) \<Rightarrow> (Some e, s, r, fs)
      | (_, Inl e) \<Rightarrow> (Some e, s, r, fs)
      | (Inr sourceSafe, Inr destinationSafe) \<Rightarrow>
          if sourceSafe = [] \<or> destinationSafe = [] then (Some ErrInvalidPath, s, r, fs)
          else
            (let (sp, sn) = splitRelative sourceSafe; (dp, dn) = splitRelative destinationSafe in
             case openDirectory k sp False s fs of
               (Inl e, s1, fs1) \<Rightarrow> (Some e, s1, r, fs1)
             | (Inr sd, s1, fs1) \<Rightarrow>
                 (case openDirectory k dp True r fs1 of
                    (Inl e, r1, fs2) \<Rightarrow> (Some e, s1, r1, fs2)
                  | (Inr dd, r1, fs2) \<Rightarrow>
                      (case lstatAt k fs2 sd sn of
                         Inl e \<Rightarrow> (Some e, s1, r1, fs2)
                       | Inr info \<Rightarrow>
                           if IsSymlink info then (Some ErrSymlink, s1, r1, fs2)
                           else if \<not> IsRegular info then (Some ErrNotRegular, s1, r1, fs2)
                           else
                             (let dest = (case lstatAt k fs2 dd dn of
                                            Inr dinfo \<Rightarrow> if IsSymlink dinfo then Some ErrSymlink else None
                                          | Inl e \<Rightarrow> if e = ErrNotExist then None else Some e) in
                              case dest of
                                Some e \<Rightarrow> (Some e, s1, r1, fs2)
                              | None \<Rightarrow>
                                  (case k_renameat k sd sn dd dn (\<not> ovr) fs2 of
                                     (None, fs3) \<Rightarrow> (None, s1, r1, fs3)
                                   | (Some e, fs3) \<Rightarrow>
                                       (Some (if \<not> ovr \<and> e = EEXIST then ErrConflict else wrapPathError e), s1, r1, fs3)))))))"

section \<open>Conflict planning\<close>

definition trim_suffix :: "string \<Rightarrow> string \<Rightarrow> string" where
  "trim_suffix s suf = (if has_suffix s suf then take (length s - length suf) s else s)"

text \<open>The candidate loop of \<^verbatim>\<open>PlanConflict\<close>.\<close>

definition conflict_limit :: nat where
  "conflict_limit = 100000"

function conflict_loop ::
  "kernel \<Rightarrow> string \<Rightarrow> string \<Rightarrow> string \<Rightarrow> nat \<Rightarrow> root \<Rightarrow> node \<Rightarrow> (path_error + string) \<times> root \<times> node" where
  "conflict_loop k parent stem ext index r fs =
     (if conflict_limit < index then (Inl ErrConflict, r, fs)
      else
        (case SanitizeRelativePath (filepath_Join [parent, numbered_name stem ext index]) of
           Inl e \<Rightarrow> (Inl e, r, fs)
         | Inr candidate \<Rightarrow>
             (case Lstat k candidate r fs of
                (Inl e, r1, fs1) \<Rightarrow> (if e = ErrNotExist then Inr candidate else Inl e, r1, fs1)
              | (Inr info, r1, fs1) \<Rightarrow>
                  if IsSymlink info then (Inl ErrSymlink, r1, fs1)
                  else conflict_loop k parent stem ext (index + 1) r1 fs1)))"
  by pat_completeness auto
termination
  by (relation "measure (\<lambda>(_, _, _, _, index, _, _). conflict_limit + 1 - index)") auto

declare conflict_loop.simps [simp del]

definition PlanConflict :: "kernel \<Rightarrow> string \<Rightarrow> string \<Rightarrow> root \<Rightarrow> node \<Rightarrow> (path_error + string) \<times> root \<times> node" where
  "PlanConflict k relative policy r fs =
     (case SanitizeRelativePath relative of
        Inl e \<Rightarrow> (Inl e, r, fs)
      | Inr safe \<Rightarrow>
          if safe = [] then (Inl ErrInvalidPath, r, fs)
          else if policy \<noteq> ''rename'' \<and> policy \<noteq> ''overwrite'' \<and> policy \<noteq> ''fail'' then (Inl ErrInvalidPolicy, r, fs)
          else
            (case Lstat k safe r fs of
               (Inl e, r1, fs1) \<Rightarrow> (if e = ErrNotExist then Inr safe else Inl e, r1, fs1)
             | (Inr info, r1, fs1) \<Rightarrow>
                 if IsSymlink info then (Inl ErrSymlink, r1, fs1)
                 else if policy = ''overwrite'' then (Inr safe, r1, fs1)
                 else if policy = ''fail'' then (Inl ErrConflict, r1, fs1)
                 else
                   (let (parent, base) = splitRelative safe;
                        ext0 = filepath_Ext base;
                        ext = (if ext0 = base then [] else ext0);
                        stem = trim_suffix base ext
                    in conflict_loop k parent stem ext 1 r1 fs1)))"

section \<open>Confinement\<close>

text \<open>Only directories on the way to \<open>q\<close> have been made.\<close>

definition dirs_made :: "string list \<Rightarrow> node \<Rightarrow> node \<Rightarrow> bool" where
  "dirs_made q fs fs' \<longleftrightarrow> (\<forall>p. at_path fs' p = at_path fs p \<or>
     at_path fs p = None \<and> at_path fs' p = Some EDir \<and> prefix p q)"

text \<open>Changes below the roots \<open>R\<close> only, apart from making the roots themselves; no symbolic link is
  made, removed or changed anywhere.\<close>

definition confined :: "string list set \<Rightarrow> node \<Rightarrow> node \<Rightarrow> bool" where
  "confined R fs fs' \<longleftrightarrow>
     (\<forall>p. at_path fs' p = at_path fs p \<or> (\<exists>rc\<in>R. strict_prefix rc p) \<or>
          at_path fs p = None \<and> at_path fs' p = Some EDir \<and> (\<exists>rc\<in>R. prefix p rc)) \<and>
     (\<forall>p t. at_path fs' p = Some (ELink t) \<longleftrightarrow> at_path fs p = Some (ELink t))"

lemma dirs_made_refl [simp]: "dirs_made q fs fs"
  by (simp add: dirs_made_def)

lemma dirs_made_trans: "dirs_made q fs fs1 \<Longrightarrow> dirs_made q fs1 fs2 \<Longrightarrow> dirs_made q fs fs2"
  unfolding dirs_made_def by (metis option.distinct(1))

lemma dirs_made_mono: "dirs_made q fs fs' \<Longrightarrow> prefix q q' \<Longrightarrow> dirs_made q' fs fs'"
  unfolding dirs_made_def by (meson prefix_order.trans)

lemma dirs_made_dir: "dirs_made q fs fs' \<Longrightarrow> at_path fs p = Some e \<Longrightarrow> at_path fs' p = Some e"
  unfolding dirs_made_def by (metis option.distinct(1))

lemma confined_refl [simp]: "confined R fs fs"
  by (simp add: confined_def)

lemma confined_trans: "confined R fs fs1 \<Longrightarrow> confined R fs1 fs2 \<Longrightarrow> confined R fs fs2"
  unfolding confined_def by (metis option.distinct(1))

lemma dirs_made_confined: "dirs_made (rc @ cs) fs fs' \<Longrightarrow> rc \<in> R \<Longrightarrow> confined R fs fs'"
proof -
  assume d: "dirs_made (rc @ cs) fs fs'" and rc: "rc \<in> R"
  have "prefix p rc \<or> strict_prefix rc p" if "prefix p (rc @ cs)" for p
    using that by (metis prefix_def prefix_order.le_neq_trans prefix_same_cases)
  then show ?thesis using d rc unfolding confined_def dirs_made_def
    by (metis entry.distinct(7) option.distinct(1) option.inject)
qed

lemma openDirectoryAt_Inr:
  "openDirectoryAt k fs d c = Inr d' \<Longrightarrow> c \<noteq> ''.'' \<Longrightarrow> d' = d @ [c] \<and> at_path fs (d @ [c]) = Some EDir"
  by (auto simp: openDirectoryAt_def k_opendir_def child_def split: sum.splits if_splits option.splits entry.splits)

lemma mkdirat_made: "k_mkdirat k d c fs = (e, fs') \<Longrightarrow> dirs_made (d @ [c]) fs fs'"
proof -
  assume m: "k_mkdirat k d c fs = (e, fs')"
  show ?thesis
  proof (cases "fs' = fs")
    case False
    with m have c: "at_path fs d = Some EDir" "at_path fs (d @ [c]) = None" "fs' = put_entry d c (Some (FDir [])) fs"
      by (auto simp: k_mkdirat_def split: if_splits)
    show ?thesis unfolding dirs_made_def
    proof
      fix p
      show "at_path fs' p = at_path fs p \<or> at_path fs p = None \<and> at_path fs' p = Some EDir \<and> prefix p (d @ [c])"
      proof (cases "prefix (d @ [c]) p")
        case False
        then show ?thesis using tree.put_outside [OF c(1) False] by (simp add: c(3))
      next
        case True
        then obtain q where p: "p = (d @ [c]) @ q" by (auto elim: prefixE)
        have "at_path fs p = None" unfolding p by (rule at_path_None_append [OF c(2)])
        moreover have "at_path fs' p = at_path (FDir []) q" using tree.put_bound [OF c(1)] by (simp add: p c(3))
        ultimately show ?thesis by (cases q) (simp_all add: p at_path_Cons)
      qed
    qed
  qed simp
qed

lemma open_dirs_made:
  assumes "open_dirs k create d cs fs = (res, fs')" and "''.'' \<notin> set cs"
  shows "dirs_made (d @ cs) fs fs' \<and> (\<forall>d'. res = Inr d' \<longrightarrow> d' = d @ cs \<and> (cs \<noteq> [] \<longrightarrow> at_path fs' d' = Some EDir)) \<and>
    (\<not> create \<longrightarrow> fs' = fs)"
  using assms
proof (induction k create d cs fs arbitrary: res fs' rule: open_dirs.induct)
  case (1 k create d fs)
  then show ?case by auto
next
  case (2 k create d c cs fs)
  have dot: "c \<noteq> ''.''" "''.'' \<notin> set cs" using "2.prems"(2) by auto
  have pre: "prefix (d @ [c]) (d @ c # cs)" by simp
  show ?case
  proof (cases "openDirectoryAt k fs d c")
    case (Inr d')
    then have d': "d' = d @ [c]" "at_path fs (d @ [c]) = Some EDir" using openDirectoryAt_Inr dot by blast+
    have "open_dirs k create d' cs fs = (res, fs')" using "2.prems"(1) Inr by simp
    note ih = "2.IH"(2) [OF Inr this dot(2)]
    show ?thesis using ih dirs_made_dir [OF conjunct1 [OF ih] d'(2)] d' by auto
  next
    case (Inl e)
    show ?thesis
    proof (cases "e = ENOENT \<and> create")
      case False
      then show ?thesis using "2.prems"(1) Inl by auto
    next
      case True
      obtain me fs1 where m: "k_mkdirat k d c fs = (me, fs1)" by (metis prod.exhaust)
      note made = dirs_made_mono [OF mkdirat_made [OF m] pre]
      show ?thesis
      proof (cases "me \<noteq> None \<and> me \<noteq> Some EEXIST")
        case True
        then show ?thesis using "2.prems"(1) Inl \<open>e = ENOENT \<and> create\<close> m made by auto
      next
        case cont: False
        show ?thesis
        proof (cases "openDirectoryAt k fs1 d c")
          case (Inl e')
          then show ?thesis using "2.prems"(1) \<open>openDirectoryAt k fs d c = Inl e\<close> True m made cont by auto
        next
          case (Inr d')
          then have d': "d' = d @ [c]" "at_path fs1 (d @ [c]) = Some EDir" using openDirectoryAt_Inr dot by blast+
          have "open_dirs k create d' cs fs1 = (res, fs')"
            using "2.prems"(1) \<open>openDirectoryAt k fs d c = Inl e\<close> Inr True m cont by auto
          note ih = "2.IH"(1) [OF \<open>openDirectoryAt k fs d c = Inl e\<close> True m [symmetric] cont Inr this dot(2)]
          have "dirs_made (d @ c # cs) fs fs'"
            using dirs_made_trans [OF made] ih d'(1) by simp
          then show ?thesis using ih dirs_made_dir [OF conjunct1 [OF ih] d'(2)] d' True by auto
        qed
      qed
    qed
  qed
qed

section \<open>Relative paths as component lists\<close>

definition rel_comps :: "string \<Rightarrow> string list" where
  "rel_comps p = (if p = [] then [] else split_on slash p)"

lemma join_snoc: "cs \<noteq> [] \<Longrightarrow> join_with x (cs @ [c]) = join_with x cs @ x # c"
  by (induction x cs rule: join_with.induct) auto

lemma split_snoc: "split_on x (q @ x # c) = split_on x q @ split_on x c"
proof (induction q)
  case Nil
  show ?case by simp
next
  case (Cons a q)
  then show ?case by (cases "split_on x q") auto
qed

lemma splitRelative_safe:
  assumes "safe_path p"
  shows "splitRelative p = (join_with slash (butlast (split_on slash p)), last (split_on slash p))"
proof -
  obtain cs c where cs: "split_on slash p = cs @ [c]" by (metis append_butlast_last_id split_on_nonempty)
  have c: "slash \<notin> set c" "c \<noteq> []" and safe: "\<forall>x\<in>set cs. safe_component x"
    using assms cs by (auto simp: safe_path_def safe_component_def)
  have p: "p = join_with slash (cs @ [c])" by (metis cs join_split)
  have all: "\<And>x. x \<in> set c \<Longrightarrow> x \<noteq> slash" using c(1) by auto
  show ?thesis
  proof (cases "cs = []")
    case True
    then have pc: "p = c" using p by simp
    have "dropWhile (\<lambda>x. x \<noteq> slash) (rev c) = []" using all by simp
    moreover have "dropWhile (\<lambda>x. x = slash) (rev c) = rev c" using c by (cases "rev c") auto
    moreover have tw: "takeWhile (\<lambda>x. x \<noteq> slash) (rev c) = rev c" using all by (simp add: takeWhile_eq_all_conv)
    ultimately show ?thesis
      using c cs True by (simp add: tw splitRelative_def filepath_Dir_def filepath_Base_def dir_part_def base_part_def pc
          filepath_Clean_def Let_def)
  next
    case False
    let ?q = "join_with slash cs"
    have q: "p = ?q @ slash # c" using p join_snoc [OF False] by simp
    have sq: "safe_path ?q" "split_on slash ?q = cs" using join_safe [OF False safe] by auto
    have dir: "dir_part p = ?q @ [slash]"
      using all by (simp add: dir_part_def q dropWhile_append)
    have "split_on slash (?q @ [slash]) = cs @ [[]]" using split_snoc [of slash ?q "[]"] sq(2) by simp
    moreover have "clean_comps r out (cs @ [[]]) = rev out @ cs" for r out
      using safe by (induction cs arbitrary: out) (simp_all add: safe_component_def)
    ultimately have clean: "filepath_Clean (?q @ [slash]) = ?q"
      using safe_path_nonempty [OF sq(1)] by (simp add: filepath_Clean_def Let_def)
    have "\<not> safe_path ''.''" by (simp add: safe_path_def safe_component_def)
    then have "?q \<noteq> ''.''" using sq(1) by metis
    moreover have "rev (dropWhile (\<lambda>x. x = slash) (rev p)) = p"
    proof -
      obtain a b where ab: "rev c = a # b" using c(2) by (cases "rev c") auto
      then have "a \<in> set c" by (metis list.set_intros(1) set_rev)
      then have "rev c = a # b" "a \<noteq> slash" using ab c(1) by auto
      then have "dropWhile (\<lambda>x. x = slash) (rev p) = rev p" by (simp add: q)
      then show ?thesis by simp
    qed
    moreover have "takeWhile (\<lambda>x. x \<noteq> slash) (rev p) = rev c"
      using all by (simp add: q takeWhile_append takeWhile_eq_all_conv)
    ultimately show ?thesis
      using cs safe_path_nonempty [OF assms] by (simp add: splitRelative_def filepath_Dir_def filepath_Base_def base_part_def dir clean Let_def)
  qed
qed

lemma splitRelative_comps:
  assumes "safe_path p" and "splitRelative p = (parent, name)"
  shows "rel_comps p = rel_comps parent @ [name]" and "safe_component name" and "parent = [] \<or> safe_path parent"
proof -
  obtain cs c where cs: "split_on slash p = cs @ [c]" by (metis append_butlast_last_id split_on_nonempty)
  have pn: "parent = join_with slash cs" "name = c" using assms splitRelative_safe cs by auto
  have safe: "\<forall>x\<in>set cs. safe_component x" "safe_component c" using assms(1) cs by (auto simp: safe_path_def)
  have p0: "p \<noteq> []" using safe_path_nonempty [OF assms(1)] by simp
  show "safe_component name" using safe pn by simp
  show "parent = [] \<or> safe_path parent" using join_safe [of cs] safe pn by (cases "cs = []") auto
  show "rel_comps p = rel_comps parent @ [name]"
    using join_safe [of cs] safe pn cs p0 safe_path_nonempty [of parent] by (cases "cs = []") (auto simp: rel_comps_def)
qed

lemma safe_no_dot: "p = [] \<or> safe_path p \<Longrightarrow> ''.'' \<notin> set (rel_comps p)"
  by (auto simp: rel_comps_def safe_path_def safe_component_def)

lemma rootDescriptor_made:
  assumes "rootDescriptor k create r fs = (res, r', fs')"
  shows "dirs_made (root_dir (r_path r)) fs fs' \<and> r_path r' = r_path r \<and>
    (\<forall>d. res = Inr d \<longrightarrow> d = root_dir (r_path r)) \<and> (\<not> create \<longrightarrow> fs' = fs)"
proof -
  have dot: "''.'' \<notin> set (root_dir (r_path r))" by (simp add: root_dir_def)
  have abs: "dirs_made (root_dir (r_path r)) fs fs1 \<and> (\<forall>d. x = Inr d \<longrightarrow> d = root_dir (r_path r)) \<and> (\<not> create \<longrightarrow> fs1 = fs)"
    if "openAbsoluteDirectory k (r_path r) create fs = (x, fs1)" for x fs1
  proof (cases "openDirectoryAt k fs [] ''.''")
    case (Inl e)
    then show ?thesis using that by (auto simp: openAbsoluteDirectory_def)
  next
    case (Inr d)
    then have "d = []"
      by (auto simp: openDirectoryAt_def k_opendir_def child_def split: sum.splits if_splits option.splits entry.splits)
    then show ?thesis using that Inr open_dirs_made [of k create "[]" "root_dir (r_path r)" fs x fs1, OF _ dot]
      by (auto simp: openAbsoluteDirectory_def)
  qed
  show ?thesis
  proof (cases "r_closed r \<or> r_open r")
    case True
    then show ?thesis using assms by (auto simp: rootDescriptor_def split: if_splits)
  next
    case False
    obtain x fs1 where x: "openAbsoluteDirectory k (r_path r) create fs = (x, fs1)" by (metis prod.exhaust)
    show ?thesis using assms abs [OF x] False x by (auto simp: rootDescriptor_def split: sum.splits if_splits)
  qed
qed

lemma openDirectory_made:
  assumes "openDirectory k rel create r fs = (res, r', fs')"
  shows "dirs_made (root_dir (r_path r) @ rel_comps rel) fs fs' \<and> r_path r' = r_path r \<and>
    (\<forall>d. res = Inr d \<longrightarrow> d = root_dir (r_path r) @ rel_comps rel) \<and> (\<not> create \<longrightarrow> fs' = fs)"
proof (cases "rel = [] \<or> safe_path rel")
  case False
  then show ?thesis using assms by (auto simp: openDirectory_def SanitizeRelativePath_eq)
next
  case True
  obtain x r1 fs1 where x: "rootDescriptor k create r fs = (x, r1, fs1)" by (metis prod.exhaust)
  let ?rc = "root_dir (r_path r)"
  from rootDescriptor_made [OF x]
  have m: "dirs_made (?rc @ rel_comps rel) fs fs1" "r_path r1 = r_path r" "\<And>d. x = Inr d \<Longrightarrow> d = ?rc" "\<not> create \<longrightarrow> fs1 = fs"
    using dirs_made_mono [of ?rc fs fs1 "?rc @ rel_comps rel"] by auto
  show ?thesis
  proof (cases "rel = [] \<or> isl x")
    case True
    then show ?thesis using assms x m \<open>rel = [] \<or> safe_path rel\<close>
      by (auto simp: openDirectory_def SanitizeRelativePath_eq rel_comps_def isl_def split: sum.splits if_splits)
  next
    case False
    then have x': "x = Inr ?rc" and rel: "rel \<noteq> []" using m(3) by (cases x; auto)+
    obtain y fs2 where y: "open_dirs k create ?rc (split_on slash rel) fs1 = (y, fs2)" by (metis prod.exhaust)
    have "''.'' \<notin> set (split_on slash rel)" using safe_no_dot [OF True] rel by (simp add: rel_comps_def)
    from open_dirs_made [OF y this]
    have o: "dirs_made (?rc @ rel_comps rel) fs1 fs2" "\<And>d. y = Inr d \<Longrightarrow> d = ?rc @ rel_comps rel" "\<not> create \<Longrightarrow> fs2 = fs1"
      using rel by (auto simp: rel_comps_def)
    have "openDirectory k rel create r fs = (case y of Inl e \<Rightarrow> Inl (wrapPathError e) | Inr d \<Rightarrow> Inr d, r1, fs2)"
      using x x' y rel True by (simp add: openDirectory_def SanitizeRelativePath_eq split: sum.splits)
    then have "res = (case y of Inl e \<Rightarrow> Inl (wrapPathError e) | Inr d \<Rightarrow> Inr d)" "r' = r1" "fs' = fs2"
      using assms by simp_all
    then show ?thesis using dirs_made_trans [OF m(1) o(1)] m(2,4) o(2,3) by (cases y) auto
  qed
qed

section \<open>What the operations change\<close>

text \<open>\<open>trimmed n n'\<close>: entries have only been removed, and no symbolic link among them.\<close>

definition trimmed :: "node \<Rightarrow> node \<Rightarrow> bool" where
  "trimmed n n' \<longleftrightarrow> entry_of n' = entry_of n \<and> (\<forall>q. at_path n' q = None \<or> at_path n' q = at_path n q) \<and>
     (\<forall>q t. at_path n q = Some (ELink t) \<longrightarrow> at_path n' q = Some (ELink t))"

definition link_free :: "node \<Rightarrow> bool" where
  "link_free n \<longleftrightarrow> (\<forall>q t. at_path n q \<noteq> Some (ELink t))"

lemma trimmed_refl [simp]: "trimmed n n"
  by (simp add: trimmed_def)

lemma at_path_clearjunk: "at_path (FDir (AList.clearjunk es)) q = at_path (FDir es) q"
  by (cases q) (simp_all add: at_path_Cons map_of_clearjunk)

lemma trimmed_clearjunk: "trimmed (FDir (AList.clearjunk es)) n' \<longleftrightarrow> trimmed (FDir es) n'"
  by (simp add: trimmed_def at_path_clearjunk)

lemma link_free_clearjunk: "link_free (FDir (AList.clearjunk es)) \<longleftrightarrow> link_free (FDir es)"
  by (simp add: link_free_def at_path_clearjunk)

lemma link_free_leaf: "link_free (FFile b)" "link_free FSpecial"
proof -
  have "at_path n q \<noteq> Some (ELink t)" if "n = FFile b \<or> n = FSpecial" for n q t b
    using that by (cases q) (auto simp: at_path_Cons_leaf)
  then show "link_free (FFile b)" "link_free FSpecial" unfolding link_free_def by blast+
qed

lemma all_paths: "(\<forall>q. P q) \<longleftrightarrow> P [] \<and> (\<forall>c q. P (c # q))"
  by (metis list.exhaust)

lemma at_path_entry_Cons: "at_path (FDir ((c, n) # es)) (d # q) = (if d = c then at_path n q else at_path (FDir es) (d # q))"
  by (simp add: at_path_Cons)

lemma trimmed_dir:
  "trimmed (FDir es) (FDir es') \<longleftrightarrow> (\<forall>c q. (at_path (FDir es') (c # q) = None \<or> at_path (FDir es') (c # q) = at_path (FDir es) (c # q)) \<and>
     (\<forall>t. at_path (FDir es) (c # q) = Some (ELink t) \<longrightarrow> at_path (FDir es') (c # q) = Some (ELink t)))"
  (is "_ \<longleftrightarrow> (\<forall>c q. ?Q (c # q))")
proof -
  have "trimmed (FDir es) (FDir es') \<longleftrightarrow> (\<forall>q. ?Q q)" unfolding trimmed_def by auto
  moreover have "(\<forall>q. ?Q q) \<longleftrightarrow> ?Q [] \<and> (\<forall>c q. ?Q (c # q))" by (rule all_paths)
  moreover have "?Q []" by simp
  ultimately show ?thesis by blast
qed

lemma link_free_dir: "link_free (FDir es) \<longleftrightarrow> (\<forall>c q t. at_path (FDir es) (c # q) \<noteq> Some (ELink t))"
  (is "_ \<longleftrightarrow> (\<forall>c q. ?Q (c # q))")
proof -
  have "(\<forall>q. ?Q q) \<longleftrightarrow> ?Q [] \<and> (\<forall>c q. ?Q (c # q))" by (rule all_paths)
  moreover have "?Q []" by simp
  ultimately show ?thesis unfolding link_free_def by blast
qed

lemma trimmed_Cons: "trimmed n n' \<Longrightarrow> trimmed (FDir ((c, n) # es)) (FDir ((c, n') # es))"
  unfolding trimmed_dir at_path_entry_Cons by (simp add: trimmed_def)

lemma trimmed_Cons_drop:
  "link_free n \<Longrightarrow> c \<notin> fst ` set es \<Longrightarrow> trimmed (FDir es) (FDir es') \<Longrightarrow> trimmed (FDir ((c, n) # es)) (FDir es')"
proof -
  assume a: "link_free n" "c \<notin> fst ` set es" "trimmed (FDir es) (FDir es')"
  have none: "map_of es c = None" using a(2) by (simp add: map_of_eq_None_iff)
  have "at_path (FDir es') (c # q) = None" for q
    using a(3) none unfolding trimmed_def by (metis at_path_Cons option.simps(4))
  then show ?thesis using a(1,3) unfolding trimmed_dir at_path_entry_Cons by (simp add: link_free_def)
qed

lemma link_free_Cons: "link_free n \<Longrightarrow> link_free (FDir es) \<Longrightarrow> link_free (FDir ((c, n) # es))"
  unfolding link_free_dir at_path_entry_Cons by (simp add: link_free_def)

lemma remove_trims:
  "remove_node k p n = (e, v) \<Longrightarrow>
     (e = None \<longleftrightarrow> v = None) \<and> (v = None \<longrightarrow> link_free n) \<and> (\<forall>n'. v = Some n' \<longrightarrow> trimmed n n')"
  "remove_entries k p es = (e, es') \<Longrightarrow> distinct (map fst es) \<Longrightarrow>
     trimmed (FDir es) (FDir es') \<and> (e = None \<longrightarrow> es' = [] \<and> link_free (FDir es))"
proof (induction k p n and k p es arbitrary: e v and e es' rule: remove_node_remove_entries.induct)
  case (1 k p n)
  show ?case
  proof (cases "k_fault k KStat p")
    case True
    then show ?thesis using "1.prems" by (auto simp: remove_node.simps)
  next
    case stat: False
    show ?thesis
    proof (cases n)
      case (FDir es)
      obtain e1 es1 where r: "remove_entries k p (AList.clearjunk es) = (e1, es1)" by (metis prod.exhaust)
      show ?thesis
      proof (cases "k_fault k KOpen p \<or> k_fault k KReaddir p")
        case True
        then show ?thesis using "1.prems" FDir stat by (auto simp: remove_node.simps)
      next
        case False
        from "1.IH" [OF stat FDir False r distinct_clearjunk]
        have ih: "trimmed (FDir es) (FDir es1)" "e1 = None \<longrightarrow> es1 = [] \<and> link_free (FDir es)"
          by (simp_all add: trimmed_clearjunk link_free_clearjunk)
        show ?thesis using "1.prems" FDir stat False r ih
          by (auto simp: remove_node.simps split: option.splits if_splits)
      qed
    qed (use "1.prems" stat link_free_leaf in \<open>auto simp: remove_node.simps split: if_splits\<close>)
  qed
next
  case (2 k p)
  then show ?case by (simp add: link_free_dir at_path_Cons)
next
  case (3 k p c n es)
  obtain e1 v1 where r: "remove_node k (p @ [c]) n = (e1, v1)" by (metis prod.exhaust)
  note ih = "3.IH"(1) [OF r]
  have dist: "distinct (map fst es)" "c \<notin> fst ` set es" using "3.prems"(2) by auto
  show ?case
  proof (cases e1)
    case (Some x)
    then obtain n' where "v1 = Some n'" "trimmed n n'" using ih by auto
    then show ?thesis using "3.prems"(1) r Some by (auto intro: trimmed_Cons)
  next
    case None
    then have lf: "link_free n" "v1 = None" using ih by auto
    have "remove_entries k p es = (e, es')" using "3.prems"(1) r None by simp
    from "3.IH"(2) [OF r [symmetric] None this dist(1)]
    show ?thesis using lf(1) dist(2) trimmed_Cons_drop link_free_Cons by blast
  qed
qed

lemma confined_put:
  assumes dir: "at_path fs d = Some EDir" and d: "d = rc @ cs" and rc: "rc \<in> R"
    and links: "\<And>q t. at_path fs (d @ name # q) = Some (ELink t) \<longleftrightarrow> (\<exists>n. v = Some n \<and> at_path n q = Some (ELink t))"
  shows "confined R fs (put_entry d name v fs)"
proof -
  have below: "strict_prefix rc p" if "prefix (d @ [name]) p" for p
    using that by (auto simp: d prefix_def strict_prefix_def)
  have "at_path (put_entry d name v fs) p = Some (ELink t) \<longleftrightarrow> at_path fs p = Some (ELink t)" for p t
  proof (cases "prefix (d @ [name]) p")
    case False
    then show ?thesis by (simp add: tree.put_outside [OF dir])
  next
    case True
    then obtain q where p: "p = d @ name # q" by (auto simp: prefix_def)
    show ?thesis using links [of q t] by (cases v) (simp_all add: p tree.put_bound [OF dir] tree.put_removed [OF dir])
  qed
  then show ?thesis unfolding confined_def using below rc tree.put_outside [OF dir] by metis
qed

lemma openDirectory_confined:
  assumes "openDirectory k rel create r fs = (res, r', fs')" and "root_dir (r_path r) \<in> R"
  shows "confined R fs fs'" and "r_path r' = r_path r" and "\<And>d. res = Inr d \<Longrightarrow> d = root_dir (r_path r) @ rel_comps rel"
  using openDirectory_made [OF assms(1)] dirs_made_confined [OF _ assms(2)] by blast+

lemma openfile_confined:
  assumes "k_openfile k d name create excl w fs = (res, fs')" and d: "d = rc @ cs" and rc: "rc \<in> R"
  shows "confined R fs fs'"
proof (cases "fs' = fs")
  case False
  then have c: "at_path fs d = Some EDir" "at_path fs (d @ [name]) = None"
      "fs' = put_entry d name (Some (FFile [])) fs"
    using assms(1) by (auto simp: k_openfile_def split: option.splits if_splits entry.splits)
  have "at_path fs (d @ name # q) = None" for q
    using at_path_None_append [OF c(2), of q] by simp
  then show ?thesis unfolding c(3)
    by (intro confined_put [OF c(1) d rc]) (use link_free_leaf in \<open>auto simp: link_free_def\<close>)
qed simp

lemma unlinkat_confined:
  assumes "k_unlinkat k d name dir fs = (e, fs')" and d: "d = rc @ cs" and rc: "rc \<in> R" and "\<And>t. at_path fs (d @ [name]) \<noteq> Some (ELink t)"
  shows "confined R fs fs'"
proof (cases "fs' = fs")
  case False
  then obtain n where n: "look fs (d @ [name]) = Some n" "fs' = put_entry d name None fs" "n = FDir [] \<or> entry_of n \<noteq> EDir"
    using assms(1) by (auto simp: k_unlinkat_def split: option.splits node.splits if_splits)
  have at: "at_path fs (d @ name # q) = at_path n q" for q
    using at_path_append [of fs "d @ [name]" q] n(1) by simp
  have "at_path n q \<noteq> Some (ELink t)" for q t
    using n(3) assms(4) [of t] at [of "[]"] by (cases q; cases n) (auto simp: at_path_Cons at_path_Cons_leaf)
  then show ?thesis unfolding n(2)
    by (intro confined_put [OF at_path_prefix_dir [of fs _ name "[]"] d rc]) (auto simp: at)
qed simp

lemma removeEntryAt_confined:
  assumes "removeEntryAt k d name fs = (e, fs')" and d: "d = rc @ cs" and rc: "rc \<in> R"
  shows "confined R fs fs'"
proof (cases "fs' = fs")
  case False
  then obtain n v where n: "look fs (d @ [name]) = Some n" "fs' = put_entry d name v fs"
      and r: "remove_node k (d @ [name]) n = (e, v)"
    using assms(1) by (auto simp: removeEntryAt_def Let_def split: option.splits if_splits prod.splits)
  have at: "at_path fs (d @ name # q) = at_path n q" for q
    using at_path_append [of fs "d @ [name]" q] n(1) by simp
  have dir: "at_path fs d = Some EDir" by (rule at_path_prefix_dir [of fs _ name "[]"]) (simp add: at)
  from remove_trims(1) [OF r]
  have "at_path n q = Some (ELink t) \<longleftrightarrow> (\<exists>n'. v = Some n' \<and> at_path n' q = Some (ELink t))" for q t
    by (cases v) (auto simp: link_free_def trimmed_def, metis option.distinct(1))
  then show ?thesis unfolding n(2) by (intro confined_put [OF dir d rc]) (simp add: at)
qed simp

lemma renameat_confined:
  assumes "k_renameat k sd sn dd dn nr fs = (e, fs')" and sd: "sd = src @ cs" "src \<in> R" and dd: "dd = rc @ ds" "rc \<in> R"
    and reg: "\<exists>b. at_path fs (sd @ [sn]) = Some (EFile b)" and dst: "\<And>t. at_path fs (dd @ [dn]) \<noteq> Some (ELink t)"
  shows "confined R fs fs'"
proof (cases "fs' = fs")
  case False
  obtain b where b: "look fs (sd @ [sn]) = Some (FFile b)" using reg by (auto simp: at_path_def) (metis entry_of.simps entry.distinct(1,3,5) node.exhaust)
  from False assms(1) b have c: "at_path fs dd = Some EDir" "at_path fs (dd @ [dn]) \<noteq> Some EDir"
      "fs' = put_entry dd dn (Some (FFile b)) (put_entry sd sn None fs)"
    by (auto simp: k_renameat_def split: if_splits)
  have sdir: "at_path fs sd = Some EDir" using reg by (intro at_path_prefix_dir [of fs _ sn "[]"]) auto
  have apart: "\<not> prefix (sd @ [sn]) dd"
  proof
    assume "prefix (sd @ [sn]) dd"
    then obtain q where q: "dd = (sd @ [sn]) @ q" by (auto elim: prefixE)
    then show False using c(1) reg at_path_leaf_append [of fs "sd @ [sn]" _ q] by (cases "q = []") auto
  qed
  have s: "at_path fs (sd @ sn # q) \<noteq> Some (ELink t)" for q t
    using at_path_append [of fs "sd @ [sn]" q] b link_free_leaf(1) [of b] by (simp add: link_free_def)
  have "confined R fs (put_entry sd sn None fs)"
    by (rule confined_put [OF sdir sd]) (simp add: s)
  moreover have "confined R (put_entry sd sn None fs) (put_entry dd dn (Some (FFile b)) (put_entry sd sn None fs))"
  proof (rule confined_put [OF _ dd])
    show "at_path (put_entry sd sn None fs) dd = Some EDir" using tree.put_outside [OF sdir apart] c(1) by simp
    fix q t
    have "at_path fs (dd @ dn # q) \<noteq> Some (ELink t)"
    proof (cases q)
      case Nil
      then show ?thesis using dst [of t] by simp
    next
      case (Cons x y)
      have "at_path fs ((dd @ [dn]) @ x # y) = None" using c(2) at_path_prefix_dir by blast
      then show ?thesis by (simp add: Cons)
    qed
    then have "at_path (put_entry sd sn None fs) (dd @ dn # q) \<noteq> Some (ELink t)"
      using at_path_put_entry [OF sdir, of sn None "dd @ dn # q"] by simp
    then show "(at_path (put_entry sd sn None fs) (dd @ dn # q) = Some (ELink t)) \<longleftrightarrow>
        (\<exists>n. Some (FFile b) = Some n \<and> at_path n q = Some (ELink t))"
      using link_free_leaf(1) [of b] by (simp add: link_free_def)
  qed
  ultimately show ?thesis unfolding c(3) by (rule confined_trans)
qed simp

abbreviation path_in :: "root \<Rightarrow> string \<Rightarrow> string list" where
  "path_in r rel \<equiv> root_dir (r_path r) @ rel_comps rel"

lemma openDirectoryAt_ENOENT: "openDirectoryAt k fs d c = Inl ENOENT \<Longrightarrow> at_path fs (child d c) = None"
  by (auto simp: openDirectoryAt_def k_opendir_def k_fstatat_def split: sum.splits if_splits option.splits entry.splits)

lemma open_dirs_ENOENT:
  "open_dirs k False d cs fs = (Inl ENOENT, fs') \<Longrightarrow> ''.'' \<notin> set cs \<Longrightarrow> at_path fs (d @ cs) = None"
proof (induction cs arbitrary: d)
  case Nil
  then show ?case by simp
next
  case (Cons c cs)
  show ?case
  proof (cases "openDirectoryAt k fs d c")
    case (Inl e)
    then have "at_path fs (d @ [c]) = None" using Cons.prems openDirectoryAt_ENOENT [of k fs d c] by (auto simp: child_def split: if_splits)
    from at_path_None_append [OF this, of cs] show ?thesis by simp
  next
    case (Inr d')
    then have "d' = d @ [c]" using openDirectoryAt_Inr Cons.prems(2) by auto
    then show ?thesis using Cons.IH [of d'] Cons.prems Inr by simp
  qed
qed

lemma wrapPathError_ErrNotExist: "wrapPathError e = ErrNotExist \<longleftrightarrow> e = ENOENT"
  by (cases e) auto

lemma rootDescriptor_ErrNotExist:
  assumes "rootDescriptor k False r fs = (Inl ErrNotExist, r', fs')"
  shows "at_path fs (root_dir (r_path r)) = None"
proof -
  from assms obtain fs1 where o: "openAbsoluteDirectory k (r_path r) False fs = (Inl ENOENT, fs1)"
    by (auto simp: rootDescriptor_def wrapPathError_ErrNotExist split: if_splits sum.splits prod.splits)
  show ?thesis
  proof (cases "openDirectoryAt k fs [] ''.''")
    case (Inl e)
    then show ?thesis using o openDirectoryAt_ENOENT [of k fs "[]" "''.''"] by (simp add: openAbsoluteDirectory_def child_def)
  next
    case (Inr d)
    then have "d = []"
      by (auto simp: openDirectoryAt_def k_opendir_def child_def split: sum.splits if_splits option.splits entry.splits)
    then show ?thesis using o Inr open_dirs_ENOENT [of k "[]" "root_dir (r_path r)" fs fs1]
      by (simp add: openAbsoluteDirectory_def root_dir_def)
  qed
qed

lemma openDirectory_ErrNotExist:
  assumes "openDirectory k rel False r fs = (Inl ErrNotExist, r', fs')"
  shows "at_path fs (path_in r rel) = None"
proof -
  obtain x r1 fs1 where x: "rootDescriptor k False r fs = (x, r1, fs1)" by (metis prod.exhaust)
  note m = rootDescriptor_made [OF x]
  have safe: "rel = [] \<or> safe_path rel" using assms by (auto simp: openDirectory_def SanitizeRelativePath_eq split: if_splits)
  show ?thesis
  proof (cases x)
    case (Inl e)
    then have "x = Inl ErrNotExist" using assms x safe by (auto simp: openDirectory_def SanitizeRelativePath_eq split: if_splits)
    then show ?thesis using rootDescriptor_ErrNotExist x at_path_None_append by blast
  next
    case (Inr d)
    then have "d = root_dir (r_path r)" "fs1 = fs" using m by auto
    then have "open_dirs k False (root_dir (r_path r)) (split_on slash rel) fs = (Inl ENOENT, fs') \<and> rel \<noteq> []"
      using assms x safe Inr
      by (auto simp: openDirectory_def SanitizeRelativePath_eq wrapPathError_ErrNotExist split: if_splits sum.splits prod.splits)
    then show ?thesis using open_dirs_ENOENT [of k "root_dir (r_path r)" "split_on slash rel" fs fs'] safe_no_dot [OF safe]
      by (simp add: rel_comps_def)
  qed
qed

lemma Lstat_result:
  assumes "Lstat k rel r fs = (res, r', fs')"
  shows "fs' = fs \<and> r_path r' = r_path r \<and> (\<forall>e. res = Inr e \<longrightarrow> at_path fs (path_in r rel) = Some e) \<and>
    (res = Inl ErrNotExist \<longrightarrow> at_path fs (path_in r rel) = None)"
proof (cases "rel = [] \<or> safe_path rel")
  case False
  then show ?thesis using assms by (auto simp: Lstat_def SanitizeRelativePath_eq)
next
  case True
  obtain parent name where pn: "splitRelative rel = (parent, name)" by (metis prod.exhaust)
  obtain x r1 fs1 where x: "openDirectory k parent False r fs = (x, r1, fs1)" by (metis prod.exhaust)
  note m = openDirectory_made [OF x]
  have path: "child (path_in r parent) name = path_in r rel"
  proof (cases "rel = []")
    case True
    then have "parent = []" "name = ''.''"
      using pn by (auto simp: splitRelative_def filepath_Dir_def dir_part_def filepath_Clean_def filepath_Base_def)
    then show ?thesis using True by (simp add: child_def rel_comps_def)
  next
    case False
    then show ?thesis using True splitRelative_comps [OF _ pn] by (simp add: child_def safe_component_def)
  qed
  show ?thesis
  proof (cases x)
    case (Inl e)
    have "at_path fs (path_in r rel) = None" if "e = ErrNotExist"
    proof -
      have "at_path fs (path_in r parent @ q) = None" for q
        using openDirectory_ErrNotExist [of k parent r fs r1 fs1] x Inl that at_path_None_append by blast
      moreover have "\<exists>q. path_in r rel = path_in r parent @ q" using path by (auto simp: child_def split: if_splits) metis
      ultimately show ?thesis by metis
    qed
    then show ?thesis using assms True pn x Inl m by (auto simp: Lstat_def SanitizeRelativePath_eq Let_def)
  next
    case (Inr d)
    then have "res = lstatAt k fs (path_in r parent) name" "fs' = fs" "r' = r1"
      using assms True pn x m by (auto simp: Lstat_def SanitizeRelativePath_eq Let_def)
    then show ?thesis using m
      by (auto simp: lstatAt_def k_fstatat_def path wrapPathError_ErrNotExist split: sum.splits option.splits if_splits)
  qed
qed

end
