(* ===== verification/FsSafety.thy ===== *)
theory FsSafety
  imports FsRoot
begin

text \<open>
  What the anchored roots guarantee: every operation stays below its root and leaves symbolic
  links alone, a rename without replacement moves exactly one file, and the planned
  conflict-free name is free.
\<close>

section \<open>Every operation is confined\<close>

text \<open>One call of an operation on a root whose path is in \<open>P\<close>.\<close>

inductive root_step :: "string set \<Rightarrow> node \<Rightarrow> node \<Rightarrow> bool" for P where
  ensure: "r_path r \<in> P \<Longrightarrow> Ensure k r fs = (e, r', fs') \<Longrightarrow> root_step P fs fs'"
| writable: "r_path r \<in> P \<Longrightarrow> RequireWritable k r fs = (e, r', fs') \<Longrightarrow> root_step P fs fs'"
| device: "r_path r \<in> P \<Longrightarrow> DeviceID k r fs = (dev, r', fs') \<Longrightarrow> root_step P fs fs'"
| mkdirs: "r_path r \<in> P \<Longrightarrow> MkdirAll k rel r fs = (e, r', fs') \<Longrightarrow> root_step P fs fs'"
| open_file: "r_path r \<in> P \<Longrightarrow> openFileWithHook k rel create w ex r fs = (f, r', fs') \<Longrightarrow> root_step P fs fs'"
| lstat: "r_path r \<in> P \<Longrightarrow> Lstat k rel r fs = (i, r', fs') \<Longrightarrow> root_step P fs fs'"
| remove: "r_path r \<in> P \<Longrightarrow> Remove k rel r fs = (e, r', fs') \<Longrightarrow> root_step P fs fs'"
| remove_all: "r_path r \<in> P \<Longrightarrow> RemoveAll k rel r fs = (e, r', fs') \<Longrightarrow> root_step P fs fs'"
| sync: "r_path r \<in> P \<Longrightarrow> SyncDir k rel r fs = (e, r', fs') \<Longrightarrow> root_step P fs fs'"
| rename: "r_path s \<in> P \<Longrightarrow> r_path r \<in> P \<Longrightarrow> RenameFrom k a b ovr s r fs = (e, s', r', fs') \<Longrightarrow> root_step P fs fs'"
| plan: "r_path r \<in> P \<Longrightarrow> PlanConflict k rel policy r fs = (c, r', fs') \<Longrightarrow> root_step P fs fs'"

inductive_cases root_stepE: "root_step P fs fs'"

lemma rootDescriptor_confined:
  "rootDescriptor k create r fs = (res, r', fs') \<Longrightarrow> root_dir (r_path r) \<in> R \<Longrightarrow> confined R fs fs'"
  using rootDescriptor_made dirs_made_confined [of "root_dir (r_path r)" "[]"] by fastforce

lemma in_parent:
  assumes "safe_path rel" and "splitRelative rel = (parent, name)" and "openDirectory k parent create r fs = (Inr d, r1, fs1)"
  shows "d = root_dir (r_path r) @ rel_comps parent" "d @ [name] = path_in r rel" "name \<noteq> ''.''" "r_path r1 = r_path r"
  using splitRelative_comps [OF assms(1,2)] openDirectory_made [OF assms(3)] by (auto simp: safe_component_def)

lemma Ensure_confined: "Ensure k r fs = (e, r', fs') \<Longrightarrow> root_dir (r_path r) \<in> R \<Longrightarrow> confined R fs fs'"
  by (auto simp: Ensure_def split: prod.splits sum.splits intro: rootDescriptor_confined)

lemma RequireWritable_confined: "RequireWritable k r fs = (e, r', fs') \<Longrightarrow> root_dir (r_path r) \<in> R \<Longrightarrow> confined R fs fs'"
  by (auto simp: RequireWritable_def split: prod.splits sum.splits if_splits intro: rootDescriptor_confined)

lemma DeviceID_confined: "DeviceID k r fs = (e, r', fs') \<Longrightarrow> root_dir (r_path r) \<in> R \<Longrightarrow> confined R fs fs'"
  by (auto simp: DeviceID_def split: prod.splits sum.splits if_splits intro: rootDescriptor_confined)

lemma MkdirAll_confined: "MkdirAll k rel r fs = (e, r', fs') \<Longrightarrow> root_dir (r_path r) \<in> R \<Longrightarrow> confined R fs fs'"
  by (auto simp: MkdirAll_def split: prod.splits sum.splits intro: openDirectory_confined(1))

lemma SyncDir_confined: "SyncDir k rel r fs = (e, r', fs') \<Longrightarrow> root_dir (r_path r) \<in> R \<Longrightarrow> confined R fs fs'"
  by (auto simp: SyncDir_def split: prod.splits sum.splits if_splits intro: openDirectory_confined(1))

lemma Lstat_confined: "Lstat k rel r fs = (e, r', fs') \<Longrightarrow> confined R fs fs'"
  using Lstat_result [of k rel r fs e r' fs'] by simp

lemma openFile_confined:
  assumes "openFileWithHook k rel create w ex r fs = (f, r', fs')" and "root_dir (r_path r) \<in> R"
  shows "confined R fs fs'"
proof (cases "safe_path rel")
  case False
  then show ?thesis using assms(1) by (auto simp: openFileWithHook_def SanitizeRelativePath_eq split: if_splits)
next
  case True
  have ne: "rel \<noteq> []" using safe_path_nonempty [OF True] by simp
  obtain parent name where pn: "splitRelative rel = (parent, name)" by (metis prod.exhaust)
  obtain x r1 fs1 where x: "openDirectory k parent create r fs = (x, r1, fs1)" by (metis prod.exhaust)
  note c1 = openDirectory_confined(1) [OF x assms(2)]
  show ?thesis
  proof (cases x)
    case (Inl e)
    then show ?thesis using assms(1) True ne pn x c1 by (auto simp: openFileWithHook_def SanitizeRelativePath_eq)
  next
    case (Inr d)
    note d = in_parent(1) [OF True pn x [unfolded Inr]]
    obtain y fs2 where y: "k_openfile k d name create ex w fs1 = (y, fs2)" by (metis prod.exhaust)
    obtain z fs3 where z: "k_openfile k d name create False w fs2 = (z, fs3)" by (metis prod.exhaust)
    have "fs' = fs2 \<or> fs' = fs3"
      using assms(1) True ne pn x Inr y z
      by (auto simp: openFileWithHook_def SanitizeRelativePath_eq split: sum.splits if_splits)
    moreover have "confined R fs fs2" using confined_trans [OF c1 openfile_confined [OF y d assms(2)]] .
    moreover from confined_trans [OF this openfile_confined [OF z d assms(2)]] have "confined R fs fs3" .
    ultimately show ?thesis by blast
  qed
qed

lemma Remove_confined:
  assumes "Remove k rel r fs = (e, r', fs')" and "root_dir (r_path r) \<in> R"
  shows "confined R fs fs'"
proof (cases "safe_path rel")
  case False
  then show ?thesis using assms(1) by (auto simp: Remove_def SanitizeRelativePath_eq split: if_splits)
next
  case True
  have ne: "rel \<noteq> []" using safe_path_nonempty [OF True] by simp
  obtain parent name where pn: "splitRelative rel = (parent, name)" by (metis prod.exhaust)
  obtain x r1 fs1 where x: "openDirectory k parent False r fs = (x, r1, fs1)" by (metis prod.exhaust)
  have fs1: "fs1 = fs" using openDirectory_made [OF x] by simp
  show ?thesis
  proof (cases x)
    case (Inl e)
    then show ?thesis using assms(1) True ne pn x fs1 by (auto simp: Remove_def SanitizeRelativePath_eq)
  next
    case (Inr d)
    note d = in_parent [OF True pn x [unfolded Inr]]
    show ?thesis
    proof (cases "\<exists>i. lstatAt k fs d name = Inr i \<and> \<not> IsSymlink i")
      case False
      then show ?thesis using assms(1) True ne pn x Inr fs1
        by (cases "lstatAt k fs d name") (auto simp: Remove_def SanitizeRelativePath_eq)
    next
      case l: True
      then obtain i where i: "lstatAt k fs d name = Inr i" "\<not> IsSymlink i" by blast
      obtain y fs2 where y: "k_unlinkat k d name (IsDir i) fs = (y, fs2)" by (metis prod.exhaust)
      have "at_path fs (d @ [name]) = Some i"
        using i(1) d(3) by (auto simp: lstatAt_def k_fstatat_def child_def split: sum.splits option.splits if_splits)
      then have "confined R fs fs2" using unlinkat_confined [OF y d(1) assms(2)] i(2) by fastforce
      then show ?thesis using assms(1) True ne pn x Inr i y fs1
        by (auto simp: Remove_def SanitizeRelativePath_eq split: option.splits)
    qed
  qed
qed

lemma RemoveAll_confined:
  assumes "RemoveAll k rel r fs = (e, r', fs')" and "root_dir (r_path r) \<in> R"
  shows "confined R fs fs'"
proof (cases "safe_path rel")
  case False
  then show ?thesis using assms(1) by (auto simp: RemoveAll_def SanitizeRelativePath_eq split: if_splits)
next
  case True
  have ne: "rel \<noteq> []" using safe_path_nonempty [OF True] by simp
  obtain parent name where pn: "splitRelative rel = (parent, name)" by (metis prod.exhaust)
  obtain x r1 fs1 where x: "openDirectory k parent False r fs = (x, r1, fs1)" by (metis prod.exhaust)
  have fs1: "fs1 = fs" using openDirectory_made [OF x] by simp
  show ?thesis
  proof (cases x)
    case (Inl e)
    then show ?thesis using assms(1) True ne pn x fs1 by (auto simp: RemoveAll_def SanitizeRelativePath_eq)
  next
    case (Inr d)
    obtain y fs2 where y: "removeEntryAt k d name fs = (y, fs2)" by (metis prod.exhaust)
    from removeEntryAt_confined [OF y in_parent(1) [OF True pn x [unfolded Inr]] assms(2)]
    show ?thesis using assms(1) True ne pn x Inr y fs1 by (auto simp: RemoveAll_def SanitizeRelativePath_eq Let_def)
  qed
qed
text \<open>A rename either stops after making directories for the target or reaches the system call with
  a regular source and a target that is no link.\<close>

lemma RenameFrom_cases:
  assumes "RenameFrom k a b ovr s r fs = (e, s', r', fs')"
  obtains (stopped) q where "e \<noteq> None" "prefix q (path_in r b)" "dirs_made q fs fs'"
  | (reached) sd sn dd dn fs2 x c where
      "sd = root_dir (r_path s) @ rel_comps (fst (splitRelative a))" "sd @ [sn] = path_in s a"
      "dd = root_dir (r_path r) @ rel_comps (fst (splitRelative b))" "dd @ [dn] = path_in r b"
      "dirs_made dd fs fs2" "at_path fs2 (sd @ [sn]) = Some (EFile c)" "\<And>t. at_path fs2 (dd @ [dn]) \<noteq> Some (ELink t)"
      "k_renameat k sd sn dd dn (\<not> ovr) fs2 = (x, fs')" "e = None \<longleftrightarrow> x = None"
proof (cases "safe_path a \<and> safe_path b")
  case False
  then have "e \<noteq> None \<and> fs' = fs" using assms safe_path_nonempty
    by (auto simp: RenameFrom_def SanitizeRelativePath_eq split: if_splits sum.splits)
  then show ?thesis using stopped [of "[]"] by simp
next
  case safe: True
  have ne: "a \<noteq> []" "b \<noteq> []" using safe safe_path_nonempty by auto
  obtain sp sn where sp: "splitRelative a = (sp, sn)" by (metis prod.exhaust)
  obtain dp dn where dp: "splitRelative b = (dp, dn)" by (metis prod.exhaust)
  obtain x s1 fs1 where x: "openDirectory k sp False s fs = (x, s1, fs1)" by (metis prod.exhaust)
  have fs1: "fs1 = fs" using openDirectory_made [OF x] by simp
  note un = RenameFrom_def SanitizeRelativePath_eq Let_def
  show ?thesis
  proof (cases x)
    case (Inl err)
    then have "e \<noteq> None \<and> fs' = fs" using assms safe ne sp dp x fs1 by (auto simp: un)
    then show ?thesis using stopped [of "[]"] by simp
  next
    case sx: (Inr sd)
    note sd = in_parent [OF conjunct1 [OF safe] sp x [unfolded sx]]
    obtain y r1 fs2 where y: "openDirectory k dp True r fs = (y, r1, fs2)" by (metis prod.exhaust)
    have made: "dirs_made (root_dir (r_path r) @ rel_comps dp) fs fs2" using openDirectory_made [OF y] by simp
    have pre: "prefix (root_dir (r_path r) @ rel_comps dp) (path_in r b)"
      using splitRelative_comps(1) [OF conjunct2 [OF safe] dp] by simp
    let ?step = "case y of Inl er \<Rightarrow> (Some er, s1, r1, fs2) | Inr dd \<Rightarrow>
       (case lstatAt k fs2 sd sn of
          Inl er \<Rightarrow> (Some er, s1, r1, fs2)
        | Inr info \<Rightarrow>
            if IsSymlink info then (Some ErrSymlink, s1, r1, fs2)
            else if \<not> IsRegular info then (Some ErrNotRegular, s1, r1, fs2)
            else (case (case lstatAt k fs2 dd dn of Inr dinfo \<Rightarrow> if IsSymlink dinfo then Some ErrSymlink else None
                        | Inl er \<Rightarrow> if er = ErrNotExist then None else Some er) of
                    Some er \<Rightarrow> (Some er, s1, r1, fs2)
                  | None \<Rightarrow> (case k_renameat k sd sn dd dn (\<not> ovr) fs2 of
                               (None, fs3) \<Rightarrow> (None, s1, r1, fs3)
                             | (Some er, fs3) \<Rightarrow> (Some (if \<not> ovr \<and> er = EEXIST then ErrConflict else wrapPathError er), s1, r1, fs3))))"
    have "RenameFrom k a b ovr s r fs = ?step"
      using safe ne sp dp x sx y fs1 by (cases y; cases "lstatAt k fs2 sd sn") (simp_all add: un)
    then have step: "(e, s', r', fs') = ?step" using assms by simp
    show ?thesis
    proof (cases "e \<noteq> None \<and> fs' = fs2")
      case True
      then show ?thesis using stopped [OF _ pre] made by simp
    next
      case go: False
      obtain dd info where dd: "y = Inr dd" and info: "lstatAt k fs2 sd sn = Inr info" "\<not> IsSymlink info" "IsRegular info"
        and dest: "(case lstatAt k fs2 dd dn of Inr dinfo \<Rightarrow> if IsSymlink dinfo then Some ErrSymlink else None
                        | Inl er \<Rightarrow> if er = ErrNotExist then None else Some er) = None"
        using step go by (auto split: sum.splits if_splits option.splits)
      note ddp = in_parent [OF conjunct2 [OF safe] dp y [unfolded dd]]
      obtain z fs3 where z: "k_renameat k sd sn dd dn (\<not> ovr) fs2 = (z, fs3)" by (metis prod.exhaust)
      have res: "(e = None \<longleftrightarrow> z = None) \<and> fs' = fs3"
        using step dd info dest z by (auto split: option.splits if_splits)
      obtain c where c: "at_path fs2 (sd @ [sn]) = Some (EFile c)"
        using info sd(3) by (cases info) (auto simp: lstatAt_def k_fstatat_def child_def split: sum.splits option.splits if_splits)
      have "at_path fs2 (dd @ [dn]) \<noteq> Some (ELink t)" for t
        using dest ddp(3) by (auto simp: lstatAt_def k_fstatat_def child_def split: sum.splits option.splits if_splits)
      then show ?thesis using reached [of sd sn dd dn fs2 c z] sd ddp sp dp made c z res by simp
    qed
  qed
qed

lemma RenameFrom_confined:
  assumes "RenameFrom k a b ovr s r fs = (e, s', r', fs')" and "root_dir (r_path s) \<in> R" and "root_dir (r_path r) \<in> R"
  shows "confined R fs fs'"
  using assms(1)
proof (cases rule: RenameFrom_cases)
  case (stopped q)
  then show ?thesis using dirs_made_confined [OF dirs_made_mono assms(3)] by blast
next
  case (reached sd sn dd dn fs2 x c)
  have "confined R fs fs2" using dirs_made_confined [OF _ assms(3)] reached(3,5) by blast
  then show ?thesis
    using renameat_confined [OF reached(8,1) assms(2) reached(3) assms(3)] reached(6,7) confined_trans by blast
qed

lemma conflict_loop_result:
  assumes "conflict_loop k parent stem ext i r fs = (res, r', fs')"
  shows "fs' = fs \<and> r_path r' = r_path r \<and> (\<forall>c. res = Inr c \<longrightarrow> at_path fs (path_in r c) = None \<and>
    (\<exists>j\<ge>i. c = filepath_Join [parent, numbered_name stem ext j]))"
  using assms
proof (induction k parent stem ext i r fs arbitrary: rule: conflict_loop.induct)
  case (1 k parent stem ext i r fs)
  show ?case
  proof (cases "conflict_limit < i \<or> (\<exists>e. SanitizeRelativePath (filepath_Join [parent, numbered_name stem ext i]) = Inl e)")
    case True
    then show ?thesis using "1.prems" by (subst (asm) conflict_loop.simps) (auto split: if_splits)
  next
    case False
    then have c: "SanitizeRelativePath (filepath_Join [parent, numbered_name stem ext i]) = Inr (filepath_Join [parent, numbered_name stem ext i])"
      by (auto simp: SanitizeRelativePath_eq split: if_splits)
    obtain x r1 fs1 where x: "Lstat k (filepath_Join [parent, numbered_name stem ext i]) r fs = (x, r1, fs1)" by (metis prod.exhaust)
    note l = Lstat_result [OF x]
    show ?thesis
    proof (cases "\<exists>info. x = Inr info \<and> \<not> IsSymlink info")
      case True
      then obtain info where info: "x = Inr info" "\<not> IsSymlink info" by blast
      have "conflict_loop k parent stem ext (i + 1) r1 fs1 = (res, r', fs')"
        using "1.prems" False c x info by (subst (asm) conflict_loop.simps) simp
      from "1.IH" [OF _ c x [symmetric] info(1) refl info(2) this] False l show ?thesis
        by (fastforce dest: Suc_leD)
    next
      case stop: False
      then show ?thesis using "1.prems" False c x l
        by (subst (asm) conflict_loop.simps) (auto split: sum.splits if_splits)
    qed
  qed
qed

lemma digits_safe: "c \<in> set (digits_of n) \<Longrightarrow> c \<noteq> slash \<and> c \<noteq> CHR 0x00 \<and> c \<noteq> CHR 0x5C"
  using set_digits_of [of c n] by (auto simp: is_digit_def)

lemma numbered_safe:
  assumes "safe_component (stem @ ext)"
  shows "safe_component (numbered_name stem ext i)"
proof -
  have "length (numbered_name stem ext i) > 2" by (simp add: numbered_name_def)
  then have "numbered_name stem ext i \<notin> {[], ''.'', ''..''}" by auto
  then show ?thesis using assms digits_safe by (auto simp: safe_component_def numbered_name_def)
qed

lemma has_suffix_append: "has_suffix (q @ e) e"
  by (simp add: has_suffix_def)

text \<open>Base name and extension as \<^verbatim>\<open>PlanConflict\<close> splits them give the name back.\<close>

lemma plan_stem_ext:
  assumes "slash \<notin> set base"
  shows "trim_suffix base (if filepath_Ext base = base then [] else filepath_Ext base) @
    (if filepath_Ext base = base then [] else filepath_Ext base) = base"
proof -
  have "has_suffix base (filepath_Ext base)"
  proof -
    define e where "e = rev (takeWhile (\<lambda>c. c \<noteq> CHR ''.'') (rev base))"
    have "takeWhile (\<lambda>c. c \<noteq> slash) (rev base) = rev base" using assms by (auto simp: takeWhile_eq_all_conv)
    then have bp: "base_part base = base" unfolding base_part_def by (metis rev_rev_ident)
    have split: "base = rev (dropWhile (\<lambda>c. c \<noteq> CHR ''.'') (rev base)) @ e"
      unfolding e_def by (metis rev_append rev_rev_ident takeWhile_dropWhile_id)
    show ?thesis
    proof (cases "CHR ''.'' \<in> set base")
      case True
      then have ne: "dropWhile (\<lambda>c. c \<noteq> CHR ''.'') (rev base) \<noteq> []" by (auto simp: dropWhile_eq_Nil_conv)
      then obtain x q where xq: "dropWhile (\<lambda>c. c \<noteq> CHR ''.'') (rev base) = x # q" by (metis list.exhaust)
      have "x = CHR ''.''" using hd_dropWhile [OF ne] xq by simp
      then have "base = rev q @ CHR ''.'' # e" using split xq by simp
      then have "has_suffix base (CHR ''.'' # e)" using has_suffix_append [of "rev q" "CHR ''.'' # e"] by simp
      then show ?thesis using True by (simp add: filepath_Ext_def bp Let_def e_def)
    next
      case False
      then show ?thesis by (simp add: filepath_Ext_def bp has_suffix_def Let_def)
    qed
  qed
  then show ?thesis by (simp add: trim_suffix_def has_suffix_def) (metis append_take_drop_id)
qed

lemma join_parent:
  assumes "parent = [] \<or> safe_path parent" and "safe_component n"
  shows "safe_path (filepath_Join [parent, n]) \<and> rel_comps (filepath_Join [parent, n]) = rel_comps parent @ [n]"
proof -
  have cs: "\<forall>c\<in>set (rel_comps parent @ [n]). safe_component c"
    using assms by (auto simp: rel_comps_def safe_path_def)
  have "filepath_Join [parent, n] = filepath_Clean (join_with slash (rel_comps parent @ [n]))"
    using assms join_snoc [of "split_on slash parent" slash n]
    by (auto simp: filepath_Join_def rel_comps_def safe_component_def)
  also have "\<dots> = join_with slash (rel_comps parent @ [n])"
    using filepath_Clean_safe join_safe [OF _ cs] by simp
  finally show ?thesis using join_safe [OF _ cs] safe_path_nonempty by (auto simp: rel_comps_def)
qed

lemma PlanConflict_result:
  assumes "PlanConflict k rel policy r fs = (res, r', fs')"
  shows "fs' = fs \<and> r_path r' = r_path r \<and>
    (\<forall>c. res = Inr c \<longrightarrow> safe_path c \<and> butlast (rel_comps c) = butlast (rel_comps rel) \<and>
       (policy \<noteq> ''overwrite'' \<longrightarrow> at_path fs (path_in r c) = None) \<and>
       (policy = ''overwrite'' \<longrightarrow> c = rel \<and> (\<forall>t. at_path fs (path_in r c) \<noteq> Some (ELink t))))"
proof -
  obtain x r1 fs1 where x: "Lstat k rel r fs = (x, r1, fs1)" by (metis prod.exhaust)
  note l = Lstat_result [OF x]
  show ?thesis
  proof (cases "(rel = [] \<or> \<not> safe_path rel) \<or> policy \<noteq> ''rename'' \<and> policy \<noteq> ''overwrite'' \<and> policy \<noteq> ''fail''")
    case True
    then have "(\<exists>e. res = Inl e) \<and> r' = r \<and> fs' = fs"
      using assms by (cases "rel = [] \<or> safe_path rel") (auto simp: PlanConflict_def SanitizeRelativePath_eq split: if_splits)
    then show ?thesis by auto
  next
    case ok: False
    then have s: "SanitizeRelativePath rel = Inr rel" "rel \<noteq> []" "safe_path rel" by (auto simp: SanitizeRelativePath_eq)
    show ?thesis
    proof (cases "\<exists>info. x = Inr info \<and> \<not> IsSymlink info \<and> policy = ''rename''")
      case False
      have "(\<exists>e. res = Inl e) \<or> res = Inr rel \<and> x = Inl ErrNotExist \<or> res = Inr rel \<and> policy = ''overwrite'' \<and> (\<exists>i. x = Inr i \<and> \<not> IsSymlink i)"
        and "r' = r1" "fs' = fs1"
        using assms s ok x False by (cases x; auto simp: PlanConflict_def split: if_splits)+
      then show ?thesis using l s by auto
    next
      case True
      then obtain info where info: "x = Inr info" "\<not> IsSymlink info" "policy = ''rename''" by blast
      obtain parent base where pb: "splitRelative rel = (parent, base)" by (metis prod.exhaust)
      note comps = splitRelative_comps [OF s(3) pb]
      let ?ext = "if filepath_Ext base = base then [] else filepath_Ext base" and ?stem = "trim_suffix base (if filepath_Ext base = base then [] else filepath_Ext base)"
      have "conflict_loop k parent ?stem ?ext 1 r1 fs1 = (res, r', fs')"
        using assms s ok x info pb by (simp add: PlanConflict_def Let_def)
      note loop = conflict_loop_result [OF this]
      have "safe_component (?stem @ ?ext)" using plan_stem_ext [of base] comps(2) by (simp add: safe_component_def)
      note safe = join_parent [OF comps(3) numbered_safe [OF this]]
      show ?thesis using loop l info(3) safe comps(1) by auto
    qed
  qed
qed

lemma root_step_confined: "root_step P fs fs' \<Longrightarrow> confined (root_dir ` P) fs fs'"
proof (erule root_stepE)
  fix k s r a b ovr e s' r'
  assume "r_path s \<in> P" "r_path r \<in> P" "RenameFrom k a b ovr s r fs = (e, s', r', fs')"
  then show ?thesis by (meson RenameFrom_confined image_eqI)
next
  fix r k rel policy c r'
  assume "PlanConflict k rel policy r fs = (c, r', fs')"
  then show ?thesis using PlanConflict_result by fastforce
qed (blast intro: Ensure_confined RequireWritable_confined DeviceID_confined MkdirAll_confined openFile_confined
      Lstat_confined Remove_confined RemoveAll_confined SyncDir_confined)+

section \<open>Properties\<close>


definition no_faults :: kernel where
  "no_faults = \<lparr>k_fault = (\<lambda>_ _. False), k_dev = (\<lambda>_. 0)\<rparr>"

definition sample_tree :: node where
  "sample_tree = FDir [(''in'', FDir [(''j'', FDir [(''x'', FFile [1, 2])])]), (''out'', FDir [(''y'', FFile [7]), (''l'', FLink ''/etc'')])]"


text \<open>A file moved from \<open>src\<close> to \<open>dst\<close>, which was free unless \<open>ovr\<close> allows to replace a file.\<close>

definition moved :: "bool \<Rightarrow> string list \<Rightarrow> string list \<Rightarrow> node \<Rightarrow> node \<Rightarrow> bool" where
  "moved ovr src dst fs fs' \<longleftrightarrow>
     (\<exists>c. at_path fs src = Some (EFile c) \<and> at_path fs' dst = Some (EFile c)) \<and>
     (\<not> ovr \<longrightarrow> at_path fs dst = None) \<and> at_path fs dst \<noteq> Some EDir \<and> (\<forall>t. at_path fs dst \<noteq> Some (ELink t)) \<and>
     (src \<noteq> dst \<longrightarrow> at_path fs' src = None) \<and>
     (\<forall>p. p \<noteq> src \<and> p \<noteq> dst \<longrightarrow>
        at_path fs' p = at_path fs p \<or> at_path fs p = None \<and> at_path fs' p = Some EDir \<and> prefix p dst)"

lemma leaf_below:
  assumes "at_path fs p \<noteq> Some EDir" and "q \<noteq> []"
  shows "at_path fs (p @ q) = None"
proof (cases "at_path fs p")
  case None
  then show ?thesis by (rule at_path_None_append)
next
  case (Some e)
  then show ?thesis using at_path_leaf_append [OF Some] assms by (cases e) auto
qed

lemma renameat_moved:
  assumes "k_renameat k sd sn dd dn (\<not> ovr) fs = (None, fs')" and c: "at_path fs (sd @ [sn]) = Some (EFile c)"
    and nl: "\<And>t. at_path fs (dd @ [dn]) \<noteq> Some (ELink t)"
  shows "moved ovr (sd @ [sn]) (dd @ [dn]) fs fs'"
proof -
  have lk: "look fs (sd @ [sn]) = Some (FFile c)"
    using c by (auto simp: at_path_def) (metis entry_of.simps entry.distinct(1,3,5) entry.inject(1) node.exhaust)
  have r: "at_path fs dd = Some EDir" "at_path fs (dd @ [dn]) \<noteq> Some EDir" "\<not> ovr \<longrightarrow> at_path fs (dd @ [dn]) = None"
      "fs' = (if sd @ [sn] = dd @ [dn] then fs else put_entry dd dn (Some (FFile c)) (put_entry sd sn None fs))"
    using assms(1) lk by (auto simp: k_renameat_def split: if_splits)
  show ?thesis
  proof (cases "sd @ [sn] = dd @ [dn]")
    case True
    then show ?thesis using r c nl unfolding moved_def by auto
  next
    case False
    have sdir: "at_path fs sd = Some EDir" using c by (intro at_path_prefix_dir [of fs _ sn "[]"]) auto
    have apart: "\<not> prefix (sd @ [sn]) dd"
      using r(1) c leaf_below [of fs "sd @ [sn]"] by (auto elim!: prefixE) (metis append_Nil2 append_assoc append_Cons append_Nil entry.distinct(1) option.distinct(1) option.inject)
    have fs': "fs' = put_entry dd dn (Some (FFile c)) (put_entry sd sn None fs)" using r(4) False by auto
    note mv = tree.move_entry [OF sdir r(1) apart, of dn "FFile c", folded fs']
    have not_below: "\<not> prefix (dd @ [dn]) (sd @ [sn])"
    proof
      assume "prefix (dd @ [dn]) (sd @ [sn])"
      then obtain q where q: "sd @ [sn] = (dd @ [dn]) @ q" by (auto elim: prefixE)
      then show False using leaf_below [OF r(2), of q] c False by (metis append_Nil2 option.distinct(1))
    qed
    have "at_path fs' p = at_path fs p" if p: "p \<noteq> sd @ [sn]" "p \<noteq> dd @ [dn]" for p
    proof (cases "prefix (dd @ [dn]) p")
      case True
      then obtain q where "p = (dd @ [dn]) @ q" "q \<noteq> []" using p(2) by (metis append_Nil2 prefixE)
      then show ?thesis using leaf_below [OF r(2)] mv by (cases q) (simp_all add: at_path_Cons_leaf)
    next
      case nd: False
      show ?thesis
      proof (cases "prefix (sd @ [sn]) p")
        case True
        then obtain q where "p = (sd @ [sn]) @ q" "q \<noteq> []" using p(1) by (metis append_Nil2 prefixE)
        then show ?thesis using leaf_below [of fs "sd @ [sn]" q] c mv nd by simp
      qed (simp add: mv nd)
    qed
    moreover have "at_path fs' (dd @ [dn]) = Some (EFile c)" by (simp add: mv)
    moreover have "at_path fs' (sd @ [sn]) = None" using not_below by (simp add: mv)
    ultimately show ?thesis using r(2,3) nl c unfolding moved_def by auto
  qed
qed

lemma RenameFrom_result:
  assumes "RenameFrom k a b ovr s r fs = (e, s', r', fs')"
  shows "(e = None \<longrightarrow> moved ovr (path_in s a) (path_in r b) fs fs') \<and> (e \<noteq> None \<longrightarrow> dirs_made (path_in r b) fs fs')"
  using assms
proof (cases rule: RenameFrom_cases)
  case (stopped q)
  then show ?thesis using dirs_made_mono [OF stopped(3,2)] by auto
next
  case (reached sd sn dd dn fs2 x c)
  have made: "dirs_made (path_in r b) fs fs2" using dirs_made_mono [OF reached(5)] reached(4) by (metis prefixI)
  show ?thesis
  proof (cases x)
    case (Some er)
    then have "fs' = fs2" using reached(8) by (auto simp: k_renameat_def split: if_splits option.splits)
    then show ?thesis using made Some reached(9) by auto
  next
    case None
    have mv: "moved ovr (path_in s a) (path_in r b) fs2 fs'"
      using renameat_moved [OF reached(8) [unfolded None] reached(6,7)] reached(2,4) by simp
    have src: "at_path fs (path_in s a) = at_path fs2 (path_in s a)"
      using made reached(6) reached(2) unfolding dirs_made_def by (metis entry.distinct(1) option.inject)
    have dst: "at_path fs (path_in r b) = at_path fs2 (path_in r b)"
      using made mv unfolding dirs_made_def moved_def by metis
    have "at_path fs' p = at_path fs p \<or> at_path fs p = None \<and> at_path fs' p = Some EDir \<and> prefix p (path_in r b)"
      if p: "p \<noteq> path_in s a \<and> p \<noteq> path_in r b" for p
    proof -
      have "at_path fs' p = at_path fs2 p \<or> at_path fs2 p = None \<and> at_path fs' p = Some EDir \<and> prefix p (path_in r b)"
        using mv p by (simp add: moved_def)
      moreover have "at_path fs2 p = at_path fs p \<or> at_path fs p = None \<and> at_path fs2 p = Some EDir \<and> prefix p (path_in r b)"
        using made by (simp add: dirs_made_def)
      ultimately show ?thesis by auto
    qed
    then have "moved ovr (path_in s a) (path_in r b) fs fs'" using mv src dst by (simp add: moved_def)
    then show ?thesis using None reached(9) by simp
  qed
qed

lemma RenameFrom_roots:
  assumes "RenameFrom k a b ovr s r fs = (e, s', r', fs')"
  shows "r_path s' = r_path s \<and> r_path r' = r_path r"
  using assms unfolding RenameFrom_def
  by (auto split: prod.splits sum.splits if_splits option.splits dest!: openDirectory_made)



text \<open>
  Conflict planning changes nothing and yields a sanitized name in the directory of the
  wished one; for the policies rename and fail nothing exists under it, for overwrite it is the
  wished name and no symbolic link.
\<close>

lemma conflict_plan_sound:
  assumes "PlanConflict k rel policy r fs = (Inr c, r', fs')"
  shows "fs' = fs \<and> safe_path c \<and> butlast (rel_comps c) = butlast (rel_comps rel) \<and>
    (if policy = ''overwrite'' then c = rel \<and> (\<forall>t. at_path fs (path_in r c) \<noteq> Some (ELink t))
     else at_path fs (path_in r c) = None)"
  using PlanConflict_result [OF assms] by auto

lemma RemoveAll_result:
  assumes "RemoveAll k rel r fs = (e, r', fs')" and "safe_path rel"
  shows "(e = None \<longrightarrow> (\<forall>q. at_path fs' (path_in r rel @ q) = None) \<and> (\<forall>q t. at_path fs (path_in r rel @ q) \<noteq> Some (ELink t))) \<and>
    (\<forall>p. at_path fs' p = at_path fs p \<or> at_path fs' p = None \<and> prefix (path_in r rel) p)"
proof -
  have ne: "rel \<noteq> []" using safe_path_nonempty [OF assms(2)] by simp
  obtain parent name where pn: "splitRelative rel = (parent, name)" by (metis prod.exhaust)
  obtain x r1 fs1 where x: "openDirectory k parent False r fs = (x, r1, fs1)" by (metis prod.exhaust)
  have fs1: "fs1 = fs" using openDirectory_made [OF x] by simp
  note un = RemoveAll_def SanitizeRelativePath_eq Let_def
  show ?thesis
  proof (cases x)
    case (Inl er)
    have "at_path fs (path_in r rel @ q) = None" if "er = ErrNotExist" for q
      using openDirectory_ErrNotExist [of k parent r fs r1 fs1] x Inl that splitRelative_comps(1) [OF assms(2) pn]
        at_path_None_append [of fs "path_in r parent" "[name] @ q"] by simp
    then show ?thesis using assms ne pn x Inl fs1 by (auto simp: un split: if_splits)
  next
    case (Inr d)
    note d = in_parent [OF assms(2) pn x [unfolded Inr]]
    obtain y fs2 where y: "removeEntryAt k d name fs = (y, fs2)" by (metis prod.exhaust)
    have res: "e = y" "fs' = fs2" using assms ne pn x Inr fs1 y by (auto simp: un)
    show ?thesis
    proof (cases "look fs (d @ [name])")
      case None
      then have "at_path fs (path_in r rel @ q) = None" for q
        using at_path_None_append [of fs "d @ [name]" q] d(2) by (simp add: at_path_def)
      moreover have "fs2 = fs" using y None by (auto simp: removeEntryAt_def split: if_splits)
      ultimately show ?thesis using res by simp
    next
      case (Some n)
      have at: "at_path fs (path_in r rel @ q) = at_path n q" for q
        using at_path_append [of fs "d @ [name]" q] Some d(2) by simp
      have dir: "at_path fs d = Some EDir"
        using at_path_prefix_dir [of fs d name "[]"] at_path_append [of fs "d @ [name]" "[]"] Some by simp
      obtain e1 v where r: "remove_node k (d @ [name]) n = (e1, v)" by (metis prod.exhaust)
      show ?thesis
      proof (cases "k_fault k KStat (d @ [name])")
        case True
        then show ?thesis using y res by (auto simp: removeEntryAt_def)
      next
        case False
        then have e1: "y = e1" "fs2 = put_entry d name v fs" using y Some r by (auto simp: removeEntryAt_def)
        have put: "at_path fs2 (path_in r rel @ q) = (case v of None \<Rightarrow> None | Some n' \<Rightarrow> at_path n' q)" for q
        proof -
          have "at_path fs2 ((d @ [name]) @ q) = (case v of None \<Rightarrow> None | Some n' \<Rightarrow> at_path n' q)"
            by (cases v) (simp_all add: e1(2) tree.put_bound [OF dir] tree.put_removed [OF dir])
          then show ?thesis by (simp only: d(2))
        qed
        have out: "at_path fs2 p = at_path fs p" if "\<not> prefix (path_in r rel) p" for p
          using tree.put_outside [OF dir, of name p v] that d(2) by (simp add: e1(2))
        have below: "at_path fs2 p = at_path fs p \<or> at_path fs2 p = None" if pre: "prefix (path_in r rel) p" for p
        proof -
          obtain q where q: "p = path_in r rel @ q" using pre unfolding prefix_def by blast
          show ?thesis
          proof (cases v)
            case (Some n')
            then have "at_path n' q = None \<or> at_path n' q = at_path n q" using remove_trims(1) [OF r] by (simp add: trimmed_def)
            then show ?thesis using put [of q] at [of q] Some by (metis option.simps(5) q)
          qed (use put [of q] q in simp)
        qed
        have "e1 = None \<Longrightarrow> v = None \<and> link_free n" using remove_trims(1) [OF r] by auto
        then have "e = None \<longrightarrow> (\<forall>q. at_path fs' (path_in r rel @ q) = None) \<and> (\<forall>q t. at_path fs (path_in r rel @ q) \<noteq> Some (ELink t))"
          using res e1(1) put at by (auto simp: link_free_def)
        moreover have "at_path fs' p = at_path fs p \<or> at_path fs' p = None \<and> prefix (path_in r rel) p" for p
          unfolding res using out below by blast
        ultimately show ?thesis by blast
      qed
    qed
  qed
qed

lemma Remove_result:
  assumes "Remove k rel r fs = (e, r', fs')"
  shows "(\<forall>p. at_path fs' p = at_path fs p \<or> at_path fs' p = None \<and> prefix (path_in r rel) p) \<and> r_path r' = r_path r"
proof (cases "safe_path rel")
  case False
  then show ?thesis using assms by (auto simp: Remove_def SanitizeRelativePath_eq split: if_splits)
next
  case True
  obtain parent name where pn: "splitRelative rel = (parent, name)" by (metis prod.exhaust)
  obtain x r1 fs1 where x: "openDirectory k parent False r fs = (x, r1, fs1)" by (metis prod.exhaust)
  have r1: "r_path r1 = r_path r" "fs1 = fs" using openDirectory_made [OF x] by simp_all
  show ?thesis
  proof (cases "fs' = fs \<and> r' = r1")
    case True
    then show ?thesis using r1 by simp
  next
    case False
    obtain d where d: "x = Inr d" using assms True pn x r1 False safe_path_nonempty [OF True]
      by (cases x) (auto simp: Remove_def SanitizeRelativePath_eq)
    note dir = in_parent [OF True pn x [unfolded d]]
    obtain dirflag where "k_unlinkat k d name dirflag fs = (None, fs') \<and> r' = r1"
      using assms True pn x d r1 False safe_path_nonempty [OF True]
      by (auto simp: Remove_def SanitizeRelativePath_eq k_unlinkat_def split: sum.splits if_splits option.splits node.splits prod.splits)
    then have u: "fs' = put_entry d name None fs" "look fs (d @ [name]) \<noteq> None" "r' = r1"
      by (auto simp: k_unlinkat_def split: if_splits option.splits node.splits)
    have "at_path fs d = Some EDir" using u(2) at_path_prefix_dir [of fs d name "[]"] by (auto simp: at_path_def)
    then show ?thesis using tree.get_put [of fs d name None] u r1 dir(2) by auto
  qed
qed

text \<open>
  Recursive removal is complete or reports an error: when it succeeds nothing is left at or
  below the path and there had been no symbolic link in it; when it fails, entries have only
  disappeared below the path, and no symbolic link has.
\<close>

lemma remove_all_complete:
  assumes "RemoveAll k rel r fs = (e, r', fs')" and "safe_path rel"
  shows "(e = None \<longrightarrow> (\<forall>q. at_path fs' (path_in r rel @ q) = None) \<and> (\<forall>q t. at_path fs (path_in r rel @ q) \<noteq> Some (ELink t))) \<and>
    (\<forall>p. at_path fs' p = at_path fs p \<or> at_path fs' p = None \<and> prefix (path_in r rel) p)"
  by (rule RemoveAll_result [OF assms])

end
