(* ===== verification/FileTransfer.thy ===== *)
theory FileTransfer
  imports Worker Store
begin

text \<open>
  The transfer of one file (\<^verbatim>\<open>processFileWithTransfer\<close> of \<^verbatim>\<open>internal/download/manager.go\<close> up to the
  final checkpoint, \<^verbatim>\<open>CheckpointManager.Commit\<close> of \<^verbatim>\<open>checkpoint.go\<close>): segment workers that claim
  indices from a shared counter and write into the partial file, a result channel, and the
  loop that marks segments and writes checkpoints. Workers and loop run concurrently: the
  state machine has one step per atomic action, so its invariants hold for every
  interleaving. The partial file is kept twice, as the running system sees it and as the last
  successful \<^verbatim>\<open>Sync\<close> left it on disk, with the ranges written since; a crash keeps every byte
  that was not written since the last \<^verbatim>\<open>Sync\<close> and leaves the others arbitrary.
\<close>

section \<open>State\<close>

record segmentResult =
  res_segment :: segment
  res_written :: int
  res_err :: "go_error option"

text \<open>Where the main goroutine is: in its loop, about to write a checkpoint, between \<^verbatim>\<open>Sync\<close> and the
  transaction (with the bitmap and byte count it captured), or done with the error it returns.
  The flag tells the checkpoint after the loop from those inside it.\<close>

datatype phase = InLoop | Due bool | Syncing bool bitmap int | Finished "go_error option"

record xfer =
  x_planner :: segment_planner
  x_fileID :: string
  x_bitmap :: bitmap
  x_claimBitmap :: bitmap
  x_committed :: int
  x_bytesSince :: int
  x_dirty :: bool
  x_next :: int
  x_workers :: nat            \<comment> \<open>started workers\<close>
  x_idle :: nat               \<comment> \<open>workers at the head of their loop\<close>
  x_busy :: "segment list"    \<comment> \<open>segments being downloaded\<close>
  x_results :: "segmentResult list"
  x_stopped :: bool           \<comment> \<open>\<^verbatim>\<open>transferCtx\<close> is done\<close>
  x_cancelled :: bool         \<comment> \<open>the caller's \<^verbatim>\<open>ctx\<close> is done\<close>
  x_transferErr :: "go_error option"
  x_phase :: phase
  x_data :: bytes
  x_synced :: bytes
  x_unsynced :: "(nat \<times> nat) list"   \<comment> \<open>offset and length of the writes since the last \<^verbatim>\<open>Sync\<close>\<close>
  x_db :: database

section \<open>Setup\<close>

definition plan_go_error :: "plan_error \<Rightarrow> go_error" where
  "plan_go_error e = errors_New ''invalid segment plan''"

text \<open>\<open>decrypt\<close> is \<^verbatim>\<open>SecretStore.Decrypt\<close>, \<open>opened\<close> the outcome of \<^verbatim>\<open>OpenPartialFile\<close>. The result is the
  decoded key, the payload URL and the state in which the workers start.\<close>

definition transfer_start ::
  "(bytes \<Rightarrow> go_error + bytes) \<Rightarrow> int \<Rightarrow> file_row \<Rightarrow> path_error + (partial_file \<times> bool) \<Rightarrow> database
     \<Rightarrow> go_error + (FileKey \<times> bytes \<times> xfer)" where
  "transfer_start decrypt workersPerFile file opened d =
     (case NewSegmentPlanner (SizeBytes file) (SegmentSizeBytes file) of
        Inl e \<Rightarrow> Inl (plan_go_error e)
      | Inr planner \<Rightarrow>
          if Count planner \<noteq> SegmentCount file then Inl (errors_New ''segment count does not match planned count'')
          else (case bitmapForFile (CompletedBitmap file) (Count planner) of
                  Inl e \<Rightarrow> Inl (plan_go_error e)
                | Inr bitmap0 \<Rightarrow>
                    (let committed0 = committedBytes planner bitmap0 in
                     if committed0 < 0 \<or> committed0 > SizeBytes file then Inl (errors_New ''committed bytes are invalid'')
                     else (case decrypt (FileKeyCiphertext file) of
                             Inl e \<Rightarrow> Inl (wrap_error ''decrypt file key: '' e)
                           | Inr rawKey \<Rightarrow>
                               (case decodeFileKeyBytes rawKey of
                                  Inl e \<Rightarrow> Inl (errors_New ''invalid key'')
                                | Inr key \<Rightarrow>
                                    (case decrypt (PayloadURLCiphertext file) of
                                       Inl e \<Rightarrow> Inl (wrap_error ''decrypt payload location: '' e)
                                     | Inr payloadURL \<Rightarrow>
                                         if payloadURL = [] then Inl (errors_New ''payload location is empty'')
                                         else (case opened of
                                                 Inl e \<Rightarrow> Inl (errors_New ''open partial file'')
                                               | Inr (partial, existed) \<Rightarrow>
                                                   (let reset = (\<not> existed \<and> bitmap_Count bitmap0 > 0);
                                                        bitmap = (if reset then NewBitmapUnchecked (Count planner) else bitmap0);
                                                        committed = (if reset then 0 else committed0);
                                                        pendingSegments = i64 (Count planner - bitmap_Count bitmap);
                                                        workers0 = (if pendingSegments < workersPerFile then pendingSegments else workersPerFile);
                                                        workers = nat (if workers0 < 1 \<and> pendingSegments > 0 then 1 else workers0)
                                                    in Inr (key, payloadURL,
                                                      \<lparr>x_planner = planner, x_fileID = file_ID file, x_bitmap = bitmap, x_claimBitmap = bitmap,
                                                       x_committed = committed, x_bytesSince = 0, x_dirty = False, x_next = 0,
                                                       x_workers = workers, x_idle = workers, x_busy = [], x_results = [],
                                                       x_stopped = False, x_cancelled = False, x_transferErr = None, x_phase = InLoop,
                                                       x_data = p_data partial, x_synced = p_data partial, x_unsynced = [],
                                                       x_db = d\<rparr>)))))))))"

section \<open>Workers\<close>

text \<open>One \<^verbatim>\<open>atomic.AddInt64\<close> of a worker at the head of its loop: it goes on when the index is done
  already, leaves when there is none or the transfer was stopped, or takes the segment.\<close>

definition worker_claim :: "xfer \<Rightarrow> xfer" where
  "worker_claim x =
     (let i = x_next x; x1 = x\<lparr>x_next := i + 1\<rparr> in
      if i < Count (x_planner x) \<and> bitmap_IsSet (x_claimBitmap x) i then x1
      else if i \<ge> Count (x_planner x) \<or> x_stopped x then x1\<lparr>x_idle := x_idle x - 1\<rparr>
      else (case planner_Segment (x_planner x) i of
              Inl e \<Rightarrow> x1\<lparr>x_idle := x_idle x - 1, x_stopped := True,
                          x_results := x_results x @ [\<lparr>res_segment = \<lparr>Index = 0, Start = 0, End = 0\<rparr>, res_written = 0,
                                                       res_err = Some (plan_go_error e)\<rparr>]\<rparr>
            | Inr s \<Rightarrow> x1\<lparr>x_idle := x_idle x - 1, x_busy := x_busy x @ [s]\<rparr>))"

text \<open>A positioned write of a worker, and the end of its download: \<open>err\<close> is also the error of a slot
  that could not be acquired, after which the worker leaves without stopping the others.\<close>

definition worker_write :: "nat \<Rightarrow> bytes \<Rightarrow> xfer \<Rightarrow> xfer" where
  "worker_write off bs x =
     x\<lparr>x_data := overwrite (x_data x) off bs, x_unsynced := (off, length bs) # x_unsynced x\<rparr>"

definition worker_finish :: "segment \<Rightarrow> int \<Rightarrow> go_error option \<Rightarrow> bool \<Rightarrow> xfer \<Rightarrow> xfer" where
  "worker_finish s written err acquired x =
     (let x1 = x\<lparr>x_busy := remove1 s (x_busy x),
                 x_results := x_results x @ [\<lparr>res_segment = (if acquired then s else \<lparr>Index = 0, Start = 0, End = 0\<rparr>),
                                              res_written = (if acquired then written else 0), res_err = err\<rparr>]\<rparr>
      in if err = None then x1\<lparr>x_idle := x_idle x + 1\<rparr>
         else if acquired then x1\<lparr>x_stopped := True\<rparr> else x1)"

section \<open>The main loop\<close>

definition transfer_fail :: "go_error \<Rightarrow> xfer \<Rightarrow> xfer" where
  "transfer_fail e x = x\<lparr>x_transferErr := Some e, x_stopped := True\<rparr>"

text \<open>One result from the channel; \<open>limit\<close> is \<^verbatim>\<open>runtime.checkpointBytes\<close>.\<close>

definition process_result :: "int \<Rightarrow> segmentResult \<Rightarrow> xfer \<Rightarrow> xfer" where
  "process_result limit r x =
     (case res_err r of
        Some e \<Rightarrow> if x_transferErr x = None then transfer_fail e x else x
      | None \<Rightarrow>
          if x_transferErr x \<noteq> None then x
          else if res_written r \<noteq> segment_Size (res_segment r) then transfer_fail (errors_New ''segment wrote too few bytes'') x
          else (case bitmap_Set (x_bitmap x) (Index (res_segment r)) of
                  Inl e \<Rightarrow> transfer_fail (plan_go_error e) x
                | Inr b \<Rightarrow>
                    (let x1 = x\<lparr>x_bitmap := b, x_committed := i64 (x_committed x + segment_Size (res_segment r)),
                                x_bytesSince := i64 (x_bytesSince x + segment_Size (res_segment r)), x_dirty := True\<rparr>
                     in if x_bytesSince x1 \<ge> limit then x1\<lparr>x_phase := Due False\<rparr> else x1)))"

definition consume_result :: "int \<Rightarrow> xfer \<Rightarrow> xfer" where
  "consume_result limit x =
     (case x_results x of [] \<Rightarrow> x | r # rs \<Rightarrow> process_result limit r (x\<lparr>x_results := rs\<rparr>))"

definition ticker :: "xfer \<Rightarrow> xfer" where
  "ticker x = (if x_dirty x \<and> x_transferErr x = None then x\<lparr>x_phase := Due False\<rparr> else x)"

text \<open>The loop ends when the channel is closed, that is, when all workers are gone and it is empty.\<close>

definition loop_end :: "xfer \<Rightarrow> xfer" where
  "loop_end x =
     (if x_transferErr x \<noteq> None then (if x_dirty x then x\<lparr>x_phase := Due True\<rparr> else x\<lparr>x_phase := Finished (x_transferErr x)\<rparr>)
      else if x_dirty x \<or> Count (x_planner x) = 0 then x\<lparr>x_phase := Due True\<rparr>
      else x\<lparr>x_phase := Finished None\<rparr>)"

text \<open>How a failed and a successful checkpoint go on: inside the loop a failure becomes the transfer
  error; after it, an earlier transfer error wins only when the context is done.\<close>

definition checkpoint_failed :: "bool \<Rightarrow> go_error \<Rightarrow> xfer \<Rightarrow> xfer" where
  "checkpoint_failed final e x =
     (if \<not> final then (transfer_fail e x)\<lparr>x_phase := InLoop\<rparr>
      else x\<lparr>x_phase := Finished (case x_transferErr x of Some t \<Rightarrow> (if x_cancelled x then Some t else Some e) | None \<Rightarrow> Some e)\<rparr>)"

definition checkpoint_done :: "bool \<Rightarrow> xfer \<Rightarrow> xfer" where
  "checkpoint_done final x =
     (let x1 = x\<lparr>x_dirty := False, x_bytesSince := 0\<rparr> in
      x1\<lparr>x_phase := (if final then Finished (x_transferErr x) else InLoop)\<rparr>)"

text \<open>\<^verbatim>\<open>Commit\<close>: the bitmap is captured, then the file is synced \<dots>\<close>

definition commit_sync :: "go_error option \<Rightarrow> bool \<Rightarrow> xfer \<Rightarrow> xfer" where
  "commit_sync sync_err final x =
     (if x_fileID x = [] then checkpoint_failed final (errors_New ''checkpoint file and file id are required'') x
      else case sync_err of
        Some e \<Rightarrow> checkpoint_failed final (wrap_error ''sync partial file: '' e) x
      | None \<Rightarrow> x\<lparr>x_synced := x_data x, x_unsynced := [], x_phase := Syncing final (x_bitmap x) (x_committed x)\<rparr>)"

text \<open>\<dots> and then bitmap and byte count go to the database in one transaction.\<close>

definition commit_persist :: "faults \<Rightarrow> bool \<Rightarrow> int \<Rightarrow> int \<Rightarrow> bool \<Rightarrow> bitmap \<Rightarrow> int \<Rightarrow> xfer \<Rightarrow> xfer" where
  "commit_persist flt commit_ok now when final bitmap committed x =
     (case CheckpointDownloadFiles flt commit_ok now
             [\<lparr>cp_FileID = x_fileID x, cp_CompletedBitmap = bitmap, cp_BytesCommitted = committed,
               cp_State = Some FileDownloading, cp_LastErrorCode = [], cp_LastErrorMessage = [],
               cp_UpdatedAt = norm_time now when\<rparr>] (x_db x) of
        (Some e, d') \<Rightarrow> checkpoint_failed final (errors_New ''checkpoint download file'') (x\<lparr>x_db := d'\<rparr>)
      | (None, d') \<Rightarrow> checkpoint_done final (x\<lparr>x_db := d'\<rparr>))"

definition cancel_transfer :: "xfer \<Rightarrow> xfer" where
  "cancel_transfer x = x\<lparr>x_cancelled := True, x_stopped := True\<rparr>"

section \<open>The transfer as a state machine\<close>

text \<open>\<open>good i c\<close>: a successful download of segment \<open>i\<close> leaves the contents \<open>c\<close> in its range. What
  that is, \<^verbatim>\<open>Worker\<close> proves: the decrypted payload.\<close>

definition seg_content :: "segment_planner \<Rightarrow> nat \<Rightarrow> bytes \<Rightarrow> bytes" where
  "seg_content p i data = take (nat (seg_hi p i - seg_lo p i + 1)) (drop (nat (seg_lo p i)) data)"

definition within :: "segment \<Rightarrow> nat \<Rightarrow> nat \<Rightarrow> bool" where
  "within s off len \<longleftrightarrow> Start s \<le> int off \<and> int (off + len) \<le> End s + 1"

inductive xfer_step :: "(nat \<Rightarrow> bytes \<Rightarrow> bool) \<Rightarrow> int \<Rightarrow> xfer \<Rightarrow> xfer \<Rightarrow> bool" for good limit where
  claim: "0 < x_idle x \<Longrightarrow> xfer_step good limit x (worker_claim x)"
| put: "s \<in> set (x_busy x) \<Longrightarrow> within s off (length bs) \<Longrightarrow> xfer_step good limit x (worker_write off bs x)"
| finish_ok: "s \<in> set (x_busy x) \<Longrightarrow> good (nat (Index s)) (seg_content (x_planner x) (nat (Index s)) (x_data x)) \<Longrightarrow>
    xfer_step good limit x (worker_finish s (segment_Size s) None True x)"
| finish_err: "s \<in> set (x_busy x) \<Longrightarrow> xfer_step good limit x (worker_finish s w (Some e) acquired x)"
| consume: "x_phase x = InLoop \<Longrightarrow> x_results x \<noteq> [] \<Longrightarrow> xfer_step good limit x (consume_result limit x)"
| tick: "x_phase x = InLoop \<Longrightarrow> xfer_step good limit x (ticker x)"
| ending: "x_phase x = InLoop \<Longrightarrow> x_idle x = 0 \<Longrightarrow> x_busy x = [] \<Longrightarrow> x_results x = [] \<Longrightarrow> xfer_step good limit x (loop_end x)"
| sync: "x_phase x = Due final \<Longrightarrow> xfer_step good limit x (commit_sync sync_err final x)"
| persist: "x_phase x = Syncing final b c \<Longrightarrow> xfer_step good limit x (commit_persist flt ok now when final b c x)"
| cancel: "xfer_step good limit x (cancel_transfer x)"

inductive_cases xfer_stepE: "xfer_step good limit x x'"

text \<open>The contents a crash may leave behind.\<close>

definition crash_leaves :: "xfer \<Rightarrow> bytes \<Rightarrow> bool" where
  "crash_leaves x d \<longleftrightarrow> length d = length (x_synced x) \<and>
     (\<forall>i<length d. (\<forall>(off, len)\<in>set (x_unsynced x). \<not> (off \<le> i \<and> i < off + len)) \<longrightarrow> d ! i = x_synced x ! i)"

end
