(* ===== verification/TransferSafety.thy ===== *)
theory TransferSafety
  imports FileTransfer
begin

text \<open>
  The invariant of the transfer state machine and what follows from it: whatever is marked in
  the stored bitmap is on disk, at every moment and after every crash, and a transfer that
  ends without an error has everything.
\<close>

section \<open>The invariant\<close>

abbreviation segs :: "segment_planner \<Rightarrow> nat" where
  "segs p \<equiv> nat (Count p)"

definition seg :: "segment_planner \<Rightarrow> nat \<Rightarrow> segment" where
  "seg p i = \<lparr>Index = int i, Start = seg_lo p i, End = seg_hi p i\<rparr>"

definition oks :: "segmentResult list \<Rightarrow> segment list" where
  "oks rs = map res_segment (filter (\<lambda>r. res_err r = None) rs)"

definition marks_inv :: "segment_planner \<Rightarrow> bitmap \<Rightarrow> bitmap \<Rightarrow> int \<Rightarrow> int \<Rightarrow> bool" where
  "marks_inv p bm cl nx committed \<longleftrightarrow> bm_shape bm (segs p) \<and> bm_shape cl (segs p) \<and> 0 \<le> nx \<and>
     (\<forall>i. bm_mem cl i \<longrightarrow> bm_mem bm i) \<and> (\<forall>i. bm_mem bm i \<longrightarrow> bm_mem cl i \<or> int i < nx) \<and>
     committed = rp.done_bytes p bm"

text \<open>Segments in work or waiting in the channel are distinct, claimed and not yet marked.\<close>

definition held_inv :: "segment_planner \<Rightarrow> bitmap \<Rightarrow> int \<Rightarrow> segment list \<Rightarrow> bool" where
  "held_inv p bm nx ss \<longleftrightarrow> distinct ss \<and>
     (\<forall>s\<in>set ss. \<exists>i. s = seg p i \<and> i < segs p \<and> int i < nx \<and> \<not> bm_mem bm i)"

definition content_inv :: "(nat \<Rightarrow> bytes \<Rightarrow> bool) \<Rightarrow> segment_planner \<Rightarrow> bitmap \<Rightarrow> segment list \<Rightarrow> bytes \<Rightarrow> bool" where
  "content_inv good p bm ok data \<longleftrightarrow> int (length data) = Size p \<and>
     (\<forall>i. bm_mem bm i \<longrightarrow> good i (seg_content p i data)) \<and>
     (\<forall>i. seg p i \<in> set ok \<longrightarrow> good i (seg_content p i data))"

definition untouched :: "segment_planner \<Rightarrow> (nat \<times> nat) list \<Rightarrow> nat \<Rightarrow> bool" where
  "untouched p ws i \<longleftrightarrow> (\<forall>(off, len)\<in>set ws. \<forall>k. off \<le> k \<and> k < off + len \<longrightarrow> \<not> (seg_lo p i \<le> int k \<and> int k \<le> seg_hi p i))"

text \<open>What bitmap \<open>b\<close> marks is on disk for good.\<close>

definition durable :: "(nat \<Rightarrow> bytes \<Rightarrow> bool) \<Rightarrow> segment_planner \<Rightarrow> bitmap \<Rightarrow> bytes \<Rightarrow> (nat \<times> nat) list \<Rightarrow> bitmap \<Rightarrow> bool" where
  "durable good p bm synced ws b \<longleftrightarrow> bm_shape b (segs p) \<and>
     (\<forall>i. bm_mem b i \<longrightarrow> bm_mem bm i \<and> good i (seg_content p i synced) \<and> untouched p ws i)"

definition stored_bitmap :: "string \<Rightarrow> int \<Rightarrow> database \<Rightarrow> bitmap option" where
  "stored_bitmap fid cnt d =
     (case find_row file_ID fid (files d) of
        None \<Rightarrow> None
      | Some f \<Rightarrow> (case bitmapForFile (CompletedBitmap f) cnt of Inl _ \<Rightarrow> None | Inr b \<Rightarrow> Some b))"

text \<open>Between \<^verbatim>\<open>Sync\<close> and the transaction the captured bitmap is the current one and on disk.\<close>

definition sync_inv :: "(nat \<Rightarrow> bytes \<Rightarrow> bool) \<Rightarrow> segment_planner \<Rightarrow> bitmap \<Rightarrow> bytes \<Rightarrow> (nat \<times> nat) list \<Rightarrow> phase \<Rightarrow> bool" where
  "sync_inv good p bm synced ws ph \<longleftrightarrow>
     (\<forall>f b c. ph = Syncing f b c \<longrightarrow> b = bm \<and> c = rp.done_bytes p bm \<and> durable good p bm synced ws bm)"

lemma sync_inv_other [simp]:
  "sync_inv good p bm synced ws InLoop" "sync_inv good p bm synced ws (Due f)" "sync_inv good p bm synced ws (Finished e)"
  by (simp_all add: sync_inv_def)

definition xfer_inv :: "(nat \<Rightarrow> bytes \<Rightarrow> bool) \<Rightarrow> xfer \<Rightarrow> bool" where
  "xfer_inv good x \<longleftrightarrow> planner_ok (x_planner x) \<and>
     marks_inv (x_planner x) (x_bitmap x) (x_claimBitmap x) (x_next x) (x_committed x) \<and>
     held_inv (x_planner x) (x_bitmap x) (x_next x) (x_busy x @ oks (x_results x)) \<and>
     content_inv good (x_planner x) (x_bitmap x) (oks (x_results x)) (x_data x) \<and>
     length (x_synced x) = length (x_data x) \<and>
     distinct (map file_ID (files (x_db x))) \<and>
     (\<exists>b. stored_bitmap (x_fileID x) (Count (x_planner x)) (x_db x) = Some b \<and> durable good (x_planner x) (x_bitmap x) (x_synced x) (x_unsynced x) b) \<and>
     sync_inv good (x_planner x) (x_bitmap x) (x_synced x) (x_unsynced x) (x_phase x)"

lemma oks_simps [simp]:
  "oks [] = []" "oks (rs @ rs') = oks rs @ oks rs'"
  "oks (r # rs) = (if res_err r = None then res_segment r # oks rs else oks rs)"
  by (simp_all add: oks_def)

lemma seg_inj [simp]: "seg p i = seg p j \<longleftrightarrow> i = j"
  by (auto simp: seg_def)

lemma Index_seg [simp]: "nat (Index (seg p i)) = i"
  by (simp add: seg_def)

lemma segs_less: "planner_ok p \<Longrightarrow> i < segs p \<longleftrightarrow> int i < Count p"
  using planner_ok_count [of p] by linarith

lemma seg_apart:
  assumes "planner_ok p" and "i < segs p" and "j < segs p" and "i \<noteq> j"
  shows "\<not> (seg_lo p i \<le> k \<and> k \<le> seg_hi p i \<and> seg_lo p j \<le> k \<and> k \<le> seg_hi p j)"
proof (cases "i < j")
  case True
  then show ?thesis using plan.ordered [OF assms(1,3) True] by linarith
next
  case False
  then show ?thesis using plan.ordered [OF assms(1,2), of j] assms(4) by linarith
qed

lemma seg_hi_less: "planner_ok p \<Longrightarrow> i < segs p \<Longrightarrow> seg_hi p i < Size p \<and> 0 \<le> seg_lo p i"
  using seg_lo_bound [of p i] by (auto simp: seg_hi_def seg_lo_def planner_ok_def segs_less)

lemma seg_content_cong:
  assumes "length d = length d'" and "\<And>k. seg_lo p i \<le> int k \<Longrightarrow> int k \<le> seg_hi p i \<Longrightarrow> k < length d \<Longrightarrow> d ! k = d' ! k" and "0 \<le> seg_lo p i"
  shows "seg_content p i d = seg_content p i d'"
  unfolding seg_content_def
proof (rule nth_equalityI)
  show "length (take (nat (seg_hi p i - seg_lo p i + 1)) (drop (nat (seg_lo p i)) d)) =
      length (take (nat (seg_hi p i - seg_lo p i + 1)) (drop (nat (seg_lo p i)) d'))" using assms(1) by simp
  fix k
  assume k: "k < length (take (nat (seg_hi p i - seg_lo p i + 1)) (drop (nat (seg_lo p i)) d))"
  then have "d ! (nat (seg_lo p i) + k) = d' ! (nat (seg_lo p i) + k)"
    using assms(3) by (intro assms(2)) auto
  moreover have "nat (seg_lo p i) \<le> length d" using k by auto
  ultimately show "take (nat (seg_hi p i - seg_lo p i + 1)) (drop (nat (seg_lo p i)) d) ! k =
      take (nat (seg_hi p i - seg_lo p i + 1)) (drop (nat (seg_lo p i)) d') ! k"
    using k assms(1) by simp
qed

lemma marks_bound: "marks_inv p bm cl nx c \<Longrightarrow> bm_mem bm i \<Longrightarrow> i < segs p"
  by (auto simp: marks_inv_def bm_shape_def)

lemma durable_bound: "durable good p bm s ws b \<Longrightarrow> bm_mem b i \<Longrightarrow> i < segs p"
  by (auto simp: durable_def bm_shape_def)

section \<open>Every step keeps it\<close>

text \<open>Fields no part of the invariant reads.\<close>

lemma xfer_inv_frame [simp]:
  "xfer_inv good (x\<lparr>x_idle := n\<rparr>) = xfer_inv good x" "xfer_inv good (x\<lparr>x_stopped := s\<rparr>) = xfer_inv good x"
  "xfer_inv good (x\<lparr>x_cancelled := s\<rparr>) = xfer_inv good x" "xfer_inv good (x\<lparr>x_transferErr := e\<rparr>) = xfer_inv good x"
  "xfer_inv good (x\<lparr>x_dirty := s\<rparr>) = xfer_inv good x" "xfer_inv good (x\<lparr>x_bytesSince := k\<rparr>) = xfer_inv good x"
  by (simp_all add: xfer_inv_def)

lemma xfer_inv_phase: "xfer_inv good x \<Longrightarrow> (\<And>f b c. ph \<noteq> Syncing f b c) \<Longrightarrow> xfer_inv good (x\<lparr>x_phase := ph\<rparr>)"
  by (simp add: xfer_inv_def sync_inv_def)

lemma marks_inv_next: "marks_inv p bm cl nx c \<Longrightarrow> nx \<le> k \<Longrightarrow> marks_inv p bm cl k c"
  by (auto simp: marks_inv_def)

lemma held_inv_next: "held_inv p bm nx ss \<Longrightarrow> nx \<le> k \<Longrightarrow> held_inv p bm k ss"
  unfolding held_inv_def by (meson order.strict_trans2)

lemma xfer_inv_next: "xfer_inv good x \<Longrightarrow> x_next x \<le> k \<Longrightarrow> xfer_inv good (x\<lparr>x_next := k\<rparr>)"
  by (auto simp: xfer_inv_def intro: marks_inv_next held_inv_next)

lemma xfer_inv_result_err:
  "xfer_inv good x \<Longrightarrow> res_err r \<noteq> None \<Longrightarrow> xfer_inv good (x\<lparr>x_results := x_results x @ [r]\<rparr>)"
  by (auto simp: xfer_inv_def)

lemma xfer_inv_claim:
  assumes "xfer_inv good x"
  shows "xfer_inv good (worker_claim x)"
proof -
  let ?p = "x_planner x" and ?i = "x_next x"
  have p: "planner_ok ?p" and nn: "0 \<le> ?i" using assms by (auto simp: xfer_inv_def marks_inv_def)
  have n: "xfer_inv good (x\<lparr>x_next := ?i + 1\<rparr>)" by (rule xfer_inv_next [OF assms]) simp
  show ?thesis
  proof (cases "?i < Count ?p \<and> \<not> bitmap_IsSet (x_claimBitmap x) ?i \<and> \<not> x_stopped x")
    case False
    then show ?thesis using n unfolding worker_claim_def Let_def by auto
  next
    case True
    define i where "i = nat ?i"
    have i: "?i = int i" "i < segs ?p" using nn True segs_less [OF p, of i] by (simp_all add: i_def)
    have s: "planner_Segment ?p ?i = Inr (seg ?p i)"
      using planner_Segment_eq [OF p, of i] i segs_less [OF p, of i] by (simp add: seg_def)
    have nm: "\<not> bm_mem (x_bitmap x) i"
      using assms True bitmap_IsSet_eq [of "x_claimBitmap x" i] i by (auto simp: xfer_inv_def marks_inv_def)
    have fresh: "seg ?p i \<notin> set (x_busy x @ oks (x_results x))"
    proof
      assume "seg ?p i \<in> set (x_busy x @ oks (x_results x))"
      moreover have "held_inv ?p (x_bitmap x) (int i) (x_busy x @ oks (x_results x))" using assms i(1) by (simp add: xfer_inv_def)
      ultimately have "\<exists>j. seg ?p i = seg ?p j \<and> int j < int i" unfolding held_inv_def by blast
      then show False by simp
    qed
    have held: "held_inv ?p (x_bitmap x) (?i + 1) (x_busy x @ oks (x_results x))" using n by (simp add: xfer_inv_def)
    have "held_inv ?p (x_bitmap x) (?i + 1) ((x_busy x @ [seg ?p i]) @ oks (x_results x))"
      using held fresh nm i unfolding held_inv_def by (auto intro: less_trans)
    then have "xfer_inv good (x\<lparr>x_next := ?i + 1, x_busy := x_busy x @ [seg ?p i]\<rparr>)"
      using n by (simp add: xfer_inv_def)
    then show ?thesis using True s by (simp add: worker_claim_def Let_def xfer_inv_def)
  qed
qed

lemma xfer_inv_write:
  assumes "xfer_inv good x" and s: "s \<in> set (x_busy x)" and w: "within s off (length bs)"
  shows "xfer_inv good (worker_write off bs x)"
proof -
  let ?p = "x_planner x" and ?d = "overwrite (x_data x) off bs"
  have p: "planner_ok ?p" using assms(1) by (simp add: xfer_inv_def)
  have held: "distinct (x_busy x @ oks (x_results x))" "\<And>s. s \<in> set (x_busy x @ oks (x_results x)) \<Longrightarrow>
      \<exists>i. s = seg ?p i \<and> i < segs ?p \<and> \<not> bm_mem (x_bitmap x) i"
    using assms(1) by (auto simp: xfer_inv_def held_inv_def)
  have "s \<in> set (x_busy x @ oks (x_results x))" using s by simp
  from held(2) [OF this] obtain j where j: "s = seg ?p j" "j < segs ?p" "\<not> bm_mem (x_bitmap x) j" by blast
  have size: "int (length (x_data x)) = Size ?p" using assms(1) by (simp add: xfer_inv_def content_inv_def)
  have in_j: "seg_lo ?p j \<le> int off" "int (off + length bs) \<le> seg_hi ?p j + 1" using w j(1) by (simp_all add: within_def seg_def)
  have fit: "off + length bs \<le> length (x_data x)" using in_j seg_hi_less [OF p j(2)] size by linarith
  have len: "length ?d = length (x_data x)" using fit by (simp add: length_overwrite)
  have same: "seg_content ?p i ?d = seg_content ?p i (x_data x)" if i: "i < segs ?p" "i \<noteq> j" for i
  proof (rule seg_content_cong [OF len])
    show "0 \<le> seg_lo ?p i" using seg_hi_less [OF p i(1)] by simp
    fix k assume k: "seg_lo ?p i \<le> int k" "int k \<le> seg_hi ?p i" "k < length ?d"
    have "\<not> (off \<le> k \<and> k < off + length bs)"
      using seg_apart [OF p i(1) j(2) i(2), of "int k"] k in_j by linarith
    then show "?d ! k = x_data x ! k" using nth_overwrite [OF fit, of k] k(3) len by auto
  qed
  have other: "untouched ?p [(off, length bs)] i" if "i < segs ?p" "i \<noteq> j" for i
    unfolding untouched_def
  proof (clarsimp)
    fix k assume "off \<le> k" "k < off + length bs" "seg_lo ?p i \<le> int k" "int k \<le> seg_hi ?p i"
    then show False using seg_apart [OF p that(1) j(2) that(2), of "int k"] in_j by linarith
  qed
  have dur: "durable good ?p (x_bitmap x) (x_synced x) ((off, length bs) # x_unsynced x) b"
    if d: "durable good ?p (x_bitmap x) (x_synced x) (x_unsynced x) b" for b
  proof -
    have "untouched ?p ((off, length bs) # x_unsynced x) i" if "bm_mem b i" for i
      using d that j(3) durable_bound [OF d that] other [of i] unfolding durable_def untouched_def by fastforce
    then show ?thesis using d by (simp add: durable_def)
  qed
  have "content_inv good ?p (x_bitmap x) (oks (x_results x)) ?d"
  proof -
    have c: "content_inv good ?p (x_bitmap x) (oks (x_results x)) (x_data x)" and m: "marks_inv ?p (x_bitmap x) (x_claimBitmap x) (x_next x) (x_committed x)"
      using assms(1) by (simp_all add: xfer_inv_def)
    have "good i (seg_content ?p i ?d)" if "bm_mem (x_bitmap x) i" for i
    proof -
      have "i \<noteq> j" using that j(3) by metis
      then show ?thesis using c that same [OF marks_bound [OF m that]] by (simp add: content_inv_def)
    qed
    moreover have "good i (seg_content ?p i ?d)" if o: "seg ?p i \<in> set (oks (x_results x))" for i
    proof -
      have "i \<noteq> j" using o s j(1) held(1) by auto
      moreover have "i < segs ?p" using held(2) [of "seg ?p i"] o by auto
      ultimately show ?thesis using c o same by (auto simp: content_inv_def)
    qed
    ultimately show ?thesis using c len by (simp add: content_inv_def)
  qed
  moreover have "sync_inv good ?p (x_bitmap x) (x_synced x) ((off, length bs) # x_unsynced x) (x_phase x)"
    using assms(1) dur unfolding xfer_inv_def sync_inv_def by blast
  ultimately show ?thesis using assms(1) dur len by (auto simp: xfer_inv_def worker_write_def)
qed

lemma xfer_inv_drop_busy: "xfer_inv good x \<Longrightarrow> xfer_inv good (x\<lparr>x_busy := remove1 s (x_busy x)\<rparr>)"
  using notin_set_remove1 [of _ "x_busy x" s] by (auto simp: xfer_inv_def held_inv_def distinct_remove1)

lemma xfer_inv_finish_err:
  assumes "xfer_inv good x"
  shows "xfer_inv good (worker_finish s w (Some e) acquired x)"
proof -
  have "xfer_inv good (x\<lparr>x_busy := remove1 s (x_busy x), x_results := x_results x @ [r]\<rparr>)" if "res_err r \<noteq> None" for r
    using xfer_inv_result_err [OF xfer_inv_drop_busy [OF assms], of r s] that by simp
  then show ?thesis by (simp add: worker_finish_def Let_def)
qed

lemma xfer_inv_finish_ok:
  assumes "xfer_inv good x" and s: "s \<in> set (x_busy x)" and good: "good (nat (Index s)) (seg_content (x_planner x) (nat (Index s)) (x_data x))"
  shows "xfer_inv good (worker_finish s w None True x)"
proof -
  let ?p = "x_planner x"
  have h: "held_inv ?p (x_bitmap x) (x_next x) (x_busy x @ oks (x_results x))" and c: "content_inv good ?p (x_bitmap x) (oks (x_results x)) (x_data x)"
    using assms(1) by (simp_all add: xfer_inv_def)
  obtain i where i: "s = seg ?p i" using h s by (auto simp: held_inv_def)
  have "held_inv ?p (x_bitmap x) (x_next x) (remove1 s (x_busy x) @ oks (x_results x) @ [s])"
    using h s by (auto simp: held_inv_def distinct_remove1 dest: notin_set_remove1)
  moreover have "content_inv good ?p (x_bitmap x) (oks (x_results x) @ [s]) (x_data x)"
    using c good i by (auto simp: content_inv_def)
  ultimately show ?thesis using assms(1) by (auto simp: xfer_inv_def worker_finish_def Let_def)
qed

lemma durable_mono: "durable good p bm s ws b \<Longrightarrow> (\<And>i. bm_mem bm i \<Longrightarrow> bm_mem bm' i) \<Longrightarrow> durable good p bm' s ws b"
  by (auto simp: durable_def)

lemma xfer_inv_mark:
  assumes "xfer_inv good x" and r: "x_results x = r # rs" "res_err r = None" and ph: "\<And>f b c. x_phase x \<noteq> Syncing f b c"
  shows "\<exists>b. bitmap_Set (x_bitmap x) (Index (res_segment r)) = Inr b \<and>
    xfer_inv good (x\<lparr>x_results := rs, x_bitmap := b, x_committed := i64 (x_committed x + segment_Size (res_segment r))\<rparr>)"
proof -
  let ?p = "x_planner x" and ?bm = "x_bitmap x"
  have p: "planner_ok ?p" and m: "marks_inv ?p ?bm (x_claimBitmap x) (x_next x) (x_committed x)"
    and h: "held_inv ?p ?bm (x_next x) (x_busy x @ oks (x_results x))" and c: "content_inv good ?p ?bm (oks (x_results x)) (x_data x)"
    using assms(1) by (simp_all add: xfer_inv_def)
  obtain i where i: "res_segment r = seg ?p i" "i < segs ?p" "int i < x_next x" "\<not> bm_mem ?bm i"
    using h r by (auto simp: held_inv_def)
  have sh: "bm_shape ?bm (segs ?p)" using m by (simp add: marks_inv_def)
  have set: "bitmap_Set ?bm (Index (res_segment r)) = Inr (bm_ins i ?bm)"
    using bitmap_Set_eq [OF bm_shape_index [OF sh i(2)]] i(1) by (simp add: seg_def)
  have mem: "bm_mem (bm_ins i ?bm) j \<longleftrightarrow> j = i \<or> bm_mem ?bm j" for j by (rule bm.mem_ins [OF sh i(2)])
  have sz: "segment_Size (res_segment r) = seg_hi ?p i - seg_lo ?p i + 1"
    using segment_Size_eq(1) [OF p] i(2) segs_less [OF p, of i] by (simp add: i(1) seg_def)
  have dn: "rp.done_bytes ?p (bm_ins i ?bm) = x_committed x + segment_Size (res_segment r)"
    using rp.done_bytes_ins [OF sh i(2,4)] m sz by (simp add: marks_inv_def)
  have "i64 (x_committed x + segment_Size (res_segment r)) = rp.done_bytes ?p (bm_ins i ?bm)"
    unfolding dn [symmetric] using rp.done_bytes_bounds [OF p, of "bm_ins i ?bm"] p by (intro i64_nonneg) (auto simp: planner_ok_def)
  then have "marks_inv ?p (bm_ins i ?bm) (x_claimBitmap x) (x_next x) (i64 (x_committed x + segment_Size (res_segment r)))"
    using m mem i(3) bm_shape_ins [OF sh i(2)] by (auto simp: marks_inv_def)
  moreover have "held_inv ?p (bm_ins i ?bm) (x_next x) (x_busy x @ oks rs)"
  proof -
    have "distinct (x_busy x @ seg ?p i # oks rs)" using h r i(1) by (simp add: held_inv_def)
    moreover have "\<exists>j. s = seg ?p j \<and> j < segs ?p \<and> int j < x_next x \<and> \<not> bm_mem ?bm j" if "s \<in> set (x_busy x @ oks rs)" for s
      using h r that by (auto simp: held_inv_def)
    ultimately show ?thesis unfolding held_inv_def mem by (fastforce simp: disjoint_iff)
  qed
  moreover have "content_inv good ?p (bm_ins i ?bm) (oks rs) (x_data x)"
    using c r i(1) mem by (auto simp: content_inv_def)
  moreover have "sync_inv good ?p (bm_ins i ?bm) (x_synced x) (x_unsynced x) (x_phase x)" using ph by (simp add: sync_inv_def)
  ultimately show ?thesis using assms(1) set mem by (auto simp: xfer_inv_def intro: durable_mono)
qed

lemma xfer_inv_drop_result: "xfer_inv good x \<Longrightarrow> x_results x = r # rs \<Longrightarrow> xfer_inv good (x\<lparr>x_results := rs\<rparr>)"
  by (auto simp: xfer_inv_def held_inv_def content_inv_def split: if_splits)

lemma xfer_inv_consume:
  assumes "xfer_inv good x" and "x_phase x = InLoop" and "x_results x \<noteq> []"
  shows "xfer_inv good (consume_result limit x)"
proof -
  obtain r rs where r: "x_results x = r # rs" using assms(3) by (cases "x_results x") auto
  note d = xfer_inv_drop_result [OF assms(1) r]
  show ?thesis
  proof (cases "res_err r = None \<and> x_transferErr x = None \<and> res_written r = segment_Size (res_segment r)")
    case False
    then show ?thesis using d by (auto simp: consume_result_def r process_result_def transfer_fail_def split: option.splits)
  next
    case True
    then obtain b where "bitmap_Set (x_bitmap x) (Index (res_segment r)) = Inr b"
        "xfer_inv good (x\<lparr>x_results := rs, x_bitmap := b, x_committed := i64 (x_committed x + segment_Size (res_segment r))\<rparr>)"
      using xfer_inv_mark [OF assms(1) r] assms(2) by auto
    then show ?thesis using True
      by (auto simp: consume_result_def r process_result_def Let_def intro!: xfer_inv_phase)
  qed
qed

lemma xfer_inv_failed: "xfer_inv good x \<Longrightarrow> xfer_inv good (checkpoint_failed f e x)"
  by (auto simp: checkpoint_failed_def transfer_fail_def intro!: xfer_inv_phase)

lemma xfer_inv_sync:
  assumes "xfer_inv good x"
  shows "xfer_inv good (commit_sync e f x)"
proof (cases "e = None \<and> x_fileID x \<noteq> []")
  case False
  then show ?thesis using xfer_inv_failed [OF assms] by (auto simp: commit_sync_def split: option.splits)
next
  case True
  let ?p = "x_planner x"
  have m: "marks_inv ?p (x_bitmap x) (x_claimBitmap x) (x_next x) (x_committed x)" and c: "content_inv good ?p (x_bitmap x) (oks (x_results x)) (x_data x)"
    using assms by (simp_all add: xfer_inv_def)
  have all: "durable good ?p (x_bitmap x) (x_data x) [] b" if "bm_shape b (segs ?p)" "\<And>i. bm_mem b i \<Longrightarrow> bm_mem (x_bitmap x) i" for b
    using c that by (auto simp: durable_def content_inv_def untouched_def)
  have "durable good ?p (x_bitmap x) (x_data x) [] (x_bitmap x)" using all m by (simp add: marks_inv_def)
  moreover have "durable good ?p (x_bitmap x) (x_data x) [] b" if "durable good ?p (x_bitmap x) (x_synced x) (x_unsynced x) b" for b
    using all [of b] that unfolding durable_def by blast
  ultimately show ?thesis using assms True m by (auto simp: commit_sync_def xfer_inv_def sync_inv_def marks_inv_def)
qed

lemma bitmapForFile_shape:
  assumes "planner_ok p" and "bm_shape b (segs p)"
  shows "bitmapForFile b (Count p) = Inr b"
proof -
  have "bitmap_Validate b (Count p) = None"
    using bitmap_Validate_iff [of "segs p" b] assms planner_ok_count [OF assms(1)] by (auto simp: bm_shape_def)
  moreover have "\<not> (b = [] \<and> Count p > 0)" using assms(2) by (auto simp: bm_shape_def)
  ultimately show ?thesis by (auto simp: bitmapForFile_def)
qed

lemma update_rows_file_IDs:
  assumes "checkpoint_updates flt now k us d = Inr d'"
  shows "map file_ID (files d') = map file_ID (files d)"
  using assms
proof (induction us arbitrary: k d)
  case (Cons u us)
  then show ?case
    by (fastforce simp: Let_def touch_job_def update_rows_keys split: if_splits option.splits)
qed simp

lemma persist_stored:
  assumes "xfer_inv good x" and "x_phase x = Syncing f b c"
    and "CheckpointDownloadFiles flt ok now [\<lparr>cp_FileID = x_fileID x, cp_CompletedBitmap = b, cp_BytesCommitted = k, cp_State = st,
    cp_LastErrorCode = [], cp_LastErrorMessage = [], cp_UpdatedAt = w\<rparr>] (x_db x) = (None, d')"
  shows "stored_bitmap (x_fileID x) (Count (x_planner x)) d' = Some b" and "distinct (map file_ID (files d'))" and "b = x_bitmap x"
proof -
  let ?u = "\<lparr>cp_FileID = x_fileID x, cp_CompletedBitmap = b, cp_BytesCommitted = k, cp_State = st,
    cp_LastErrorCode = [], cp_LastErrorMessage = [], cp_UpdatedAt = w\<rparr>"
  have dist: "distinct (map file_ID (files (x_db x)))" and p: "planner_ok (x_planner x)"
    and dur: "durable good (x_planner x) (x_bitmap x) (x_synced x) (x_unsynced x) b" and "b = x_bitmap x"
    using assms by (auto simp: xfer_inv_def sync_inv_def)
  then show "b = x_bitmap x" by simp
  obtain d1 where d1: "checkpoint_updates flt now 0 [?u] (x_db x) = Inr d1" "files d' = files d1"
    using assms(3) by (auto simp: CheckpointDownloadFiles_def WithTx_def simp del: checkpoint_updates.simps split: sum.splits if_splits)
  from checkpoint_updates_rows [OF dist _ d1(1)] obtain row where
    "find_row file_ID (x_fileID x) (files d1) = Some row" "CompletedBitmap row = b" by auto
  then show "stored_bitmap (x_fileID x) (Count (x_planner x)) d' = Some b"
    using d1(2) bitmapForFile_shape [OF p] dur by (simp add: stored_bitmap_def durable_def)
  show "distinct (map file_ID (files d'))" using update_rows_file_IDs [OF d1(1)] d1(2) dist by simp
qed

lemma xfer_inv_persist:
  assumes "xfer_inv good x" and ph: "x_phase x = Syncing f b c"
  shows "xfer_inv good (commit_persist flt ok now when f b c x)"
proof -
  let ?u = "\<lparr>cp_FileID = x_fileID x, cp_CompletedBitmap = b, cp_BytesCommitted = c, cp_State = Some FileDownloading,
    cp_LastErrorCode = [], cp_LastErrorMessage = [], cp_UpdatedAt = norm_time now when\<rparr>"
  obtain e d' where cp: "CheckpointDownloadFiles flt ok now [?u] (x_db x) = (e, d')" by (metis prod.exhaust)
  have dist: "distinct (map file_ID (files (x_db x)))" and p: "planner_ok (x_planner x)"
    and dur: "durable good (x_planner x) (x_bitmap x) (x_synced x) (x_unsynced x) b" using assms by (auto simp: xfer_inv_def sync_inv_def)
  show ?thesis
  proof (cases e)
    case (Some a)
    then have "d' = x_db x" using cp by (auto simp: CheckpointDownloadFiles_def WithTx_def split: sum.splits if_splits)
    then show ?thesis using cp Some xfer_inv_failed [OF assms(1)] by (simp add: commit_persist_def)
  next
    case None
    note st = persist_stored [OF assms cp [unfolded None]]
    have "xfer_inv good (x\<lparr>x_db := d'\<rparr>)" using assms(1) dur st(1,2) by (auto simp: xfer_inv_def)
    then show ?thesis using cp None
      by (auto simp: commit_persist_def checkpoint_done_def Let_def intro!: xfer_inv_phase)
  qed
qed

lemma xfer_step_inv: "xfer_step good limit x x' \<Longrightarrow> xfer_inv good x \<Longrightarrow> xfer_inv good x'"
  by (erule xfer_stepE)
    (auto intro!: xfer_inv_claim xfer_inv_write xfer_inv_finish_ok xfer_inv_finish_err xfer_inv_consume xfer_inv_sync
      xfer_inv_persist xfer_inv_phase simp: ticker_def loop_end_def cancel_transfer_def)


section \<open>Nothing is forgotten\<close>

definition failed :: "xfer \<Rightarrow> bool" where
  "failed x \<longleftrightarrow> x_transferErr x \<noteq> None \<or> x_cancelled x \<or> (\<exists>r\<in>set (x_results x). res_err r \<noteq> None)"

definition is_ending :: "phase \<Rightarrow> bool" where
  "is_ending ph \<longleftrightarrow> (case ph of InLoop \<Rightarrow> False | Due f \<Rightarrow> f | Syncing f _ _ \<Rightarrow> f | Finished _ \<Rightarrow> True)"

text \<open>Every claimed segment is marked, held or lost to a failure; workers leave for a reason; without
  unsaved marks the stored bitmap is the current one.\<close>

definition claims_inv :: "xfer \<Rightarrow> bool" where
  "claims_inv x \<longleftrightarrow> (\<forall>i < segs (x_planner x). int i < x_next x \<longrightarrow>
     bm_mem (x_bitmap x) i \<or> seg (x_planner x) i \<in> set (x_busy x @ oks (x_results x)) \<or> failed x)"

definition workers_inv :: "xfer \<Rightarrow> bool" where
  "workers_inv x \<longleftrightarrow> (x_stopped x \<longrightarrow> failed x) \<and> x_idle x + length (x_busy x) \<le> x_workers x \<and>
     (x_idle x + length (x_busy x) < x_workers x \<longrightarrow> Count (x_planner x) \<le> x_next x \<or> failed x) \<and>
     (x_workers x = 0 \<longrightarrow> (\<forall>i < segs (x_planner x). bm_mem (x_bitmap x) i))"

definition saved_inv :: "xfer \<Rightarrow> bool" where
  "saved_inv x \<longleftrightarrow> (\<not> x_dirty x \<longrightarrow> stored_bitmap (x_fileID x) (Count (x_planner x)) (x_db x) = Some (x_bitmap x)) \<and>
     (is_ending (x_phase x) \<longrightarrow> x_idle x = 0 \<and> x_busy x = [] \<and> x_results x = []) \<and>
     (x_phase x = Finished None \<longrightarrow> x_transferErr x = None \<and> \<not> x_dirty x)"

lemmas work_defs = claims_inv_def workers_inv_def saved_inv_def

lemma failed_frame [simp]:
  "failed (x\<lparr>x_next := k\<rparr>) = failed x" "failed (x\<lparr>x_idle := n\<rparr>) = failed x" "failed (x\<lparr>x_busy := ss\<rparr>) = failed x"
  "failed (x\<lparr>x_bitmap := b\<rparr>) = failed x" "failed (x\<lparr>x_phase := ph\<rparr>) = failed x" "failed (x\<lparr>x_db := d\<rparr>) = failed x"
  "failed (x\<lparr>x_dirty := s\<rparr>) = failed x" "failed (x\<lparr>x_bytesSince := k\<rparr>) = failed x" "failed (x\<lparr>x_committed := k\<rparr>) = failed x"
  "failed (x\<lparr>x_data := bs\<rparr>) = failed x" "failed (x\<lparr>x_synced := bs\<rparr>) = failed x" "failed (x\<lparr>x_unsynced := ws\<rparr>) = failed x"
  "failed (x\<lparr>x_stopped := s\<rparr>) = failed x"
  "failed (x\<lparr>x_transferErr := Some e\<rparr>)" "failed (x\<lparr>x_cancelled := True\<rparr>)"
  "failed (x\<lparr>x_results := x_results x @ [r]\<rparr>) \<longleftrightarrow> failed x \<or> res_err r \<noteq> None"
  by (auto simp: failed_def)

lemma failed_drop: "x_results x = r # rs \<Longrightarrow> failed (x\<lparr>x_results := rs\<rparr>) \<or> res_err r \<noteq> None \<longleftrightarrow> failed x \<or> res_err r \<noteq> None"
  by (auto simp: failed_def)

lemma length_remove1_mem: "s \<in> set xs \<Longrightarrow> Suc (length (remove1 s xs)) = length xs"
  by (induction xs) auto

lemma work_claim:
  assumes "xfer_inv good x" and "0 < x_idle x" and "claims_inv x" "workers_inv x" "saved_inv x"
  shows "claims_inv (worker_claim x) \<and> workers_inv (worker_claim x) \<and> saved_inv (worker_claim x)"
proof -
  let ?p = "x_planner x" and ?i = "x_next x"
  have p: "planner_ok ?p" and nn: "0 \<le> ?i" and cl: "\<And>i. bm_mem (x_claimBitmap x) i \<Longrightarrow> bm_mem (x_bitmap x) i"
    using assms(1) by (auto simp: xfer_inv_def marks_inv_def)
  have ne: "\<not> is_ending (x_phase x)" using assms(2,5) by (auto simp: saved_inv_def)
  define i where "i = nat ?i"
  have i: "?i = int i" using nn by (simp add: i_def)
  have split: "int j < ?i + 1 \<longleftrightarrow> int j < ?i \<or> j = i" "int j \<le> ?i \<longleftrightarrow> int j < ?i \<or> j = i" for j using i by auto
  consider (skip) "?i < Count ?p" "bitmap_IsSet (x_claimBitmap x) ?i"
    | (leave) "\<not> (?i < Count ?p \<and> bitmap_IsSet (x_claimBitmap x) ?i)" "?i \<ge> Count ?p \<or> x_stopped x"
    | (take) "?i < Count ?p" "\<not> bitmap_IsSet (x_claimBitmap x) ?i" "\<not> x_stopped x" by linarith
  then show ?thesis
  proof cases
    case skip
    have w: "worker_claim x = x\<lparr>x_next := ?i + 1\<rparr>" using skip by (simp add: worker_claim_def Let_def)
    have "bm_mem (x_bitmap x) i" using skip(2) cl bitmap_IsSet_eq [of "x_claimBitmap x" i] i by simp
    then have "claims_inv (worker_claim x)" using assms(3) unfolding w claims_inv_def by (auto simp: split)
    then show ?thesis using assms(4,5) unfolding w workers_inv_def saved_inv_def by auto
  next
    case leave
    have w: "worker_claim x = x\<lparr>x_next := ?i + 1, x_idle := x_idle x - 1\<rparr>" using leave by (auto simp: worker_claim_def Let_def)
    have "i < segs ?p \<Longrightarrow> failed x" using leave(2) segs_less [OF p, of i] i assms(4) by (auto simp: workers_inv_def)
    moreover have "Count ?p \<le> ?i + 1 \<or> failed x" using leave(2) assms(4) by (auto simp: workers_inv_def)
    ultimately have "claims_inv (worker_claim x)" "workers_inv (worker_claim x)"
      using assms(2-4) unfolding w claims_inv_def workers_inv_def by (auto simp: split)
    then show ?thesis using assms(5) ne unfolding w saved_inv_def by auto
  next
    case take
    have "planner_Segment ?p ?i = Inr (seg ?p i)"
      using planner_Segment_eq [OF p, of i] i take(1) by (simp add: seg_def)
    then have w: "worker_claim x = x\<lparr>x_next := ?i + 1, x_idle := x_idle x - 1, x_busy := x_busy x @ [seg ?p i]\<rparr>"
      using take by (simp add: worker_claim_def Let_def)
    have "claims_inv (worker_claim x)" "workers_inv (worker_claim x)"
      using assms(2-4) unfolding w claims_inv_def workers_inv_def by (auto simp: split)
    then show ?thesis using assms(5) ne unfolding w saved_inv_def by auto
  qed
qed

lemma work_finish:
  assumes "s \<in> set (x_busy x)" and "claims_inv x" "workers_inv x" "saved_inv x" and err: "err = None \<longrightarrow> acquired"
  shows "claims_inv (worker_finish s w err acquired x) \<and> workers_inv (worker_finish s w err acquired x) \<and> saved_inv (worker_finish s w err acquired x)"
proof -
  have ne: "\<not> is_ending (x_phase x)" using assms(1,4) by (auto simp: saved_inv_def)
  have len: "Suc (length (remove1 s (x_busy x))) = length (x_busy x)" by (rule length_remove1_mem [OF assms(1)])
  have mem: "t \<in> set (x_busy x) \<Longrightarrow> t = s \<or> t \<in> set (remove1 s (x_busy x))" for t by (meson in_set_remove1)
  show ?thesis
  proof (cases err)
    case None
    then have "worker_finish s w err acquired x = x\<lparr>x_busy := remove1 s (x_busy x),
        x_results := x_results x @ [\<lparr>res_segment = s, res_written = w, res_err = None\<rparr>], x_idle := x_idle x + 1\<rparr>"
      using err by (simp add: worker_finish_def)
    note w = this
    have "failed (worker_finish s w err acquired x) = failed x" unfolding w by (simp add: failed_def)
    then have "claims_inv (worker_finish s w err acquired x)" "workers_inv (worker_finish s w err acquired x)"
      using assms(2,3) len mem unfolding claims_inv_def workers_inv_def by (auto simp: w)
    then show ?thesis using assms(4) ne by (simp add: w saved_inv_def)
  next
    case (Some e)
    then have "failed (worker_finish s w err acquired x)" by (auto simp: worker_finish_def Let_def failed_def)
    then have "claims_inv (worker_finish s w err acquired x)" "workers_inv (worker_finish s w err acquired x)"
      using assms(3) len Some unfolding claims_inv_def workers_inv_def by (auto simp: worker_finish_def Let_def)
    then show ?thesis using assms(4) ne Some by (simp add: saved_inv_def worker_finish_def Let_def)
  qed
qed

lemma work_consume:
  assumes "xfer_inv good x" and "x_phase x = InLoop" and "x_results x \<noteq> []" and "claims_inv x" "workers_inv x" "saved_inv x"
  shows "claims_inv (consume_result limit x) \<and> workers_inv (consume_result limit x) \<and> saved_inv (consume_result limit x)"
proof -
  obtain r rs where r: "x_results x = r # rs" using assms(3) by (cases "x_results x") auto
  show ?thesis
  proof (cases "res_err r = None \<and> x_transferErr x = None \<and> res_written r = segment_Size (res_segment r)")
    case False
    define y where "y = x\<lparr>x_results := rs\<rparr>"
    have cons: "consume_result limit x = y \<and> (x_transferErr x \<noteq> None) \<or> (\<exists>e. consume_result limit x = transfer_fail e y)"
      using False by (auto simp: consume_result_def r process_result_def y_def split: option.splits)
    then have f: "failed (consume_result limit x)" by (auto simp: failed_def transfer_fail_def y_def)
    have "x_bitmap (consume_result limit x) = x_bitmap x \<and> x_planner (consume_result limit x) = x_planner x \<and>
        x_idle (consume_result limit x) = x_idle x \<and> x_busy (consume_result limit x) = x_busy x \<and> x_workers (consume_result limit x) = x_workers x \<and>
        x_dirty (consume_result limit x) = x_dirty x \<and> x_db (consume_result limit x) = x_db x \<and> x_fileID (consume_result limit x) = x_fileID x \<and>
        x_phase (consume_result limit x) = x_phase x"
      using cons by (auto simp: transfer_fail_def y_def)
    then show ?thesis using assms(2,5,6) f unfolding work_defs by (simp add: is_ending_def)
  next
    case True
    obtain i where i: "res_segment r = seg (x_planner x) i" "i < segs (x_planner x)"
      using assms(1) True r by (auto simp: xfer_inv_def held_inv_def)
    have sh: "bm_shape (x_bitmap x) (segs (x_planner x))" using assms(1) by (simp add: xfer_inv_def marks_inv_def)
    have set: "bitmap_Set (x_bitmap x) (Index (res_segment r)) = Inr (bm_ins i (x_bitmap x))"
      using bitmap_Set_eq [OF bm_shape_index [OF sh i(2)]] i(1) by (simp add: seg_def)
    have mem: "bm_mem (bm_ins i (x_bitmap x)) j \<longleftrightarrow> j = i \<or> bm_mem (x_bitmap x) j" for j by (rule bm.mem_ins [OF sh i(2)])
    define x1 where "x1 = x\<lparr>x_results := rs, x_bitmap := bm_ins i (x_bitmap x), x_committed := i64 (x_committed x + segment_Size (res_segment r)),
        x_bytesSince := i64 (x_bytesSince x + segment_Size (res_segment r)), x_dirty := True\<rparr>"
    have "consume_result limit x = (if x_bytesSince x1 \<ge> limit then x1\<lparr>x_phase := Due False\<rparr> else x1)"
      using True set by (simp add: consume_result_def r process_result_def Let_def x1_def)
    moreover have "failed x1 = failed x" using r True by (auto simp: failed_def x1_def)
    then have "claims_inv x1" using assms(4) r True i(1) unfolding claims_inv_def by (auto simp: x1_def mem)
    moreover have "workers_inv x1" using assms(5) \<open>failed x1 = failed x\<close> unfolding workers_inv_def by (auto simp: x1_def mem)
    moreover have "saved_inv x1" using assms(2) unfolding saved_inv_def by (simp add: x1_def is_ending_def)
    moreover have "claims_inv (y\<lparr>x_phase := Due False\<rparr>) \<and> workers_inv (y\<lparr>x_phase := Due False\<rparr>) \<and> saved_inv (y\<lparr>x_phase := Due False\<rparr>)"
      if "claims_inv y \<and> workers_inv y \<and> saved_inv y" for y
      using that unfolding work_defs by (auto simp: is_ending_def)
    ultimately show ?thesis by simp
  qed
qed

lemma work_failed:
  assumes "is_ending (x_phase x) = f" and "claims_inv x" "workers_inv x" "saved_inv x"
  shows "claims_inv (checkpoint_failed f e x) \<and> workers_inv (checkpoint_failed f e x) \<and> saved_inv (checkpoint_failed f e x)"
  using assms unfolding work_defs
  by (auto simp: checkpoint_failed_def transfer_fail_def is_ending_def split: option.splits)

lemma work_persist:
  assumes "xfer_inv good x" and ph: "x_phase x = Syncing f b c" and "claims_inv x" "workers_inv x" "saved_inv x"
  shows "claims_inv (commit_persist flt ok now when f b c x) \<and> workers_inv (commit_persist flt ok now when f b c x) \<and>
    saved_inv (commit_persist flt ok now when f b c x)"
proof -
  have e: "is_ending (x_phase x) = f" by (simp add: ph is_ending_def)
  obtain er d' where cp: "CheckpointDownloadFiles flt ok now [\<lparr>cp_FileID = x_fileID x, cp_CompletedBitmap = b, cp_BytesCommitted = c,
      cp_State = Some FileDownloading, cp_LastErrorCode = [], cp_LastErrorMessage = [], cp_UpdatedAt = norm_time now when\<rparr>] (x_db x) = (er, d')"
    by (metis prod.exhaust)
  show ?thesis
  proof (cases er)
    case (Some a)
    then have "d' = x_db x" using cp by (auto simp: CheckpointDownloadFiles_def WithTx_def split: sum.splits if_splits)
    then show ?thesis using Some cp work_failed [OF e assms(3-5)] by (simp add: commit_persist_def)
  next
    case None
    note st = persist_stored [OF assms(1) ph cp [unfolded None]]
    then show ?thesis using None cp e assms(3-5) unfolding work_defs
      by (auto simp: commit_persist_def checkpoint_done_def Let_def is_ending_def)
  qed
qed

lemma work_step:
  assumes "xfer_step good limit x x'" and "xfer_inv good x" and "claims_inv x" "workers_inv x" "saved_inv x"
  shows "claims_inv x' \<and> workers_inv x' \<and> saved_inv x'"
  using assms(1)
proof (cases rule: xfer_step.cases)
  case claim
  then show ?thesis using work_claim assms(2-5) by blast
next
  case (finish_ok s)
  then show ?thesis using work_finish [of s x None True] assms(3-5) by blast
next
  case (finish_err s w e acquired)
  then show ?thesis using work_finish [of s x "Some e" acquired] assms(3-5) by blast
next
  case consume
  then show ?thesis using work_consume assms(2-5) by blast
next
  case (persist final b c flt ok now w)
  then show ?thesis using work_persist assms(2-5) by blast
next
  case (sync final sync_err)
  then have "is_ending (x_phase x) = final" by (simp add: is_ending_def)
  then show ?thesis using work_failed [OF _ assms(3-5)] assms(3-5) sync unfolding work_defs
    by (cases sync_err) (auto simp: commit_sync_def is_ending_def)
qed (use assms(3-5) in \<open>auto simp: work_defs worker_write_def ticker_def loop_end_def cancel_transfer_def is_ending_def\<close>)

section \<open>The start of a transfer\<close>

lemma bitmapForFile_ok:
  assumes "planner_ok p" and "bitmapForFile stored (Count p) = Inr b"
  shows "bm_shape b (segs p)" and "bm_mem b i \<longleftrightarrow> bitmap_IsSet stored (int i)"
proof -
  have zero: "\<not> bm_mem (replicate n 0) i" for n i by (auto simp: bm_mem_def)
  have "bm_shape b (segs p) \<and> (bm_mem b i \<longleftrightarrow> bitmap_IsSet stored (int i))"
  proof (cases "stored = [] \<and> Count p > 0")
    case True
    then obtain n where n: "bitmapByteCount (Count p) = Inr n" "b = replicate (nat n) 0"
      using assms(2) by (auto simp: bitmapForFile_def NewBitmap_def split: sum.splits if_splits)
    have le: "Count p \<le> max_int64" using assms(1) True int_div_le_self [of "Size p - 1" "SegmentSize p"]
      by (cases "Size p = 1") (auto simp: planner_ok_def split: if_splits)
    then have "n = int ((segs p + 7) div 8) \<and> n \<le> MaxBitmapBytes"
      using True n(1) bitmapByteCount_nat [of "segs p"] by (auto split: if_splits)
    then have "bm_shape b (segs p)" using True n(2) zero le by (simp add: bm_shape_def)
    then show ?thesis using True n(2) zero by (auto simp: bitmap_IsSet_def go_div_def)
  next
    case False
    then have b: "bitmap_Validate stored (Count p) = None" "stored = b"
      using assms(2) by (auto simp: bitmapForFile_def split: option.splits if_splits)
    then show ?thesis using valid_bitmap_shape [OF assms(1), of b] bitmap_IsSet_eq [of b i] by auto
  qed
  then show "bm_shape b (segs p)" and "bm_mem b i \<longleftrightarrow> bitmap_IsSet stored (int i)" by auto
qed

lemma transfer_start_inv:
  assumes start: "transfer_start decrypt workersPerFile file (Inr (partial, existed)) d = Inr (key, url, x)"
    and fit: "SegmentSizeBytes file \<le> max_int64" "SizeBytes file \<le> max_int64 - SegmentSizeBytes file + 1"
    and row: "find_row file_ID (file_ID file) (files d) = Some file" "distinct (map file_ID (files d))"
    and size: "int (length (p_data partial)) = SizeBytes file"
    and resume: "\<forall>i. bitmap_IsSet (CompletedBitmap file) (int i) \<longrightarrow> existed \<and> good i (seg_content (x_planner x) i (p_data partial))"
  shows "xfer_inv good x \<and> claims_inv x \<and> workers_inv x \<and> saved_inv x"
    and "x_fileID x = file_ID file" and "Count (x_planner x) = SegmentCount file" and "Size (x_planner x) = SizeBytes file"
proof -
  obtain p b where p: "NewSegmentPlanner (SizeBytes file) (SegmentSizeBytes file) = Inr p" "Count p = SegmentCount file"
      and b: "bitmapForFile (CompletedBitmap file) (Count p) = Inr b"
    using start by (auto simp: transfer_start_def split: sum.splits if_splits)
  note ok = NewSegmentPlanner_ok [OF p(1) fit] and psize = NewSegmentPlanner_cases(3) [OF p(1)]
  note sh = bitmapForFile_ok(1) [OF ok b] and mem = bitmapForFile_ok(2) [OF ok b]
  note cnt = bitmap_Count_eq [OF sh]
  have "existed" if "0 < bitmap_Count b"
    using that cnt resume mem by (cases "{i. bm_mem b i} = {}") auto
  then have noreset: "\<not> (\<not> existed \<and> 0 < bitmap_Count b)" by blast
  have c: "committedBytes p b = rp.done_bytes p b" by (rule committedBytes_eq [OF ok])
  define pend where "pend = i64 (Count p - bitmap_Count b)"
  define workers where "workers = nat (if (if pend < workersPerFile then pend else workersPerFile) < 1 \<and> 0 < pend then 1
      else if pend < workersPerFile then pend else workersPerFile)"
  have x: "x = \<lparr>x_planner = p, x_fileID = file_ID file, x_bitmap = b, x_claimBitmap = b,
      x_committed = committedBytes p b, x_bytesSince = 0, x_dirty = False, x_next = 0,
      x_workers = workers, x_idle = workers, x_busy = [], x_results = [],
      x_stopped = False, x_cancelled = False, x_transferErr = None, x_phase = InLoop,
      x_data = p_data partial, x_synced = p_data partial, x_unsynced = [], x_db = d\<rparr>"
    using start p b noreset unfolding pend_def workers_def
    by (auto simp: transfer_start_def Let_def split: sum.splits if_splits)
  show "x_fileID x = file_ID file" "Count (x_planner x) = SegmentCount file" "Size (x_planner x) = SizeBytes file"
    using x p(2) psize by simp_all
  have good: "good i (seg_content p i (p_data partial))" if "bm_mem b i" for i using resume mem that x by simp
  have st: "stored_bitmap (file_ID file) (Count p) d = Some b" using row(1) b by (simp add: stored_bitmap_def)
  have "durable good p b (p_data partial) [] b" using sh good by (simp add: durable_def untouched_def)
  then have inv: "xfer_inv good x"
    using ok sh good size psize st row(2) c
    by (auto simp: xfer_inv_def x marks_inv_def held_inv_def content_inv_def)
  have le: "card {i. bm_mem b i} \<le> segs p" by (rule bm.card_le [OF sh])
  have pend: "pend = int (segs p) - int (card {i. bm_mem b i})"
  proof -
    have "Count p = int (segs p)" by (rule planner_ok_count [OF ok])
    moreover have "int (segs p) \<le> max_int64" using sh by (simp add: bm_shape_def)
    ultimately show ?thesis unfolding pend_def cnt using le by (subst i64_nonneg) linarith+
  qed
  have "\<forall>i < segs p. bm_mem b i" if "workers = 0"
  proof -
    have "pend \<le> 0" using that unfolding workers_def by (auto split: if_splits)
    then have "card {i. bm_mem b i} = segs p" using le pend by linarith
    then show ?thesis using bm.full_iff [OF sh] by blast
  qed
  then have "claims_inv x \<and> workers_inv x \<and> saved_inv x" using st unfolding work_defs by (simp add: x is_ending_def)
  then show "xfer_inv good x \<and> claims_inv x \<and> workers_inv x \<and> saved_inv x" using inv by simp
qed

text \<open>Plan, file and database key of a transfer never change.\<close>

lemma xfer_step_const: "xfer_step good limit x x' \<Longrightarrow> x_planner x' = x_planner x \<and> x_fileID x' = x_fileID x"
  by (erule xfer_stepE)
    (auto simp: worker_claim_def worker_write_def worker_finish_def consume_result_def process_result_def transfer_fail_def ticker_def
      loop_end_def commit_sync_def commit_persist_def checkpoint_failed_def checkpoint_done_def cancel_transfer_def Let_def
      split: sum.splits option.splits list.splits prod.splits)

lemma xfer_run_inv:
  assumes "(xfer_step good limit)\<^sup>*\<^sup>* x0 x" and "xfer_inv good x0 \<and> claims_inv x0 \<and> workers_inv x0 \<and> saved_inv x0"
  shows "xfer_inv good x \<and> claims_inv x \<and> workers_inv x \<and> saved_inv x \<and> x_planner x = x_planner x0 \<and> x_fileID x = x_fileID x0"
  using assms(1)
proof (induction rule: rtranclp_induct)
  case base
  then show ?case using assms(2) by simp
next
  case (step y z)
  then show ?case using xfer_step_inv [of good limit y z] work_step [of good limit y z] xfer_step_const [of good limit y z] by auto
qed

section \<open>Crash safety and completeness\<close>

text \<open>What a crash leaves of a durable segment.\<close>

lemma crash_keeps:
  assumes "planner_ok p" and "durable good p bm (x_synced x) (x_unsynced x) b" and "bm_mem b i" and "crash_leaves x d"
  shows "good i (seg_content p i d)"
proof -
  have "seg_content p i d = seg_content p i (x_synced x)"
  proof (rule seg_content_cong)
    show "length d = length (x_synced x)" using assms(4) by (simp add: crash_leaves_def)
    show "0 \<le> seg_lo p i" using seg_hi_less [OF assms(1) durable_bound [OF assms(2,3)]] by simp
    fix k assume k: "seg_lo p i \<le> int k" "int k \<le> seg_hi p i" "k < length d"
    have "\<forall>(off, len)\<in>set (x_unsynced x). \<not> (off \<le> k \<and> k < off + len)"
      using assms(2,3) k(1,2) unfolding durable_def untouched_def by blast
    then show "d ! k = x_synced x ! k" using assms(4) k(3) unfolding crash_leaves_def by blast
  qed
  then show ?thesis using assms(2,3) by (simp add: durable_def)
qed

text \<open>
  C2. Checkpoints survive a crash. Take any interleaving of segment workers, result loop,
  checkpoints (failing or not) and cancellation of a transfer that started from a stored bitmap whose
  marks were true, and a crash at any moment that keeps only what the last \<^verbatim>\<open>Sync\<close> put on disk: the
  bitmap in the database still decodes, and every segment it marks has its downloaded contents in what is
  left of the file. So the next transfer starts from true marks again.
\<close>

theorem crash_consistent:
  assumes "transfer_start decrypt workersPerFile file (Inr (partial, existed)) d = Inr (key, url, x0)"
    and "SegmentSizeBytes file \<le> max_int64" and "SizeBytes file \<le> max_int64 - SegmentSizeBytes file + 1"
    and "find_row file_ID (file_ID file) (files d) = Some file" and "distinct (map file_ID (files d))"
    and "int (length (p_data partial)) = SizeBytes file"
    and "\<forall>i. bitmap_IsSet (CompletedBitmap file) (int i) \<longrightarrow> existed \<and> good i (seg_content (x_planner x0) i (p_data partial))"
    and "(xfer_step good limit)\<^sup>*\<^sup>* x0 x" and "crash_leaves x left"
  shows "\<exists>row b. find_row file_ID (file_ID file) (files (x_db x)) = Some row \<and>
      bitmapForFile (CompletedBitmap row) (SegmentCount file) = Inr b \<and> length left = length (p_data partial) \<and>
      (\<forall>i. bitmap_IsSet (CompletedBitmap row) (int i) \<longrightarrow> good i (seg_content (x_planner x0) i left))"
proof -
  note st = transfer_start_inv [where good = good, OF assms(1-7)]
  note inv = xfer_run_inv [OF assms(8) st(1)]
  have p: "planner_ok (x_planner x0)" using st(1) by (simp add: xfer_inv_def)
  obtain b where b: "stored_bitmap (file_ID file) (SegmentCount file) (x_db x) = Some b"
      "durable good (x_planner x0) (x_bitmap x) (x_synced x) (x_unsynced x) b"
    using inv st(2,3) unfolding xfer_inv_def by auto
  then obtain row where row: "find_row file_ID (file_ID file) (files (x_db x)) = Some row"
      "bitmapForFile (CompletedBitmap row) (SegmentCount file) = Inr b"
    by (auto simp: stored_bitmap_def split: option.splits sum.splits)
  have "good i (seg_content (x_planner x0) i left)" if "bitmap_IsSet (CompletedBitmap row) (int i)" for i
    using crash_keeps [OF p b(2) _ assms(9)] bitmapForFile_ok(2) [OF p, of "CompletedBitmap row" b i] row(2) st(3) that by auto
  moreover have "length left = length (p_data partial)"
  proof -
    have "length left = length (x_data x)" using assms(9) inv by (simp add: crash_leaves_def xfer_inv_def)
    moreover have "int (length (x_data x)) = SizeBytes file" using inv st(4) by (simp add: xfer_inv_def content_inv_def)
    ultimately show ?thesis using assms(6) by linarith
  qed
  ultimately show ?thesis using row by blast
qed

text \<open>
  C9. A transfer that ends without an error and was not cancelled is complete: under every interleaving the
  stored bitmap marks all segments, each has its downloaded contents on disk for good, and the byte
  count of the loop is the file's size.
\<close>

theorem transfer_complete:
  assumes "transfer_start decrypt workersPerFile file (Inr (partial, existed)) d = Inr (key, url, x0)"
    and "SegmentSizeBytes file \<le> max_int64" and "SizeBytes file \<le> max_int64 - SegmentSizeBytes file + 1"
    and "find_row file_ID (file_ID file) (files d) = Some file" and "distinct (map file_ID (files d))"
    and "int (length (p_data partial)) = SizeBytes file"
    and "\<forall>i. bitmap_IsSet (CompletedBitmap file) (int i) \<longrightarrow> existed \<and> good i (seg_content (x_planner x0) i (p_data partial))"
    and "(xfer_step good limit)\<^sup>*\<^sup>* x0 x" and "x_phase x = Finished None" and "\<not> x_cancelled x"
  shows "x_committed x = SizeBytes file \<and>
    (\<exists>row b. find_row file_ID (file_ID file) (files (x_db x)) = Some row \<and>
      bitmapForFile (CompletedBitmap row) (SegmentCount file) = Inr b \<and>
      (\<forall>i < nat (SegmentCount file). bitmap_IsSet b (int i) \<and> good i (seg_content (x_planner x0) i (x_data x)) \<and>
         good i (seg_content (x_planner x0) i (x_synced x))))"
proof -
  note st = transfer_start_inv [where good = good, OF assms(1-7)]
  note inv = xfer_run_inv [OF assms(8) st(1)]
  let ?p = "x_planner x0"
  have p: "planner_ok ?p" using st(1) by (simp add: xfer_inv_def)
  have nf: "\<not> failed x" "x_busy x = []" "x_results x = []" "x_idle x = 0" "\<not> x_dirty x"
    using inv assms(9,10) by (auto simp: failed_def saved_inv_def is_ending_def)
  have all: "bm_mem (x_bitmap x) i" if "i < segs ?p" for i
  proof (cases "x_workers x = 0")
    case True
    then show ?thesis using inv that by (simp add: workers_inv_def)
  next
    case False
    then have "int i < x_next x" using inv nf that segs_less [OF p, of i] unfolding workers_inv_def by auto
    then show ?thesis using inv nf that by (simp add: claims_inv_def)
  qed
  have b: "stored_bitmap (file_ID file) (SegmentCount file) (x_db x) = Some (x_bitmap x)"
    using inv nf st(2,3) unfolding saved_inv_def by auto
  then obtain row where row: "find_row file_ID (file_ID file) (files (x_db x)) = Some row"
      "bitmapForFile (CompletedBitmap row) (SegmentCount file) = Inr (x_bitmap x)"
    by (auto simp: stored_bitmap_def split: option.splits sum.splits)
  have dur: "durable good ?p (x_bitmap x) (x_synced x) (x_unsynced x) (x_bitmap x)"
    using inv b st(2,3) unfolding xfer_inv_def by auto
  have con: "content_inv good ?p (x_bitmap x) (oks (x_results x)) (x_data x)" using inv unfolding xfer_inv_def by auto
  have "bitmap_IsSet (x_bitmap x) (int i) \<and> good i (seg_content ?p i (x_data x)) \<and> good i (seg_content ?p i (x_synced x))"
    if "i < nat (SegmentCount file)" for i
    using all [of i] that st(3) dur con bitmap_IsSet_eq [of "x_bitmap x" i]
    unfolding content_inv_def durable_def by simp
  moreover have "x_committed x = SizeBytes file"
  proof -
    have "bm_shape (x_bitmap x) (segs ?p)" "x_committed x = rp.done_bytes ?p (x_bitmap x)"
      using inv unfolding xfer_inv_def marks_inv_def by auto
    then show ?thesis using rp.done_bytes_full [OF p] all st(4) by simp
  qed
  ultimately show ?thesis using row by blast
qed

text \<open>A transfer of two bytes in one segment, from its start to its end.\<close>

definition sample_file :: file_row where
  "sample_file = insert_file_row ''f'' ''j''
     \<lparr>in_file_ID = ''f'', in_RemoteNodeID = ''n'', in_RemotePath = ''a'', in_FinalRelativePath = ''a'', in_SizeBytes = 2,
      in_SegmentSizeBytes = 2, in_SegmentCount = 1, in_FileKeyCiphertext = replicate 32 5, in_PayloadURLCiphertext = [1],
      in_PayloadContext = [], in_file_State = None\<rparr> 0 0"

definition sample_db :: "bitmap \<Rightarrow> int \<Rightarrow> nat \<Rightarrow> database" where
  "sample_db bm committed n =
     \<lparr>jobs = [], files = [sample_file\<lparr>CompletedBitmap := bm, BytesCommitted := committed,
        file_State := (if n = 0 then FilePending else FileDownloading)\<rparr>], events = [], event_sequence = 0,
      accounts = [], proxies = [], foreign_keys = True, checkpointTransactions = n\<rparr>"

definition sample_good :: "nat \<Rightarrow> bytes \<Rightarrow> bool" where
  "sample_good i c \<longleftrightarrow> c = [7, 8]"

definition sample_xfer :: "int \<Rightarrow> nat \<Rightarrow> segment list \<Rightarrow> segmentResult list \<Rightarrow> bytes \<Rightarrow> bool \<Rightarrow> phase \<Rightarrow> xfer" where
  "sample_xfer nx idle busy results data marked ph =
     \<lparr>x_planner = \<lparr>Size = 2, SegmentSize = 2, Count = 1\<rparr>, x_fileID = ''f'',
      x_bitmap = (if marked then [1] else [0]), x_claimBitmap = [0], x_committed = (if marked then 2 else 0),
      x_bytesSince = (if marked then 2 else 0), x_dirty = marked, x_next = nx, x_workers = 1, x_idle = idle, x_busy = busy,
      x_results = results, x_stopped = False, x_cancelled = False, x_transferErr = None, x_phase = ph, x_data = data,
      x_synced = [0, 0], x_unsynced = (if data = [0, 0] then [] else [(0, Suc (Suc 0))]), x_db = sample_db [] 0 0\<rparr>"

abbreviation sample_seg :: segment where
  "sample_seg \<equiv> \<lparr>Index = 0, Start = 0, End = 1\<rparr>"

abbreviation sample_partial :: partial_file where
  "sample_partial \<equiv> \<lparr>p_open = True, p_data = [0, 0], p_size = 2, p_calls = 0\<rparr>"

lemma sample_start:
  "\<exists>key. transfer_start Inr 4 sample_file (Inr (sample_partial, False)) (sample_db [] 0 0) =
     Inr (key, [1], sample_xfer 0 1 [] [] [0, 0] False InLoop)"
proof -
  obtain key where "decodeFileKeyBytes (replicate 32 5) = Inr key"
    by (simp add: decodeFileKeyBytes_def sub_list_def)
  moreover have "NewSegmentPlanner 2 2 = Inr \<lparr>Size = 2, SegmentSize = 2, Count = 1\<rparr>"
    by (simp add: NewSegmentPlanner_def go_div_def i64_def)
  moreover have "bitmapForFile [] 1 = Inr [0]"
    by (simp add: bitmapForFile_def NewBitmap_def bitmapByteCount_def go_div_def i64_def MaxBitmapBytes_def maxInt_def)
  moreover have "bitmap_Count [0] = 0" by code_simp
  moreover have "committedBytes \<lparr>Size = 2, SegmentSize = 2, Count = 1\<rparr> [0] = 0" by code_simp
  ultimately show ?thesis
    by (simp add: transfer_start_def sample_file_def insert_file_row_def sample_xfer_def i64_def Let_def)
qed

lemma sample_run:
  fixes step :: "xfer \<Rightarrow> xfer \<Rightarrow> bool"
  defines "step \<equiv> xfer_step sample_good 100"
  defines "x0 \<equiv> sample_xfer 0 1 [] [] [0, 0] False InLoop"
  shows "step\<^sup>*\<^sup>* x0 (sample_xfer 2 0 [] [] [7, 8] True (Due True))"
proof -
  let ?r = "\<lparr>res_segment = sample_seg, res_written = 2, res_err = None\<rparr>"
  have s1: "step x0 (sample_xfer 1 0 [sample_seg] [] [0, 0] False InLoop)"
    using xfer_step.claim [of x0 sample_good 100] unfolding step_def x0_def
    by (simp add: sample_xfer_def worker_claim_def bitmap_IsSet_def go_div_def planner_Segment_def i64_def max_int64_def Let_def)
  have s2: "step (sample_xfer 1 0 [sample_seg] [] [0, 0] False InLoop) (sample_xfer 1 0 [sample_seg] [] [7, 8] False InLoop)"
    using xfer_step.put [of sample_seg "sample_xfer 1 0 [sample_seg] [] [0, 0] False InLoop" 0 "[7, 8]" sample_good 100] unfolding step_def
    by (simp add: sample_xfer_def worker_write_def within_def overwrite_def)
  have s3: "step (sample_xfer 1 0 [sample_seg] [] [7, 8] False InLoop) (sample_xfer 1 1 [] [?r] [7, 8] False InLoop)"
    using xfer_step.finish_ok [of sample_seg "sample_xfer 1 0 [sample_seg] [] [7, 8] False InLoop" sample_good 100] unfolding step_def
    by (simp add: sample_xfer_def worker_finish_def sample_good_def seg_content_def seg_lo_def seg_hi_def segment_Size_def i64_def)
  have s4: "step (sample_xfer 1 1 [] [?r] [7, 8] False InLoop) (sample_xfer 1 1 [] [] [7, 8] True InLoop)"
    using xfer_step.consume [of "sample_xfer 1 1 [] [?r] [7, 8] False InLoop" sample_good 100] unfolding step_def
    by (simp add: sample_xfer_def consume_result_def process_result_def bitmap_Set_def go_div_def go_rem_def segment_Size_def i64_def)
  have s5: "step (sample_xfer 1 1 [] [] [7, 8] True InLoop) (sample_xfer 2 0 [] [] [7, 8] True InLoop)"
    using xfer_step.claim [of "sample_xfer 1 1 [] [] [7, 8] True InLoop" sample_good 100] unfolding step_def
    by (simp add: sample_xfer_def worker_claim_def)
  have s6: "step (sample_xfer 2 0 [] [] [7, 8] True InLoop) (sample_xfer 2 0 [] [] [7, 8] True (Due True))"
    using xfer_step.ending [of "sample_xfer 2 0 [] [] [7, 8] True InLoop" sample_good 100] unfolding step_def
    by (simp add: sample_xfer_def loop_end_def)
  have cons: "step x y \<Longrightarrow> step\<^sup>*\<^sup>* y z \<Longrightarrow> step\<^sup>*\<^sup>* x z" for x y z by (rule converse_rtranclp_into_rtranclp)
  show ?thesis by (rule cons [OF s1], rule cons [OF s2], rule cons [OF s3], rule cons [OF s4], rule cons [OF s5], rule r_into_rtranclp, rule s6)
qed

abbreviation sample_end :: xfer where
  "sample_end \<equiv> commit_persist (\<lambda>_. False) True 0 0 True [1] 2 (commit_sync None True (sample_xfer 2 0 [] [] [7, 8] True (Due True)))"

lemma sample_run_end: "(xfer_step sample_good 100)\<^sup>*\<^sup>* (sample_xfer 0 1 [] [] [0, 0] False InLoop) sample_end"
proof -
  let ?x = "sample_xfer 2 0 [] [] [7, 8] True (Due True)"
  have "xfer_step sample_good 100 ?x (commit_sync None True ?x)"
    by (rule xfer_step.sync) (simp add: sample_xfer_def)
  moreover have "xfer_step sample_good 100 (commit_sync None True ?x) sample_end"
    by (rule xfer_step.persist) (simp add: commit_sync_def sample_xfer_def)
  moreover note sample_run
  ultimately show ?thesis by (auto intro: rtranclp.rtrancl_into_rtrancl)
qed

lemma sample_end_phase: "x_phase sample_end = Finished None \<and> \<not> x_cancelled sample_end"
  by (simp add: commit_sync_def commit_persist_def sample_xfer_def checkpoint_done_def CheckpointDownloadFiles_def WithTx_def
      sample_db_def affected_def sample_file_def insert_file_row_def norm_time_def zero_time_def update_rows_def find_row_def
      touch_job_def Let_def)

lemma sample_row:
  "find_row file_ID (file_ID sample_file) (files (sample_db [] 0 0)) = Some sample_file"
  "distinct (map file_ID (files (sample_db [] 0 0)))"
  "\<forall>i. bitmap_IsSet (CompletedBitmap sample_file) (int i) \<longrightarrow> False \<and> sample_good i (seg_content p i bs)"
  by (simp_all add: sample_db_def find_row_def sample_file_def insert_file_row_def bitmap_IsSet_def go_div_def)

lemma sample_disk: "x_data sample_end = [7, 8] \<and> x_synced sample_end = [7, 8] \<and> x_unsynced sample_end = []"
  by (simp add: commit_sync_def commit_persist_def sample_xfer_def checkpoint_done_def CheckpointDownloadFiles_def WithTx_def
      sample_db_def affected_def sample_file_def insert_file_row_def norm_time_def zero_time_def update_rows_def find_row_def
      touch_job_def Let_def)

lemma sample_sizes:
  "SegmentSizeBytes sample_file \<le> max_int64" "SizeBytes sample_file \<le> max_int64 - SegmentSizeBytes sample_file + 1"
  "int (length (p_data sample_partial)) = SizeBytes sample_file" "file_ID sample_file = ''f''" "SegmentCount sample_file = 1"
  by (simp_all add: sample_file_def insert_file_row_def max_int64_def)

theorem crash_consistent_witness:
  "\<exists>row b. find_row file_ID ''f'' (files (x_db sample_end)) = Some row \<and> bitmapForFile (CompletedBitmap row) 1 = Inr b \<and>
     (\<forall>i. bitmap_IsSet (CompletedBitmap row) (int i) \<longrightarrow> sample_good i (seg_content \<lparr>Size = 2, SegmentSize = 2, Count = 1\<rparr> i [7, 8]))"
proof -
  obtain key where start: "transfer_start Inr 4 sample_file (Inr (sample_partial, False)) (sample_db [] 0 0) =
     Inr (key, [1], sample_xfer 0 1 [] [] [0, 0] False InLoop)" using sample_start by blast
  have crash: "crash_leaves sample_end [7, 8]" using sample_disk by (simp add: crash_leaves_def)
  show ?thesis
    using crash_consistent [OF start sample_sizes(1,2) sample_row(1,2) sample_sizes(3) sample_row(3) sample_run_end crash]
    by (auto simp: sample_sizes sample_xfer_def)
qed

theorem transfer_complete_witness:
  "x_committed sample_end = 2 \<and> (\<exists>row. find_row file_ID ''f'' (files (x_db sample_end)) = Some row \<and>
     (\<exists>b. bitmapForFile (CompletedBitmap row) 1 = Inr b \<and> bitmap_IsSet b 0))"
proof -
  obtain key where start: "transfer_start Inr 4 sample_file (Inr (sample_partial, False)) (sample_db [] 0 0) =
     Inr (key, [1], sample_xfer 0 1 [] [] [0, 0] False InLoop)" using sample_start by blast
  have size: "SizeBytes sample_file = 2" by (simp add: sample_file_def insert_file_row_def)
  show ?thesis
    using transfer_complete [OF start sample_sizes(1,2) sample_row(1,2) sample_sizes(3) sample_row(3) sample_run_end
        sample_end_phase [THEN conjunct1] sample_end_phase [THEN conjunct2]]
    by (auto simp: sample_sizes size)
qed

text \<open>When the partial file is gone but the row still has marks, only the bitmap in memory is reset: the
  stored one stays until the first checkpoint, and a crash before it leaves marks for bytes that are not there.\<close>

lemma reset_leaves_stored_marks:
  assumes "transfer_start decrypt workersPerFile file (Inr (partial, False)) d = Inr (key, url, x)"
    and "0 < bitmap_Count (CompletedBitmap file)"
  shows "x_bitmap x = NewBitmapUnchecked (SegmentCount file) \<and> x_committed x = 0 \<and> x_db x = d"
proof -
  obtain b where b: "bitmapForFile (CompletedBitmap file) (SegmentCount file) = Inr b"
    using assms(1) by (auto simp: transfer_start_def split: sum.splits if_splits)
  then have "b = CompletedBitmap file"
    using assms(2) by (auto simp: bitmapForFile_def bitmap_Count_def split: option.splits if_splits)
  then show ?thesis using assms b
    by (auto simp: transfer_start_def Let_def split: sum.splits if_splits)
qed

end
