(* ===== verification/Finalize.thy ===== *)
theory Finalize
  imports FsSafety Store Crypto GoText Worker
begin

text \<open>
  How a downloaded file reaches its destination (\<^verbatim>\<open>internal/download/manager.go\<close>: the end of
  \<^verbatim>\<open>processFileWithTransfer\<close>, \<^verbatim>\<open>finalize\<close>, \<^verbatim>\<open>recoverMovedFile\<close>, \<^verbatim>\<open>removeCompletedFiles\<close>,
  \<^verbatim>\<open>removePartialDirectory\<close>, \<^verbatim>\<open>validateTransferRoots\<close>; \<^verbatim>\<open>integrity.go\<close>), over the store and the
  anchored roots. A world holds the database and the file tree; the environment says which
  database calls fail, what the clock shows, and what other processes do to the tree between
  planning a target and renaming to it. Texts of errors are left out where nothing asks for them.
\<close>

section \<open>World and environment\<close>

record world =
  w_db :: database
  w_fs :: node
  w_calls :: nat     \<comment> \<open>database calls so far\<close>

record env =
  e_kernel :: kernel
  e_flt :: "nat \<Rightarrow> faults"
  e_now :: "nat \<Rightarrow> int"
  e_others :: "nat \<Rightarrow> node \<Rightarrow> node"

definition db_call :: "env \<Rightarrow> (faults \<Rightarrow> int \<Rightarrow> database \<Rightarrow> 'r \<times> database) \<Rightarrow> world \<Rightarrow> 'r \<times> world" where
  "db_call ev f w =
     (let (r, d) = f (e_flt ev (w_calls w)) (e_now ev (w_calls w)) (w_db w)
      in (r, w\<lparr>w_db := d, w_calls := Suc (w_calls w)\<rparr>))"

definition get_job :: "env \<Rightarrow> string \<Rightarrow> world \<Rightarrow> (store_error + job_record) \<times> world" where
  "get_job ev jid = db_call ev (\<lambda>flt now d. (if flt 0 then Inl ErrSQL else GetDownloadJob d jid, d))"

definition set_file_state :: "env \<Rightarrow> string \<Rightarrow> FileState \<Rightarrow> string \<Rightarrow> string \<Rightarrow> world \<Rightarrow> store_error option \<times> world" where
  "set_file_state ev fid st code message = db_call ev (\<lambda>flt now. UpdateDownloadFileState flt now fid st code message now)"

definition set_job_state :: "env \<Rightarrow> string \<Rightarrow> JobState \<Rightarrow> world \<Rightarrow> store_error option \<times> world" where
  "set_job_state ev jid st = db_call ev (\<lambda>flt now. SetDownloadJobState flt now jid st now)"

definition add_event :: "env \<Rightarrow> string \<Rightarrow> string \<Rightarrow> string \<Rightarrow> string \<Rightarrow> world \<Rightarrow> world" where
  "add_event ev jid fid kind message w = snd (db_call ev (\<lambda>flt now. AddDownloadEvent flt now jid fid kind message now) w)"

definition store_go :: "store_error \<Rightarrow> go_error" where
  "store_go e = errors_New ''store operation failed''"

definition path_go :: "path_error \<Rightarrow> go_error" where
  "path_go e = errors_New ''file system operation failed''"

definition ErrFinalizationPending :: go_error where
  "ErrFinalizationPending =
     \<lparr>chain = [NOther, NFinalizationPending], err_text = ''atomic rename succeeded but completion persistence is pending''\<rparr>"

definition ErrCrossDevice :: go_error where
  "ErrCrossDevice =
     \<lparr>chain = [NOther, NCrossDevice], err_text = ''incomplete and complete roots must share a filesystem''\<rparr>"

definition integrity_go :: go_error where
  "integrity_go = \<lparr>chain = [NOther, NIntegrityMismatch], err_text = ''integrity mismatch''\<rparr>"

section \<open>Verification\<close>

text \<open>\<open>halt\<close> is the moment the context is done, in bytes of the scan (\<open>None\<close>: it is not): reads fail from
  there on. \<open>stat_err\<close> is the outcome of \<^verbatim>\<open>file.Stat\<close>.\<close>

definition VerifyPartialFileContext ::
  "(bytes \<Rightarrow> bytes \<Rightarrow> bytes) \<Rightarrow> nat option \<Rightarrow> go_error option \<Rightarrow> bytes \<Rightarrow> int \<Rightarrow> FileKey \<Rightarrow> go_error option" where
  "VerifyPartialFileContext E halt stat_err data fileSize key =
     (if fileSize < 0 then Some (errors_New ''negative file fileSize'')
      else if halt = Some 0 then Some context_Canceled
      else case stat_err of
        Some e \<Rightarrow> Some (wrap_error ''stat partial file for verification: '' e)
      | None \<Rightarrow>
          if int (length data) \<noteq> fileSize then Some integrity_go
          else (case VerifyIntegrity E (case halt of None \<Rightarrow> data | Some n \<Rightarrow> take n data) fileSize key of
                  None \<Rightarrow> None
                | Some _ \<Rightarrow> if halt \<noteq> None then Some context_Canceled else Some integrity_go))"

section \<open>Finalization\<close>

definition relativeParent :: "string \<Rightarrow> string" where
  "relativeParent relative = (let parent = filepath_Dir relative in if parent = ''.'' then [] else parent)"

definition conflict_policy :: "string \<Rightarrow> string option \<Rightarrow> string" where
  "conflict_policy runtime saved =
     (let p = (if runtime = [] then (case saved of Some v \<Rightarrow> v | None \<Rightarrow> []) else runtime)
      in if p = [] then ''rename'' else p)"

text \<open>The loop of \<^verbatim>\<open>finalize\<close>: \<open>ir\<close> and \<open>cr\<close> are the incomplete and the complete root.\<close>

function finalize_loop ::
  "env \<Rightarrow> string \<Rightarrow> string \<Rightarrow> string \<Rightarrow> string \<Rightarrow> nat \<Rightarrow> root \<Rightarrow> root \<Rightarrow> world \<Rightarrow> (go_error + string) \<times> world" where
  "finalize_loop ev policy fid final partialRelative attempt ir cr w =
     (if 100000 < attempt then (Inl (path_go ErrConflict), w)
      else case PlanConflict (e_kernel ev) final policy cr (w_fs w) of
        (Inl e, cr1, fs1) \<Rightarrow> (Inl (path_go e), w\<lparr>w_fs := fs1\<rparr>)
      | (Inr target, cr1, fs1) \<Rightarrow>
          (case db_call ev (\<lambda>flt now. PrepareDownloadFileMove flt now fid target now) (w\<lparr>w_fs := fs1\<rparr>) of
             (Some e, w1) \<Rightarrow> (Inl (store_go e), w1)
           | (None, w1) \<Rightarrow>
               (case RenameFrom (e_kernel ev) partialRelative target (policy = ''overwrite'') ir cr1 (e_others ev attempt (w_fs w1)) of
                  (Some e, ir2, cr2, fs2) \<Rightarrow>
                    if e = ErrConflict \<and> policy = ''rename'' then
                      finalize_loop ev policy fid final partialRelative (attempt + 1) ir2 cr2 (w1\<lparr>w_fs := fs2\<rparr>)
                    else (Inl (if e = ErrCrossDevicePath then ErrCrossDevice else path_go e), w1\<lparr>w_fs := fs2\<rparr>)
                | (None, ir2, cr2, fs2) \<Rightarrow>
                    (case SyncDir (e_kernel ev) (relativeParent target) cr2 fs2 of
                       (Some e, cr3, fs3) \<Rightarrow> (Inl ErrFinalizationPending, w1\<lparr>w_fs := fs3\<rparr>)
                     | (None, cr3, fs3) \<Rightarrow>
                         (case SyncDir (e_kernel ev) (relativeParent partialRelative) ir2 fs3 of
                            (Some e, ir4, fs4) \<Rightarrow> (Inl ErrFinalizationPending, w1\<lparr>w_fs := fs4\<rparr>)
                          | (None, ir4, fs4) \<Rightarrow> (Inr target, w1\<lparr>w_fs := fs4\<rparr>))))))"
  by pat_completeness auto
termination
  by (relation "measure (\<lambda>(_, _, _, _, _, attempt, _, _, _). 100001 - attempt)") auto

declare finalize_loop.simps [simp del]

definition finalize ::
  "env \<Rightarrow> string \<Rightarrow> string option \<Rightarrow> job_row \<Rightarrow> file_row \<Rightarrow> string \<Rightarrow> world \<Rightarrow> (go_error + string) \<times> world" where
  "finalize ev runtimePolicy saved job file partialRelative w =
     (case New (e_kernel ev) (IncompleteRoot job) (w_fs w) of
        Inl e \<Rightarrow> (Inl (path_go e), w)
      | Inr ir \<Rightarrow>
          (case New (e_kernel ev) (CompleteRoot job) (w_fs w) of
             Inl e \<Rightarrow> (Inl (path_go e), w)
           | Inr cr \<Rightarrow>
               finalize_loop ev (conflict_policy runtimePolicy saved) (file_ID file) (FinalRelativePath file) partialRelative 0 ir cr w))"

text \<open>The end of \<^verbatim>\<open>processFileWithTransfer\<close>: \<open>data\<close> is what the partial file's descriptor reads.\<close>

definition finish_file ::
  "env \<Rightarrow> (bytes \<Rightarrow> bytes \<Rightarrow> bytes) \<Rightarrow> string \<Rightarrow> string option \<Rightarrow> nat option \<Rightarrow> go_error option \<Rightarrow> go_error option \<Rightarrow> job_row \<Rightarrow> file_row
     \<Rightarrow> FileKey \<Rightarrow> bytes \<Rightarrow> string \<Rightarrow> world \<Rightarrow> go_error option \<times> world" where
  "finish_file ev E runtimePolicy saved halt stat_err close_err job file key data partialRelative w =
     (case set_file_state ev (file_ID file) FileVerifying [] [] w of
        (Some e, w1) \<Rightarrow> (Some (store_go e), w1)
      | (None, w1) \<Rightarrow>
          (case VerifyPartialFileContext E halt stat_err data (SizeBytes file) key of
             Some err \<Rightarrow>
               if halt \<noteq> None then (Some context_Canceled, w1)
               else
                 (let w2 = snd (set_file_state ev (file_ID file) FileFailed ''integrity_mismatch'' (err_text err) w1);
                      w3 = add_event ev (job_ID job) (file_ID file) ''error'' ''file integrity verification failed'' w2
                  in (Some err, w3))
           | None \<Rightarrow>
               (case close_err of
                  Some e \<Rightarrow> (Some (wrap_error ''close partial file before finalization: '' e), w1)
                | None \<Rightarrow>
                    (case finalize ev runtimePolicy saved job file partialRelative w1 of
                       (Inl err, w2) \<Rightarrow>
                         if errors_Is err NFinalizationPending then (Some err, w2)
                         else
                           (let code = (if errors_Is err NCrossDevice then ''cross_device_finalize'' else ''finalize_failed'');
                                w3 = snd (set_file_state ev (file_ID file) FileFailed code (err_text err) w2)
                            in (Some err, w3))
                     | (Inr target, w2) \<Rightarrow>
                         (case db_call ev (\<lambda>flt now. CompleteDownloadFile flt now (file_ID file) target now) w2 of
                            (Some e, w3) \<Rightarrow> (Some ErrFinalizationPending, w3)
                          | (None, w3) \<Rightarrow> (None, w3))))))"

section \<open>Move recovery\<close>

text \<open>The entry an open descriptor reads; only regular files have contents to verify.\<close>

definition verify_entry ::
  "(bytes \<Rightarrow> bytes \<Rightarrow> bytes) \<Rightarrow> nat option \<Rightarrow> go_error option \<Rightarrow> entry \<Rightarrow> int \<Rightarrow> FileKey \<Rightarrow> go_error option" where
  "verify_entry E halt stat_err e fileSize key =
     (case e of EFile data \<Rightarrow> VerifyPartialFileContext E halt stat_err data fileSize key
      | _ \<Rightarrow> Some (errors_New ''not a regular file''))"

definition recover_target ::
  "env \<Rightarrow> (bytes \<Rightarrow> bytes \<Rightarrow> bytes) \<Rightarrow> (bytes \<Rightarrow> go_error + bytes) \<Rightarrow> nat option \<Rightarrow> go_error option \<Rightarrow> go_error option \<Rightarrow> file_row
     \<Rightarrow> bool \<Rightarrow> root \<Rightarrow> node \<Rightarrow> (go_error + bool) \<times> node" where
  "recover_target ev E decrypt halt stat_err close_err file partialExists cr fs =
     (case Lstat (e_kernel ev) (FinalRelativePath file) cr fs of
        (Inl e, cr1, fs1) \<Rightarrow>
          (if e = ErrNotExist then
             (if partialExists then Inr False else Inl (errors_New ''move recovery found neither partial file nor final target''))
           else Inl (path_go e), fs1)
      | (Inr info, cr1, fs1) \<Rightarrow>
          if IsSymlink info then (Inl (path_go ErrSymlink), fs1)
          else (case decrypt (FileKeyCiphertext file) of
                  Inl e \<Rightarrow> (Inl (wrap_error ''decrypt file key during move recovery: '' e), fs1)
                | Inr rawKey \<Rightarrow>
                    (case decodeFileKeyBytes rawKey of
                       Inl e \<Rightarrow> (Inl (errors_New ''invalid key''), fs1)
                     | Inr key \<Rightarrow>
                         (case OpenFile_rdonly (e_kernel ev) (FinalRelativePath file) cr1 fs1 of
                            (Inl e, cr2, fs2) \<Rightarrow> (Inl (path_go e), fs2)
                          | (Inr entry, cr2, fs2) \<Rightarrow>
                              (case verify_entry E halt stat_err entry (SizeBytes file) key of
                                 Some err \<Rightarrow> (if partialExists then Inr False else Inl (wrap_error ''verify final target during move recovery: '' err), fs2)
                               | None \<Rightarrow>
                                   (case close_err of
                                      Some e \<Rightarrow> (Inl (wrap_error ''close final target during move recovery: '' e), fs2)
                                    | None \<Rightarrow> (Inr True, fs2)))))))"

definition drop_partial :: "env \<Rightarrow> string \<Rightarrow> root \<Rightarrow> node \<Rightarrow> go_error option \<times> node" where
  "drop_partial ev partialRelative ir fs =
     (case Remove (e_kernel ev) partialRelative ir fs of
        (Some e, ir1, fs1) \<Rightarrow> (Some (path_go e), fs1)
      | (None, ir1, fs1) \<Rightarrow>
          (case SyncDir (e_kernel ev) (relativeParent partialRelative) ir1 fs1 of
             (Some e, ir2, fs2) \<Rightarrow> (Some (path_go e), fs2)
           | (None, ir2, fs2) \<Rightarrow> (None, fs2)))"

definition recoverMovedFile ::
  "env \<Rightarrow> (bytes \<Rightarrow> bytes \<Rightarrow> bytes) \<Rightarrow> (bytes \<Rightarrow> go_error + bytes) \<Rightarrow> nat option \<Rightarrow> go_error option \<Rightarrow> go_error option \<Rightarrow> job_row
     \<Rightarrow> file_row \<Rightarrow> world \<Rightarrow> (go_error + bool) \<times> world" where
  "recoverMovedFile ev E decrypt halt stat_err close_err job file w =
     (case New (e_kernel ev) (IncompleteRoot job) (w_fs w) of
        Inl e \<Rightarrow> (Inl (path_go e), w)
      | Inr ir \<Rightarrow>
          (case PartialRelativePath (job_ID job) (RemotePath file) of
             Inl e \<Rightarrow> (Inl (path_go e), w)
           | Inr partialRelative \<Rightarrow>
               (case Lstat (e_kernel ev) partialRelative ir (w_fs w) of
                  (st, ir1, fs1) \<Rightarrow>
                    if (case st of Inl e \<Rightarrow> e \<noteq> ErrNotExist | Inr _ \<Rightarrow> False) then (Inl (errors_New ''inspect partial file''), w\<lparr>w_fs := fs1\<rparr>)
                    else
                      (let partialExists = is_ok st in
                       case New (e_kernel ev) (CompleteRoot job) fs1 of
                         Inl e \<Rightarrow> (Inl (path_go e), w\<lparr>w_fs := fs1\<rparr>)
                       | Inr cr \<Rightarrow>
                           (case recover_target ev E decrypt halt stat_err close_err file partialExists cr fs1 of
                              (Inl e, fs2) \<Rightarrow> (Inl e, w\<lparr>w_fs := fs2\<rparr>)
                            | (Inr False, fs2) \<Rightarrow> (Inr False, w\<lparr>w_fs := fs2\<rparr>)
                            | (Inr True, fs2) \<Rightarrow>
                                (case (if partialExists then drop_partial ev partialRelative ir1 fs2 else (None, fs2)) of
                                   (Some e, fs3) \<Rightarrow> (Inl e, w\<lparr>w_fs := fs3\<rparr>)
                                 | (None, fs3) \<Rightarrow>
                                     (case db_call ev (\<lambda>flt now. CompleteDownloadFile flt now (file_ID file) (FinalRelativePath file) now)
                                             (w\<lparr>w_fs := fs3\<rparr>) of
                                        (Some e, w4) \<Rightarrow> (Inl (store_go e), w4)
                                      | (None, w4) \<Rightarrow> (Inr True, w4))))))))"

section \<open>Roots and removal\<close>

definition validateTransferRoots :: "kernel \<Rightarrow> node \<Rightarrow> job_row \<Rightarrow> go_error option" where
  "validateTransferRoots k fs job =
     (if CompleteRoot job = [] \<or> IncompleteRoot job = [] then Some (errors_New ''transfer roots are not configured'')
      else case New k (CompleteRoot job) fs of
        Inl e \<Rightarrow> Some (path_go e)
      | Inr _ \<Rightarrow> (case New k (IncompleteRoot job) fs of Inl e \<Rightarrow> Some (path_go e) | Inr _ \<Rightarrow> None))"

fun remove_completed_loop :: "kernel \<Rightarrow> file_row list \<Rightarrow> root \<Rightarrow> node \<Rightarrow> go_error option \<times> node" where
  "remove_completed_loop k [] r fs = (None, fs)"
| "remove_completed_loop k (file # rest) r fs =
     (if file_State file \<noteq> FileCompleted \<or> FinalRelativePath file = [] then remove_completed_loop k rest r fs
      else case Lstat k (FinalRelativePath file) r fs of
        (Inl e, r1, fs1) \<Rightarrow> if e = ErrNotExist then remove_completed_loop k rest r1 fs1 else (Some (path_go e), fs1)
      | (Inr info, r1, fs1) \<Rightarrow>
          if IsSymlink info then (Some (errors_New ''refusing to remove symlinked completed file''), fs1)
          else (case Remove k (FinalRelativePath file) r1 fs1 of
                  (Some e, r2, fs2) \<Rightarrow> (Some (path_go e), fs2)
                | (None, r2, fs2) \<Rightarrow> remove_completed_loop k rest r2 fs2))"

definition removeCompletedFiles :: "kernel \<Rightarrow> job_record \<Rightarrow> node \<Rightarrow> go_error option \<times> node" where
  "removeCompletedFiles k job fs =
     (case New k (CompleteRoot (rec_row job)) fs of
        Inl e \<Rightarrow> (Some (path_go e), fs)
      | Inr r \<Rightarrow> remove_completed_loop k (rec_Files job) r fs)"

definition removePartialDirectory :: "kernel \<Rightarrow> job_row \<Rightarrow> node \<Rightarrow> go_error option \<times> node" where
  "removePartialDirectory k job fs =
     (case New k (IncompleteRoot job) fs of
        Inl e \<Rightarrow> (Some (path_go e), fs)
      | Inr r \<Rightarrow>
          (case SanitizeComponent (job_ID job) of
             Inl e \<Rightarrow> (Some (path_go e), fs)
           | Inr relative \<Rightarrow>
               (case RemoveAll k relative r fs of
                  (Some e, r1, fs1) \<Rightarrow> (Some (path_go e), fs1)
                | (None, r1, fs1) \<Rightarrow> (None, fs1))))"

end
