(* ===== verification/Jobs.thy ===== *)
theory Jobs
  imports Finalize Retry
begin

text \<open>
  The job level of the engine (\<^verbatim>\<open>internal/download/manager.go\<close>): what \<^verbatim>\<open>runJob\<close> does before and after
  its file workers, pausing, failing, waiting for quota, cancelling, resuming and deleting a job,
  as changes of the database and the file tree. The queue half of these operations is in
  \<^verbatim>\<open>Queue\<close>; the work of one file worker is in \<^verbatim>\<open>FileTransfer\<close> and \<^verbatim>\<open>Finalize\<close>. Publishing
  snapshots to the event bus changes neither and is left out.
\<close>

section \<open>Pausing, failing, waiting\<close>

text \<open>\<^verbatim>\<open>current\<close>: the persisted job when it can be read, else the caller's copy.\<close>

definition current_job :: "env \<Rightarrow> job_record \<Rightarrow> world \<Rightarrow> job_record \<times> world" where
  "current_job ev job w =
     (case get_job ev (job_ID (rec_row job)) w of
        (Inr persisted, w1) \<Rightarrow> (persisted, w1)
      | (Inl _, w1) \<Rightarrow> (job, w1))"

text \<open>The loops over the files: each update may fail and is ignored.\<close>

fun mark_files :: "env \<Rightarrow> (file_row \<Rightarrow> bool) \<Rightarrow> FileState \<Rightarrow> string \<Rightarrow> string \<Rightarrow> file_row list \<Rightarrow> world \<Rightarrow> world" where
  "mark_files ev P st code message [] w = w"
| "mark_files ev P st code message (f # fs) w =
     mark_files ev P st code message fs (if P f then snd (set_file_state ev (file_ID f) st code message w) else w)"

definition pauseJob :: "env \<Rightarrow> job_record \<Rightarrow> world \<Rightarrow> world" where
  "pauseJob ev job w =
     (let (current, w1) = current_job ev job w;
          w2 = mark_files ev (\<lambda>f. file_State f \<in> {FileDownloading, FileVerifying, FileMoving}) FilePaused [] [] (rec_Files current) w1;
          w3 = (if TransitionJobState (job_State (rec_row current)) JobPaused = None
                then snd (set_job_state ev (job_ID (rec_row job)) JobPaused w2) else w2)
      in add_event ev (job_ID (rec_row job)) [] ''state'' ''download paused'' w3)"

definition fileID :: "file_row option \<Rightarrow> string" where
  "fileID file = (case file of None \<Rightarrow> [] | Some f \<Rightarrow> file_ID f)"

definition failJob :: "env \<Rightarrow> job_record \<Rightarrow> file_row option \<Rightarrow> go_error \<Rightarrow> world \<Rightarrow> go_error \<times> world" where
  "failJob ev job file cause w =
     (let w1 = (case file of
                  None \<Rightarrow> w
                | Some f \<Rightarrow> snd (set_file_state ev (file_ID f) FileFailed ''download_failed'' (err_text cause) w));
          w2 = add_event ev (job_ID (rec_row job)) (fileID file) ''error'' (err_text cause) w1;
          (current, w3) = current_job ev job w2;
          w4 = mark_files ev (\<lambda>f. \<not> (file \<noteq> None \<and> file_ID f = fileID file \<or> file_State f = FileCompleted \<or> file_State f = FileFailed))
                 FileFailed ''download_aborted'' (err_text cause) (rec_Files current) w3;
          w5 = (if TransitionJobState (job_State (rec_row current)) JobFailed = None
                then snd (set_job_state ev (job_ID (rec_row job)) JobFailed w4) else w4)
      in (cause, w5))"

definition quotaDelay :: "int \<Rightarrow> int" where
  "quotaDelay index = (if index = 1 then minute else if index = 2 then 2 * minute else if index = 3 then 5 * minute else 15 * minute)"

text \<open>\<^verbatim>\<open>errors.As(transferErr, &quota)\<close>: delay and message of the quota error. The error a worker returns is the
  \<^verbatim>\<open>*QuotaError\<close> itself, so its text is the message; any other is made the cause of a new one.\<close>

fun quota_node :: "err_node list \<Rightarrow> int option" where
  "quota_node [] = None"
| "quota_node (NQuotaError retryAfter # ns) = Some retryAfter"
| "quota_node (n # ns) = quota_node ns"

definition as_quota :: "go_error \<Rightarrow> int \<times> string" where
  "as_quota e = (case quota_node (chain e) of Some retryAfter \<Rightarrow> (retryAfter, err_text e) | None \<Rightarrow> (0, err_text (QuotaError e 0)))"

text \<open>The result is the error, or the delay after which \<^verbatim>\<open>scheduleQuotaRetry\<close> resumes the job.\<close>

definition enterWaitingQuota :: "env \<Rightarrow> job_record \<Rightarrow> file_row option \<Rightarrow> int \<times> string \<Rightarrow> world \<Rightarrow> (go_error + int) \<times> world" where
  "enterWaitingQuota ev job file quota w =
     (let index = QuotaRetryIndex (rec_row job) + 1;
          delay = (if fst quota > 0 then fst quota else quotaDelay index);
          message = snd quota;
          next_retry = e_now ev (w_calls w) + delay
      in case db_call ev (\<lambda>flt now. SetDownloadQuotaState flt now (job_ID (rec_row job)) JobWaitingQuota ''quota_exhausted'' message
                            (Some next_retry) index now) w of
           (Some e, w1) \<Rightarrow> (Inl (store_go e), w1)
         | (None, w1) \<Rightarrow>
             (let (current, w2) = current_job ev job w1;
                  w3 = mark_files ev (\<lambda>f. file_State f \<noteq> FileCompleted) FileWaiting ''quota_exhausted'' message (rec_Files current) w2;
                  w4 = add_event ev (job_ID (rec_row job)) (fileID file) ''warning'' ''MEGA quota exhausted; download is waiting'' w3
              in (Inr (if delay < 0 then 0 else delay), w4)))"

text \<open>\<^verbatim>\<open>schedulePersistedQuotaRetry\<close>: the delay after a restart.\<close>

definition persisted_quota_delay :: "int \<Rightarrow> job_row \<Rightarrow> int" where
  "persisted_quota_delay now job = (case QuotaNextRetryAt job of None \<Rightarrow> minute | Some t \<Rightarrow> (if time_sub t now < 0 then 0 else time_sub t now))"

section \<open>Cancelling, resuming, deleting\<close>

fun cancel_files :: "env \<Rightarrow> file_row list \<Rightarrow> world \<Rightarrow> go_error option \<times> world" where
  "cancel_files ev [] w = (None, w)"
| "cancel_files ev (f # fs) w =
     (if file_State f = FileCompleted then cancel_files ev fs w
      else case set_file_state ev (file_ID f) FileCancelled [] [] w of
        (Some e, w1) \<Rightarrow> (Some (store_go e), w1)
      | (None, w1) \<Rightarrow> cancel_files ev fs w1)"

definition cancelPersistedJob :: "env \<Rightarrow> string \<Rightarrow> bool \<Rightarrow> world \<Rightarrow> go_error option \<times> world" where
  "cancelPersistedJob ev jobID deletePartialFiles w =
     (case get_job ev jobID w of
        (Inl e, w1) \<Rightarrow> (Some (store_go e), w1)
      | (Inr job, w1) \<Rightarrow>
          if job_State (rec_row job) = JobCompleted \<or> job_State (rec_row job) = JobCancelled
          then (Some (errors_New ''cannot cancel terminal job''), w1)
          else (case cancel_files ev (rec_Files job) w1 of
                  (Some e, w2) \<Rightarrow> (Some e, w2)
                | (None, w2) \<Rightarrow>
                    (case set_job_state ev jobID JobCancelled w2 of
                       (Some e, w3) \<Rightarrow> (Some (store_go e), w3)
                     | (None, w3) \<Rightarrow>
                         (let w4 = add_event ev jobID [] ''state'' ''download cancelled'' w3 in
                          if deletePartialFiles
                          then (let (e, fs) = removePartialDirectory (e_kernel ev) (rec_row job) (w_fs w4) in (e, w4\<lparr>w_fs := fs\<rparr>))
                          else (None, w4)))))"

text \<open>\<^verbatim>\<open>CancelJob\<close> after its critical section. A running job is cancelled by its runner: \<open>settled\<close> is the world when
  \<^verbatim>\<open>done\<close> is closed, \<open>None\<close> when the caller's context ends first.\<close>

definition CancelJob :: "env \<Rightarrow> (world option) option \<Rightarrow> string \<Rightarrow> bool \<Rightarrow> world \<Rightarrow> go_error option \<times> world" where
  "CancelJob ev running jobID deletePartialFiles w =
     (case running of
        Some None \<Rightarrow> (Some context_Canceled, w)
      | Some (Some settled) \<Rightarrow>
          (case get_job ev jobID settled of
             (Inl e, w1) \<Rightarrow> (Some (store_go e), w1)
           | (Inr job, w1) \<Rightarrow>
               if job_State (rec_row job) \<noteq> JobCancelled then (Some (errors_New ''job was not cancelled''), w1) else (None, w1))
      | None \<Rightarrow> cancelPersistedJob ev jobID deletePartialFiles w)"

text \<open>\<^verbatim>\<open>PauseJob\<close> of a job that is not running.\<close>

definition PauseJob :: "env \<Rightarrow> string \<Rightarrow> world \<Rightarrow> go_error option \<times> world" where
  "PauseJob ev jobID w =
     (case get_job ev jobID w of
        (Inl e, w1) \<Rightarrow> (Some (store_go e), w1)
      | (Inr job, w1) \<Rightarrow>
          if IsTerminalJobState (job_State (rec_row job)) then (Some (errors_New ''cannot pause terminal job''), w1)
          else (None, pauseJob ev job w1))"

text \<open>\<^verbatim>\<open>ResumeJob\<close> of a job that is not active, up to the call of \<^verbatim>\<open>StartJob\<close>.\<close>

definition ResumeJob :: "env \<Rightarrow> string \<Rightarrow> world \<Rightarrow> go_error option \<times> world" where
  "ResumeJob ev jobID w =
     (case get_job ev jobID w of
        (Inl e, w1) \<Rightarrow> (Some (store_go e), w1)
      | (Inr job, w1) \<Rightarrow>
          (case validateTransferRoots (e_kernel ev) (w_fs w1) (rec_row job) of
             Some e \<Rightarrow> (Some e, w1)
           | None \<Rightarrow>
               (let state = job_State (rec_row job) in
                if IsTerminalJobState state \<and> state \<noteq> JobFailed then (Some (errors_New ''cannot resume terminal job''), w1)
                else if TransitionJobState state JobQueued \<noteq> None then (Some (errors_New ''invalid transition''), w1)
                else (case db_call ev (\<lambda>flt now. ClearDownloadQuotaState flt now jobID JobQueued now) w1 of
                        (Some e, w2) \<Rightarrow> (Some (store_go e), w2)
                      | (None, w2) \<Rightarrow> (None, add_event ev jobID [] ''state'' ''download queued for resume'' w2)))))"

definition DeleteJob :: "env \<Rightarrow> (world option) option \<Rightarrow> bool \<Rightarrow> string \<Rightarrow> bool \<Rightarrow> world \<Rightarrow> go_error option \<times> world" where
  "DeleteJob ev running pending jobID deleteFiles w =
     (case get_job ev jobID w of
        (Inl e, w1) \<Rightarrow> (Some (store_go e), w1)
      | (Inr job0, w1) \<Rightarrow>
          if \<not> deleteFiles \<and> job_State (rec_row job0) \<noteq> JobCompleted
          then (Some (errors_New ''deleteFiles must be true for an unfinished download''), w1)
          else
            (case (if running \<noteq> None then CancelJob ev running jobID deleteFiles w1
                   else if pending \<or> \<not> IsTerminalJobState (job_State (rec_row job0)) then cancelPersistedJob ev jobID deleteFiles w1
                   else (None, w1)) of
               (Some e, w2) \<Rightarrow> (Some e, w2)
             | (None, w2) \<Rightarrow>
                 (case get_job ev jobID w2 of
                    (Inl e, w3) \<Rightarrow> (Some (store_go e), w3)
                  | (Inr job, w3) \<Rightarrow>
                      (case (if deleteFiles
                             then (case removePartialDirectory (e_kernel ev) (rec_row job) (w_fs w3) of
                                     (Some e, fs) \<Rightarrow> (Some e, fs)
                                   | (None, fs) \<Rightarrow> removeCompletedFiles (e_kernel ev) job fs)
                             else (None, w_fs w3)) of
                         (Some e, fs) \<Rightarrow> (Some e, w3\<lparr>w_fs := fs\<rparr>)
                       | (None, fs) \<Rightarrow>
                           (case db_call ev (\<lambda>flt now. DeleteDownloadJob flt jobID) (w3\<lparr>w_fs := fs\<rparr>) of
                              (Some e, w4) \<Rightarrow> (Some (store_go e), w4)
                            | (None, w4) \<Rightarrow> (None, w4))))))"

section \<open>Running a job\<close>

text \<open>The loop of \<^verbatim>\<open>runJob\<close> that readies the files; \<open>recover\<close> is \<^verbatim>\<open>recoverMovedFile\<close> of this job. The result is
  the error to return, or the files as the job now holds them and the number of pending ones.\<close>

fun ready_files ::
  "env \<Rightarrow> (file_row \<Rightarrow> world \<Rightarrow> (go_error + bool) \<times> world) \<Rightarrow> job_record \<Rightarrow> file_row list \<Rightarrow> nat \<Rightarrow> file_row list \<Rightarrow> world
     \<Rightarrow> (go_error + file_row list \<times> nat) \<times> world" where
  "ready_files ev recover job acc pending [] w = (Inr (rev acc, pending), w)"
| "ready_files ev recover job acc pending (f # fs) w =
     (if file_State f = FileCompleted then ready_files ev recover job (f # acc) pending fs w
      else
        (let (recovered, w1) = (if file_State f = FileMoving then recover f w else (Inr False, w)) in
         case recovered of
           Inl e \<Rightarrow> (let (e', w2) = failJob ev job (Some f) e w1 in (Inl e', w2))
         | Inr True \<Rightarrow> ready_files ev recover job (f\<lparr>file_State := FileCompleted\<rparr> # acc) pending fs w1
         | Inr False \<Rightarrow>
             if TransitionFileState (file_State f) FileDownloading \<noteq> None
             then (let (e', w2) = failJob ev job (Some f) (errors_New ''invalid file transition'') w1 in (Inl e', w2))
             else (case set_file_state ev (file_ID f) FileDownloading [] [] w1 of
                     (Some e, w2) \<Rightarrow> (Inl (store_go e), w2)
                   | (None, w2) \<Rightarrow> ready_files ev recover job (f\<lparr>file_State := FileDownloading\<rparr> # acc) (pending + 1) fs w2)))"

text \<open>\<^verbatim>\<open>runJob\<close> until the workers start: the error it returns, or the job and the number of workers. \<open>ctx_done\<close> tells
  whether the context is done after the loop.\<close>

definition runJob_begin ::
  "env \<Rightarrow> (job_row \<Rightarrow> file_row \<Rightarrow> world \<Rightarrow> (go_error + bool) \<times> world) \<Rightarrow> bool \<Rightarrow> nat \<Rightarrow> string \<Rightarrow> world
     \<Rightarrow> (go_error option + job_record \<times> nat) \<times> world" where
  "runJob_begin ev recover ctx_done maxActiveFiles jobID w =
     (case get_job ev jobID w of
        (Inl e, w1) \<Rightarrow> (Inl (Some (store_go e)), w1)
      | (Inr job0, w1) \<Rightarrow>
          if IsTerminalJobState (job_State (rec_row job0)) then (Inl None, w1)
          else if TransitionJobState (job_State (rec_row job0)) JobDownloading \<noteq> None
            then (Inl (Some (errors_New ''invalid job transition'')), w1)
          else (case set_job_state ev jobID JobDownloading w1 of
                  (Some e, w2) \<Rightarrow> (Inl (Some (store_go e)), w2)
                | (None, w2) \<Rightarrow>
                    (let job1 = job0\<lparr>rec_row := (rec_row job0)\<lparr>job_State := JobDownloading\<rparr>\<rparr>;
                         w3 = add_event ev jobID [] ''state'' ''download started'' w2
                     in case ready_files ev (recover (rec_row job1)) job1 [] 0 (rec_Files job1) w3 of
                          (Inl e, w4) \<Rightarrow> (Inl (Some e), w4)
                        | (Inr (fs, pending), w4) \<Rightarrow>
                            (let job2 = job1\<lparr>rec_Files := fs\<rparr> in
                             if ctx_done then (Inl (Some context_Canceled), pauseJob ev job2 w4)
                             else (let n = (if maxActiveFiles > pending then pending else maxActiveFiles)
                                   in (Inr (job2, if n < 1 \<and> pending > 0 then 1 else n), w4))))))"

text \<open>\<^verbatim>\<open>claim\<close> of the file workers: the next file that is not completed.\<close>

fun claim_file :: "file_row list \<Rightarrow> nat \<Rightarrow> (file_row \<times> nat) option" where
  "claim_file [] i = None"
| "claim_file (f # fs) i = (if file_State f = FileCompleted then claim_file fs (i + 1) else Some (f, i + 1))"

text \<open>The end of \<^verbatim>\<open>runJob\<close>, after \<^verbatim>\<open>workers.Wait\<close>: \<open>failure\<close> is the first error and its file.\<close>

definition runJob_end :: "env \<Rightarrow> (go_error \<times> file_row) option \<Rightarrow> bool \<Rightarrow> job_record \<Rightarrow> world \<Rightarrow> go_error option \<times> int option \<times> world" where
  "runJob_end ev failure ctx_done job w =
     (case failure of
        Some (transferErr, file) \<Rightarrow>
          if IsQuotaError transferErr then
            (case enterWaitingQuota ev job (Some file) (as_quota transferErr) w of
               (Inl e, w1) \<Rightarrow> (Some e, None, w1)
             | (Inr delay, w1) \<Rightarrow> (None, Some delay, w1))
          else if ctx_done \<or> errors_Is transferErr NCanceled \<or> errors_Is transferErr NDeadlineExceeded then
            (if ctx_done then Some context_Canceled else Some transferErr, None, pauseJob ev job w)
          else if errors_Is transferErr NFinalizationPending then
            (Some transferErr, None, snd (set_job_state ev (job_ID (rec_row job)) JobPausedRecovery w))
          else (let (e, w1) = failJob ev job (Some file) transferErr w in (Some e, None, w1))
      | None \<Rightarrow>
          if ctx_done then (Some context_Canceled, None, pauseJob ev job w)
          else if TransitionJobState (job_State (rec_row job)) JobFinalizing \<noteq> None
            then (Some (errors_New ''invalid job transition''), None, w)
          else (case set_job_state ev (job_ID (rec_row job)) JobFinalizing w of
                  (Some e, w1) \<Rightarrow> (Some (store_go e), None, w1)
                | (None, w1) \<Rightarrow>
                    if TransitionJobState JobFinalizing JobCompleted \<noteq> None then (Some (errors_New ''invalid job transition''), None, w1)
                    else (case set_job_state ev (job_ID (rec_row job)) JobCompleted w1 of
                            (Some e, w2) \<Rightarrow> (Some (store_go e), None, w2)
                          | (None, w2) \<Rightarrow>
                              (None, None, add_event ev (job_ID (rec_row job)) [] ''completed'' ''download completed'' w2))))"

end
