(* ===== verification/Delivery.thy ===== *)
theory Delivery
  imports Finalize
begin

text \<open>
  What finalization and move recovery guarantee: a move never replaces a foreign file, is in the
  database before it happens, delivers the verified bytes, and is completed by the next run when
  it was interrupted.
\<close>

section \<open>Calls\<close>

lemma db_call_world [simp]:
  "w_fs (snd (db_call ev f w)) = w_fs w" "w_calls (snd (db_call ev f w)) = Suc (w_calls w)"
  "w_db (snd (db_call ev f w)) = snd (f (e_flt ev (w_calls w)) (e_now ev (w_calls w)) (w_db w))"
  "fst (db_call ev f w) = fst (f (e_flt ev (w_calls w)) (e_now ev (w_calls w)) (w_db w))"
  by (simp_all add: db_call_def case_prod_beta Let_def)

lemma db_callD:
  assumes "db_call ev f w = (r, w')"
  shows "w_fs w' = w_fs w" and "f (e_flt ev (w_calls w)) (e_now ev (w_calls w)) (w_db w) = (r, w_db w')"
  using db_call_world(1,3,4) [of ev f w] unfolding assms by (simp_all add: prod_eq_iff)

lemma SyncDir_result: "SyncDir k rel r fs = (e, r', fs') \<Longrightarrow> fs' = fs \<and> r_path r' = r_path r"
  by (auto simp: SyncDir_def split: prod.splits sum.splits if_splits dest!: openDirectory_made)

lemma update_file_row:
  assumes "update_file flt fid f d = (None, d')" and "\<And>r. file_ID (f r) = file_ID r"
  shows "find_row file_ID fid (files d') = map_option f (find_row file_ID fid (files d))"
    and "fid' \<noteq> fid \<Longrightarrow> find_row file_ID fid' (files d') = find_row file_ID fid' (files d)"
    and "jobs d' = jobs d"
  using assms
  by (auto simp: update_file_def Let_def find_row_update_same find_row_update_other split: if_splits)

lemma update_file_frame:
  assumes "update_file flt fid f d = (e, d')" and "\<And>r. file_ID (f r) = file_ID r"
  shows "fid' \<noteq> fid \<Longrightarrow> find_row file_ID fid' (files d') = find_row file_ID fid' (files d)"
    and "jobs d' = jobs d" and "map file_ID (files d') = map file_ID (files d)"
  using assms
  by (auto simp: update_file_def Let_def find_row_update_other update_rows_keys split: if_splits)

section \<open>The move\<close>

text \<open>How the tree may change before the rename: other processes, and directories on the way.\<close>

inductive drift :: "env \<Rightarrow> node \<Rightarrow> node \<Rightarrow> bool" for ev where
  none: "drift ev fs fs"
| other: "drift ev fs fs1 \<Longrightarrow> drift ev fs (e_others ev n fs1)"
| dirs: "drift ev fs fs1 \<Longrightarrow> dirs_made q fs1 fs2 \<Longrightarrow> drift ev fs fs2"

lemma drift_trans: "drift ev fs1 fs2 \<Longrightarrow> drift ev fs fs1 \<Longrightarrow> drift ev fs fs2"
  by (induction rule: drift.induct) (auto intro: drift.intros)

text \<open>The row that announces a move.\<close>

definition moving_row :: "string \<Rightarrow> string \<Rightarrow> database \<Rightarrow> database \<Rightarrow> bool" where
  "moving_row fid target d d' \<longleftrightarrow>
     (\<exists>t. find_row file_ID fid (files d') =
        map_option (\<lambda>r. r\<lparr>FinalRelativePath := target, file_State := FileMoving, file_UpdatedAt := t\<rparr>) (find_row file_ID fid (files d)))"

lemma moving_row_trans:
  assumes "moving_row fid t1 d d1" and "moving_row fid t2 d1 d2"
  shows "moving_row fid t2 d d2"
proof -
  obtain u1 u2 where "find_row file_ID fid (files d1) =
      map_option (\<lambda>r. r\<lparr>FinalRelativePath := t1, file_State := FileMoving, file_UpdatedAt := u1\<rparr>) (find_row file_ID fid (files d))"
    "find_row file_ID fid (files d2) =
      map_option (\<lambda>r. r\<lparr>FinalRelativePath := t2, file_State := FileMoving, file_UpdatedAt := u2\<rparr>) (find_row file_ID fid (files d1))"
    using assms unfolding moving_row_def by blast
  then show ?thesis unfolding moving_row_def by (intro exI [of _ u2]) (auto simp: option.map_comp o_def)
qed

definition delivered :: "env \<Rightarrow> string \<Rightarrow> string \<Rightarrow> string list \<Rightarrow> root \<Rightarrow> string \<Rightarrow> string \<Rightarrow> world \<Rightarrow> world \<Rightarrow> bool" where
  "delivered ev policy fid src cr final target w w' \<longleftrightarrow>
     (\<exists>fs1. drift ev (w_fs w) fs1 \<and> moved (policy = ''overwrite'') src (path_in cr target) fs1 (w_fs w')) \<and>
     moving_row fid target (w_db w) (w_db w') \<and> safe_path target \<and> butlast (rel_comps target) = butlast (rel_comps final)"

lemma prepare_row:
  assumes "PrepareDownloadFileMove flt now fid target when d = (e, d')"
  shows "e = None \<Longrightarrow> moving_row fid target d d'"
    and "fid' \<noteq> fid \<Longrightarrow> find_row file_ID fid' (files d') = find_row file_ID fid' (files d)" and "jobs d' = jobs d"
    and "map file_ID (files d') = map file_ID (files d)"
  using assms update_file_row(1) [of flt fid _ d d'] update_file_frame [of flt fid _ d e d']
  by (auto simp: PrepareDownloadFileMove_def moving_row_def)

lemma PlanConflict_target:
  assumes "PlanConflict k final policy cr fs = (Inr target, cr1, fs1)"
  shows "fs1 = fs" and "r_path cr1 = r_path cr" and "safe_path target" and "butlast (rel_comps target) = butlast (rel_comps final)"
  using PlanConflict_result [OF assms] by auto

definition untouched_rows :: "string \<Rightarrow> database \<Rightarrow> database \<Rightarrow> bool" where
  "untouched_rows fid d d' \<longleftrightarrow> jobs d' = jobs d \<and> map file_ID (files d') = map file_ID (files d) \<and>
     (\<forall>fid'. fid' \<noteq> fid \<longrightarrow> find_row file_ID fid' (files d') = find_row file_ID fid' (files d))"

lemma untouched_rows_trans: "untouched_rows fid d d1 \<Longrightarrow> untouched_rows fid d1 d2 \<Longrightarrow> untouched_rows fid d d2"
  by (simp add: untouched_rows_def)

text \<open>What \<^verbatim>\<open>finalize\<close> leaves behind: the move happened and was announced, or it did not happen.\<close>

definition finalize_post ::
  "env \<Rightarrow> string \<Rightarrow> string \<Rightarrow> string list \<Rightarrow> root \<Rightarrow> string \<Rightarrow> (go_error + string) \<Rightarrow> world \<Rightarrow> world \<Rightarrow> bool" where
  "finalize_post ev policy fid src cr final res w w' \<longleftrightarrow>
     ((\<exists>target. delivered ev policy fid src cr final target w w' \<and> (res = Inr target \<or> res = Inl ErrFinalizationPending)) \<or>
      drift ev (w_fs w) (w_fs w') \<and> (\<exists>e. res = Inl e \<and> \<not> errors_Is e NFinalizationPending)) \<and>
     untouched_rows fid (w_db w) (w_db w')"

lemma no_pending:
  "\<not> errors_Is (store_go e) NFinalizationPending" "\<not> errors_Is (path_go e') NFinalizationPending"
  "\<not> errors_Is ErrCrossDevice NFinalizationPending"
  by (simp_all add: store_go_def path_go_def ErrCrossDevice_def errors_New_def errors_Is_def)

lemma finalize_post_fail:
  assumes "drift ev (w_fs w) (w_fs w')" and "untouched_rows fid (w_db w) (w_db w')" and "\<not> errors_Is e NFinalizationPending"
  shows "finalize_post ev policy fid src cr final (Inl e) w w'"
  using assms by (simp add: finalize_post_def)

lemma finalize_post_later:
  assumes post: "finalize_post ev policy fid src cr1 final res w1 w'" and d: "drift ev (w_fs w) (w_fs w1)"
    and m: "moving_row fid target (w_db w) (w_db w1)" and u: "untouched_rows fid (w_db w) (w_db w1)" and cr: "r_path cr1 = r_path cr"
  shows "finalize_post ev policy fid src cr final res w w'"
proof -
  have "delivered ev policy fid src cr final t w w'" if "delivered ev policy fid src cr1 final t w1 w'" for t
    using that cr drift_trans [OF _ d] moving_row_trans [OF m] unfolding delivered_def by auto
  then show ?thesis
    using post drift_trans [OF _ d] untouched_rows_trans [OF u] unfolding finalize_post_def by blast
qed

lemma finalize_loop_result:
  assumes "finalize_loop ev policy fid final pr n ir cr w = (res, w')"
  shows "finalize_post ev policy fid (path_in ir pr) cr final res w w'"
  using assms
proof (induction ev policy fid final pr n ir cr w rule: finalize_loop.induct)
  case (1 ev policy fid final pr n ir cr w)
  note run = 1(2) [unfolded finalize_loop.simps [of ev policy fid final pr n ir cr w]]
  have same: "untouched_rows fid (w_db w) (w_db w)" by (simp add: untouched_rows_def)
  obtain x cr1 fs1 where x: "PlanConflict (e_kernel ev) final policy cr (w_fs w) = (x, cr1, fs1)" by (metis prod.exhaust)
  have fs1: "fs1 = w_fs w" using PlanConflict_result [OF x] by simp
  show ?case
  proof (cases "100000 < n \<or> \<not> is_ok x")
    case True
    have "w\<lparr>w_fs := fs1\<rparr> = w" using fs1 by simp
    then have "\<exists>e. res = Inl (path_go e) \<and> w' = w"
    proof (cases "100000 < n")
      case True
      then have "Inl (path_go ErrConflict) = res" "w' = w" using run by simp_all
      then show ?thesis by blast
    next
      case small: False
      then obtain e where e: "x = Inl e" using True by (cases x) auto
      then show ?thesis using run small x \<open>w\<lparr>w_fs := fs1\<rparr> = w\<close> by auto
    qed
    then show ?thesis using finalize_post_fail [OF drift.none same no_pending(2)] by auto
  next
    case False
    then obtain target where t: "x = Inr target" by (cases x) auto
    note plan = PlanConflict_target [OF x [unfolded t]]
    obtain e w1 where p: "db_call ev (\<lambda>flt now. PrepareDownloadFileMove flt now fid target now) (w\<lparr>w_fs := fs1\<rparr>) = (e, w1)"
      by (rule prod.exhaust)
    note pd = db_callD [OF p]
    have w1: "w_fs w1 = w_fs w" using pd(1) fs1 by simp
    have pr: "PrepareDownloadFileMove (e_flt ev (w_calls w)) (e_now ev (w_calls w)) fid target (e_now ev (w_calls w)) (w_db w) = (e, w_db w1)"
      using pd(2) by simp
    have u1: "untouched_rows fid (w_db w) (w_db w1)" using prepare_row(2-4) [OF pr] by (simp add: untouched_rows_def)
    show ?thesis
    proof (cases e)
      case (Some er)
      then show ?thesis using run False x t p u1 w1 drift.none no_pending
        by (auto intro!: finalize_post_fail split: if_splits)
    next
      case None
      note m1 = prepare_row(1) [OF pr None]
      obtain er ir2 cr2 fs2 where rn: "RenameFrom (e_kernel ev) pr target (policy = ''overwrite'') ir cr1 (e_others ev n (w_fs w1)) = (er, ir2, cr2, fs2)"
        by (metis prod.exhaust)
      note mv = RenameFrom_result [OF rn] and roots = RenameFrom_roots [OF rn]
      have d1: "drift ev (w_fs w) (e_others ev n (w_fs w1))" using w1 by (auto intro: drift.intros)
      show ?thesis
      proof (cases er)
        case (Some err)
        then have d2: "drift ev (w_fs w) fs2" using mv d1 by (auto intro: drift.dirs)
        show ?thesis
        proof (cases "err = ErrConflict \<and> policy = ''rename''")
          case True
          have post: "finalize_post ev policy fid (path_in ir2 pr) cr2 final res (w1\<lparr>w_fs := fs2\<rparr>) w'"
            using run False x t p None rn Some True
            by (intro 1(1) [OF _ x [symmetric] t refl p [symmetric] None rn [symmetric] Some refl refl True]) auto
          show ?thesis
            using finalize_post_later [OF post, of w target cr] roots plan(2) d2 m1 u1 by simp
        next
          case other: False
          then show ?thesis using run False x t p None rn Some d2 u1 no_pending
            by (auto intro!: finalize_post_fail split: if_splits)
        qed
      next
        case moved: None
        obtain e3 cr3 fs3 where s3: "SyncDir (e_kernel ev) (relativeParent target) cr2 fs2 = (e3, cr3, fs3)" by (metis prod.exhaust)
        obtain e4 ir4 fs4 where s4: "SyncDir (e_kernel ev) (relativeParent pr) ir2 fs3 = (e4, ir4, fs4)" by (metis prod.exhaust)
        have fs: "fs3 = fs2" "fs4 = fs2" using SyncDir_result [OF s3] SyncDir_result [OF s4] by simp_all
        have r: "(res = Inr target \<or> res = Inl ErrFinalizationPending) \<and> w' = w1\<lparr>w_fs := fs2\<rparr>"
          using run False x t p None rn moved s3 s4 fs by (auto split: if_splits option.splits)
        moreover have "delivered ev policy fid (path_in ir pr) cr final target w (w1\<lparr>w_fs := fs2\<rparr>)"
          using d1 mv moved m1 plan unfolding delivered_def by auto
        ultimately show ?thesis using u1 unfolding finalize_post_def by auto
      qed
    qed
  qed
qed

section \<open>A kernel without failures\<close>

definition reliable :: "kernel \<Rightarrow> bool" where
  "reliable k \<longleftrightarrow> (\<forall>c p. \<not> k_fault k c p)"

lemma openDirectoryAt_existing:
  "reliable k \<Longrightarrow> at_path fs (child d c) = Some EDir \<Longrightarrow> openDirectoryAt k fs d c = Inr (child d c)"
  by (simp add: openDirectoryAt_def k_opendir_def reliable_def)

lemma open_dirs_existing:
  assumes "reliable k" and "at_path fs (d @ cs) = Some EDir" and "''.'' \<notin> set cs"
  shows "open_dirs k create d cs fs = (Inr (d @ cs), fs)"
  using assms(2,3)
proof (induction cs arbitrary: d)
  case (Cons c cs)
  have "at_path fs (child d c) = Some EDir"
  proof (cases cs)
    case Nil
    then show ?thesis using Cons.prems by (simp add: child_def)
  next
    case (Cons c' cs')
    then show ?thesis using Cons.prems at_path_prefix_dir [of fs "d @ [c]" c' cs'] by (auto simp: child_def)
  qed
  moreover have "child d c = d @ [c]" using Cons.prems(2) by (auto simp: child_def)
  ultimately show ?case using Cons openDirectoryAt_existing [OF assms(1), of fs d c] by simp
qed simp

lemma New_existing:
  assumes "reliable k" and "New k' path fs' = Inr r" and "at_path fs (root_dir (filepath_Clean path)) = Some EDir"
  shows "New k path fs = Inr \<lparr>r_open = True, r_path = filepath_Clean path, r_closed = False\<rparr>"
proof -
  have "at_path fs [] = Some EDir"
    using assms(3) at_path_prefix_dir [of fs "[]"] by (cases "root_dir (filepath_Clean path)") auto
  then have "openDirectoryAt k fs [] ''.'' = Inr []"
    using openDirectoryAt_existing [OF assms(1), of fs "[]" "''.''"] by (simp add: child_def)
  then have "openAbsoluteDirectory k (filepath_Clean path) False fs = (Inr (root_dir (filepath_Clean path)), fs)"
    using open_dirs_existing [OF assms(1), of fs "[]" "root_dir (filepath_Clean path)"] assms(3)
    by (simp add: openAbsoluteDirectory_def root_dir_def)
  then show ?thesis using assms(2) by (simp add: New_def Let_def split: if_splits)
qed

lemma openDirectory_existing:
  assumes "reliable k" and "r_open r" "\<not> r_closed r" and "rel = [] \<or> safe_path rel" and "at_path fs (path_in r rel) = Some EDir"
  shows "openDirectory k rel create r fs = (Inr (path_in r rel), r, fs)"
proof -
  have "rootDescriptor k create r fs = (Inr (root_dir (r_path r)), r, fs)"
    using assms(1-3) by (simp add: rootDescriptor_def reliable_def)
  moreover have "open_dirs k create (root_dir (r_path r)) (rel_comps rel) fs = (Inr (path_in r rel), fs)"
    using open_dirs_existing [OF assms(1,5) safe_no_dot [OF assms(4)]] .
  ultimately show ?thesis using assms(4) by (auto simp: openDirectory_def SanitizeRelativePath_eq rel_comps_def)
qed

lemma in_dir:
  assumes "safe_path rel" and "splitRelative rel = (parent, name)"
  shows "path_in r rel = path_in r parent @ [name]" and "child (path_in r parent) name = path_in r rel"
  using splitRelative_comps [OF assms] by (auto simp: child_def safe_component_def)

lemma Lstat_reliable:
  assumes "reliable k" and "r_open r" "\<not> r_closed r" and "safe_path rel"
    and "at_path fs (butlast (path_in r rel)) = Some EDir"
  shows "Lstat k rel r fs = (case at_path fs (path_in r rel) of None \<Rightarrow> Inl ErrNotExist | Some e \<Rightarrow> Inr e, r, fs)"
proof -
  obtain parent name where pn: "splitRelative rel = (parent, name)" by (metis prod.exhaust)
  note d = in_dir [OF assms(4) pn, of r] and safe = splitRelative_comps(3) [OF assms(4) pn]
  have "openDirectory k parent False r fs = (Inr (path_in r parent), r, fs)"
    using openDirectory_existing [OF assms(1-3) safe] assms(5) d(1) butlast_snoc [of "path_in r parent" name] by simp
  then show ?thesis using pn assms(1,4) d(2)
    by (simp add: Lstat_def SanitizeRelativePath_eq lstatAt_def k_fstatat_def reliable_def split: option.splits)
qed

lemma OpenFile_reliable:
  assumes "reliable k" and "r_open r" "\<not> r_closed r" and "safe_path rel" and "at_path fs (path_in r rel) = Some (EFile c)"
  shows "OpenFile_rdonly k rel r fs = (Inr (EFile c), r, fs)"
proof -
  obtain parent name where pn: "splitRelative rel = (parent, name)" by (metis prod.exhaust)
  note d = in_dir [OF assms(4) pn, of r] and safe = splitRelative_comps(3) [OF assms(4) pn]
  have "at_path fs (path_in r parent) = Some EDir"
    using assms(5) at_path_prefix_dir [of fs "path_in r parent" name "[]"] d(1) by simp
  then have "openDirectory k parent False r fs = (Inr (path_in r parent), r, fs)"
    using openDirectory_existing [OF assms(1-3) safe] by simp
  then show ?thesis using pn assms(1,4,5) d(1) safe_path_nonempty [OF assms(4)]
    by (simp add: OpenFile_rdonly_def openFileWithHook_def SanitizeRelativePath_eq k_openfile_def reliable_def)
qed

section \<open>Finalization is safe\<close>

text \<open>Where a path relative to a root of a job lies.\<close>

definition job_path :: "string \<Rightarrow> string \<Rightarrow> string list" where
  "job_path root rel = root_dir (filepath_Clean root) @ rel_comps rel"

lemma New_path: "New k path fs = Inr r \<Longrightarrow> path_in r rel = job_path path rel"
  by (auto simp: New_def Let_def job_path_def split: if_splits sum.splits)

lemma finalize_result:
  assumes "finalize ev rp saved job file pr w = (res, w')"
  shows "(\<exists>cr. New (e_kernel ev) (CompleteRoot job) (w_fs w) = Inr cr \<and> is_ok (New (e_kernel ev) (IncompleteRoot job) (w_fs w)) \<and>
      finalize_post ev (conflict_policy rp saved) (file_ID file) (job_path (IncompleteRoot job) pr) cr (FinalRelativePath file) res w w') \<or>
    (\<exists>e. res = Inl (path_go e)) \<and> w' = w"
  using assms
  by (auto simp: finalize_def New_path split: sum.splits dest!: finalize_loop_result)

lemma drift_keeps_file:
  assumes "drift ev fs fs'" and "\<And>n t. at_path (e_others ev n t) p = at_path t p" and "at_path fs p = Some e"
  shows "at_path fs' p = Some e"
  using assms by (induction rule: drift.induct) (auto intro: dirs_made_dir)

lemma drift_keeps_ids: "untouched_rows fid d d' \<Longrightarrow> distinct (map file_ID (files d)) \<Longrightarrow> distinct (map file_ID (files d'))"
  by (simp add: untouched_rows_def)

lemma verify_short:
  assumes "VerifyIntegrity E r fileSize key = None" and "0 \<le> fileSize"
  shows "fileSize \<le> int (length r)"
proof (rule ccontr)
  assume "\<not> fileSize \<le> int (length r)"
  then have n: "length r < nat fileSize" "0 < fileSize" using assms(2) by auto
  have "mac_loop (E (AESKey key)) (Nonce key @ Nonce key) r fileSize 1 (replicate 16 0) = Inl ErrIntegrityMismatch"
    using mac_loop_short [of 0 "nat fileSize" r "E (AESKey key)" "Nonce key @ Nonce key" "replicate 16 0"] n by (simp add: chunk_boundary_def)
  then show False using assms(1) n(2) by (simp add: VerifyIntegrity_def)
qed

lemma VerifyPartialFile_ok:
  assumes "VerifyPartialFileContext E halt stat_err data fileSize key = None"
  shows "int (length data) = fileSize \<and> VerifyIntegrity E data fileSize key = None"
proof -
  have len: "0 \<le> fileSize" "int (length data) = fileSize"
    and ok: "VerifyIntegrity E (case halt of None \<Rightarrow> data | Some n \<Rightarrow> take n data) fileSize key = None"
    using assms by (auto simp: VerifyPartialFileContext_def split: if_splits option.splits)
  from verify_short [OF ok len(1)] have "(case halt of None \<Rightarrow> data | Some n \<Rightarrow> take n data) = data"
    using len(2) by (auto split: option.splits)
  then show ?thesis using ok len(2) by simp
qed

text \<open>
  C7. Finalization never replaces a file it did not make. Whatever other processes do between planning a
  target and renaming to it, and whatever fails: if the policy is not overwrite, either the partial file went
  to a path at which nothing existed at that moment, and nothing else but new directories changed by it, or no file was moved. In
  the first case the database already had the file as moving to exactly that path; the error that says so is
  returned only then. Rows of other files and all jobs are unchanged.
\<close>

theorem finalize_never_replaces:
  assumes "finalize ev rp saved job file pr w = (res, w')" and "conflict_policy rp saved \<noteq> ''overwrite''"
  shows "((\<exists>target fs1. drift ev (w_fs w) fs1 \<and>
        moved False (job_path (IncompleteRoot job) pr) (job_path (CompleteRoot job) target) fs1 (w_fs w') \<and>
        moving_row (file_ID file) target (w_db w) (w_db w') \<and> (res = Inr target \<or> res = Inl ErrFinalizationPending)) \<or>
      drift ev (w_fs w) (w_fs w') \<and> (\<exists>e. res = Inl e \<and> \<not> errors_Is e NFinalizationPending)) \<and>
    (\<forall>fid. fid \<noteq> file_ID file \<longrightarrow> find_row file_ID fid (files (w_db w')) = find_row file_ID fid (files (w_db w))) \<and>
    jobs (w_db w') = jobs (w_db w)"
  using finalize_result [OF assms(1)]
proof (elim disjE exE conjE)
  fix cr
  assume cr: "New (e_kernel ev) (CompleteRoot job) (w_fs w) = Inr cr"
    and post: "finalize_post ev (conflict_policy rp saved) (file_ID file) (job_path (IncompleteRoot job) pr) cr (FinalRelativePath file) res w w'"
  have u: "untouched_rows (file_ID file) (w_db w) (w_db w')" using post by (simp add: finalize_post_def)
  show ?thesis
  proof (cases "\<exists>target. delivered ev (conflict_policy rp saved) (file_ID file) (job_path (IncompleteRoot job) pr) cr (FinalRelativePath file) target w w' \<and>
      (res = Inr target \<or> res = Inl ErrFinalizationPending)")
    case True
    then obtain target fs1 where t: "drift ev (w_fs w) fs1" "moved False (job_path (IncompleteRoot job) pr) (job_path (CompleteRoot job) target) fs1 (w_fs w')"
        "moving_row (file_ID file) target (w_db w) (w_db w')" "res = Inr target \<or> res = Inl ErrFinalizationPending"
      using assms(2) New_path [OF cr] unfolding delivered_def by auto
    then show ?thesis using u unfolding untouched_rows_def by blast
  next
    case False
    then show ?thesis using post unfolding finalize_post_def untouched_rows_def by auto
  qed
next
  fix e
  assume "w' = w" "res = Inl (path_go e)"
  then show ?thesis using drift.none no_pending(2) by auto
qed

text \<open>
  C3. What is reported as complete was verified and is in place. If the end of a file's processing returns no
  error, and other processes left the partial file alone, then the bytes that were downloaded have the
  recorded size and MAC, they are the contents of the file at the final path the row names, the row
  is completed with all bytes counted, and no other file's row changed.
\<close>

theorem completed_file_delivered:
  assumes "finish_file ev E rp saved halt stat_err close_err job file key data pr w = (None, w')"
    and "find_row file_ID (file_ID file) (files (w_db w)) = Some row"
    and "at_path (w_fs w) (job_path (IncompleteRoot job) pr) = Some (EFile data)"
    and "\<forall>n t. at_path (e_others ev n t) (job_path (IncompleteRoot job) pr) = at_path t (job_path (IncompleteRoot job) pr)"
  shows "int (length data) = SizeBytes file \<and> VerifyIntegrity E data (SizeBytes file) key = None \<and>
    (\<exists>row'. find_row file_ID (file_ID file) (files (w_db w')) = Some row' \<and> file_State row' = FileCompleted \<and>
       BytesCommitted row' = SizeBytes row' \<and> SizeBytes row' = SizeBytes row \<and>
       at_path (w_fs w') (job_path (CompleteRoot job) (FinalRelativePath row')) = Some (EFile data)) \<and>
    (\<forall>fid. fid \<noteq> file_ID file \<longrightarrow> find_row file_ID fid (files (w_db w')) = find_row file_ID fid (files (w_db w)))"
proof -
  let ?src = "job_path (IncompleteRoot job) pr"
  obtain w1 w2 target where w1: "set_file_state ev (file_ID file) FileVerifying [] [] w = (None, w1)"
      and v: "VerifyPartialFileContext E halt stat_err data (SizeBytes file) key = None"
      and fin: "finalize ev rp saved job file pr w1 = (Inr target, w2)"
      and comp: "db_call ev (\<lambda>flt now. CompleteDownloadFile flt now (file_ID file) target now) w2 = (None, w')"
    using assms(1) unfolding finish_file_def by (auto simp: Let_def split: prod.splits option.splits sum.splits if_splits)
  note d1 = db_callD [OF w1 [unfolded set_file_state_def]] and d3 = db_callD [OF comp]
  from finalize_result [OF fin] obtain cr where cr: "New (e_kernel ev) (CompleteRoot job) (w_fs w1) = Inr cr"
      and post: "finalize_post ev (conflict_policy rp saved) (file_ID file) ?src cr (FinalRelativePath file) (Inr target) w1 w2" by auto
  then have del: "delivered ev (conflict_policy rp saved) (file_ID file) ?src cr (FinalRelativePath file) target w1 w2"
      and u: "untouched_rows (file_ID file) (w_db w1) (w_db w2)"
    unfolding finalize_post_def by auto
  obtain fs1 where fs1: "drift ev (w_fs w1) fs1" "moved (conflict_policy rp saved = ''overwrite'') ?src (path_in cr target) fs1 (w_fs w2)"
    using del unfolding delivered_def by blast
  have "at_path fs1 ?src = Some (EFile data)"
    using drift_keeps_file [OF fs1(1)] assms(3,4) d1(1) by simp
  then have tgt: "at_path (w_fs w') (job_path (CompleteRoot job) target) = Some (EFile data)"
    using fs1(2) New_path [OF cr] d3(1) unfolding moved_def by auto
  note r1 = update_file_row [OF d1(2) [unfolded UpdateDownloadFileState_def]]
  note r3 = update_file_row [OF d3(2) [unfolded CompleteDownloadFile_def]]
  obtain t where m: "find_row file_ID (file_ID file) (files (w_db w2)) =
      map_option (\<lambda>r. r\<lparr>FinalRelativePath := target, file_State := FileMoving, file_UpdatedAt := t\<rparr>) (find_row file_ID (file_ID file) (files (w_db w1)))"
    using del unfolding delivered_def moving_row_def by blast
  have "\<exists>row'. find_row file_ID (file_ID file) (files (w_db w')) = Some row' \<and> file_State row' = FileCompleted \<and>
       BytesCommitted row' = SizeBytes row' \<and> SizeBytes row' = SizeBytes row \<and> FinalRelativePath row' = target"
    using r1(1) r3(1) m assms(2) by simp
  moreover have "find_row file_ID fid (files (w_db w')) = find_row file_ID fid (files (w_db w))" if "fid \<noteq> file_ID file" for fid
    using r1(2) [OF _ that] r3(2) [OF _ that] u that unfolding untouched_rows_def by simp
  ultimately show ?thesis using VerifyPartialFile_ok [OF v] tgt by auto
qed

lemma moved_keeps_dir: "moved ovr src dst fs fs' \<Longrightarrow> at_path fs p = Some EDir \<Longrightarrow> at_path fs' p = Some EDir"
  unfolding moved_def by (metis entry.distinct(1) option.distinct(1) option.inject)

lemma complete_reliable:
  assumes "\<forall>i. \<not> flt i" and "distinct (map file_ID (files d))" and "find_row file_ID fid (files d) = Some row"
  shows "\<exists>d'. CompleteDownloadFile flt now fid path when d = (None, d')"
proof -
  have "fid \<in> file_ID ` set (files d)" using find_row_SomeD [OF assms(3)] by auto
  then show ?thesis using affected_distinct [OF assms(2), of fid] assms(1)
    by (simp add: CompleteDownloadFile_def update_file_def Let_def)
qed

lemma safe_parent: "safe_path rel \<Longrightarrow> \<exists>parent name. path_in r rel = path_in r parent @ [name]"
  by (metis in_dir(1) prod.exhaust)

lemma PartialRelativePath_safe:
  assumes "PartialRelativePath j p = Inr pr"
  shows "safe_path pr"
proof -
  have j: "safe_component j" and p: "safe_path (p @ PartialSuffix)" and pr: "pr = j @ slash # p @ PartialSuffix"
    using assms by (auto simp: PartialRelativePath_eq safe_path_suffix split: if_splits)
  have "split_on slash pr = j # split_on slash (p @ PartialSuffix)"
    unfolding pr using j by (intro split_append_sep) (simp add: safe_component_def)
  then show ?thesis using j p by (simp add: safe_path_def)
qed

text \<open>The recovery of a move that happened, on a reliable system.\<close>

lemma recover_done_move:
  assumes mv: "moved False (job_path (IncompleteRoot job) pr) (job_path (CompleteRoot job) (FinalRelativePath row)) fs1 (w_fs w)"
    and data: "at_path fs1 (job_path (IncompleteRoot job) pr) = Some (EFile data)"
    and pr: "PartialRelativePath (job_ID job) (RemotePath row) = Inr pr" "safe_path (FinalRelativePath row)"
    and roots: "New k1 (IncompleteRoot job) t1 = Inr r1" "New k2 (CompleteRoot job) t2 = Inr r2"
    and row: "find_row file_ID (file_ID row) (files (w_db w)) = Some row" "distinct (map file_ID (files (w_db w)))"
    and key: "decrypt (FileKeyCiphertext row) = Inr raw" "decodeFileKeyBytes raw = Inr key"
    and ok: "VerifyIntegrity E data (SizeBytes row) key = None" "int (length data) = SizeBytes row"
    and rel: "reliable (e_kernel ev)" "\<forall>n i. \<not> e_flt ev n i"
  shows "\<exists>w' row'. recoverMovedFile ev E decrypt None None None job row w = (Inr True, w') \<and>
    find_row file_ID (file_ID row) (files (w_db w')) = Some row' \<and> file_State row' = FileCompleted \<and>
    FinalRelativePath row' = FinalRelativePath row \<and>
    at_path (w_fs w') (job_path (CompleteRoot job) (FinalRelativePath row)) = Some (EFile data)"
proof -
  let ?k = "e_kernel ev" and ?fs = "w_fs w"
  let ?ir = "\<lparr>r_open = True, r_path = filepath_Clean (IncompleteRoot job), r_closed = False\<rparr>"
  let ?cr = "\<lparr>r_open = True, r_path = filepath_Clean (CompleteRoot job), r_closed = False\<rparr>"
  have jp: "job_path (IncompleteRoot job) p = path_in ?ir p" "job_path (CompleteRoot job) p = path_in ?cr p" for p
    by (simp_all add: job_path_def)
  have tgt: "at_path ?fs (path_in ?cr (FinalRelativePath row)) = Some (EFile data)" and gone: "at_path ?fs (path_in ?ir pr) = None"
    and ne: "path_in ?ir pr \<noteq> path_in ?cr (FinalRelativePath row)"
    using mv data unfolding moved_def jp by force+
  have sp: "safe_path pr" by (rule PartialRelativePath_safe [OF pr(1)])
  obtain ip inm where ip: "path_in ?ir pr = path_in ?ir ip @ [inm]" using safe_parent [OF sp] by blast
  obtain cp cnm where cp: "path_in ?cr (FinalRelativePath row) = path_in ?cr cp @ [cnm]" using safe_parent [OF pr(2)] by blast
  have idir: "at_path ?fs (path_in ?ir ip) = Some EDir"
    using moved_keeps_dir [OF mv] at_path_prefix_dir [of fs1 "path_in ?ir ip" inm "[]"] data ip unfolding jp by simp
  have cdir: "at_path ?fs (path_in ?cr cp) = Some EDir"
    using at_path_prefix_dir [of ?fs "path_in ?cr cp" cnm "[]"] tgt cp by simp
  have iroot: "at_path ?fs (root_dir (filepath_Clean (IncompleteRoot job))) = Some EDir"
    using idir at_path_prefix_dir [of ?fs "root_dir (filepath_Clean (IncompleteRoot job))"] by (cases "rel_comps ip") auto
  have croot: "at_path ?fs (root_dir (filepath_Clean (CompleteRoot job))) = Some EDir"
    using cdir at_path_prefix_dir [of ?fs "root_dir (filepath_Clean (CompleteRoot job))"] by (cases "rel_comps cp") auto
  note ni = New_existing [OF rel(1) roots(1) iroot] and nc = New_existing [OF rel(1) roots(2) croot]
  have li: "Lstat ?k pr ?ir ?fs = (Inl ErrNotExist, ?ir, ?fs)"
    using Lstat_reliable [OF rel(1) _ _ sp, of ?ir ?fs] idir ip gone butlast_snoc [of "path_in ?ir ip" inm] by simp
  have lc: "Lstat ?k (FinalRelativePath row) ?cr ?fs = (Inr (EFile data), ?cr, ?fs)"
    using Lstat_reliable [OF rel(1) _ _ pr(2), of ?cr ?fs] cdir cp tgt butlast_snoc [of "path_in ?cr cp" cnm] by simp
  have oc: "OpenFile_rdonly ?k (FinalRelativePath row) ?cr ?fs = (Inr (EFile data), ?cr, ?fs)"
    using OpenFile_reliable [OF rel(1) _ _ pr(2) tgt] by simp
  have v: "verify_entry E None None (EFile data) (SizeBytes row) key = None"
    using ok by (simp add: verify_entry_def VerifyPartialFileContext_def)
  have rt: "recover_target ev E decrypt None None None row False ?cr ?fs = (Inr True, ?fs)"
    using lc key oc v by (simp add: recover_target_def)
  obtain w' where w': "db_call ev (\<lambda>flt now. CompleteDownloadFile flt now (file_ID row) (FinalRelativePath row) now) w = (None, w')"
  proof -
    obtain d' where "CompleteDownloadFile (e_flt ev (w_calls w)) (e_now ev (w_calls w)) (file_ID row) (FinalRelativePath row)
        (e_now ev (w_calls w)) (w_db w) = (None, d')"
      using complete_reliable [of "e_flt ev (w_calls w)", OF _ row(2,1)] rel(2) by blast
    then show ?thesis using that [of "w\<lparr>w_db := d', w_calls := Suc (w_calls w)\<rparr>"] by (simp add: db_call_def)
  qed
  note d = db_callD [OF w']
  have "recoverMovedFile ev E decrypt None None None job row w = (Inr True, w')"
    using ni pr(1) li nc rt w' by (simp add: recoverMovedFile_def Let_def)
  moreover note update_file_row(1) [OF d(2) [unfolded CompleteDownloadFile_def]]
  ultimately show ?thesis using row(1) d(1) tgt jp by simp
qed


section \<open>A sample delivery\<close>

text \<open>The kernel that cannot sync directories, and a job with one downloaded file of three bytes.\<close>

definition no_sync :: kernel where
  "no_sync = \<lparr>k_fault = (\<lambda>c _. c = KSync), k_dev = (\<lambda>_. 0)\<rparr>"

definition sample_env :: "kernel \<Rightarrow> env" where
  "sample_env k = \<lparr>e_kernel = k, e_flt = (\<lambda>_ _. False), e_now = (\<lambda>_. 7), e_others = (\<lambda>_ t. t)\<rparr>"

definition sample_job :: job_row where
  "sample_job = \<lparr>job_ID = ''j'', SourceKind = ''file'', SourceHandle = ''h'', SourceKeyCiphertext = [1], SourceSelectedPath = [],
     SourceSelectedNode = [], DisplayName = ''x'', TotalBytes = 3, AccountID = [], ProxyID = [], DestinationSubdir = [],
     CompleteRoot = ''/out'', IncompleteRoot = ''/in'', job_State = JobDownloading, job_CreatedAt = 0, job_UpdatedAt = 0,
     QuotaNextRetryAt = None, QuotaRetryIndex = 0, job_LastErrorCode = [], job_LastErrorMessage = []\<rparr>"

definition sample_row :: file_row where
  "sample_row = \<lparr>file_ID = ''f'', file_JobID = ''j'', RemoteNodeID = ''n'', RemotePath = ''x'', FinalRelativePath = ''x'',
     SizeBytes = 3, SegmentSizeBytes = 4, SegmentCount = 1, CompletedBitmap = [1], BytesCommitted = 3,
     FileKeyCiphertext = replicate 24 0 @ [1, 2, 3, 0, 0, 0, 0, 0], PayloadURLCiphertext = [1], PayloadContext = [],
     file_State = FileDownloading, file_LastErrorCode = [], file_LastErrorMessage = [], file_CreatedAt = 0, file_UpdatedAt = 0,
     CompletedAt = None\<rparr>"

definition sample_key :: FileKey where
  "sample_key = (case decodeFileKeyBytes (FileKeyCiphertext sample_row) of Inr k \<Rightarrow> k | Inl _ \<Rightarrow> \<lparr>Raw = [], AESKey = [], Nonce = [], MetaMAC = []\<rparr>)"

definition sample_disk :: node where
  "sample_disk = FDir [(''in'', FDir [(''j'', FDir [(''x.mega.part'', FFile [1, 2, 3])])]), (''out'', FDir [(''y'', FFile [7])])]"

definition sample_world :: "file_row \<Rightarrow> nat \<Rightarrow> world" where
  "sample_world row n = \<lparr>w_db = \<lparr>jobs = [sample_job], files = [row], events = [], event_sequence = 0, accounts = [], proxies = [],
     foreign_keys = True, checkpointTransactions = 0\<rparr>, w_fs = sample_disk, w_calls = n\<rparr>"

abbreviation sample_ir :: root where
  "sample_ir \<equiv> \<lparr>r_open = True, r_path = ''/in'', r_closed = False\<rparr>"

abbreviation sample_cr :: root where
  "sample_cr \<equiv> \<lparr>r_open = True, r_path = ''/out'', r_closed = False\<rparr>"

definition sample_moved :: node where
  "sample_moved = snd (snd (snd (RenameFrom no_faults ''j/x.mega.part'' ''x'' False sample_ir sample_cr sample_disk)))"

lemma sample_new:
  "New no_faults ''/in'' sample_disk = Inr sample_ir" "New no_faults ''/out'' sample_disk = Inr sample_cr"
  "New no_sync ''/in'' sample_disk = Inr sample_ir" "New no_sync ''/out'' sample_disk = Inr sample_cr"
  by code_simp+

lemma sample_plan:
  "PlanConflict no_faults ''x'' ''rename'' sample_cr sample_disk = (Inr ''x'', sample_cr, sample_disk)"
  "PlanConflict no_sync ''x'' ''rename'' sample_cr sample_disk = (Inr ''x'', sample_cr, sample_disk)"
  by code_simp+

lemma sample_rename:
  "RenameFrom no_faults ''j/x.mega.part'' ''x'' False sample_ir sample_cr sample_disk = (None, sample_ir, sample_cr, sample_moved)"
  "RenameFrom no_sync ''j/x.mega.part'' ''x'' False sample_ir sample_cr sample_disk = (None, sample_ir, sample_cr, sample_moved)"
  by code_simp+

lemma sample_syncs:
  "SyncDir no_faults [] sample_cr sample_moved = (None, sample_cr, sample_moved)"
  "SyncDir no_faults ''j'' sample_ir sample_moved = (None, sample_ir, sample_moved)"
  "SyncDir no_sync [] sample_cr sample_moved = (Some ErrIO, sample_cr, sample_moved)"
  "relativeParent ''x'' = []" "relativeParent ''j/x.mega.part'' = ''j''"
  by code_simp+

lemma sample_verified: "VerifyIntegrity (\<lambda>k b. b) [1, 2, 3] 3 sample_key = None"
  by code_simp

lemma sample_decode: "decodeFileKeyBytes (FileKeyCiphertext sample_row) = Inr sample_key"
  by (simp add: sample_key_def sample_row_def decodeFileKeyBytes_def)

lemma sample_paths:
  "job_path ''/in'' ''j/x.mega.part'' = [''in'', ''j'', ''x.mega.part'']" "job_path ''/out'' ''x'' = [''out'', ''x'']"
  "at_path sample_disk [''in'', ''j'', ''x.mega.part''] = Some (EFile [1, 2, 3])"
  "PartialRelativePath ''j'' ''x'' = Inr ''j/x.mega.part''"
  by code_simp+

lemma sample_job_paths: "IncompleteRoot sample_job = ''/in''" "CompleteRoot sample_job = ''/out''" "job_ID sample_job = ''j''"
  by (simp_all add: sample_job_def)

lemma sample_row_fields: "file_ID sample_row = ''f''" "RemotePath sample_row = ''x''" "FinalRelativePath sample_row = ''x''" "SizeBytes sample_row = 3"
  by (simp_all add: sample_row_def)

lemma sample_finalize:
  assumes "file_ID row = ''f''"
  shows "\<exists>w'. finalize (sample_env no_faults) [] None sample_job sample_row ''j/x.mega.part'' (sample_world row n) = (Inr ''x'', w')"
    and "\<exists>w'. finalize (sample_env no_sync) [] None sample_job sample_row ''j/x.mega.part'' (sample_world row n) = (Inl ErrFinalizationPending, w')"
  using assms
  by (simp_all add: finalize_def finalize_loop.simps [of _ _ _ _ _ 0] conflict_policy_def sample_env_def sample_world_def sample_new sample_plan
      sample_rename sample_syncs sample_job_paths sample_row_fields db_call_def PrepareDownloadFileMove_def update_file_def affected_def)

theorem finalize_never_replaces_witness:
  "\<exists>w'. finalize (sample_env no_sync) [] None sample_job sample_row ''j/x.mega.part'' (sample_world sample_row 0) = (Inl ErrFinalizationPending, w') \<and>
     (\<exists>target fs1. moved False [''in'', ''j'', ''x.mega.part''] (job_path ''/out'' target) fs1 (w_fs w'))"
proof -
  obtain w' where f: "finalize (sample_env no_sync) [] None sample_job sample_row ''j/x.mega.part'' (sample_world sample_row 0) = (Inl ErrFinalizationPending, w')"
    using sample_finalize(2) [OF sample_row_fields(1)] by blast
  have "errors_Is ErrFinalizationPending NFinalizationPending" by (simp add: ErrFinalizationPending_def errors_Is_def)
  then show ?thesis using finalize_never_replaces [OF f] f by (auto simp: conflict_policy_def sample_job_paths sample_paths)
qed

theorem completed_file_delivered_witness:
  "\<exists>w' row'. finish_file (sample_env no_faults) (\<lambda>k b. b) [] None None None None sample_job sample_row sample_key [1, 2, 3] ''j/x.mega.part''
       (sample_world sample_row 0) = (None, w') \<and>
     find_row file_ID ''f'' (files (w_db w')) = Some row' \<and> file_State row' = FileCompleted \<and>
     at_path (w_fs w') (job_path ''/out'' (FinalRelativePath row')) = Some (EFile [1, 2, 3])"
proof -
  let ?row = "sample_row\<lparr>file_State := FileVerifying, file_UpdatedAt := 7\<rparr>"
  obtain w2 where f: "finalize (sample_env no_faults) [] None sample_job sample_row ''j/x.mega.part'' (sample_world ?row 1) = (Inr ''x'', w2)"
    using sample_finalize(1) [of ?row 1] sample_row_fields(1) by auto
  have u: "untouched_rows ''f'' (w_db (sample_world ?row 1)) (w_db w2)" and "moving_row ''f'' ''x'' (w_db (sample_world ?row 1)) (w_db w2)"
    using finalize_result [OF f] sample_row_fields(1) unfolding finalize_post_def delivered_def by auto
  then have row2: "\<exists>r. find_row file_ID ''f'' (files (w_db w2)) = Some r" and "distinct (map file_ID (files (w_db w2)))"
    by (auto simp: moving_row_def untouched_rows_def sample_world_def find_row_def sample_row_fields)
  then obtain d' where "CompleteDownloadFile (\<lambda>_. False) 7 ''f'' ''x'' 7 (w_db w2) = (None, d')"
    using complete_reliable [of "\<lambda>_. False" "w_db w2" "''f''"] by blast
  then have c: "db_call (sample_env no_faults) (\<lambda>flt now. CompleteDownloadFile flt now ''f'' ''x'' now) w2 = (None, w2\<lparr>w_db := d', w_calls := Suc (w_calls w2)\<rparr>)"
    by (simp add: db_call_def sample_env_def)
  have s: "set_file_state (sample_env no_faults) ''f'' FileVerifying [] [] (sample_world sample_row 0) = (None, sample_world ?row 1)"
    by (simp add: set_file_state_def db_call_def sample_env_def sample_world_def UpdateDownloadFileState_def update_file_def affected_def
        update_rows_def norm_time_def zero_time_def sample_row_def)
  have "VerifyPartialFileContext (\<lambda>k b. b) None None [1, 2, 3] (SizeBytes sample_row) sample_key = None"
    using sample_verified by (simp add: VerifyPartialFileContext_def sample_row_fields)
  then have fin: "finish_file (sample_env no_faults) (\<lambda>k b. b) [] None None None None sample_job sample_row sample_key [1, 2, 3] ''j/x.mega.part''
      (sample_world sample_row 0) = (None, w2\<lparr>w_db := d', w_calls := Suc (w_calls w2)\<rparr>)"
    using s f c by (simp add: finish_file_def sample_row_fields)
  show ?thesis
    using completed_file_delivered [OF fin, of sample_row] fin
    by (auto simp: sample_row_fields sample_job_paths sample_paths sample_world_def find_row_def sample_env_def)
qed


end
