(* ===== verification/JobSafety.thy ===== *)
theory JobSafety
  imports Jobs Delivery
begin

text \<open>
  The job operations against the lifecycle: every sequence of operations of the engine, with all
  failures, is a sequence of transitions the table of \<^verbatim>\<open>Lifecycle\<close> allows, and what cancelling and
  deleting a job leave untouched.
\<close>

section \<open>What the helpers leave alone\<close>

definition job_states :: "database \<Rightarrow> string \<Rightarrow> JobState option" where
  "job_states d j = map_option job_State (find_row job_ID j (jobs d))"

lemma get_jobD:
  assumes "get_job ev jid w = (r, w')"
  shows "w_db w' = w_db w" and "w_fs w' = w_fs w" and "r = Inr job \<Longrightarrow> GetDownloadJob (w_db w) jid = Inr job"
  using db_callD [OF assms [unfolded get_job_def]] by (auto split: if_splits)

lemma GetDownloadJob_row:
  assumes "GetDownloadJob d jid = Inr job"
  shows "job_states d jid = Some (job_State (rec_row job))" and "job_ID (rec_row job) = jid"
    and "set (rec_Files job) = {f \<in> set (files d). file_JobID f = jid}"
  using assms find_row_SomeD [of job_ID jid "jobs d"]
  by (auto simp: GetDownloadJob_def job_states_def Let_def split: option.splits)

lemma set_file_state_frame:
  assumes "set_file_state ev fid st code msg w = (e, w')"
  shows "jobs (w_db w') = jobs (w_db w)" and "w_fs w' = w_fs w"
    and "fid' \<noteq> fid \<Longrightarrow> find_row file_ID fid' (files (w_db w')) = find_row file_ID fid' (files (w_db w))"
    and "map file_ID (files (w_db w')) = map file_ID (files (w_db w))"
  using db_callD [OF assms [unfolded set_file_state_def]] update_file_frame [of _ fid _ "w_db w" e "w_db w'"]
  by (auto simp: UpdateDownloadFileState_def)

lemma snd_set_file_state [simp]:
  "jobs (w_db (snd (set_file_state ev fid st code msg w))) = jobs (w_db w)"
  "w_fs (snd (set_file_state ev fid st code msg w)) = w_fs w"
  using set_file_state_frame(1,2) [OF prod.collapse [symmetric]] by blast+

lemma add_event_frame [simp]:
  "jobs (w_db (add_event ev jid fid kind msg w)) = jobs (w_db w)"
  "files (w_db (add_event ev jid fid kind msg w)) = files (w_db w)"
  "w_fs (add_event ev jid fid kind msg w) = w_fs w"
  by (auto simp: add_event_def AddDownloadEvent_def Let_def)

lemma mark_files_frame:
  "jobs (w_db (mark_files ev P st code msg fs w)) = jobs (w_db w) \<and> w_fs (mark_files ev P st code msg fs w) = w_fs w"
  by (induction fs arbitrary: w) simp_all

lemma current_jobD:
  assumes "current_job ev job w = (cur, w')"
  shows "w_db w' = w_db w" and "w_fs w' = w_fs w"
    and "job_states (w_db w) (job_ID (rec_row job)) = Some (job_State (rec_row job)) \<Longrightarrow> job_State (rec_row cur) = job_State (rec_row job)"
proof -
  obtain r w1 where r: "get_job ev (job_ID (rec_row job)) w = (r, w1)" by (rule prod.exhaust)
  then show "w_db w' = w_db w" "w_fs w' = w_fs w" using assms get_jobD(1,2) [OF r] by (auto simp: current_job_def split: sum.splits)
  show "job_State (rec_row cur) = job_State (rec_row job)"
    if "job_states (w_db w) (job_ID (rec_row job)) = Some (job_State (rec_row job))"
    using assms r that GetDownloadJob_row(1) [OF get_jobD(3) [OF r]] by (auto simp: current_job_def split: sum.splits)
qed

lemma update_job_states:
  assumes "update_job flt jid f d = (e, d')" and "\<And>r. job_ID (f r) = job_ID r" and "\<And>r. job_State (f r) = st"
  shows "job_states d' = (if flt 0 \<or> job_states d jid = None then job_states d else (job_states d)(jid \<mapsto> st))" and "files d' = files d"
proof -
  have u: "find_row job_ID j (update_rows job_ID jid f (jobs d)) = (if j = jid then map_option f (find_row job_ID j (jobs d)) else find_row job_ID j (jobs d))" for j
    using assms(2) by (simp add: find_row_update_same find_row_update_other)
  show "job_states d' = (if flt 0 \<or> job_states d jid = None then job_states d else (job_states d)(jid \<mapsto> st))" "files d' = files d"
    using assms(1,3) by (auto simp: update_job_def Let_def job_states_def fun_eq_iff u split: if_splits)
qed

section \<open>The abstract lifecycle of all jobs\<close>

inductive life_step :: "(string \<Rightarrow> JobState option) \<Rightarrow> (string \<Rightarrow> JobState option) \<Rightarrow> bool" where
  move: "m j = Some s \<Longrightarrow> job_step s t \<Longrightarrow> life_step m (m(j \<mapsto> t))"
| forget: "life_step m (m(j := None))"

definition moves :: "string \<Rightarrow> JobState \<Rightarrow> (string \<Rightarrow> JobState option) \<Rightarrow> (string \<Rightarrow> JobState option) \<Rightarrow> bool" where
  "moves j t m m' \<longleftrightarrow> m' = m \<or> (\<exists>s. m j = Some s \<and> job_step s t \<and> m' = m(j \<mapsto> t))"

lemma moves_life: "moves j t m m' \<Longrightarrow> life_step\<^sup>*\<^sup>* m m'"
  by (auto simp: moves_def intro: life_step.move)

lemma moves_refl [simp]: "moves j t m m"
  by (simp add: moves_def)

lemma set_job_state_moves:
  assumes "set_job_state ev jid t w = (e, w')" and "\<And>s. job_states (w_db w) jid = Some s \<Longrightarrow> job_step s t"
  shows "moves jid t (job_states (w_db w)) (job_states (w_db w'))" and "w_fs w' = w_fs w" and "files (w_db w') = files (w_db w)"
    and "e = None \<Longrightarrow> job_states (w_db w') jid = Some t"
proof -
  let ?flt = "e_flt ev (w_calls w)"
  note d = db_callD [OF assms(1) [unfolded set_job_state_def]]
  note u = update_job_states [OF d(2) [unfolded SetDownloadJobState_def], of t]
  show "w_fs w' = w_fs w" "files (w_db w') = files (w_db w)" using d(1) u(2) by simp_all
  show "moves jid t (job_states (w_db w)) (job_states (w_db w'))" using u(1) assms(2) by (auto simp: moves_def)
  show "job_states (w_db w') jid = Some t" if none: "e = None"
  proof -
    have "\<not> ?flt 0 \<and> affected job_ID jid (jobs (w_db w)) = 1"
      using d(2) none by (auto simp: SetDownloadJobState_def update_job_def Let_def split: if_splits)
    moreover have "find_row job_ID jid (jobs (w_db w)) \<noteq> None" if "affected job_ID jid (jobs (w_db w)) = 1"
    proof
      assume "find_row job_ID jid (jobs (w_db w)) = None"
      then have "filter (\<lambda>r. job_ID r = jid) (jobs (w_db w)) = []"
        using find_row_None [of job_ID jid "jobs (w_db w)"] by (auto simp: filter_empty_conv)
      then show False using that by (simp add: affected_def)
    qed
    ultimately show ?thesis using u(1) by (auto simp: job_states_def)
  qed
qed

lemma snd_set_job_state_moves:
  assumes "\<And>s. job_states (w_db w) jid = Some s \<Longrightarrow> job_step s t"
  shows "moves jid t (job_states (w_db w)) (job_states (w_db (snd (set_job_state ev jid t w))))"
    and "w_fs (snd (set_job_state ev jid t w)) = w_fs w" and "files (w_db (snd (set_job_state ev jid t w))) = files (w_db w)"
  using set_job_state_moves [of ev jid t w "fst (set_job_state ev jid t w)" "snd (set_job_state ev jid t w)"] assms by auto

lemma states_of_jobs: "jobs d' = jobs d \<Longrightarrow> job_states d' = job_states d"
  by (simp add: job_states_def fun_eq_iff)

section \<open>Each operation moves along the table\<close>

lemma pauseJob_moves:
  assumes "job_states (w_db w) (job_ID (rec_row job)) = Some (job_State (rec_row job))"
  shows "moves (job_ID (rec_row job)) JobPaused (job_states (w_db w)) (job_states (w_db (pauseJob ev job w)))"
    and "w_fs (pauseJob ev job w) = w_fs w"
proof -
  obtain cur w1 where c: "current_job ev job w = (cur, w1)" by (rule prod.exhaust)
  note cd = current_jobD [OF c]
  define w2 where "w2 = mark_files ev (\<lambda>f. file_State f \<in> {FileDownloading, FileVerifying, FileMoving}) FilePaused [] [] (rec_Files cur) w1"
  have w2: "job_states (w_db w2) = job_states (w_db w)" "w_fs w2 = w_fs w"
    using mark_files_frame [of ev _ FilePaused "[]" "[]" "rec_Files cur" w1] cd(1,2) unfolding w2_def by (simp_all add: job_states_def fun_eq_iff)
  have st: "job_State (rec_row cur) = job_State (rec_row job)" by (rule cd(3) [OF assms])
  note m = snd_set_job_state_moves [of w2 "job_ID (rec_row job)" JobPaused ev]
  have p: "pauseJob ev job w = add_event ev (job_ID (rec_row job)) [] ''state'' ''download paused''
      (if job_step (job_State (rec_row job)) JobPaused then snd (set_job_state ev (job_ID (rec_row job)) JobPaused w2) else w2)"
    unfolding pauseJob_def using c st by (simp add: Let_def w2_def)
  show "moves (job_ID (rec_row job)) JobPaused (job_states (w_db w)) (job_states (w_db (pauseJob ev job w)))"
    using m(1) assms w2(1) unfolding p by (auto simp: states_of_jobs [OF add_event_frame(1)])
  show "w_fs (pauseJob ev job w) = w_fs w" using m(2) assms w2 unfolding p by auto
qed

lemma failJob_moves:
  assumes "job_states (w_db w) (job_ID (rec_row job)) = Some (job_State (rec_row job))" and "failJob ev job file cause w = (e, w')"
  shows "moves (job_ID (rec_row job)) JobFailed (job_states (w_db w)) (job_states (w_db w'))" and "w_fs w' = w_fs w"
proof -
  define w2 where "w2 = add_event ev (job_ID (rec_row job)) (fileID file) ''error'' (err_text cause)
    (case file of None \<Rightarrow> w | Some f \<Rightarrow> snd (set_file_state ev (file_ID f) FileFailed ''download_failed'' (err_text cause) w))"
  have w2: "job_states (w_db w2) = job_states (w_db w)" "w_fs w2 = w_fs w"
  proof -
    have "jobs (w_db w2) = jobs (w_db w)" unfolding w2_def by (simp split: option.split)
    then show "job_states (w_db w2) = job_states (w_db w)" by (rule states_of_jobs)
    show "w_fs w2 = w_fs w" unfolding w2_def by (simp split: option.split)
  qed
  obtain cur w3 where c: "current_job ev job w2 = (cur, w3)" by (rule prod.exhaust)
  note cd = current_jobD [OF c]
  define w4 where "w4 = mark_files ev (\<lambda>f. \<not> (file \<noteq> None \<and> file_ID f = fileID file \<or> file_State f = FileCompleted \<or> file_State f = FileFailed))
                 FileFailed ''download_aborted'' (err_text cause) (rec_Files cur) w3"
  have w4: "job_states (w_db w4) = job_states (w_db w)" "w_fs w4 = w_fs w"
    using mark_files_frame [of ev _ FileFailed "''download_aborted''" "err_text cause" "rec_Files cur" w3] cd(1,2) w2
    unfolding w4_def by (simp_all add: job_states_def fun_eq_iff)
  have st: "job_State (rec_row cur) = job_State (rec_row job)" using cd(3) assms(1) w2(1) by simp
  note m = snd_set_job_state_moves [of w4 "job_ID (rec_row job)" JobFailed ev]
  have w': "w' = (if job_step (job_State (rec_row job)) JobFailed then snd (set_job_state ev (job_ID (rec_row job)) JobFailed w4) else w4)"
    using assms(2) c st unfolding failJob_def w2_def [symmetric] by (auto simp: Let_def w2_def [symmetric] w4_def)
  show "moves (job_ID (rec_row job)) JobFailed (job_states (w_db w)) (job_states (w_db w'))"
    using m(1) assms(1) w4(1) unfolding w' by auto
  show "w_fs w' = w_fs w" using m(2) assms(1) w4 unfolding w' by auto
qed

lemma enterWaitingQuota_moves:
  assumes "job_states (w_db w) (job_ID (rec_row job)) = Some JobDownloading" and "enterWaitingQuota ev job file quota w = (e, w')"
  shows "moves (job_ID (rec_row job)) JobWaitingQuota (job_states (w_db w)) (job_states (w_db w'))"
proof -
  define delay where "delay = (if fst quota > 0 then fst quota else quotaDelay (QuotaRetryIndex (rec_row job) + 1))"
  obtain r w1 where q: "db_call ev (\<lambda>flt now. SetDownloadQuotaState flt now (job_ID (rec_row job)) JobWaitingQuota ''quota_exhausted'' (snd quota)
      (Some (e_now ev (w_calls w) + delay)) (QuotaRetryIndex (rec_row job) + 1) now) w = (r, w1)" by (rule prod.exhaust)
  note u = update_job_states(1) [OF db_callD(2) [OF q, unfolded SetDownloadQuotaState_def], of JobWaitingQuota]
  have m: "moves (job_ID (rec_row job)) JobWaitingQuota (job_states (w_db w)) (job_states (w_db w1))"
    using u assms(1) by (auto simp: moves_def TransitionJobState_def)
  have "jobs (w_db w') = jobs (w_db w1)"
  proof (cases r)
    case (Some er)
    then show ?thesis using assms(2) q by (auto simp: enterWaitingQuota_def Let_def delay_def)
  next
    case None
    obtain cur w2 where c: "current_job ev job w1 = (cur, w2)" by (rule prod.exhaust)
    then show ?thesis using assms(2) q None current_jobD(1) [OF c] mark_files_frame
      by (auto simp: enterWaitingQuota_def Let_def delay_def)
  qed
  then show ?thesis using m states_of_jobs by metis
qed

lemma cancel_files_frame:
  assumes "cancel_files ev fs w = (e, w')"
  shows "jobs (w_db w') = jobs (w_db w) \<and> w_fs w' = w_fs w"
  using assms
proof (induction fs arbitrary: w)
  case (Cons f fs)
  obtain r w1 where r: "set_file_state ev (file_ID f) FileCancelled [] [] w = (r, w1)" by (rule prod.exhaust)
  show ?case
  proof (cases "file_State f = FileCompleted")
    case True
    then show ?thesis using Cons by simp
  next
    case False
    then show ?thesis using Cons r set_file_state_frame(1,2) [OF r] by (cases r) auto
  qed
qed simp

lemma cancel_moves:
  assumes "cancelPersistedJob ev jid del w = (e, w')"
  shows "moves jid JobCancelled (job_states (w_db w)) (job_states (w_db w'))"
proof -
  obtain g w1 where g: "get_job ev jid w = (g, w1)" by (rule prod.exhaust)
  note gd = get_jobD [OF g]
  show ?thesis
  proof (cases g)
    case (Inl er)
    then show ?thesis using assms g gd(1) by (auto simp: cancelPersistedJob_def)
  next
    case (Inr job)
    note row = GetDownloadJob_row [OF gd(3) [OF Inr]]
    obtain c w2 where c: "cancel_files ev (rec_Files job) w1 = (c, w2)" by (rule prod.exhaust)
    have w2: "job_states (w_db w2) = job_states (w_db w)" using cancel_files_frame [OF c] gd(1) by (simp add: job_states_def fun_eq_iff)
    obtain s w3 where s: "set_job_state ev jid JobCancelled w2 = (s, w3)" by (rule prod.exhaust)
    show ?thesis
    proof (cases "job_State (rec_row job) = JobCompleted \<or> job_State (rec_row job) = JobCancelled \<or> c \<noteq> None")
      case True
      then have "w' = w1 \<or> w' = w2" using assms g Inr c by (auto simp: cancelPersistedJob_def split: if_splits option.splits)
      then show ?thesis using gd(1) w2 by auto
    next
      case False
      have "job_step (job_State (rec_row job)) JobCancelled"
        using False by (cases "job_State (rec_row job)") (simp_all add: TransitionJobState_def)
      then have m: "moves jid JobCancelled (job_states (w_db w)) (job_states (w_db w3))"
        using set_job_state_moves(1) [OF s] w2 row(1) by simp
      have "jobs (w_db w') = jobs (w_db w3)"
        using assms g Inr c s False by (cases s) (auto simp: cancelPersistedJob_def Let_def split: if_splits prod.splits)
      then show ?thesis using m states_of_jobs by metis
    qed
  qed
qed

lemma PauseJob_moves:
  assumes "PauseJob ev jid w = (e, w')"
  shows "moves jid JobPaused (job_states (w_db w)) (job_states (w_db w'))"
proof -
  obtain g w1 where g: "get_job ev jid w = (g, w1)" by (rule prod.exhaust)
  note gd = get_jobD [OF g]
  show ?thesis
  proof (cases g)
    case (Inl er)
    then show ?thesis using assms g gd(1) by (auto simp: PauseJob_def)
  next
    case (Inr job)
    note row = GetDownloadJob_row [OF gd(3) [OF Inr]]
    show ?thesis using assms g Inr gd(1) row pauseJob_moves(1) [of w1 job ev] by (auto simp: PauseJob_def split: if_splits)
  qed
qed

lemma ResumeJob_moves:
  assumes "ResumeJob ev jid w = (e, w')"
  shows "moves jid JobQueued (job_states (w_db w)) (job_states (w_db w'))"
proof -
  obtain g w1 where g: "get_job ev jid w = (g, w1)" by (rule prod.exhaust)
  note gd = get_jobD [OF g]
  obtain r w2 where r: "db_call ev (\<lambda>flt now. ClearDownloadQuotaState flt now jid JobQueued now) w1 = (r, w2)" by (rule prod.exhaust)
  note u = update_job_states(1) [OF db_callD(2) [OF r, unfolded ClearDownloadQuotaState_def SetDownloadQuotaState_def], of JobQueued]
  consider (same) "w_db w' = w_db w1"
    | (moved) job where "g = Inr job" "job_step (job_State (rec_row job)) JobQueued" "jobs (w_db w') = jobs (w_db w2)"
    using assms g r unfolding ResumeJob_def
    by (cases g; cases r) (auto simp: Let_def split: option.splits if_splits)
  then show ?thesis
  proof cases
    case same
    then show ?thesis using gd(1) by simp
  next
    case (moved job)
    have "moves jid JobQueued (job_states (w_db w)) (job_states (w_db w2))"
      using u gd(1) GetDownloadJob_row(1) [OF gd(3) [OF moved(1)]] moved(2) by (auto simp: moves_def)
    then show ?thesis using states_of_jobs [OF moved(3)] by simp
  qed
qed

lemma recoverMovedFile_jobs:
  assumes "recoverMovedFile ev E decrypt halt stat_err close_err job file w = (r, w')"
  shows "jobs (w_db w') = jobs (w_db w)"
proof -
  have c: "db_call ev (\<lambda>flt now. CompleteDownloadFile flt now (file_ID file) (FinalRelativePath file) now) (w\<lparr>w_fs := fs\<rparr>) = (x, w4) \<Longrightarrow>
      jobs (w_db w4) = jobs (w_db w)" for fs x w4
  proof -
    assume "db_call ev (\<lambda>flt now. CompleteDownloadFile flt now (file_ID file) (FinalRelativePath file) now) (w\<lparr>w_fs := fs\<rparr>) = (x, w4)"
    note d = db_callD(2) [OF this]
    show ?thesis using update_file_frame(2) [OF d [unfolded CompleteDownloadFile_def]] by simp
  qed
  show ?thesis using assms unfolding recoverMovedFile_def
    by (auto simp: Let_def split: sum.splits prod.splits if_splits option.splits bool.splits dest!: c)
qed

lemma ready_files_moves:
  assumes rec: "\<And>f w. jobs (w_db (snd (recover f w))) = jobs (w_db w)"
    and "job_states (w_db w) (job_ID (rec_row job)) = Some (job_State (rec_row job))"
    and "ready_files ev recover job acc n fs w = (res, w')"
  shows "(is_ok res \<longrightarrow> job_states (w_db w') = job_states (w_db w)) \<and>
    moves (job_ID (rec_row job)) JobFailed (job_states (w_db w)) (job_states (w_db w'))"
  using assms(2,3)
proof (induction fs arbitrary: acc n w)
  case (Cons f fs)
  obtain r w1 where r: "(if file_State f = FileMoving then recover f w else (Inr False, w)) = (r, w1)" by (rule prod.exhaust)
  have "jobs (w_db w1) = jobs (w_db w)" using r rec [of f w] by (auto split: if_splits)
  then have w1: "job_states (w_db w1) = job_states (w_db w)" by (rule states_of_jobs)
  obtain s w2 where s: "set_file_state ev (file_ID f) FileDownloading [] [] w1 = (s, w2)" by (rule prod.exhaust)
  have w2: "job_states (w_db w2) = job_states (w_db w)" using states_of_jobs [OF set_file_state_frame(1) [OF s]] w1 by simp
  have fail: ?case if "failJob ev job (Some f) e w1 = (e', w3)" "res = Inl e'" "w' = w3" for e e' w3
    using failJob_moves(1) [of w1 job ev "Some f" e e' w3] that w1 Cons.prems(1) by simp
  consider (finished) "file_State f = FileCompleted" | (bad) e where "file_State f \<noteq> FileCompleted" "r = Inl e"
    | (recovered) "file_State f \<noteq> FileCompleted" "r = Inr True"
    | (stuck) "file_State f \<noteq> FileCompleted" "r = Inr False" "TransitionFileState (file_State f) FileDownloading \<noteq> None"
    | (go) "file_State f \<noteq> FileCompleted" "r = Inr False" "TransitionFileState (file_State f) FileDownloading = None"
    by (cases r) auto
  then show ?case
  proof cases
    case finished
    then show ?thesis using Cons by simp
  next
    case (bad e)
    then show ?thesis using fail [of e] Cons.prems(2) r by (auto split: prod.splits)
  next
    case recovered
    then show ?thesis using Cons.IH [of w1] Cons.prems r w1 by simp
  next
    case stuck
    then show ?thesis using fail [of "errors_New ''invalid file transition''"] Cons.prems(2) r by (auto split: prod.splits)
  next
    case go
    then show ?thesis using Cons.IH [of w2] Cons.prems r s w2 by (cases s) auto
  qed
qed auto

lemma runJob_begin_moves:
  assumes rec: "\<And>row f w. jobs (w_db (snd (recover row f w))) = jobs (w_db w)"
    and run: "runJob_begin ev recover ctx maxf jid w = (res, w')"
  shows "life_step\<^sup>*\<^sup>* (job_states (w_db w)) (job_states (w_db w'))"
    and "res = Inr (job, n) \<Longrightarrow> job_states (w_db w') jid = Some JobDownloading \<and> job_ID (rec_row job) = jid \<and> job_State (rec_row job) = JobDownloading"
    and "j \<noteq> jid \<Longrightarrow> job_states (w_db w') j = job_states (w_db w) j"
proof -
  obtain g w1 where g: "get_job ev jid w = (g, w1)" by (rule prod.exhaust)
  note gd = get_jobD [OF g]
  obtain s w2 where s: "set_job_state ev jid JobDownloading w1 = (s, w2)" by (rule prod.exhaust)
  have "life_step\<^sup>*\<^sup>* (job_states (w_db w)) (job_states (w_db w')) \<and> (\<forall>job n. res = Inr (job, n) \<longrightarrow>
      job_states (w_db w') jid = Some JobDownloading \<and> job_ID (rec_row job) = jid \<and> job_State (rec_row job) = JobDownloading) \<and>
      (\<forall>j. j \<noteq> jid \<longrightarrow> job_states (w_db w') j = job_states (w_db w) j)"
  proof (cases "\<exists>job0. g = Inr job0 \<and> \<not> IsTerminalJobState (job_State (rec_row job0)) \<and> job_step (job_State (rec_row job0)) JobDownloading")
    case False
    then have "w_db w' = w_db w \<and> isl res" using run g gd(1) by (cases g) (auto simp: runJob_begin_def split: if_splits)
    then show ?thesis by auto
  next
    case True
    then obtain job0 where j0: "g = Inr job0" "\<not> IsTerminalJobState (job_State (rec_row job0))" "job_step (job_State (rec_row job0)) JobDownloading" by blast
    note row = GetDownloadJob_row [OF gd(3) [OF j0(1)]]
    have m1: "moves jid JobDownloading (job_states (w_db w)) (job_states (w_db w2))"
      using set_job_state_moves(1) [OF s] gd(1) row(1) j0(3) by simp
    show ?thesis
    proof (cases s)
      case (Some e)
      then have "res = Inl (Some (store_go e))" "w' = w2" using run g j0 s by (simp_all add: runJob_begin_def)
      then show ?thesis using m1 moves_life [OF m1] by (auto simp: moves_def)
    next
      case None
      define job1 where "job1 = job0\<lparr>rec_row := (rec_row job0)\<lparr>job_State := JobDownloading\<rparr>\<rparr>"
      define w3 where "w3 = add_event ev jid [] ''state'' ''download started'' w2"
      have j1: "job_ID (rec_row job1) = jid" "job_State (rec_row job1) = JobDownloading" using row(2) by (simp_all add: job1_def)
      have w3: "job_states (w_db w3) = job_states (w_db w2)" by (simp add: w3_def job_states_def fun_eq_iff)
      have dl: "job_states (w_db w3) jid = Some JobDownloading"
        using set_job_state_moves(4) [OF s _ None] gd(1) row(1) j0(3) w3 by simp
      obtain y w4 where y: "ready_files ev (recover (rec_row job1)) job1 [] 0 (rec_Files job1) w3 = (y, w4)" by (rule prod.exhaust)
      note rf = ready_files_moves [OF rec _ y, unfolded j1, OF dl]
      have m4: "moves jid JobFailed (job_states (w_db w3)) (job_states (w_db w4))" "is_ok y \<Longrightarrow> job_states (w_db w4) = job_states (w_db w3)"
        using rf by blast+
      have run': "(res, w') = (case y of Inl e \<Rightarrow> (Inl (Some e), w4) | Inr (fs, pending) \<Rightarrow>
          (let job2 = job1\<lparr>rec_Files := fs\<rparr> in if ctx then (Inl (Some context_Canceled), pauseJob ev job2 w4)
           else (let n = (if maxf > pending then pending else maxf) in (Inr (job2, if n < 1 \<and> pending > 0 then 1 else n), w4))))"
        using run unfolding runJob_begin_def g prod.case j0(1) sum.case s None option.case Let_def w3_def [symmetric] job1_def [symmetric] y
        using j0(2,3) by simp
      have end_moves: "\<exists>t. moves jid t (job_states (w_db w3)) (job_states (w_db w'))"
      proof (cases y)
        case (Inl e)
        then show ?thesis using run' m4(1) by auto
      next
        case (Inr x)
        obtain fs pending where x: "x = (fs, pending)" by (rule prod.exhaust)
        have "moves jid JobPaused (job_states (w_db w4)) (job_states (w_db (pauseJob ev (job1\<lparr>rec_Files := fs\<rparr>) w4)))"
          using pauseJob_moves(1) [of w4 "job1\<lparr>rec_Files := fs\<rparr>" ev] j1 dl m4(2) Inr by simp
        then show ?thesis using run' Inr x m4(2) by (cases ctx) (auto simp: Let_def)
      qed
      then obtain t where t: "moves jid t (job_states (w_db w2)) (job_states (w_db w'))" using w3 by auto
      have "life_step\<^sup>*\<^sup>* (job_states (w_db w)) (job_states (w_db w'))" using moves_life [OF m1] moves_life [OF t] by (rule rtranclp_trans)
      moreover have "job_states (w_db w') jid = Some JobDownloading \<and> job_ID (rec_row job) = jid \<and> job_State (rec_row job) = JobDownloading"
        if "res = Inr (job, n)" for job n
        using run' that dl m4(2) j1 by (cases y) (auto simp: Let_def split: if_splits)
      ultimately show ?thesis using m1 t by (auto simp: moves_def)
    qed
  qed
  then show "life_step\<^sup>*\<^sup>* (job_states (w_db w)) (job_states (w_db w'))"
    and "res = Inr (job, n) \<Longrightarrow> job_states (w_db w') jid = Some JobDownloading \<and> job_ID (rec_row job) = jid \<and> job_State (rec_row job) = JobDownloading"
    and "j \<noteq> jid \<Longrightarrow> job_states (w_db w') j = job_states (w_db w) j" by blast+
qed

lemma runJob_end_moves:
  assumes st: "job_states (w_db w) (job_ID (rec_row job)) = Some JobDownloading" "job_State (rec_row job) = JobDownloading"
    and run: "runJob_end ev failure ctx job w = (e, delay, w')"
  shows "life_step\<^sup>*\<^sup>* (job_states (w_db w)) (job_states (w_db w'))"
    and "j \<noteq> job_ID (rec_row job) \<Longrightarrow> job_states (w_db w') j = job_states (w_db w) j"
proof -
  let ?j = "job_ID (rec_row job)" and ?m = "job_states (w_db w)"
  have one: "life_step\<^sup>*\<^sup>* ?m (job_states (w_db x)) \<and> (\<forall>j. j \<noteq> ?j \<longrightarrow> job_states (w_db x) j = ?m j)"
    if "moves ?j t ?m (job_states (w_db x))" for t x
    using moves_life [OF that] that by (auto simp: moves_def)
  have steps: "job_step JobDownloading JobPausedRecovery" "job_step JobDownloading JobFinalizing" "job_step JobFinalizing JobCompleted"
    by (simp_all add: TransitionJobState_def)
  have pause: "moves ?j JobPaused ?m (job_states (w_db (pauseJob ev job w)))" using pauseJob_moves(1) st by simp
  have "life_step\<^sup>*\<^sup>* ?m (job_states (w_db w')) \<and> (\<forall>j. j \<noteq> ?j \<longrightarrow> job_states (w_db w') j = ?m j)"
  proof (cases failure)
    case (Some fl)
    obtain err ff where fl: "fl = (err, ff)" by (rule prod.exhaust)
    consider (quota) "IsQuotaError err"
      | (paused) "\<not> IsQuotaError err" "ctx \<or> errors_Is err NCanceled \<or> errors_Is err NDeadlineExceeded"
      | (pending) "\<not> IsQuotaError err" "\<not> (ctx \<or> errors_Is err NCanceled \<or> errors_Is err NDeadlineExceeded)" "errors_Is err NFinalizationPending"
      | (failed) "\<not> IsQuotaError err" "\<not> (ctx \<or> errors_Is err NCanceled \<or> errors_Is err NDeadlineExceeded)" "\<not> errors_Is err NFinalizationPending"
      by blast
    then show ?thesis
    proof cases
      case quota
      obtain x w1 where x: "enterWaitingQuota ev job (Some ff) (as_quota err) w = (x, w1)" by (rule prod.exhaust)
      then have "w' = w1" using run Some fl quota by (cases x) (auto simp: runJob_end_def)
      then show ?thesis using one enterWaitingQuota_moves [OF st(1) x] by blast
    next
      case paused
      then have "w' = pauseJob ev job w" using run Some fl by (auto simp: runJob_end_def)
      then show ?thesis using one pause by blast
    next
      case pending
      then have "w' = snd (set_job_state ev ?j JobPausedRecovery w)" using run Some fl by (auto simp: runJob_end_def)
      then show ?thesis using one snd_set_job_state_moves(1) [of w ?j JobPausedRecovery ev] st(1) steps(1) by simp
    next
      case failed
      obtain x w1 where x: "failJob ev job (Some ff) err w = (x, w1)" by (rule prod.exhaust)
      then have "w' = w1" using run Some fl failed by (auto simp: runJob_end_def)
      then show ?thesis using one failJob_moves(1) [OF _ x] st by auto
    qed
  next
    case None
    obtain s w1 where s: "set_job_state ev ?j JobFinalizing w = (s, w1)" by (rule prod.exhaust)
    obtain c w2 where c: "set_job_state ev ?j JobCompleted w1 = (c, w2)" by (rule prod.exhaust)
    have m1: "moves ?j JobFinalizing ?m (job_states (w_db w1))" using set_job_state_moves(1) [OF s] st(1) steps(2) by simp
    show ?thesis
    proof (cases "ctx \<or> s \<noteq> None")
      case True
      then have "w' = pauseJob ev job w \<or> w' = w1" using run None s st(2) steps(2) by (auto simp: runJob_end_def split: if_splits)
      then show ?thesis using one pause m1 by blast
    next
      case False
      then have fin: "job_states (w_db w1) ?j = Some JobFinalizing"
        using set_job_state_moves(4) [OF s] st(1) steps(2) by simp
      have m2: "moves ?j JobCompleted (job_states (w_db w1)) (job_states (w_db w2))"
        using set_job_state_moves(1) [OF c] fin steps(3) by simp
      have "jobs (w_db w') = jobs (w_db w2)"
        using run None s c st(2) steps(2,3) False by (cases c) (auto simp: runJob_end_def)
      then have "job_states (w_db w') = job_states (w_db w2)" by (rule states_of_jobs)
      then show ?thesis using rtranclp_trans [OF moves_life [OF m1] moves_life [OF m2]] m1 m2 by (auto simp: moves_def)
    qed
  qed
  then show "life_step\<^sup>*\<^sup>* (job_states (w_db w)) (job_states (w_db w'))"
    and "j \<noteq> job_ID (rec_row job) \<Longrightarrow> job_states (w_db w') j = job_states (w_db w) j" by blast+
qed

lemma DeleteDownloadJob_states:
  assumes "DeleteDownloadJob flt jid d = (e, d')"
  shows "job_states d' = job_states d \<or> job_states d' = (job_states d)(jid := None)"
proof -
  have "find_row job_ID j (filter (\<lambda>r. job_ID r \<noteq> jid) rows) = (if j = jid then None else find_row job_ID j rows)"
    for j and rows :: "job_row list" by (induction rows) (auto simp: find_row_def)
  moreover have "jobs d' = jobs d \<or> jobs d' = filter (\<lambda>r. job_ID r \<noteq> jid) (jobs d)"
    using assms by (auto simp: DeleteDownloadJob_def Let_def split: if_splits)
  ultimately show ?thesis by (auto simp: job_states_def fun_eq_iff)
qed

lemma DeleteJob_life:
  assumes "DeleteJob ev None pending jid del w = (e, w')"
  shows "life_step\<^sup>*\<^sup>* (job_states (w_db w)) (job_states (w_db w'))"
    and "j \<noteq> jid \<Longrightarrow> job_states (w_db w') j = job_states (w_db w) j"
proof -
  obtain g w1 where g: "get_job ev jid w = (g, w1)" by (rule prod.exhaust)
  note w1 = get_jobD(1) [OF g]
  have "life_step\<^sup>*\<^sup>* (job_states (w_db w)) (job_states (w_db w')) \<and> (\<forall>j. j \<noteq> jid \<longrightarrow> job_states (w_db w') j = job_states (w_db w) j)"
  proof (cases "\<exists>job0. g = Inr job0 \<and> (del \<or> job_State (rec_row job0) = JobCompleted)")
    case False
    then have "w' = w1" using assms g by (cases g) (auto simp: DeleteJob_def)
    then show ?thesis using w1 by simp
  next
    case True
    then obtain job0 where j0: "g = Inr job0" "del \<or> job_State (rec_row job0) = JobCompleted" by blast
    define first where "first = (if pending \<or> \<not> IsTerminalJobState (job_State (rec_row job0)) then cancelPersistedJob ev jid del w1 else (None, w1))"
    obtain f w2 where f: "first = (f, w2)" by (rule prod.exhaust)
    have m: "moves jid JobCancelled (job_states (w_db w)) (job_states (w_db w2))"
      using f cancel_moves [of ev jid del w1] w1 by (auto simp: first_def split: if_splits)
    have "job_states (w_db w') = job_states (w_db w2) \<or> job_states (w_db w') = (job_states (w_db w2))(jid := None)"
    proof (cases f)
      case (Some er)
      then have "w' = w2" using assms g j0 f unfolding first_def by (auto simp: DeleteJob_def)
      then show ?thesis by simp
    next
      case None
      obtain g2 w3 where g2: "get_job ev jid w2 = (g2, w3)" by (rule prod.exhaust)
      note w3 = get_jobD(1) [OF g2]
      show ?thesis
      proof (cases g2)
        case (Inl er)
        then have "w' = w3" using assms g j0 f None g2 unfolding first_def by (auto simp: DeleteJob_def)
        then show ?thesis using w3 by simp
      next
        case (Inr job)
        define rm where "rm = (if del then (case removePartialDirectory (e_kernel ev) (rec_row job) (w_fs w3) of
            (Some e, fs) \<Rightarrow> (Some e, fs) | (None, fs) \<Rightarrow> removeCompletedFiles (e_kernel ev) job fs) else (None, w_fs w3))"
        obtain r fs where r: "rm = (r, fs)" by (rule prod.exhaust)
        obtain x w4 where x: "db_call ev (\<lambda>flt now. DeleteDownloadJob flt jid) (w3\<lparr>w_fs := fs\<rparr>) = (x, w4)" by (rule prod.exhaust)
        have run: "(e, w') = (case rm of (Some e, fs) \<Rightarrow> (Some e, w3\<lparr>w_fs := fs\<rparr>) | (None, fs) \<Rightarrow>
            (case db_call ev (\<lambda>flt now. DeleteDownloadJob flt jid) (w3\<lparr>w_fs := fs\<rparr>) of (Some e, w4) \<Rightarrow> (Some (store_go e), w4) | (None, w4) \<Rightarrow> (None, w4)))"
        proof -
          have "(if None \<noteq> (None :: (world option) option) then CancelJob ev None jid del w1
              else if pending \<or> \<not> IsTerminalJobState (job_State (rec_row job0)) then cancelPersistedJob ev jid del w1 else (None, w1)) = (None, w2)"
            using f None unfolding first_def by simp
          note r1 = this and r2 = assms [unfolded DeleteJob_def g prod.case j0(1) sum.case]
          have "\<not> (\<not> del \<and> job_State (rec_row job0) \<noteq> JobCompleted)" using j0(2) by blast
          note r3 = r2 [unfolded if_not_P [OF this] r1 prod.case option.case g2 Inr sum.case, folded rm_def]
          show ?thesis by (rule r3 [symmetric])
        qed
        have "w_db w' = w_db w3 \<or> w' = w4" using run r x by (cases r; cases x) auto
        then show ?thesis using DeleteDownloadJob_states [OF db_callD(2) [OF x]] w3 by auto
      qed
    qed
    moreover have "life_step\<^sup>*\<^sup>* (job_states (w_db w2)) ((job_states (w_db w2))(jid := None))" by (rule r_into_rtranclp, rule life_step.forget)
    ultimately show ?thesis using moves_life [OF m] m by (auto simp: moves_def)
  qed
  then show "life_step\<^sup>*\<^sup>* (job_states (w_db w)) (job_states (w_db w'))"
    and "j \<noteq> jid \<Longrightarrow> job_states (w_db w') j = job_states (w_db w) j" by blast+
qed

section \<open>The engine refines the lifecycle\<close>

text \<open>What the file workers of a running job do to the database.\<close>

inductive worker_step :: "database \<Rightarrow> database \<Rightarrow> bool" where
  checkpoint: "CheckpointDownloadFiles flt ok now us d = (e, d') \<Longrightarrow> worker_step d d'"
| file_state: "UpdateDownloadFileState flt now fid st code msg when d = (e, d') \<Longrightarrow> worker_step d d'"
| prepare: "PrepareDownloadFileMove flt now fid path when d = (e, d') \<Longrightarrow> worker_step d d'"
| complete: "CompleteDownloadFile flt now fid path when d = (e, d') \<Longrightarrow> worker_step d d'"
| payload: "UpdateDownloadPayloadURL flt now fid ct when d = (e, d') \<Longrightarrow> worker_step d d'"
| event: "AddDownloadEvent flt now jid fid kind msg when d = (e, d') \<Longrightarrow> worker_step d d'"

lemma touch_job_states: "job_states (touch_job jid when d) = job_states d"
proof
  fix j
  show "job_states (touch_job jid when d) j = job_states d j"
    by (cases "j = jid") (simp_all add: touch_job_def job_states_def find_row_update_same find_row_update_other option.map_comp o_def)
qed

lemma checkpoint_updates_states: "checkpoint_updates flt now k us d = Inr d' \<Longrightarrow> job_states d' = job_states d"
proof (induction us arbitrary: k d)
  case (Cons u us)
  have f: "job_states (d\<lparr>files := x\<rparr>) = job_states d" for x by (simp add: job_states_def fun_eq_iff)
  from Cons show ?case
    by (auto simp: Let_def touch_job_states f split: if_splits option.splits)
qed simp

lemma worker_step_states: "worker_step d d' \<Longrightarrow> job_states d' = job_states d"
proof (induction rule: worker_step.induct)
  case (checkpoint flt ok now us d e d')
  have c: "job_states (x\<lparr>checkpointTransactions := n\<rparr>) = job_states x" for x n by (simp add: job_states_def fun_eq_iff)
  show ?case using checkpoint checkpoint_updates_states [of flt now 0 us d]
    by (auto simp: CheckpointDownloadFiles_def WithTx_def c split: if_splits sum.splits)
next
  case (event flt now jid fid kind msg w d e d')
  then show ?case by (auto simp: AddDownloadEvent_def Let_def job_states_def fun_eq_iff split: if_splits)
qed (auto simp: UpdateDownloadFileState_def PrepareDownloadFileMove_def CompleteDownloadFile_def UpdateDownloadPayloadURL_def
    intro!: states_of_jobs dest!: update_file_frame(2))

text \<open>The engine: a world and the jobs being run. Every call comes with its own environment, so that every
  failure is possible. Pausing, cancelling, resuming and deleting reach the database only for a job
  that is not running (\<^verbatim>\<open>finishJob\<close> cancels after the run); the check of \<^verbatim>\<open>ResumeJob\<close> and its write are
  one step.\<close>

inductive engine_step :: "world \<times> (string \<Rightarrow> job_record option) \<Rightarrow> world \<times> (string \<Rightarrow> job_record option) \<Rightarrow> bool" where
  pause: "R j = None \<Longrightarrow> PauseJob ev j w = (e, w') \<Longrightarrow> engine_step (w, R) (w', R)"
| resume: "R j = None \<Longrightarrow> ResumeJob ev j w = (e, w') \<Longrightarrow> engine_step (w, R) (w', R)"
| cancel: "R j = None \<Longrightarrow> cancelPersistedJob ev j del w = (e, w') \<Longrightarrow> engine_step (w, R) (w', R)"
| delete: "R j = None \<Longrightarrow> DeleteJob ev None pending j del w = (e, w') \<Longrightarrow> engine_step (w, R) (w', R)"
| start: "R j = None \<Longrightarrow>
    runJob_begin ev (\<lambda>row f. recoverMovedFile ev E decrypt (halt f) (stat_err f) (close_err f) row f) ctx maxf j w = (Inr (job, n), w') \<Longrightarrow>
    engine_step (w, R) (w', R(j \<mapsto> job))"
| no_start: "R j = None \<Longrightarrow>
    runJob_begin ev (\<lambda>row f. recoverMovedFile ev E decrypt (halt f) (stat_err f) (close_err f) row f) ctx maxf j w = (Inl e, w') \<Longrightarrow>
    engine_step (w, R) (w', R)"
| work: "R j \<noteq> None \<Longrightarrow> worker_step (w_db w) (w_db w') \<Longrightarrow> engine_step (w, R) (w', R)"
| stop: "R j = Some job \<Longrightarrow> runJob_end ev failure ctx job w = (e, delay, w') \<Longrightarrow> engine_step (w, R) (w', R(j := None))"

definition engine_inv :: "world \<times> (string \<Rightarrow> job_record option) \<Rightarrow> bool" where
  "engine_inv s \<longleftrightarrow> (\<forall>j job. snd s j = Some job \<longrightarrow> job_states (w_db (fst s)) j = Some JobDownloading \<and>
     job_ID (rec_row job) = j \<and> job_State (rec_row job) = JobDownloading)"

lemma moves_only: "moves j t m m' \<Longrightarrow> j' \<noteq> j \<Longrightarrow> m' j' = m j'"
  by (auto simp: moves_def)

lemma engine_inv_frame:
  assumes "engine_inv (w, R)" and "\<And>j'. j' \<noteq> j \<Longrightarrow> job_states (w_db w') j' = job_states (w_db w) j'" and "R j = None"
  shows "engine_inv (w', R)"
  using assms unfolding engine_inv_def by (metis fst_conv option.distinct(1) snd_conv)

lemma engine_step_simulates:
  assumes "engine_step s s'" and "engine_inv s"
  shows "life_step\<^sup>*\<^sup>* (job_states (w_db (fst s))) (job_states (w_db (fst s'))) \<and> engine_inv s'"
  using assms(1)
proof (cases rule: engine_step.cases)
  case (pause R j ev w e w')
  note m = PauseJob_moves [OF pause(4)]
  show ?thesis using moves_life [OF m] engine_inv_frame [of w R j w'] moves_only [OF m] assms(2) pause by auto
next
  case (resume R j ev w e w')
  note m = ResumeJob_moves [OF resume(4)]
  show ?thesis using moves_life [OF m] engine_inv_frame [of w R j w'] moves_only [OF m] assms(2) resume by auto
next
  case (cancel R j ev del w e w')
  note m = cancel_moves [OF cancel(4)]
  show ?thesis using moves_life [OF m] engine_inv_frame [of w R j w'] moves_only [OF m] assms(2) cancel by auto
next
  case (delete R j ev pending del w e w')
  show ?thesis using DeleteJob_life [OF delete(4)] engine_inv_frame [of w R j w'] assms(2) delete by auto
next
  case (start R j ev E decrypt halt stat_err close_err ctx maxf w job n w')
  have rec: "jobs (w_db (snd (recoverMovedFile ev E decrypt (halt f) (stat_err f) (close_err f) row f v))) = jobs (w_db v)" for row f v
    by (rule recoverMovedFile_jobs) (rule prod.collapse [symmetric])
  note b = runJob_begin_moves [OF rec start(4)]
  have "engine_inv (w', R)" using engine_inv_frame [of w R j w'] b(3) assms(2) start by auto
  then have "engine_inv (w', R(j \<mapsto> job))" using b(2) by (auto simp: engine_inv_def)
  then show ?thesis using b(1) start by auto
next
  case (no_start R j ev E decrypt halt stat_err close_err ctx maxf w e w')
  have rec: "jobs (w_db (snd (recoverMovedFile ev E decrypt (halt f) (stat_err f) (close_err f) row f v))) = jobs (w_db v)" for row f v
    by (rule recoverMovedFile_jobs) (rule prod.collapse [symmetric])
  note b = runJob_begin_moves [OF rec no_start(4)]
  show ?thesis using b(1) engine_inv_frame [of w R j w'] b(3) assms(2) no_start by auto
next
  case (work R j w w')
  then show ?thesis using worker_step_states [OF work(4)] assms(2) by (auto simp: engine_inv_def)
next
  case (stop R j job ev failure ctx w e delay w')
  have st: "job_states (w_db w) j = Some JobDownloading" "job_ID (rec_row job) = j" "job_State (rec_row job) = JobDownloading"
    using assms(2) stop by (auto simp: engine_inv_def)
  note e = runJob_end_moves [of w job ev failure ctx e delay w'] 
  have "engine_inv (w', R(j := None))"
    using engine_inv_frame [of w "R(j := None)" j w'] e(2) st stop assms(2) by (auto simp: engine_inv_def)
  then show ?thesis using e(1) st stop by auto
qed

end
