(* ===== verification/JobProps.thy ===== *)
theory JobProps
  imports JobSafety
begin

text \<open>
  The properties of the job operations: refinement of the lifecycle, and what cancelling and deleting change.
\<close>

section \<open>Refinement\<close>

lemma life_final:
  assumes "life_step\<^sup>*\<^sup>* m m'" and "m j = Some s" and "job_final s"
  shows "m' j = Some s \<or> m' j = None"
  using assms(1)
proof (induction rule: rtranclp_induct)
  case base
  then show ?case using assms(2) by simp
next
  case (step y z)
  have "t = s" if "job_step s t" for t
    using that assms(3) by (auto simp: TransitionJobState_def split: if_splits)
  then show ?case using step(2,3) by (auto elim!: life_step.cases split: if_splits)
qed



section \<open>Cancelling\<close>

definition cancelled_at :: "int \<Rightarrow> file_row \<Rightarrow> file_row" where
  "cancelled_at t r = r\<lparr>file_State := FileCancelled, file_LastErrorCode := [], file_LastErrorMessage := [], file_UpdatedAt := t\<rparr>"

lemma cancelled_at_fields [simp]:
  "file_ID (cancelled_at t r) = file_ID r" "file_JobID (cancelled_at t r) = file_JobID r" "file_State (cancelled_at t r) = FileCancelled"
  "cancelled_at t (cancelled_at u r) = cancelled_at t r"
  by (simp_all add: cancelled_at_def)

lemma cancel_files_rows:
  assumes "cancel_files ev fs w = (None, w')"
  shows "map file_ID (files (w_db w')) = map file_ID (files (w_db w)) \<and>
    (if \<exists>f\<in>set fs. file_ID f = fid \<and> file_State f \<noteq> FileCompleted
     then \<exists>t. find_row file_ID fid (files (w_db w')) = map_option (cancelled_at t) (find_row file_ID fid (files (w_db w)))
     else find_row file_ID fid (files (w_db w')) = find_row file_ID fid (files (w_db w)))"
  using assms
proof (induction fs arbitrary: w)
  case (Cons f fs)
  show ?case
  proof (cases "file_State f = FileCompleted")
    case True
    then show ?thesis using Cons by auto
  next
    case False
    obtain r w1 where r: "set_file_state ev (file_ID f) FileCancelled [] [] w = (r, w1)" by (rule prod.exhaust)
    then have ok: "r = None" and rest: "cancel_files ev fs w1 = (None, w')" using Cons.prems False by (cases r; auto)+
    note fr = set_file_state_frame [OF r]
    note u = update_file_row(1) [OF db_callD(2) [OF r [unfolded set_file_state_def], unfolded UpdateDownloadFileState_def ok]]
    have one: "\<exists>t. find_row file_ID (file_ID f) (files (w_db w1)) = map_option (cancelled_at t) (find_row file_ID (file_ID f) (files (w_db w)))"
      using u by (intro exI [of _ "norm_time (e_now ev (w_calls w)) (e_now ev (w_calls w))"]) (simp add: cancelled_at_def [abs_def])
    show ?thesis
    proof (cases "fid = file_ID f")
      case True
      then show ?thesis using Cons.IH [OF rest] one fr(4) False
        by (auto simp: option.map_comp o_def split: if_splits)
    next
      case other: False
      then have iff: "(\<exists>x\<in>set (f # fs). file_ID x = fid \<and> file_State x \<noteq> FileCompleted) = (\<exists>x\<in>set fs. file_ID x = fid \<and> file_State x \<noteq> FileCompleted)"
        by auto
      show ?thesis unfolding iff by (rule Cons.IH [OF rest, unfolded fr(3) [OF other] fr(4)])
    qed
  qed
qed simp

lemma removePartialDirectory_result:
  assumes "removePartialDirectory k job fs = (e, fs')"
  shows "at_path fs' p = at_path fs p \<or> at_path fs' p = None \<and> prefix (job_path (IncompleteRoot job) (job_ID job)) p"
proof (cases "fs' = fs")
  case False
  then obtain r where r: "New k (IncompleteRoot job) fs = Inr r" and c: "SanitizeComponent (job_ID job) = Inr (job_ID job)"
    using assms by (auto simp: removePartialDirectory_def SanitizeComponent_iff split: sum.splits if_splits)
  obtain x r1 fs1 where x: "RemoveAll k (job_ID job) r fs = (x, r1, fs1)" by (metis prod.exhaust)
  have "fs1 = fs'" using assms r c x by (auto simp: removePartialDirectory_def split: option.splits)
  moreover have "safe_path (job_ID job)" using c by (auto simp: SanitizeComponent_iff safe_path_def safe_component_def split_single split: if_splits)
  ultimately show ?thesis using RemoveAll_result [OF x] New_path [OF r, of "job_ID job"] by auto
qed simp

text \<open>What a successful cancellation went through.\<close>

lemma cancelPersistedJob_ok:
  assumes "cancelPersistedJob ev jid del w = (None, w')"
  obtains job w2 w3 where "GetDownloadJob (w_db w) jid = Inr job" "files (w_db w') = files (w_db w2)" "jobs (w_db w') = jobs (w_db w3)"
    "cancel_files ev (rec_Files job) (w\<lparr>w_calls := Suc (w_calls w)\<rparr>) = (None, w2)" "set_job_state ev jid JobCancelled w2 = (None, w3)"
    "w_fs w3 = w_fs w" "if del then removePartialDirectory (e_kernel ev) (rec_row job) (w_fs w) = (None, w_fs w') else w_fs w' = w_fs w"
    "job_State (rec_row job) \<noteq> JobCompleted" "job_State (rec_row job) \<noteq> JobCancelled" "foreign_keys (w_db w') = foreign_keys (w_db w3)"
proof -
  obtain g w1 where g: "get_job ev jid w = (g, w1)" by (rule prod.exhaust)
  have w1: "w1 = w\<lparr>w_calls := Suc (w_calls w)\<rparr>" using g by (auto simp: get_job_def db_call_def)
  obtain job where job: "g = Inr job" using assms g by (cases g) (auto simp: cancelPersistedJob_def)
  have st: "job_State (rec_row job) \<noteq> JobCompleted" "job_State (rec_row job) \<noteq> JobCancelled"
    using assms g job by (auto simp: cancelPersistedJob_def split: if_splits)
  obtain c w2 where c: "cancel_files ev (rec_Files job) w1 = (c, w2)" by (rule prod.exhaust)
  have cn: "c = None" using assms g job st c by (cases c) (auto simp: cancelPersistedJob_def)
  obtain s w3 where s: "set_job_state ev jid JobCancelled w2 = (s, w3)" by (rule prod.exhaust)
  have sn: "s = None" using assms g job st c cn s by (cases s) (auto simp: cancelPersistedJob_def)
  have fs3: "w_fs w3 = w_fs w"
    using db_callD(1) [OF s [unfolded set_job_state_def]] cancel_files_frame [OF c] w1 by simp
  define w4 where "w4 = add_event ev jid [] ''state'' ''download cancelled'' w3"
  have w4: "w_fs w4 = w_fs w" "jobs (w_db w4) = jobs (w_db w3)" "files (w_db w4) = files (w_db w3)" "foreign_keys (w_db w4) = foreign_keys (w_db w3)"
    using fs3 by (auto simp: w4_def add_event_def AddDownloadEvent_def Let_def)
  have run: "(if del then (let (e, fs) = removePartialDirectory (e_kernel ev) (rec_row job) (w_fs w4) in (e, w4\<lparr>w_fs := fs\<rparr>)) else (None, w4)) = (None, w')"
    using assms g job st c cn s sn by (cases del) (simp_all add: cancelPersistedJob_def w4_def Let_def)
  have f3: "files (w_db w3) = files (w_db w2)"
    using update_job_states(2) [OF db_callD(2) [OF s [unfolded set_job_state_def], unfolded SetDownloadJobState_def], of JobCancelled] by simp
  show ?thesis
  proof (rule that [of job w2 w3])
    show "GetDownloadJob (w_db w) jid = Inr job" using get_jobD(3) [OF g job] .
    show "cancel_files ev (rec_Files job) (w\<lparr>w_calls := Suc (w_calls w)\<rparr>) = (None, w2)" using c cn w1 by simp
    show "set_job_state ev jid JobCancelled w2 = (None, w3)" using s sn by simp
    show "files (w_db w') = files (w_db w2)" "jobs (w_db w') = jobs (w_db w3)" "foreign_keys (w_db w') = foreign_keys (w_db w3)"
      using run w4 f3 by (auto split: if_splits prod.splits)
    show "if del then removePartialDirectory (e_kernel ev) (rec_row job) (w_fs w) = (None, w_fs w') else w_fs w' = w_fs w"
      using run w4 by (auto split: if_splits prod.splits)
  qed (use fs3 st in simp_all)
qed

lemma find_row_mem: "distinct (map key rows) \<Longrightarrow> r \<in> set rows \<Longrightarrow> find_row key (key r) rows = Some r"
  by (induction rows) (auto simp: find_row_def)

lemma cancel_result:
  assumes "cancelPersistedJob ev jid del w = (None, w')" and "distinct (map file_ID (files (w_db w)))"
    and "find_row job_ID jid (jobs (w_db w)) = Some jrow"
  shows "job_states (w_db w') jid = Some JobCancelled \<and>
    (\<forall>r\<in>set (files (w_db w)).
       if file_JobID r = jid \<and> file_State r \<noteq> FileCompleted
       then \<exists>t. find_row file_ID (file_ID r) (files (w_db w')) = Some (cancelled_at t r)
       else find_row file_ID (file_ID r) (files (w_db w')) = Some r) \<and>
    (\<forall>p. at_path (w_fs w') p = at_path (w_fs w) p \<or>
       del \<and> at_path (w_fs w') p = None \<and> prefix (job_path (IncompleteRoot jrow) jid) p)"
  using assms(1)
proof (rule cancelPersistedJob_ok)
  fix job w2 w3
  assume job: "GetDownloadJob (w_db w) jid = Inr job" and files: "files (w_db w') = files (w_db w2)" and jobs: "jobs (w_db w') = jobs (w_db w3)"
    and c: "cancel_files ev (rec_Files job) (w\<lparr>w_calls := Suc (w_calls w)\<rparr>) = (None, w2)" and s: "set_job_state ev jid JobCancelled w2 = (None, w3)"
    and rm: "if del then removePartialDirectory (e_kernel ev) (rec_row job) (w_fs w) = (None, w_fs w') else w_fs w' = w_fs w"
    and st: "job_State (rec_row job) \<noteq> JobCompleted" "job_State (rec_row job) \<noteq> JobCancelled"
  note row = GetDownloadJob_row [OF job]
  have jr: "rec_row job = jrow" using job assms(3) by (auto simp: GetDownloadJob_def Let_def)
  have s2: "job_states (w_db w2) = job_states (w_db w)" using cancel_files_frame [OF c] by (simp add: job_states_def fun_eq_iff)
  have step: "job_step (job_State (rec_row job)) JobCancelled" using st by (cases "job_State (rec_row job)") (simp_all add: TransitionJobState_def)
  then have "job_states (w_db w3) jid = Some JobCancelled" using set_job_state_moves(4) [OF s] s2 row(1) by simp
  then have "job_states (w_db w') jid = Some JobCancelled" using jobs by (simp add: job_states_def)
  moreover have "if file_JobID r = jid \<and> file_State r \<noteq> FileCompleted
       then \<exists>t. find_row file_ID (file_ID r) (files (w_db w')) = Some (cancelled_at t r)
       else find_row file_ID (file_ID r) (files (w_db w')) = Some r" if r: "r \<in> set (files (w_db w))" for r
  proof -
    have f: "find_row file_ID (file_ID r) (files (w_db w)) = Some r" by (rule find_row_mem [OF assms(2) r])
    have u: "x = r" if "x \<in> set (files (w_db w))" "file_ID x = file_ID r" for x
      using find_row_mem [OF assms(2) that(1)] that(2) f by simp
    have "(\<exists>x\<in>set (rec_Files job). file_ID x = file_ID r \<and> file_State x \<noteq> FileCompleted) \<longleftrightarrow> file_JobID r = jid \<and> file_State r \<noteq> FileCompleted"
      unfolding row(3) using r u by blast
    then show ?thesis using cancel_files_rows [OF c, of "file_ID r"] f files by (auto split: if_splits)
  qed
  moreover have "at_path (w_fs w') p = at_path (w_fs w) p \<or> del \<and> at_path (w_fs w') p = None \<and> prefix (job_path (IncompleteRoot jrow) jid) p" for p
    using rm removePartialDirectory_result [of "e_kernel ev" "rec_row job" "w_fs w" None "w_fs w'" p] jr row(2) by (auto split: if_splits)
  ultimately show ?thesis by blast
qed

text \<open>
  C33. Cancelling a job spares what is finished. A successful cancellation leaves the job cancelled; of its files exactly
  the unfinished ones become cancelled, with bitmaps and byte counts kept, while completed ones and the files of other jobs keep their rows; and
  on disk nothing changes but, if asked for, the removal of the job's own partial directory.
\<close>

theorem cancel_spares_completed:
  assumes "cancelPersistedJob ev jid del w = (None, w')" and "distinct (map file_ID (files (w_db w)))"
    and "find_row job_ID jid (jobs (w_db w)) = Some jrow"
  shows "job_states (w_db w') jid = Some JobCancelled \<and>
    (\<forall>r\<in>set (files (w_db w)).
       if file_JobID r = jid \<and> file_State r \<noteq> FileCompleted
       then \<exists>t. find_row file_ID (file_ID r) (files (w_db w')) = Some (cancelled_at t r)
       else find_row file_ID (file_ID r) (files (w_db w')) = Some r) \<and>
    (\<forall>p. at_path (w_fs w') p = at_path (w_fs w) p \<or>
       del \<and> at_path (w_fs w') p = None \<and> prefix (job_path (IncompleteRoot jrow) jid) p)"
  by (rule cancel_result [OF assms])

theorem cancel_spares_completed_witness:
  "\<exists>w'. cancelPersistedJob (sample_env no_faults) ''j'' False (sample_world sample_row 0) = (None, w') \<and>
     job_states (w_db w') ''j'' = Some JobCancelled \<and> at_path (w_fs w') [''in'', ''j'', ''x.mega.part''] = Some (EFile [1, 2, 3])"
proof -
  let ?w = "sample_world sample_row 0" and ?ev = "sample_env no_faults"
  obtain e w' where c: "cancelPersistedJob ?ev ''j'' False ?w = (e, w')" by (rule prod.exhaust)
  have "fst (cancelPersistedJob ?ev ''j'' False ?w) = None"
    by (simp add: cancelPersistedJob_def get_job_def db_call_def sample_env_def sample_world_def GetDownloadJob_def find_row_def
        sample_job_def sample_row_def set_file_state_def UpdateDownloadFileState_def update_file_def affected_def update_rows_def
        set_job_state_def SetDownloadJobState_def update_job_def Let_def add_event_def AddDownloadEvent_def)
  then have c': "cancelPersistedJob ?ev ''j'' False ?w = (None, w')" using c by simp
  have "find_row job_ID ''j'' (jobs (w_db ?w)) = Some sample_job" by (simp add: sample_world_def find_row_def sample_job_def)
  then show ?thesis
    using cancel_spares_completed [OF c'] c' sample_paths(3) by (auto simp: sample_world_def)
qed

section \<open>Deleting\<close>

lemma update_rows_job:
  assumes "update_job flt jid f d = (e, d')" and "\<And>r. job_ID (f r) = job_ID r" and "find_row job_ID jid (jobs d) = Some r"
  shows "find_row job_ID jid (jobs d') \<in> {Some r, Some (f r)}" and "foreign_keys d' = foreign_keys d"
  using assms by (auto simp: update_job_def Let_def find_row_update_same split: if_splits)

lemma update_file_fk: "update_file flt fid f d = (e, d') \<Longrightarrow> foreign_keys d' = foreign_keys d"
  by (auto simp: update_file_def Let_def split: if_splits)

lemma cancel_files_fk: "cancel_files ev fs w = (e, w') \<Longrightarrow> foreign_keys (w_db w') = foreign_keys (w_db w)"
proof (induction fs arbitrary: w)
  case (Cons f fs)
  obtain r w1 where r: "set_file_state ev (file_ID f) FileCancelled [] [] w = (r, w1)" by (rule prod.exhaust)
  have "foreign_keys (w_db w1) = foreign_keys (w_db w)"
    by (rule update_file_fk [OF db_callD(2) [OF r [unfolded set_file_state_def], unfolded UpdateDownloadFileState_def]])
  then show ?case using Cons r by (cases "file_State f = FileCompleted"; cases r) auto
qed simp

text \<open>The database after the cancellation that may precede a deletion.\<close>

lemma cancel_keeps:
  assumes "cancelPersistedJob ev jid del w = (None, w')" and "find_row job_ID jid (jobs (w_db w)) = Some jrow"
  shows "map file_ID (files (w_db w')) = map file_ID (files (w_db w))" and "foreign_keys (w_db w') = foreign_keys (w_db w)"
    and "\<exists>jrow'. find_row job_ID jid (jobs (w_db w')) = Some jrow' \<and> CompleteRoot jrow' = CompleteRoot jrow \<and>
      IncompleteRoot jrow' = IncompleteRoot jrow \<and> job_ID jrow' = job_ID jrow"
proof -
  have "map file_ID (files (w_db w')) = map file_ID (files (w_db w)) \<and> foreign_keys (w_db w') = foreign_keys (w_db w) \<and>
    (\<exists>jrow'. find_row job_ID jid (jobs (w_db w')) = Some jrow' \<and> CompleteRoot jrow' = CompleteRoot jrow \<and>
      IncompleteRoot jrow' = IncompleteRoot jrow \<and> job_ID jrow' = job_ID jrow)"
    using assms(1)
  proof (rule cancelPersistedJob_ok)
    fix job w2 w3
    assume f: "files (w_db w') = files (w_db w2)" and j: "jobs (w_db w') = jobs (w_db w3)" and fk: "foreign_keys (w_db w') = foreign_keys (w_db w3)"
      and c: "cancel_files ev (rec_Files job) (w\<lparr>w_calls := Suc (w_calls w)\<rparr>) = (None, w2)" and s: "set_job_state ev jid JobCancelled w2 = (None, w3)"
    have r2: "find_row job_ID jid (jobs (w_db w2)) = Some jrow" using cancel_files_frame [OF c] assms(2) by simp
    note u = update_rows_job [OF db_callD(2) [OF s [unfolded set_job_state_def], unfolded SetDownloadJobState_def] _ r2]
    have "map file_ID (files (w_db w')) = map file_ID (files (w_db w))" using cancel_files_rows [OF c] f by simp
    moreover have "foreign_keys (w_db w') = foreign_keys (w_db w)" using u(2) fk cancel_files_fk [OF c] by simp
    ultimately show ?thesis using u(1) j by auto
  qed
  then show "map file_ID (files (w_db w')) = map file_ID (files (w_db w))" and "foreign_keys (w_db w') = foreign_keys (w_db w)"
    and "\<exists>jrow'. find_row job_ID jid (jobs (w_db w')) = Some jrow' \<and> CompleteRoot jrow' = CompleteRoot jrow \<and>
      IncompleteRoot jrow' = IncompleteRoot jrow \<and> job_ID jrow' = job_ID jrow" by blast+
qed

lemma remove_completed_loop_result:
  assumes "remove_completed_loop k fs r t = (e, t')"
  shows "at_path t' p = at_path t p \<or> at_path t' p = None \<and> (\<exists>f\<in>set fs. file_State f = FileCompleted \<and> prefix (path_in r (FinalRelativePath f)) p)"
  using assms
proof (induction fs arbitrary: r t)
  case (Cons f fs)
  obtain x r1 t1 where x: "Lstat k (FinalRelativePath f) r t = (x, r1, t1)" by (metis prod.exhaust)
  have r1: "t1 = t" "r_path r1 = r_path r" using Lstat_result [OF x] by simp_all
  obtain y r2 t2 where y: "Remove k (FinalRelativePath f) r1 t = (y, r2, t2)" by (metis prod.exhaust)
  note rm = Remove_result [OF y]
  consider (skip) "remove_completed_loop k fs r t = (e, t')" | (skip1) "remove_completed_loop k fs r1 t = (e, t')" | (halt) "t' = t"
    | (fail) "file_State f = FileCompleted" "t' = t2" | (go) "file_State f = FileCompleted" "remove_completed_loop k fs r2 t2 = (e, t')"
    using Cons.prems x y r1
    by (cases x; cases y) (auto split: if_splits)
  then show ?case
  proof cases
    case skip
    then show ?thesis using Cons.IH [of r t] by auto
  next
    case skip1
    then show ?thesis using Cons.IH [of r1 t] r1(2) by auto
  next
    case halt
    then show ?thesis by simp
  next
    case fail
    then show ?thesis using rm r1(2) by auto
  next
    case go
    then show ?thesis using Cons.IH [of r2 t2] rm r1(2) by (metis list.set_intros)
  qed
qed simp

lemma removeCompletedFiles_result:
  assumes "removeCompletedFiles k job t = (e, t')"
  shows "at_path t' p = at_path t p \<or> at_path t' p = None \<and>
    (\<exists>f\<in>set (rec_Files job). file_State f = FileCompleted \<and> prefix (job_path (CompleteRoot (rec_row job)) (FinalRelativePath f)) p)"
proof (cases "New k (CompleteRoot (rec_row job)) t")
  case (Inl er)
  then show ?thesis using assms by (simp add: removeCompletedFiles_def)
next
  case (Inr r)
  then have "remove_completed_loop k (rec_Files job) r t = (e, t')" using assms by (simp add: removeCompletedFiles_def)
  from remove_completed_loop_result [OF this, of p] show ?thesis using New_path [OF Inr] by simp
qed

lemma find_row_filter:
  assumes "distinct (map file_ID fs)"
  shows "find_row file_ID fid (filter P fs) = (case find_row file_ID fid fs of None \<Rightarrow> None | Some r \<Rightarrow> if P r then Some r else None)"
  using assms
proof (induction fs)
  case (Cons f fs)
  have "find_row file_ID (file_ID f) (filter P fs) = None" using Cons.prems by (intro find_row_None [THEN iffD2]) auto
  then show ?case using Cons by (auto simp: find_row_def)
qed (simp add: find_row_def)

text \<open>The first phase of a deletion: the job cancelled when it is not settled yet.\<close>

definition settled_before_delete :: "string \<Rightarrow> bool \<Rightarrow> job_row \<Rightarrow> world \<Rightarrow> world \<Rightarrow> bool" where
  "settled_before_delete jid del jrow w w2 \<longleftrightarrow>
     map file_ID (files (w_db w2)) = map file_ID (files (w_db w)) \<and> foreign_keys (w_db w2) = foreign_keys (w_db w) \<and>
     (\<exists>jrow'. find_row job_ID jid (jobs (w_db w2)) = Some jrow' \<and> CompleteRoot jrow' = CompleteRoot jrow \<and>
        IncompleteRoot jrow' = IncompleteRoot jrow \<and> job_ID jrow' = jid) \<and>
     (\<forall>r\<in>set (files (w_db w)).
        if file_JobID r = jid
        then find_row file_ID (file_ID r) (files (w_db w2)) = Some r \<or> (\<exists>t. find_row file_ID (file_ID r) (files (w_db w2)) = Some (cancelled_at t r))
        else find_row file_ID (file_ID r) (files (w_db w2)) = Some r) \<and>
     (\<forall>p. at_path (w_fs w2) p = at_path (w_fs w) p \<or>
        del \<and> at_path (w_fs w2) p = None \<and> prefix (job_path (IncompleteRoot jrow) jid) p)"

lemma settled_refl:
  assumes "distinct (map file_ID (files (w_db w)))" and "find_row job_ID jid (jobs (w_db w)) = Some jrow"
    and "w_db w1 = w_db w" and "w_fs w1 = w_fs w"
  shows "settled_before_delete jid del jrow w w1"
  using assms find_row_mem [OF assms(1)] find_row_SomeD [OF assms(2)] by (simp add: settled_before_delete_def)

lemma settled_cancel:
  assumes "cancelPersistedJob ev jid del w1 = (None, w2)" and "distinct (map file_ID (files (w_db w)))"
    and "find_row job_ID jid (jobs (w_db w)) = Some jrow" and "w_db w1 = w_db w" and "w_fs w1 = w_fs w"
  shows "settled_before_delete jid del jrow w w2"
proof -
  have d: "distinct (map file_ID (files (w_db w1)))" and f: "find_row job_ID jid (jobs (w_db w1)) = Some jrow" using assms by simp_all
  note r = cancel_result [OF assms(1) d f] and k = cancel_keeps [OF assms(1) f]
  have "if file_JobID r = jid
      then find_row file_ID (file_ID r) (files (w_db w2)) = Some r \<or> (\<exists>t. find_row file_ID (file_ID r) (files (w_db w2)) = Some (cancelled_at t r))
      else find_row file_ID (file_ID r) (files (w_db w2)) = Some r" if "r \<in> set (files (w_db w1))" for r
    using r that by (cases "file_State r = FileCompleted"; cases "file_JobID r = jid") auto
  moreover have "\<forall>p. at_path (w_fs w2) p = at_path (w_fs w1) p \<or>
        del \<and> at_path (w_fs w2) p = None \<and> prefix (job_path (IncompleteRoot jrow) jid) p" using r by blast
  moreover have "job_ID jrow = jid" using find_row_SomeD [OF f] by simp
  ultimately show ?thesis using k unfolding settled_before_delete_def assms(4,5) by auto
qed

lemma settled_row:
  assumes s: "settled_before_delete jid del jrow w w2" and d: "distinct (map file_ID (files (w_db w)))" and r: "r \<in> set (files (w_db w2))"
  obtains r0 where "r0 \<in> set (files (w_db w))" "file_JobID r0 = file_JobID r" "file_State r = FileCompleted \<Longrightarrow> r0 = r" "file_ID r0 = file_ID r"
proof -
  have ids: "map file_ID (files (w_db w2)) = map file_ID (files (w_db w))" using s by (simp add: settled_before_delete_def)
  then have "file_ID r \<in> file_ID ` set (files (w_db w))" using r by (metis image_eqI list.set_map)
  then obtain r0 where r0: "r0 \<in> set (files (w_db w))" "file_ID r0 = file_ID r" by auto
  have "find_row file_ID (file_ID r0) (files (w_db w2)) = Some r" using find_row_mem [OF _ r, of file_ID] d ids r0(2) by simp
  then have "r = r0 \<or> (\<exists>t. r = cancelled_at t r0)" using s r0(1) unfolding settled_before_delete_def by (metis option.inject)
  then have "file_JobID r0 = file_JobID r" "file_State r = FileCompleted \<Longrightarrow> r0 = r" by (metis cancelled_at_fields(2), metis cancelled_at_fields(3) FileState.distinct)
  then show ?thesis using that [OF r0(1)] r0(2) by blast
qed

lemma DeleteDownloadJob_rows:
  assumes "DeleteDownloadJob flt jid d = (e, d')" and "e = None" and "foreign_keys d"
  shows "jobs d' = filter (\<lambda>r. job_ID r \<noteq> jid) (jobs d)" and "files d' = filter (\<lambda>f. file_JobID f \<noteq> jid) (files d)"
    and "\<forall>x\<in>set (events d'). event_JobID x \<noteq> jid"
  using assms by (auto simp: DeleteDownloadJob_def Let_def split: if_splits)

text \<open>What a successful deletion went through.\<close>

lemma DeleteJob_ok:
  assumes "DeleteJob ev None pending jid del w = (None, w')" and "distinct (map file_ID (files (w_db w)))"
    and "find_row job_ID jid (jobs (w_db w)) = Some jrow"
  obtains w2 job flt where "settled_before_delete jid del jrow w w2" "GetDownloadJob (w_db w2) jid = Inr job"
    "if del then \<exists>fs. removePartialDirectory (e_kernel ev) (rec_row job) (w_fs w2) = (None, fs) \<and>
        removeCompletedFiles (e_kernel ev) job fs = (None, w_fs w')
     else w_fs w' = w_fs w2"
    "DeleteDownloadJob flt jid (w_db w2) = (None, w_db w')"
proof -
  obtain g w1 where g: "get_job ev jid w = (g, w1)" by (rule prod.exhaust)
  obtain job0 where j0: "g = Inr job0" using assms(1) g by (cases g) (auto simp: DeleteJob_def)
  note g1 = get_jobD(1,2) [OF g]
  define first where "first = (if pending \<or> \<not> IsTerminalJobState (job_State (rec_row job0)) then cancelPersistedJob ev jid del w1 else (None, w1))"
  obtain f w2 where f: "first = (f, w2)" by (rule prod.exhaust)
  have run: "(case first of (Some e, w2) \<Rightarrow> (Some e, w2) | (None, w2) \<Rightarrow>
       (case get_job ev jid w2 of
          (Inl e, w3) \<Rightarrow> (Some (store_go e), w3)
        | (Inr job, w3) \<Rightarrow>
            (case (if del then (case removePartialDirectory (e_kernel ev) (rec_row job) (w_fs w3) of
                       (Some e, fs) \<Rightarrow> (Some e, fs) | (None, fs) \<Rightarrow> removeCompletedFiles (e_kernel ev) job fs)
                   else (None, w_fs w3)) of
               (Some e, fs) \<Rightarrow> (Some e, w3\<lparr>w_fs := fs\<rparr>)
             | (None, fs) \<Rightarrow> (case db_call ev (\<lambda>flt now. DeleteDownloadJob flt jid) (w3\<lparr>w_fs := fs\<rparr>) of
                  (Some e, w4) \<Rightarrow> (Some (store_go e), w4) | (None, w4) \<Rightarrow> (None, w4))))) = (None, w')"
    using assms(1) g j0 unfolding first_def by (auto simp: DeleteJob_def split: if_splits)
  have fn: "f = None" using run f by (cases f) auto
  have s: "settled_before_delete jid del jrow w w2"
  proof (cases "pending \<or> \<not> IsTerminalJobState (job_State (rec_row job0))")
    case True
    then have "cancelPersistedJob ev jid del w1 = (None, w2)" using f fn by (simp add: first_def)
    then show ?thesis using settled_cancel [OF _ assms(2,3)] g1 by blast
  next
    case False
    then have "w2 = w1" using f fn by (simp add: first_def)
    then show ?thesis using settled_refl [OF assms(2,3)] g1 by blast
  qed
  obtain h w3 where h: "get_job ev jid w2 = (h, w3)" by (rule prod.exhaust)
  obtain job where job: "h = Inr job" using run f fn h by (cases h) auto
  note g3 = get_jobD(1,2) [OF h]
  define clean where "clean = (if del then (case removePartialDirectory (e_kernel ev) (rec_row job) (w_fs w2) of
                       (Some e, fs) \<Rightarrow> (Some e, fs) | (None, fs) \<Rightarrow> removeCompletedFiles (e_kernel ev) job fs)
                   else (None, w_fs w2))"
  obtain c fs where c: "clean = (c, fs)" by (rule prod.exhaust)
  have run2: "(case clean of
               (Some e, fs) \<Rightarrow> (Some e, w3\<lparr>w_fs := fs\<rparr>)
             | (None, fs) \<Rightarrow> (case db_call ev (\<lambda>flt now. DeleteDownloadJob flt jid) (w3\<lparr>w_fs := fs\<rparr>) of
                  (Some e, w4) \<Rightarrow> (Some (store_go e), w4) | (None, w4) \<Rightarrow> (None, w4))) = (None, w')"
    using run unfolding f fn h job prod.case option.case sum.case g3(2) clean_def by simp
  have cn: "c = None" using run2 c by (cases c) auto
  obtain x w4 where x: "db_call ev (\<lambda>flt now. DeleteDownloadJob flt jid) (w3\<lparr>w_fs := fs\<rparr>) = (x, w4)" by (rule prod.exhaust)
  have xn: "x = None" "w4 = w'" using run2 c cn x by (cases x; auto)+
  note dl = db_callD [OF x]
  show ?thesis
  proof (rule that [OF s get_jobD(3) [OF h job]])
    show "DeleteDownloadJob (e_flt ev (w_calls w3)) jid (w_db w2) = (None, w_db w')" using dl(2) xn g3(1) by simp
    have "w_fs w' = fs" using dl(1) xn by simp
    then show "if del then \<exists>fs. removePartialDirectory (e_kernel ev) (rec_row job) (w_fs w2) = (None, fs) \<and>
        removeCompletedFiles (e_kernel ev) job fs = (None, w_fs w') else w_fs w' = w_fs w2"
      using c cn unfolding clean_def by (auto split: if_splits prod.splits option.splits)
  qed
qed


text \<open>A completed job whose delivered file is \<^verbatim>\<open>/out/y\<close>.\<close>

definition sample_finished :: world where
  "sample_finished = (let w = sample_world (sample_row\<lparr>file_State := FileCompleted, FinalRelativePath := ''y''\<rparr>) 0 in
     w\<lparr>w_db := (w_db w)\<lparr>jobs := [sample_job\<lparr>job_State := JobCompleted\<rparr>]\<rparr>\<rparr>)"

definition sample_swept :: node where
  "sample_swept = snd (removePartialDirectory no_faults sample_job sample_disk)"

lemma sample_sweep:
  "removePartialDirectory no_faults (sample_job\<lparr>job_State := JobCompleted\<rparr>) sample_disk = (None, sample_swept)"
  "New no_faults ''/out'' sample_swept = Inr sample_cr"
  "fst (remove_completed_loop no_faults [sample_row\<lparr>file_State := FileCompleted, FinalRelativePath := ''y''\<rparr>] sample_cr sample_swept) = None"
  "at_path (snd (remove_completed_loop no_faults [sample_row\<lparr>file_State := FileCompleted, FinalRelativePath := ''y''\<rparr>] sample_cr sample_swept)) [''out'', ''y''] = None"
  by code_simp+


end
