(* ===== verification/MegaClient.thy ===== *)
theory MegaClient
  imports Crypto "HOL-Library.Char_ord"
begin

text \<open>
  The public-link client (\<^verbatim>\<open>internal/mega/links.go\<close>, \<^verbatim>\<open>hashcash.go\<close>, \<^verbatim>\<open>client.go\<close>): parsing of public links, the
  command loop with its one proof-of-work challenge, decoding of folder listings, the walk up the parent links, and the
  resolution of file and folder links into the files to download. The HTTP exchange, \<^verbatim>\<open>url.Parse\<close>, base64, AES and
  SHA-256 are arguments; a decoded JSON document is a value of type \<open>json\<close> (numbers as text, as \<^verbatim>\<open>UseNumber\<close> leaves
  them). Error messages are dropped, what \<^verbatim>\<open>errors.Is\<close> and \<^verbatim>\<open>errors.As\<close> can tell apart is kept.
\<close>

datatype mega_error =
    ErrInvalidLink | ErrCrypto crypto_error | ErrSessionRejected | ErrReauthRequired | ErrMFAUnsupported | ErrAuthenticationFailed
  | APIError int | APIHTTPError nat | ErrUnavailable | ErrRequestFailed | ErrContext | ErrResponse | ErrHashcash

section \<open>Links\<close>

datatype LinkKind = LinkKindFile | LinkKindFolder

record PublicLink =
  pl_Kind :: LinkKind
  pl_Handle :: string
  pl_Key :: string
  pl_SelectedPath :: string
  pl_SelectedNode :: string

text \<open>The parts of a \<^verbatim>\<open>url.URL\<close> that \<^verbatim>\<open>ParseLink\<close> reads.\<close>

record url =
  u_Scheme :: string
  u_User :: bool
  u_Port :: string
  u_Hostname :: string
  u_EscapedPath :: string
  u_Fragment :: string

definition token_char :: "char \<Rightarrow> bool" where
  "token_char c \<longleftrightarrow> c = CHR ''-'' \<or> c = CHR ''_'' \<or> CHR ''0'' \<le> c \<and> c \<le> CHR ''9'' \<or> CHR ''A'' \<le> c \<and> c \<le> CHR ''Z'' \<or>
     CHR ''a'' \<le> c \<and> c \<le> CHR ''z''"

text \<open>A rune above \<^verbatim>\<open>unicode.MaxASCII\<close> is a byte above 127, which no token character is.\<close>

definition validateLinkToken :: "string \<Rightarrow> bool" where
  "validateLinkToken v \<longleftrightarrow> v \<noteq> [] \<and> length v \<le> 1024 \<and> (\<forall>c\<in>set v. token_char c)"

definition isMEGAHost :: "string \<Rightarrow> bool" where
  "isMEGAHost host \<longleftrightarrow> to_lower host \<in> {''mega.nz'', ''www.mega.nz'', ''mega.co.nz'', ''www.mega.co.nz''}"

definition parseLegacyLink :: "LinkKind \<Rightarrow> string \<Rightarrow> mega_error + PublicLink" where
  "parseLegacyLink kind v =
     (case cut_at (CHR ''!'') v of
        None \<Rightarrow> Inl ErrInvalidLink
      | Some (handle, key) \<Rightarrow>
          if \<not> validateLinkToken handle then Inl ErrInvalidLink
          else if \<not> validateLinkToken key then Inl ErrInvalidLink
          else Inr \<lparr>pl_Kind = kind, pl_Handle = handle, pl_Key = key, pl_SelectedPath = [], pl_SelectedNode = []\<rparr>)"

text \<open>The loop over the non-empty path parts.\<close>

fun unescape_parts :: "(string \<Rightarrow> string option) \<Rightarrow> string list \<Rightarrow> string list option" where
  "unescape_parts unescape [] = Some []"
| "unescape_parts unescape (p # ps) =
     (if p = [] then unescape_parts unescape ps
      else case unescape p of
             None \<Rightarrow> None
           | Some q \<Rightarrow> map_option (Cons q) (unescape_parts unescape ps))"

text \<open>The branch for \<^verbatim>\<open>/file/<handle>#<key>\<close> and \<^verbatim>\<open>/folder/<handle>#<key>/...\<close>.\<close>

definition parse_modern :: "LinkKind \<Rightarrow> string \<Rightarrow> string \<Rightarrow> mega_error + PublicLink" where
  "parse_modern kind handle fragment =
     (let (key, tail, found) = (case cut_at (CHR ''/'') fragment of Some (k, t) \<Rightarrow> (k, t, True) | None \<Rightarrow> (fragment, [], False))
      in if \<not> validateLinkToken handle then Inl ErrInvalidLink
         else if \<not> validateLinkToken key then Inl ErrInvalidLink
         else
           (let link = \<lparr>pl_Kind = kind, pl_Handle = handle, pl_Key = key, pl_SelectedPath = [], pl_SelectedNode = []\<rparr>
            in if found \<and> tail \<noteq> [] then
                 (if kind \<noteq> LinkKindFolder then Inl ErrInvalidLink
                  else case cut_at (CHR ''/'') tail of
                         None \<Rightarrow> Inl ErrInvalidLink
                       | Some (selectionKind, selectedNode) \<Rightarrow>
                           if selectionKind \<noteq> ''file'' \<and> selectionKind \<noteq> ''folder'' then Inl ErrInvalidLink
                           else if \<not> validateLinkToken selectedNode then Inl ErrInvalidLink
                           else Inr (link\<lparr>pl_SelectedNode := selectedNode\<rparr>))
               else Inr link))"

definition ParseLink :: "(string \<Rightarrow> url option) \<Rightarrow> (string \<Rightarrow> string option) \<Rightarrow> string \<Rightarrow> mega_error + PublicLink" where
  "ParseLink parse unescape rawURL =
     (let trimmed = trim_space rawURL in
      if trimmed = [] then Inl ErrInvalidLink
      else case parse trimmed of
        None \<Rightarrow> Inl ErrInvalidLink
      | Some u \<Rightarrow>
          if u_Scheme u \<noteq> ''https'' \<or> u_User u \<or> u_Port u \<noteq> [] then Inl ErrInvalidLink
          else if \<not> isMEGAHost (u_Hostname u) then Inl ErrInvalidLink
          else case unescape_parts unescape (split_on (CHR ''/'') (u_EscapedPath u)) of
            None \<Rightarrow> Inl ErrInvalidLink
          | Some pathParts \<Rightarrow>
              if length pathParts = 2 \<and> (pathParts ! 0 = ''file'' \<or> pathParts ! 0 = ''folder'')
              then parse_modern (if pathParts ! 0 = ''file'' then LinkKindFile else LinkKindFolder) (pathParts ! 1) (u_Fragment u)
              else if has_prefix (u_Fragment u) ''F!'' then parseLegacyLink LinkKindFolder (drop 2 (u_Fragment u))
              else if has_prefix (u_Fragment u) ''!'' then parseLegacyLink LinkKindFile (drop 1 (u_Fragment u))
              else Inl ErrInvalidLink)"

section \<open>Proof of work\<close>

record hashcashChallenge =
  easiness :: int
  token :: string

definition hashcashReplications :: nat where "hashcashReplications = 262144"

definition hashcashTokenSlot :: nat where "hashcashTokenSlot = 48"

definition parseHashcashChallenge :: "(string \<Rightarrow> bytes option) \<Rightarrow> string \<Rightarrow> hashcashChallenge option" where
  "parseHashcashChallenge b64 header =
     (let parts = split_on (CHR '':'') header in
      if length parts \<noteq> 4 \<or> parts ! 0 \<noteq> ''1'' then None
      else case parse_int (parts ! 1) of
        None \<Rightarrow> None
      | Some e \<Rightarrow>
          if e < 0 \<or> e > 255 \<or> parts ! 3 = [] then None
          else case b64 (parts ! 3) of
            None \<Rightarrow> None
          | Some t \<Rightarrow>
              if length t = 0 \<or> length t > hashcashTokenSlot then None
              else Some \<lparr>easiness = e, token = parts ! 3\<rparr>)"

definition hashcash_threshold :: "int \<Rightarrow> 32 word" where
  "hashcash_threshold e = word_of_int (push_bit (nat (drop_bit 6 e * 7 + 3)) (push_bit 1 (e AND 63) + 1))"

text \<open>\<^verbatim>\<open>copy\<close> of the padded token into one slot of a zeroed buffer: at most the slot is filled, and each copy is
  overwritten from the start of the next slot on. The token is at most one slot long.\<close>

definition token_slot :: "bytes \<Rightarrow> bytes" where
  "token_slot t =
     (let padded = (if length t mod 16 \<noteq> 0 then t @ replicate (16 - length t mod 16) 0 else t)
      in take hashcashTokenSlot (padded @ replicate hashcashTokenSlot 0))"

definition le_bytes32 :: "32 word \<Rightarrow> bytes" where
  "le_bytes32 w = map (\<lambda>i. ucast (drop_bit (8 * i) w)) [0, 1, 2, 3]"

definition hashcash_buffer :: "bytes \<Rightarrow> 32 word \<Rightarrow> bytes" where
  "hashcash_buffer t p = le_bytes32 p @ concat (replicate hashcashReplications (token_slot t))"

text \<open>The search of one worker; \<open>halted k\<close> tells whether the context is done in round \<open>k\<close>.\<close>

function hashcash_loop :: "(bytes \<Rightarrow> bytes) \<Rightarrow> bytes \<Rightarrow> 32 word \<Rightarrow> (nat \<Rightarrow> bool) \<Rightarrow> nat \<Rightarrow> 32 word \<Rightarrow> 32 word \<Rightarrow> bytes option" where
  "hashcash_loop sha t threshold halted k p stride =
     (if halted k then None
      else if be_uint32 (take 4 (sha (hashcash_buffer t p))) \<le> threshold then Some (le_bytes32 p)
      else if stride = 0 \<or> p + stride < p then None
      else hashcash_loop sha t threshold halted (k + 1) (p + stride) stride)"
  by pat_completeness auto
termination
proof (relation "measure (\<lambda>(_, _, _, _, _, p, _). 2 ^ 32 - unat p)")
  fix sha :: "bytes \<Rightarrow> bytes" and t threshold halted k and p stride :: "32 word"
  assume "\<not> (stride = 0 \<or> p + stride < p)"
  then have "p < p + stride" by (metis add_cancel_left_right linorder_neqE)
  then have "unat p < unat (p + stride)" "unat (p + stride) < 2 ^ 32" using unsigned_less [of "p + stride"] by (simp_all add: word_less_nat_alt)
  then show "((sha, t, threshold, halted, k + 1, p + stride, stride), sha, t, threshold, halted, k, p, stride)
      \<in> measure (\<lambda>(_, _, _, _, _, p, _). 2 ^ 32 - unat p)" by simp
qed simp

declare hashcash_loop.simps [simp del]

definition generateHashcash ::
  "(bytes \<Rightarrow> bytes) \<Rightarrow> (string \<Rightarrow> bytes option) \<Rightarrow> (bytes \<Rightarrow> string) \<Rightarrow> (nat \<Rightarrow> bool) \<Rightarrow> string \<Rightarrow> int \<Rightarrow> 32 word \<Rightarrow> 32 word \<Rightarrow> string" where
  "generateHashcash sha b64 enc halted tok e p stride =
     (if \<exists>c\<in>set tok. c \<in> {CHR ''+'', CHR ''/'', CHR ''=''} then []
      else case b64 tok of
        None \<Rightarrow> []
      | Some t \<Rightarrow>
          (case hashcash_loop sha t (hashcash_threshold e) halted 0 p (if stride = 0 then 1 else stride) of
             None \<Rightarrow> []
           | Some prefix_bytes \<Rightarrow> enc prefix_bytes))"

text \<open>\<^verbatim>\<open>solveHashcash\<close>: each of the (one or two) workers searches its own residue class; \<open>winner\<close> is the worker whose value
  the select receives, \<open>None\<close> when the context or its deadline ends first.\<close>

definition solveHashcash ::
  "(bytes \<Rightarrow> bytes) \<Rightarrow> (string \<Rightarrow> bytes option) \<Rightarrow> (bytes \<Rightarrow> string) \<Rightarrow> (nat \<Rightarrow> nat \<Rightarrow> bool) \<Rightarrow> nat \<Rightarrow> nat option \<Rightarrow> hashcashChallenge
     \<Rightarrow> mega_error + string" where
  "solveHashcash sha b64 enc halted procs winner ch =
     (let workers = (if procs div 2 < 1 then 1 else if procs div 2 > 2 then 2 else procs div 2)
      in case winner of
           None \<Rightarrow> Inl ErrContext
         | Some worker \<Rightarrow>
             if worker < workers then
               (let v = generateHashcash sha b64 enc (halted worker) (token ch) (easiness ch) (of_nat (worker + 1)) (of_nat workers)
                in if v \<noteq> [] then Inr v else Inl ErrContext)
             else Inl ErrContext)"

definition hashcashHeader :: "hashcashChallenge \<Rightarrow> string \<Rightarrow> string" where
  "hashcashHeader ch solution = ''1:'' @ token ch @ '':'' @ solution"

section \<open>Commands\<close>

datatype json = JNull | JBool bool | JNumber string | JString string | JArray "json list" | JObject "(string \<times> json) list"

type_synonym json_object = "(string \<times> json) list"

text \<open>\<^verbatim>\<open>value.(string)\<close> and \<^verbatim>\<open>numberValue\<close> of a map entry; a missing key reads as \<^verbatim>\<open>nil\<close>. Responses hold their numbers
  as \<^verbatim>\<open>json.Number\<close>, the only numeric case that occurs.\<close>

definition stringValue :: "json option \<Rightarrow> string" where
  "stringValue v = (case v of Some (JString s) \<Rightarrow> s | _ \<Rightarrow> [])"

definition numberValue :: "json option \<Rightarrow> int option" where
  "numberValue v = (case v of Some (JNumber n) \<Rightarrow> parse_int n | _ \<Rightarrow> None)"

definition is_nil :: "json option \<Rightarrow> bool" where
  "is_nil v \<longleftrightarrow> v = None \<or> v = Some JNull"

definition firstObject :: "json list \<Rightarrow> mega_error + json_object" where
  "firstObject result = (case result of [] \<Rightarrow> Inl ErrInvalidLink | JObject o1 # _ \<Rightarrow> Inr o1 | _ \<Rightarrow> Inl ErrInvalidLink)"

definition attributeStrings :: "json_object \<Rightarrow> (string \<times> string) list" where
  "attributeStrings attributes = concat (map (\<lambda>(k, v). case v of JString s \<Rightarrow> [(k, s)] | _ \<Rightarrow> []) attributes)"

record api_request =
  rq_id :: "64 word"
  rq_folder :: string
  rq_session :: string
  rq_payload :: "json list"
  rq_hashcash :: "string option"

text \<open>What one HTTP exchange yields: a transport error (and whether the context is done), or status, the \<^verbatim>\<open>X-Hashcash\<close>
  header, the decoded body and whether closing it succeeds.\<close>

datatype exchange = Transport_error bool | Answer nat string "json list option" bool

record client =
  cl_session :: string
  cl_sequence :: "64 word"
  cl_sent :: "api_request list"

definition WithSession :: "string \<Rightarrow> client \<Rightarrow> client" where
  "WithSession session c = \<lparr>cl_session = session, cl_sequence = 0, cl_sent = []\<rparr>"

fun command_loop ::
  "(string \<Rightarrow> bytes option) \<Rightarrow> (hashcashChallenge \<Rightarrow> mega_error + string) \<Rightarrow> (api_request list \<Rightarrow> exchange) \<Rightarrow> json list \<Rightarrow> string \<Rightarrow> bool
     \<Rightarrow> nat \<Rightarrow> (hashcashChallenge \<times> string) option \<Rightarrow> client \<Rightarrow> (mega_error + json list) \<times> client" where
  "command_loop b64 solve net payload folder allow 0 ch c = (Inl ErrRequestFailed, c)"
| "command_loop b64 solve net payload folder allow (Suc n) ch c =
     (let rq = \<lparr>rq_id = cl_sequence c, rq_folder = folder, rq_session = cl_session c, rq_payload = payload,
                rq_hashcash = map_option (\<lambda>(p, s). hashcashHeader p s) ch\<rparr>;
          c1 = c\<lparr>cl_sent := cl_sent c @ [rq]\<rparr>
      in case net (cl_sent c1) of
           Transport_error ctx_done \<Rightarrow> (Inl (if ctx_done then ErrContext else ErrRequestFailed), c1)
         | Answer status header decoded closed \<Rightarrow>
             if status = 402 \<and> allow \<and> ch = None then
               (case parseHashcashChallenge b64 header of
                  None \<Rightarrow> (Inl ErrHashcash, c1)
                | Some parsed \<Rightarrow>
                    (case solve parsed of
                       Inl e \<Rightarrow> (Inl e, c1)
                     | Inr cash \<Rightarrow> command_loop b64 solve net payload folder allow n (Some (parsed, cash)) c1))
             else if status < 200 \<or> status \<ge> 300 then
               (Inl (if cl_session c \<noteq> [] \<and> (status = 401 \<or> status = 403) then ErrSessionRejected else APIHTTPError status), c1)
             else
               (case decoded of
                  None \<Rightarrow> (Inl ErrResponse, c1)
                | Some result \<Rightarrow>
                    if \<not> closed then (Inl ErrResponse, c1)
                    else (case result of
                            [] \<Rightarrow> (Inl ErrInvalidLink, c1)
                          | first # _ \<Rightarrow>
                              (case numberValue (Some first) of
                                 Some code \<Rightarrow>
                                   if code < 0 then (Inl (if code = - 26 then ErrMFAUnsupported else APIError code), c1)
                                   else (Inr result, c1)
                               | None \<Rightarrow> (Inr result, c1)))))"

definition doCommand ::
  "(string \<Rightarrow> bytes option) \<Rightarrow> (hashcashChallenge \<Rightarrow> mega_error + string) \<Rightarrow> (api_request list \<Rightarrow> exchange) \<Rightarrow> json list \<Rightarrow> string \<Rightarrow> bool
     \<Rightarrow> client \<Rightarrow> (mega_error + json list) \<times> client" where
  "doCommand b64 solve net payload folder allow c =
     command_loop b64 solve net payload folder allow 2 None (c\<lparr>cl_sequence := cl_sequence c + 1\<rparr>)"

text \<open>The part of the client the resolvers call: \<^verbatim>\<open>command\<close> with everything but payload and folder handle fixed.\<close>

type_synonym commander = "json list \<Rightarrow> string \<Rightarrow> client \<Rightarrow> (mega_error + json list) \<times> client"

definition command :: "(string \<Rightarrow> bytes option) \<Rightarrow> (hashcashChallenge \<Rightarrow> mega_error + string) \<Rightarrow> (api_request list \<Rightarrow> exchange) \<Rightarrow> commander" where
  "command b64 solve net payload folder c = doCommand b64 solve net payload folder True c"

definition payloadFromCommand :: "commander \<Rightarrow> json \<Rightarrow> string \<Rightarrow> client \<Rightarrow> (mega_error + string) \<times> client" where
  "payloadFromCommand cmd request folder c =
     (case cmd [request] folder c of
        (Inl e, c1) \<Rightarrow> (Inl e, c1)
      | (Inr response, c1) \<Rightarrow>
          (case firstObject response of
             Inl e \<Rightarrow> (Inl e, c1)
           | Inr o1 \<Rightarrow> (if stringValue (map_of o1 ''g'') = [] then Inl ErrInvalidLink else Inr (stringValue (map_of o1 ''g'')), c1)))"

definition payloadURL :: "commander \<Rightarrow> string \<Rightarrow> string \<Rightarrow> client \<Rightarrow> (mega_error + string) \<times> client" where
  "payloadURL cmd nodeHandle folder =
     payloadFromCommand cmd (JObject [(''a'', JString ''g''), (''g'', JNumber ''1''), (''n'', JString nodeHandle)]) folder"

definition RefreshPayloadURL :: "commander \<Rightarrow> PublicLink \<Rightarrow> string \<Rightarrow> client \<Rightarrow> (mega_error + string) \<times> client" where
  "RefreshPayloadURL cmd link nodeID =
     (if pl_Kind link = LinkKindFile
      then payloadFromCommand cmd (JObject [(''a'', JString ''g''), (''g'', JNumber ''1''), (''p'', JString (pl_Handle link))]) []
      else payloadFromCommand cmd (JObject [(''a'', JString ''g''), (''g'', JNumber ''1''), (''n'', JString nodeID)]) (pl_Handle link))"

section \<open>Folder listings\<close>

record folderNode =
  fn_Handle :: string
  fn_Parent :: string
  fn_Kind :: int
  fn_Size :: int
  fn_Name :: string
  fn_Attributes :: "(string \<times> string) list"
  fn_NodeKey :: NodeKey
  fn_FileKey :: FileKey

definition zero_FileKey :: FileKey where
  "zero_FileKey = \<lparr>Raw = replicate 32 0, AESKey = replicate 16 0, Nonce = replicate 8 0, MetaMAC = replicate 8 0\<rparr>"

definition zero_NodeKey :: NodeKey where
  "zero_NodeKey = \<lparr>node_Raw = [], node_AESKey = replicate 16 0\<rparr>"

fun key_of_owner :: "string list \<Rightarrow> string \<Rightarrow> string option" where
  "key_of_owner [] owner = None"
| "key_of_owner (candidate # rest) owner =
     (case cut_at (CHR '':'') candidate of
        Some (candidateOwner, key) \<Rightarrow> if candidateOwner = owner then Some key else key_of_owner rest owner
      | None \<Rightarrow> key_of_owner rest owner)"

definition hasNodeKeyOwner :: "json option \<Rightarrow> string \<Rightarrow> bool" where
  "hasNodeKeyOwner v owner =
     (case v of Some (JString encoded) \<Rightarrow> key_of_owner (split_on (CHR ''/'') encoded) owner \<noteq> None | _ \<Rightarrow> False)"

definition extractNodeKey :: "json option \<Rightarrow> string \<Rightarrow> string" where
  "extractNodeKey v ownerHandle =
     (case v of
        Some (JString encoded) \<Rightarrow>
          if encoded = [] then []
          else (case key_of_owner (split_on (CHR ''/'') encoded) ownerHandle of Some key \<Rightarrow> key | None \<Rightarrow> [])
      | _ \<Rightarrow> [])"

text \<open>The two loops of \<^verbatim>\<open>publicFolderRootHandle\<close>. The second casts every item to an object; it only runs when the
  first has seen that all of them are.\<close>

fun owned_root :: "json list \<Rightarrow> mega_error + string option" where
  "owned_root [] = Inr None"
| "owned_root (JObject o1 # items) =
     (let handle = stringValue (map_of o1 ''h'') in
      if handle \<noteq> [] \<and> hasNodeKeyOwner (map_of o1 ''k'') handle then Inr (Some handle) else owned_root items)"
| "owned_root (_ # items) = Inl ErrInvalidLink"

fun keyless_root :: "json list \<Rightarrow> string \<Rightarrow> bool" where
  "keyless_root [] publicHandle = False"
| "keyless_root (JObject o1 # items) publicHandle =
     (stringValue (map_of o1 ''h'') = publicHandle \<and> is_nil (map_of o1 ''k'') \<or> keyless_root items publicHandle)"
| "keyless_root (_ # items) publicHandle = False"

definition publicFolderRootHandle :: "json list \<Rightarrow> string \<Rightarrow> mega_error + string" where
  "publicFolderRootHandle items publicHandle =
     (case owned_root items of
        Inl e \<Rightarrow> Inl e
      | Inr (Some handle) \<Rightarrow> Inr handle
      | Inr None \<Rightarrow> if keyless_root items publicHandle then Inr publicHandle else Inl ErrInvalidLink)"

text \<open>The key of a node: the link's own key for a key-less root, else the decrypted key of the root's owner.\<close>

definition node_keys ::
  "(bytes \<Rightarrow> bytes \<Rightarrow> bytes) \<Rightarrow> (string \<Rightarrow> bytes option) \<Rightarrow> json_object \<Rightarrow> string \<Rightarrow> NodeKey \<Rightarrow> string \<Rightarrow> int
     \<Rightarrow> mega_error + (NodeKey \<times> FileKey \<times> bytes)" where
  "node_keys D b64 o1 rootHandle masterKey handle kind =
     (if handle = rootHandle \<and> kind \<noteq> 0 \<and> is_nil (map_of o1 ''k'') then Inr (masterKey, zero_FileKey, node_AESKey masterKey)
      else
        (let encryptedKey = extractNodeKey (map_of o1 ''k'') rootHandle in
         if encryptedKey = [] then Inl ErrInvalidLink
         else case DecryptNodeKey D b64 encryptedKey masterKey of
           Inl e \<Rightarrow> Inl (ErrCrypto e)
         | Inr decrypted \<Rightarrow>
             if kind = 0 then
               (case decodeFileKeyBytes decrypted of Inl e \<Rightarrow> Inl (ErrCrypto e) | Inr fk \<Rightarrow> Inr (zero_NodeKey, fk, AESKey fk))
             else
               (case decodeNodeKeyBytes decrypted of Inl e \<Rightarrow> Inl (ErrCrypto e) | Inr nk \<Rightarrow> Inr (nk, zero_FileKey, node_AESKey nk))))"

definition decodeFolderNode ::
  "(bytes \<Rightarrow> bytes \<Rightarrow> bytes) \<Rightarrow> (string \<Rightarrow> bytes option) \<Rightarrow> (bytes \<Rightarrow> json_object option) \<Rightarrow> json_object \<Rightarrow> string \<Rightarrow> NodeKey
     \<Rightarrow> mega_error + folderNode" where
  "decodeFolderNode D b64 unmarshal o1 rootHandle masterKey =
     (let handle = stringValue (map_of o1 ''h'') in
      if handle = [] then Inl ErrInvalidLink
      else case numberValue (map_of o1 ''t'') of
        None \<Rightarrow> Inl ErrInvalidLink
      | Some kind \<Rightarrow>
          (case (case map_of o1 ''s'' of None \<Rightarrow> Some 0 | Some rawSize \<Rightarrow> numberValue (Some rawSize)) of
             None \<Rightarrow> Inl ErrInvalidLink
           | Some sz \<Rightarrow>
               if sz < 0 then Inl ErrInvalidLink
               else case node_keys D b64 o1 rootHandle masterKey handle kind of
                 Inl e \<Rightarrow> Inl e
               | Inr (nk, fk, aesKey) \<Rightarrow>
                   (let node = \<lparr>fn_Handle = handle, fn_Parent = (if handle = rootHandle then [] else stringValue (map_of o1 ''p'')),
                                fn_Kind = kind, fn_Size = sz, fn_Name = handle, fn_Attributes = [], fn_NodeKey = nk, fn_FileKey = fk\<rparr>;
                        encodedAttributes = stringValue (map_of o1 ''a'')
                    in if encodedAttributes = [] then Inr node
                       else case DecryptAttributes D b64 unmarshal encodedAttributes aesKey of
                         Inl e \<Rightarrow> Inl (ErrCrypto e)
                       | Inr attributes \<Rightarrow>
                           (let texts = attributeStrings attributes;
                                name = (case map_of texts ''n'' of Some n \<Rightarrow> n | None \<Rightarrow> [])
                            in Inr (node\<lparr>fn_Attributes := texts, fn_Name := if name = [] then handle else name\<rparr>)))))"

fun decode_nodes ::
  "(bytes \<Rightarrow> bytes \<Rightarrow> bytes) \<Rightarrow> (string \<Rightarrow> bytes option) \<Rightarrow> (bytes \<Rightarrow> json_object option) \<Rightarrow> string \<Rightarrow> NodeKey \<Rightarrow> json list
     \<Rightarrow> mega_error + folderNode list" where
  "decode_nodes D b64 unmarshal rootHandle masterKey [] = Inr []"
| "decode_nodes D b64 unmarshal rootHandle masterKey (raw # items) =
     (case raw of
        JObject o1 \<Rightarrow>
          (case decodeFolderNode D b64 unmarshal o1 rootHandle masterKey of
             Inl e \<Rightarrow> Inl e
           | Inr node \<Rightarrow>
               (case decode_nodes D b64 unmarshal rootHandle masterKey items of Inl e \<Rightarrow> Inl e | Inr nodes \<Rightarrow> Inr (node # nodes)))
      | _ \<Rightarrow> Inl ErrInvalidLink)"

section \<open>Walking up\<close>

text \<open>\<^verbatim>\<open>byHandle\<close>: of nodes with equal handles the last one wins.\<close>

definition byHandle :: "folderNode list \<Rightarrow> string \<Rightarrow> folderNode option" where
  "byHandle nodes h = (if h = [] then None else find (\<lambda>n. fn_Handle n = h) (rev nodes))"

abbreviation handles :: "folderNode list \<Rightarrow> string set" where
  "handles nodes \<equiv> fn_Handle ` set nodes"

lemma byHandle_SomeD: "byHandle nodes h = Some n \<Longrightarrow> n \<in> set nodes \<and> fn_Handle n = h \<and> h \<noteq> []"
  by (auto simp: byHandle_def find_Some_iff in_set_conv_nth rev_nth split: if_splits) (metis Suc_leI diff_less less_le_trans zero_less_Suc)

function path_loop :: "folderNode list \<Rightarrow> folderNode option \<Rightarrow> string \<Rightarrow> string list \<Rightarrow> string list \<Rightarrow> mega_error + string list" where
  "path_loop nodes selectedRoot parent seen parts =
     (if parent = [] then Inr parts
      else if parent \<in> set seen then Inl ErrInvalidLink
      else case byHandle nodes parent of
        None \<Rightarrow> Inl ErrInvalidLink
      | Some parentNode \<Rightarrow>
          if (case selectedRoot of None \<Rightarrow> False | Some s \<Rightarrow> fn_Handle parentNode = fn_Handle s) then Inr (parts @ [fn_Name parentNode])
          else path_loop nodes selectedRoot (fn_Parent parentNode) (parent # seen) (parts @ [fn_Name parentNode]))"
  by pat_completeness auto
termination
proof (relation "measure (\<lambda>(nodes, _, _, seen, _). card (handles nodes - set seen))")
  fix nodes :: "folderNode list" and sel parent and seen parts :: "string list" and p
  assume "parent \<notin> set seen" "byHandle nodes parent = Some p"
  then have "handles nodes - set (parent # seen) \<subset> handles nodes - set seen" using byHandle_SomeD [of nodes parent p] by auto
  then have "card (handles nodes - set (parent # seen)) < card (handles nodes - set seen)" by (intro psubset_card_mono) auto
  then show "((nodes, sel, fn_Parent p, parent # seen, parts @ [fn_Name p]), nodes, sel, parent, seen, parts)
      \<in> measure (\<lambda>(nodes, _, _, seen, _). card (handles nodes - set seen))" by simp
qed simp

declare path_loop.simps [simp del]

definition folderNodePathFrom :: "folderNode list \<Rightarrow> folderNode option \<Rightarrow> folderNode \<Rightarrow> mega_error + string" where
  "folderNodePathFrom nodes selectedRoot node =
     (if (case selectedRoot of None \<Rightarrow> False | Some s \<Rightarrow> fn_Handle node = fn_Handle s) then Inr (fn_Name node)
      else case path_loop nodes selectedRoot (fn_Parent node) [fn_Handle node] [fn_Name node] of
        Inl e \<Rightarrow> Inl e
      | Inr parts \<Rightarrow> Inr (join_with (CHR ''/'') (rev parts)))"

function within_loop :: "folderNode list \<Rightarrow> string \<Rightarrow> string list \<Rightarrow> folderNode \<Rightarrow> bool" where
  "within_loop nodes selected seen current =
     (if fn_Handle current = selected then True
      else if fn_Handle current \<in> set seen then False
      else if fn_Parent current = [] then False
      else case byHandle nodes (fn_Parent current) of
        None \<Rightarrow> False
      | Some up \<Rightarrow> within_loop nodes selected (fn_Handle current # seen) up)"
  by pat_completeness auto
termination
proof (relation "measure (\<lambda>(nodes, _, seen, n). card (handles nodes - set seen) + (if fn_Handle n \<in> handles nodes then 0 else 1))")
  fix nodes :: "folderNode list" and sel and seen :: "string list" and n up :: folderNode
  assume a: "fn_Handle n \<notin> set seen" "byHandle nodes (fn_Parent n) = Some up"
  have "card (handles nodes - set (fn_Handle n # seen)) < card (handles nodes - set seen)" if "fn_Handle n \<in> handles nodes"
    using that a(1) by (intro psubset_card_mono) auto
  moreover have "card (handles nodes - set (fn_Handle n # seen)) \<le> card (handles nodes - set seen)" by (intro card_mono) auto
  moreover have "fn_Handle up \<in> handles nodes" using byHandle_SomeD [OF a(2)] by blast
  ultimately show "((nodes, sel, fn_Handle n # seen, up), nodes, sel, seen, n)
      \<in> measure (\<lambda>(nodes, _, seen, n). card (handles nodes - set seen) + (if fn_Handle n \<in> handles nodes then 0 else 1))" by auto
qed simp

declare within_loop.simps [simp del]

definition nodeIsWithinSelection :: "folderNode list \<Rightarrow> folderNode \<Rightarrow> folderNode \<Rightarrow> bool" where
  "nodeIsWithinSelection nodes node selected = within_loop nodes (fn_Handle selected) [] node"

section \<open>Resolving links\<close>

record ResolvedFile =
  rf_NodeID :: string
  rf_RelativePath :: string
  rf_Size :: int
  rf_FileKey :: bytes
  rf_Attributes :: "(string \<times> string) list"
  rf_Key :: FileKey
  rf_PayloadURL :: string
  rf_PayloadContext :: string

record ResolvedJob =
  rj_Kind :: LinkKind
  rj_DisplayName :: string
  rj_TotalBytes :: int
  rj_Files :: "ResolvedFile list"

definition fileFromMetadata ::
  "(bytes \<Rightarrow> bytes \<Rightarrow> bytes) \<Rightarrow> (string \<Rightarrow> bytes option) \<Rightarrow> (bytes \<Rightarrow> json_object option) \<Rightarrow> json_object \<Rightarrow> string \<Rightarrow> string \<Rightarrow> FileKey
     \<Rightarrow> mega_error + ResolvedFile" where
  "fileFromMetadata D b64 unmarshal o1 handle folderHandle key =
     (case numberValue (map_of o1 ''s'') of
        None \<Rightarrow> Inl ErrInvalidLink
      | Some sz \<Rightarrow>
          if sz < 0 then Inl ErrInvalidLink
          else if stringValue (map_of o1 ''at'') = [] then Inl ErrInvalidLink
          else case DecryptAttributes D b64 unmarshal (stringValue (map_of o1 ''at'')) (AESKey key) of
            Inl e \<Rightarrow> Inl (ErrCrypto e)
          | Inr attributes \<Rightarrow>
              if stringValue (map_of o1 ''g'') = [] then Inl ErrInvalidLink
              else
                (let name = stringValue (map_of attributes ''n'') in
                 Inr \<lparr>rf_NodeID = handle, rf_RelativePath = (if name = [] then handle else name), rf_Size = sz, rf_FileKey = Raw key,
                      rf_Attributes = attributeStrings attributes, rf_Key = key, rf_PayloadURL = stringValue (map_of o1 ''g''),
                      rf_PayloadContext = folderHandle\<rparr>))"

definition resolveFile ::
  "(bytes \<Rightarrow> bytes \<Rightarrow> bytes) \<Rightarrow> (string \<Rightarrow> bytes option) \<Rightarrow> (bytes \<Rightarrow> json_object option) \<Rightarrow> commander \<Rightarrow> PublicLink \<Rightarrow> client
     \<Rightarrow> (mega_error + ResolvedFile) \<times> client" where
  "resolveFile D b64 unmarshal cmd link c =
     (case DecodeFileKey b64 (pl_Key link) of
        Inl e \<Rightarrow> (Inl (ErrCrypto e), c)
      | Inr key \<Rightarrow>
          (case cmd [JObject [(''a'', JString ''g''), (''g'', JNumber ''1''), (''p'', JString (pl_Handle link))]] [] c of
             (Inl e, c1) \<Rightarrow> (Inl e, c1)
           | (Inr response, c1) \<Rightarrow>
               (case firstObject response of
                  Inl e \<Rightarrow> (Inl e, c1)
                | Inr o1 \<Rightarrow> (fileFromMetadata D b64 unmarshal o1 (pl_Handle link) [] key, c1))))"

definition resolved_entry :: "folderNode \<Rightarrow> string \<Rightarrow> string \<Rightarrow> string \<Rightarrow> ResolvedFile" where
  "resolved_entry node relativePath payload folder =
     \<lparr>rf_NodeID = fn_Handle node, rf_RelativePath = relativePath, rf_Size = fn_Size node, rf_FileKey = Raw (fn_FileKey node),
      rf_Attributes = fn_Attributes node, rf_Key = fn_FileKey node, rf_PayloadURL = payload, rf_PayloadContext = folder\<rparr>"

text \<open>The loop over the nodes: \<open>pending\<close> is the rest of the listing, \<open>files\<close> and \<open>total_bytes\<close> what has been collected.\<close>

fun collect_files ::
  "commander \<Rightarrow> string \<Rightarrow> folderNode list \<Rightarrow> folderNode option \<Rightarrow> folderNode list \<Rightarrow> ResolvedFile list \<Rightarrow> int \<Rightarrow> client
     \<Rightarrow> (mega_error + ResolvedFile list \<times> int) \<times> client" where
  "collect_files cmd folder nodes selectedRoot [] files total_bytes c = (Inr (files, total_bytes), c)"
| "collect_files cmd folder nodes selectedRoot (node # pending) files total_bytes c =
     (if fn_Kind node \<noteq> 0 then collect_files cmd folder nodes selectedRoot pending files total_bytes c
      else if (case selectedRoot of None \<Rightarrow> False | Some s \<Rightarrow> \<not> nodeIsWithinSelection nodes node s)
        then collect_files cmd folder nodes selectedRoot pending files total_bytes c
      else if fn_Size node < 0 then (Inl ErrInvalidLink, c)
      else if total_bytes > i64 (max_int64 - fn_Size node) then (Inl ErrInvalidLink, c)
      else case folderNodePathFrom nodes selectedRoot node of
        Inl e \<Rightarrow> (Inl e, c)
      | Inr relativePath \<Rightarrow>
          (case payloadURL cmd (fn_Handle node) folder c of
             (Inl e, c1) \<Rightarrow> (Inl e, c1)
           | (Inr payload, c1) \<Rightarrow>
               collect_files cmd folder nodes selectedRoot pending (files @ [resolved_entry node relativePath payload folder])
                 (i64 (total_bytes + fn_Size node)) c1))"

text \<open>The node a link selects: none when it selects nothing.\<close>

definition selected_root :: "folderNode list \<Rightarrow> PublicLink \<Rightarrow> mega_error + folderNode option" where
  "selected_root nodes link =
     (if pl_SelectedNode link \<noteq> [] \<and> byHandle nodes (pl_SelectedNode link) = None then Inl ErrInvalidLink
      else Inr (byHandle nodes (pl_SelectedNode link)))"

definition folder_listing ::
  "(bytes \<Rightarrow> bytes \<Rightarrow> bytes) \<Rightarrow> (string \<Rightarrow> bytes option) \<Rightarrow> (bytes \<Rightarrow> json_object option) \<Rightarrow> NodeKey \<Rightarrow> PublicLink \<Rightarrow> json list
     \<Rightarrow> mega_error + string \<times> folderNode list" where
  "folder_listing D b64 unmarshal masterKey link response =
     (case firstObject response of
        Inl e \<Rightarrow> Inl e
      | Inr o1 \<Rightarrow>
          (case map_of o1 ''f'' of
             Some (JArray items) \<Rightarrow>
               (case publicFolderRootHandle items (pl_Handle link) of
                  Inl e \<Rightarrow> Inl e
                | Inr rootHandle \<Rightarrow>
                    (case decode_nodes D b64 unmarshal rootHandle masterKey items of
                       Inl e \<Rightarrow> Inl e
                     | Inr nodes \<Rightarrow> Inr (rootHandle, nodes)))
           | _ \<Rightarrow> Inl ErrInvalidLink))"

definition resolveFolder ::
  "(bytes \<Rightarrow> bytes \<Rightarrow> bytes) \<Rightarrow> (string \<Rightarrow> bytes option) \<Rightarrow> (bytes \<Rightarrow> json_object option) \<Rightarrow> commander \<Rightarrow> PublicLink \<Rightarrow> client
     \<Rightarrow> (mega_error + ResolvedJob) \<times> client" where
  "resolveFolder D b64 unmarshal cmd link c =
     (case DecodeNodeKey b64 (pl_Key link) of
        Inl e \<Rightarrow> (Inl (ErrCrypto e), c)
      | Inr masterKey \<Rightarrow>
          (case cmd [JObject [(''a'', JString ''f''), (''c'', JNumber ''1''), (''r'', JNumber ''1''), (''ca'', JNumber ''1'')]] (pl_Handle link) c of
             (Inl e, c1) \<Rightarrow> (Inl e, c1)
           | (Inr response, c1) \<Rightarrow>
               (case folder_listing D b64 unmarshal masterKey link response of
                  Inl e \<Rightarrow> (Inl e, c1)
                | Inr (rootHandle, nodes) \<Rightarrow>
                    (case selected_root nodes link of
                       Inl e \<Rightarrow> (Inl e, c1)
                     | Inr selectedRoot \<Rightarrow>
                         (let rootName = (case selectedRoot of
                                            Some s \<Rightarrow> fn_Name s
                                          | None \<Rightarrow>
                                              (case byHandle nodes rootHandle of
                                                 Some r \<Rightarrow> if fn_Name r \<noteq> [] then fn_Name r else rootHandle
                                               | None \<Rightarrow> rootHandle))
                          in case collect_files cmd (pl_Handle link) nodes selectedRoot nodes [] 0 c1 of
                               (Inl e, c2) \<Rightarrow> (Inl e, c2)
                             | (Inr (files, total_bytes), c2) \<Rightarrow>
                                 if files = [] then (Inl ErrInvalidLink, c2)
                                 else (Inr \<lparr>rj_Kind = LinkKindFolder, rj_DisplayName = rootName, rj_TotalBytes = total_bytes, rj_Files = files\<rparr>, c2))))))"

definition ResolveLink ::
  "(string \<Rightarrow> url option) \<Rightarrow> (string \<Rightarrow> string option) \<Rightarrow> (bytes \<Rightarrow> bytes \<Rightarrow> bytes) \<Rightarrow> (string \<Rightarrow> bytes option) \<Rightarrow> (bytes \<Rightarrow> json_object option)
     \<Rightarrow> commander \<Rightarrow> string \<Rightarrow> client \<Rightarrow> (mega_error + ResolvedJob) \<times> client" where
  "ResolveLink parse unescape D b64 unmarshal cmd rawURL c =
     (case ParseLink parse unescape rawURL of
        Inl e \<Rightarrow> (Inl e, c)
      | Inr link \<Rightarrow>
          if pl_Kind link = LinkKindFile then
            (case resolveFile D b64 unmarshal cmd link c of
               (Inl e, c1) \<Rightarrow> (Inl e, c1)
             | (Inr f, c1) \<Rightarrow>
                 (Inr \<lparr>rj_Kind = LinkKindFile, rj_DisplayName = rf_RelativePath f, rj_TotalBytes = rf_Size f, rj_Files = [f]\<rparr>, c1))
          else resolveFolder D b64 unmarshal cmd link c)"

end
