(* ===== verification/MegaResolve.thy ===== *)
theory MegaResolve
  imports MegaClient
begin

text \<open>
  What the public-link client guarantees: an accepted link is well-formed, the walk up a folder listing always ends and
  finds the one way to the top (or to the selected node), a resolved folder holds exactly the selected files under
  their full paths, and resolving sends a bounded number of requests, all with the session of the client.
\<close>

section \<open>The way up\<close>

text \<open>The nodes from \<open>n\<close> up to the top of the share, or to the selected node.\<close>

definition is_selected :: "folderNode option \<Rightarrow> folderNode \<Rightarrow> bool" where
  "is_selected sel n \<longleftrightarrow> (case sel of None \<Rightarrow> False | Some s \<Rightarrow> fn_Handle n = fn_Handle s)"

inductive ancestry :: "folderNode list \<Rightarrow> folderNode option \<Rightarrow> folderNode \<Rightarrow> folderNode list \<Rightarrow> bool" for nodes sel where
  selected: "is_selected sel n \<Longrightarrow> ancestry nodes sel n [n]"
| top: "\<not> is_selected sel n \<Longrightarrow> fn_Parent n = [] \<Longrightarrow> ancestry nodes sel n [n]"
| up: "\<not> is_selected sel n \<Longrightarrow> byHandle nodes (fn_Parent n) = Some p \<Longrightarrow> ancestry nodes sel p ns \<Longrightarrow> ancestry nodes sel n (n # ns)"

inductive_cases ancestryE: "ancestry nodes sel n ns"

lemma byHandle_Nil [simp]: "byHandle nodes [] = None"
  by (simp add: byHandle_def)

lemma ancestry_nonempty: "ancestry nodes sel n ns \<Longrightarrow> ns \<noteq> [] \<and> hd ns = n"
  by (induction rule: ancestry.induct) simp_all

lemma ancestry_unique: "ancestry nodes sel n ns \<Longrightarrow> ancestry nodes sel n ms \<Longrightarrow> ms = ns"
proof (induction arbitrary: ms rule: ancestry.induct)
  case (selected n)
  then show ?case by (auto elim: ancestryE)
next
  case (top n)
  then show ?case by (auto elim: ancestryE)
next
  case (up n p ns)
  from up.prems obtain q qs where "ms = n # qs" "byHandle nodes (fn_Parent n) = Some q" "ancestry nodes sel q qs"
  proof (rule ancestryE)
    assume "fn_Parent n = []"
    then show ?thesis using up.hyps(2) by simp
  qed (use up.hyps(1) in blast)+
  then show ?case using up.hyps(2) up.IH [of qs] by simp
qed

lemma ancestry_suffix: "ancestry nodes sel n ns \<Longrightarrow> i < length ns \<Longrightarrow> ancestry nodes sel (ns ! i) (drop i ns)"
proof (induction arbitrary: i rule: ancestry.induct)
  case (up n p ns)
  then show ?case by (cases i) (auto intro: ancestry.up)
qed (auto intro: ancestry.intros)

lemma ancestry_known: "ancestry nodes sel n ns \<Longrightarrow> m \<in> set (tl ns) \<Longrightarrow> byHandle nodes (fn_Handle m) = Some m"
proof (induction rule: ancestry.induct)
  case (up n p ns)
  have "byHandle nodes (fn_Handle p) = Some p" using byHandle_SomeD [OF up.hyps(2)] up.hyps(2) by simp
  moreover have "ns \<noteq> []" "hd ns = p" using ancestry_nonempty [OF up.hyps(3)] by simp_all
  then have "m = p \<or> m \<in> set (tl ns)" using up.prems by (cases ns) auto
  ultimately show ?case using up.IH by blast
qed auto

text \<open>The own entry of a node, when no other node has its handle.\<close>

lemma byHandle_self:
  assumes "distinct (map fn_Handle nodes)" and "n \<in> set nodes" and "fn_Handle n \<noteq> []"
  shows "byHandle nodes (fn_Handle n) = Some n"
proof -
  have "find (\<lambda>k. fn_Handle k = fn_Handle n) (rev nodes) \<noteq> None" using assms(2) by (auto simp: find_None_iff)
  then obtain m where m: "byHandle nodes (fn_Handle n) = Some m" using assms(3) by (auto simp: byHandle_def)
  then have "m \<in> set nodes" "fn_Handle m = fn_Handle n" using byHandle_SomeD by blast+
  then show ?thesis using m assms by (metis distinct_map inj_on_def)
qed

lemma ancestry_distinct:
  assumes a: "ancestry nodes sel n ns" and n: "byHandle nodes (fn_Handle n) = Some n"
  shows "distinct (map fn_Handle ns)"
proof -
  have known: "byHandle nodes (fn_Handle m) = Some m" if "m \<in> set ns" for m
  proof -
    have "ns = n # tl ns" using ancestry_nonempty [OF a] by (metis list.collapse)
    then have "m = n \<or> m \<in> set (tl ns)" using that by (metis set_ConsD)
    then show ?thesis using n ancestry_known [OF a] by blast
  qed
  have False if "i < j" "j < length ns" "fn_Handle (ns ! i) = fn_Handle (ns ! j)" for i j
  proof -
    have "ns ! i \<in> set ns" "ns ! j \<in> set ns" using that(1,2) by simp_all
    from this [THEN known] have "ns ! i = ns ! j" unfolding that(3) by simp
    moreover have "ancestry nodes sel (ns ! i) (drop i ns)" "ancestry nodes sel (ns ! j) (drop j ns)"
      using ancestry_suffix [OF a] that by simp_all
    ultimately have "length (drop i ns) = length (drop j ns)" using ancestry_unique by metis
    then show False using that by simp
  qed
  then show ?thesis by (auto simp: distinct_conv_nth) (metis linorder_neqE_nat)
qed

section \<open>The loops follow the way up\<close>

lemma path_loop_sound:
  assumes "path_loop nodes sel parent seen parts = Inr parts'"
  shows "parent = [] \<and> parts' = parts \<or>
    (\<exists>p ns. byHandle nodes parent = Some p \<and> ancestry nodes sel p ns \<and> parts' = parts @ map fn_Name ns)"
  using assms
proof (induction nodes sel parent seen parts rule: path_loop.induct)
  case (1 nodes sel parent seen parts)
  note run = 1(2) [unfolded path_loop.simps [of nodes sel parent seen parts]]
  show ?case
  proof (cases "parent = []")
    case True
    then show ?thesis using run by simp
  next
    case False
    then obtain p where p: "parent \<notin> set seen" "byHandle nodes parent = Some p" using run by (auto split: if_splits option.splits)
    show ?thesis
    proof (cases "is_selected sel p")
      case True
      then have "parts' = parts @ map fn_Name [p]" using run False p by (auto simp: is_selected_def split: option.splits)
      then show ?thesis using p ancestry.selected [OF True, of nodes] by blast
    next
      case ns: False
      then have go: "path_loop nodes sel (fn_Parent p) (parent # seen) (parts @ [fn_Name p]) = Inr parts'"
        using run False p by (auto simp: is_selected_def split: option.splits)
      have "\<not> (case sel of None \<Rightarrow> False | Some s \<Rightarrow> fn_Handle p = fn_Handle s)" using ns by (simp add: is_selected_def)
      from 1(1) [OF False p this go] consider "fn_Parent p = []" "parts' = parts @ [fn_Name p]"
        | q ms where "byHandle nodes (fn_Parent p) = Some q" "ancestry nodes sel q ms" "parts' = (parts @ [fn_Name p]) @ map fn_Name ms" by blast
      then show ?thesis
      proof cases
        case 1
        then have "parts' = parts @ map fn_Name [p]" by simp
        then show ?thesis using p ancestry.top [OF ns 1(1), of nodes] by blast
      next
        case (2 q ms)
        then show ?thesis using p ancestry.up [OF ns 2(1,2)] by fastforce
      qed
    qed
  qed
qed

lemma path_loop_complete:
  assumes "ancestry nodes sel p ns" and "byHandle nodes (fn_Handle p) = Some p" and "distinct (map fn_Handle ns)" and "fn_Handle ` set ns \<inter> set seen = {}"
  shows "path_loop nodes sel (fn_Handle p) seen parts = Inr (parts @ map fn_Name ns)"
  using assms
proof (induction arbitrary: seen parts rule: ancestry.induct)
  case (selected n)
  then show ?case using byHandle_SomeD [of nodes "fn_Handle n" n] by (simp add: path_loop.simps [of nodes sel "fn_Handle n"] is_selected_def)
next
  case (top n)
  then show ?case using byHandle_SomeD [of nodes "fn_Handle n" n]
    by (simp add: path_loop.simps [of nodes sel "fn_Handle n"] path_loop.simps [of nodes sel "[]"] is_selected_def)
next
  case (up n p ns)
  have p: "fn_Handle p = fn_Parent n" "byHandle nodes (fn_Handle p) = Some p" using byHandle_SomeD [OF up.hyps(2)] up.hyps(2) by auto
  have "path_loop nodes sel (fn_Handle p) (fn_Handle n # seen) (parts @ [fn_Name n]) = Inr ((parts @ [fn_Name n]) @ map fn_Name ns)"
    using up.prems by (intro up.IH p(2)) auto
  then show ?case using up.prems up.hyps(1) byHandle_SomeD [of nodes "fn_Handle n" n] p(1)
    by (simp add: path_loop.simps [of nodes sel "fn_Handle n"] is_selected_def)
qed

lemma folder_path_sound:
  assumes "folderNodePathFrom nodes sel n = Inr path"
  shows "\<exists>ns. ancestry nodes sel n ns \<and> path = join_with (CHR ''/'') (rev (map fn_Name ns))"
proof (cases "is_selected sel n")
  case True
  then have "path = fn_Name n" using assms by (simp add: folderNodePathFrom_def is_selected_def)
  then show ?thesis using ancestry.selected [OF True] by (intro exI [of _ "[n]"]) simp
next
  case False
  then obtain parts where l: "path_loop nodes sel (fn_Parent n) [fn_Handle n] [fn_Name n] = Inr parts" and p: "path = join_with (CHR ''/'') (rev parts)"
    using assms by (auto simp: folderNodePathFrom_def is_selected_def split: if_splits sum.splits)
  from path_loop_sound [OF l] consider "fn_Parent n = []" "parts = [fn_Name n]"
    | q ns where "byHandle nodes (fn_Parent n) = Some q" "ancestry nodes sel q ns" "parts = [fn_Name n] @ map fn_Name ns" by blast
  then show ?thesis
  proof cases
    case 1
    then show ?thesis using p ancestry.top [OF False] by (intro exI [of _ "[n]"]) simp
  next
    case (2 q ns)
    then show ?thesis using p ancestry.up [OF False 2(1,2)] by (intro exI [of _ "n # ns"]) simp
  qed
qed

lemma folder_path_complete:
  assumes a: "ancestry nodes sel n ns" and n: "byHandle nodes (fn_Handle n) = Some n"
  shows "folderNodePathFrom nodes sel n = Inr (join_with (CHR ''/'') (rev (map fn_Name ns)))"
  using a
proof (cases rule: ancestry.cases)
  case selected
  then show ?thesis by (simp add: folderNodePathFrom_def is_selected_def)
next
  case top
  then show ?thesis by (simp add: folderNodePathFrom_def is_selected_def path_loop.simps [of nodes sel "[]"])
next
  case (up p ms)
  have d: "distinct (map fn_Handle ns)" by (rule ancestry_distinct [OF a n])
  have "byHandle nodes (fn_Handle p) = Some p" "fn_Handle p = fn_Parent n" using byHandle_SomeD [OF up(3)] up(3) by auto
  then have "path_loop nodes sel (fn_Parent n) [fn_Handle n] [fn_Name n] = Inr ([fn_Name n] @ map fn_Name ms)"
    using path_loop_complete [OF up(4), of "[fn_Handle n]" "[fn_Name n]"] d up(1) by auto
  then show ?thesis using up(1,2) by (simp add: folderNodePathFrom_def is_selected_def)
qed

text \<open>A node is in the selection when its way up ends at the selected node.\<close>

definition in_selection :: "folderNode list \<Rightarrow> folderNode option \<Rightarrow> folderNode \<Rightarrow> bool" where
  "in_selection nodes sel n \<longleftrightarrow> sel = None \<or> (\<exists>ns. ancestry nodes sel n ns \<and> is_selected sel (last ns))"

lemma within_loop_sound:
  "within_loop nodes (fn_Handle s) seen n \<Longrightarrow> \<exists>ns. ancestry nodes (Some s) n ns \<and> is_selected (Some s) (last ns)"
proof (induction nodes "fn_Handle s" seen n rule: within_loop.induct)
  case (1 nodes seen n)
  note run = 1(2) [unfolded within_loop.simps [of nodes _ seen n]]
  show ?case
  proof (cases "fn_Handle n = fn_Handle s")
    case True
    then have "is_selected (Some s) n" by (simp add: is_selected_def)
    then show ?thesis using ancestry.selected by (intro exI [of _ "[n]"]) simp
  next
    case False
    then obtain p where p: "fn_Handle n \<notin> set seen" "fn_Parent n \<noteq> []" "byHandle nodes (fn_Parent n) = Some p"
      "within_loop nodes (fn_Handle s) (fn_Handle n # seen) p"
      using run by (auto split: if_splits option.splits)
    obtain ns where ns: "ancestry nodes (Some s) p ns" "is_selected (Some s) (last ns)" using 1(1) [OF False p] by blast
    have "\<not> is_selected (Some s) n" using False by (simp add: is_selected_def)
    then have "ancestry nodes (Some s) n (n # ns)" by (rule ancestry.up [OF _ p(3) ns(1)])
    then show ?thesis using ns ancestry_nonempty [OF ns(1)] by (intro exI [of _ "n # ns"]) simp
  qed
qed

lemma within_loop_complete:
  assumes "ancestry nodes (Some s) n ns" and "is_selected (Some s) (last ns)" and "distinct (map fn_Handle ns)" and "fn_Handle ` set ns \<inter> set seen = {}"
  shows "within_loop nodes (fn_Handle s) seen n"
  using assms
proof (induction arbitrary: seen rule: ancestry.induct)
  case (selected n)
  then show ?case by (simp add: within_loop.simps [of nodes _ _ n] is_selected_def)
next
  case (top n)
  then show ?case by simp
next
  case (up n p ns)
  have ne: "ns \<noteq> []" using ancestry_nonempty [OF up.hyps(3)] by simp
  have "within_loop nodes (fn_Handle s) (fn_Handle n # seen) p" using up.prems ne by (intro up.IH) auto
  moreover have "fn_Parent n \<noteq> []" using up.hyps(2) by auto
  ultimately show ?case using up.hyps(2) up.prems by (simp add: within_loop.simps [of nodes _ seen n])
qed

lemma selection_iff:
  assumes "byHandle nodes (fn_Handle n) = Some n"
  shows "in_selection nodes sel n \<longleftrightarrow> \<not> (case sel of None \<Rightarrow> False | Some s \<Rightarrow> \<not> nodeIsWithinSelection nodes n s)"
proof (cases sel)
  case (Some s)
  have "nodeIsWithinSelection nodes n s" if "ancestry nodes (Some s) n ns" "is_selected (Some s) (last ns)" for ns
    unfolding nodeIsWithinSelection_def using within_loop_complete [OF that ancestry_distinct [OF that(1) assms]] by simp
  then show ?thesis using Some within_loop_sound [of nodes s "[]" n] by (auto simp: in_selection_def nodeIsWithinSelection_def)
qed (simp add: in_selection_def)

section \<open>Resolved folders\<close>

text \<open>The entry of a file: its node, under the names of the way up.\<close>

definition resolved_as :: "folderNode list \<Rightarrow> folderNode option \<Rightarrow> string \<Rightarrow> folderNode \<Rightarrow> ResolvedFile \<Rightarrow> bool" where
  "resolved_as nodes sel folder n f \<longleftrightarrow>
     (\<exists>ns payload. ancestry nodes sel n ns \<and> payload \<noteq> [] \<and> f = resolved_entry n (join_with (CHR ''/'') (rev (map fn_Name ns))) payload folder)"

lemma payloadURL_nonempty: "payloadURL cmd h folder c = (Inr payload, c') \<Longrightarrow> payload \<noteq> []"
  by (auto simp: payloadURL_def payloadFromCommand_def split: prod.splits sum.splits if_splits)

lemma collect_files_result:
  assumes "collect_files cmd folder nodes sel pending files total_bytes c = (Inr (files', total'), c')"
    and "0 \<le> total_bytes" and "total_bytes \<le> max_int64" and "\<forall>n\<in>set pending. is_i64 (fn_Size n)"
  shows "\<exists>new. files' = files @ new \<and> total' = total_bytes + sum_list (map rf_Size new) \<and> total' \<le> max_int64 \<and> (\<forall>f\<in>set new. 0 \<le> rf_Size f) \<and>
    list_all2 (resolved_as nodes sel folder)
      (filter (\<lambda>n. fn_Kind n = 0 \<and> \<not> (case sel of None \<Rightarrow> False | Some s \<Rightarrow> \<not> nodeIsWithinSelection nodes n s)) pending) new"
  using assms
proof (induction pending arbitrary: files total_bytes c)
  case Nil
  then show ?case by simp
next
  case (Cons n pending)
  let ?out = "case sel of None \<Rightarrow> False | Some s \<Rightarrow> \<not> nodeIsWithinSelection nodes n s"
  show ?case
  proof (cases "fn_Kind n \<noteq> 0 \<or> ?out")
    case True
    then have "collect_files cmd folder nodes sel pending files total_bytes c = (Inr (files', total'), c')" using Cons.prems(1) by (auto split: if_splits)
    then show ?thesis using Cons.IH [of files total_bytes c] Cons.prems(2-4) True by auto
  next
    case False
    then have size: "0 \<le> fn_Size n" and fits: "\<not> total_bytes > i64 (max_int64 - fn_Size n)" using Cons.prems(1) by (auto split: if_splits)
    obtain path where path: "folderNodePathFrom nodes sel n = Inr path"
      using Cons.prems(1) False size fits by (auto split: sum.splits)
    obtain r c1 where r: "payloadURL cmd (fn_Handle n) folder c = (r, c1)" by (rule prod.exhaust)
    obtain payload where p: "r = Inr payload" using Cons.prems(1) False size fits path r by (cases r) auto
    have small: "fn_Size n \<le> max_int64" using Cons.prems(4) by (simp add: is_i64_def max_int64_def)
    have no_wrap: "i64 (max_int64 - fn_Size n) = max_int64 - fn_Size n" using small size by (simp add: i64_def max_int64_def)
    then have fits': "total_bytes + fn_Size n \<le> max_int64" using fits by simp
    then have sum: "i64 (total_bytes + fn_Size n) = total_bytes + fn_Size n" using size Cons.prems(2) by (simp add: i64_def max_int64_def)
    have go: "collect_files cmd folder nodes sel pending (files @ [resolved_entry n path payload folder]) (total_bytes + fn_Size n) c1 = (Inr (files', total'), c')"
      using Cons.prems(1) False size fits path r p sum by simp
    obtain new where new: "files' = (files @ [resolved_entry n path payload folder]) @ new" "total' = (total_bytes + fn_Size n) + sum_list (map rf_Size new)"
      "total' \<le> max_int64" "\<forall>f\<in>set new. 0 \<le> rf_Size f"
      "list_all2 (resolved_as nodes sel folder)
        (filter (\<lambda>n. fn_Kind n = 0 \<and> \<not> (case sel of None \<Rightarrow> False | Some s \<Rightarrow> \<not> nodeIsWithinSelection nodes n s)) pending) new"
      using Cons.IH [OF go] size Cons.prems(2,4) fits' by auto
    have "resolved_as nodes sel folder n (resolved_entry n path payload folder)"
      unfolding resolved_as_def using folder_path_sound [OF path] payloadURL_nonempty [OF r [unfolded p]] by blast
    then show ?thesis using new size False by (intro exI [of _ "resolved_entry n path payload folder # new"]) (auto simp: resolved_entry_def)
  qed
qed

lemma parse_int_i64: "parse_int s = Some v \<Longrightarrow> is_i64 v"
  by (auto simp: parse_int_def Let_def split: list.splits if_splits option.splits)

lemma decodeFolderNode_ok:
  assumes "decodeFolderNode D b64 unmarshal o1 root master = Inr n"
  shows "fn_Handle n \<noteq> [] \<and> fn_Name n \<noteq> [] \<and> is_i64 (fn_Size n) \<and> 0 \<le> fn_Size n"
proof -
  have "is_i64 v" if "(case map_of o1 ''s'' of None \<Rightarrow> Some 0 | Some rawSize \<Rightarrow> numberValue (Some rawSize)) = Some v" for v
    using that parse_int_i64 by (auto simp: numberValue_def is_i64_def split: option.splits json.splits)
  then show ?thesis
    using assms
    by (auto simp: decodeFolderNode_def Let_def split: if_splits option.splits sum.splits prod.splits)
qed

lemma decode_nodes_ok:
  "decode_nodes D b64 unmarshal root master items = Inr nodes \<Longrightarrow> n \<in> set nodes \<Longrightarrow>
     fn_Handle n \<noteq> [] \<and> fn_Name n \<noteq> [] \<and> is_i64 (fn_Size n) \<and> 0 \<le> fn_Size n"
proof (induction items arbitrary: nodes)
  case (Cons raw items)
  then show ?case using decodeFolderNode_ok [of D b64 unmarshal _ root master] by (auto split: json.splits sum.splits)
qed simp

lemma folder_listing_ok:
  assumes "folder_listing D b64 unmarshal master link response = Inr (root, nodes)" and "n \<in> set nodes"
  shows "fn_Handle n \<noteq> [] \<and> fn_Name n \<noteq> [] \<and> is_i64 (fn_Size n) \<and> 0 \<le> fn_Size n"
  using assms decode_nodes_ok [of D b64 unmarshal root master _ nodes n]
  by (auto simp: folder_listing_def split: sum.splits option.splits json.splits)

text \<open>What a successful resolution went through.\<close>

abbreviation listing_command :: json where
  "listing_command \<equiv> JObject [(''a'', JString ''f''), (''c'', JNumber ''1''), (''r'', JNumber ''1''), (''ca'', JNumber ''1'')]"

lemma resolveFolder_ok:
  assumes "resolveFolder D b64 unmarshal cmd link c = (Inr job, c')"
  obtains master response c1 root nodes sel where "DecodeNodeKey b64 (pl_Key link) = Inr master"
    "cmd [listing_command] (pl_Handle link) c = (Inr response, c1)"
    "folder_listing D b64 unmarshal master link response = Inr (root, nodes)" "selected_root nodes link = Inr sel"
    "collect_files cmd (pl_Handle link) nodes sel nodes [] 0 c1 = (Inr (rj_Files job, rj_TotalBytes job), c')" "rj_Files job \<noteq> []"
proof -
  obtain master where m: "DecodeNodeKey b64 (pl_Key link) = Inr master" using assms by (cases "DecodeNodeKey b64 (pl_Key link)") (auto simp: resolveFolder_def)
  obtain r c1 where r: "cmd [listing_command] (pl_Handle link) c = (r, c1)" by (rule prod.exhaust)
  obtain response where resp: "r = Inr response" using assms m r by (cases r) (auto simp: resolveFolder_def)
  obtain root nodes where l: "folder_listing D b64 unmarshal master link response = Inr (root, nodes)"
    using assms m r resp by (cases "folder_listing D b64 unmarshal master link response") (auto simp: resolveFolder_def)
  obtain sel where s: "selected_root nodes link = Inr sel" using assms m r resp l by (cases "selected_root nodes link") (auto simp: resolveFolder_def)
  obtain q c2 where q: "collect_files cmd (pl_Handle link) nodes sel nodes [] 0 c1 = (q, c2)" by (rule prod.exhaust)
  have "q = Inr (rj_Files job, rj_TotalBytes job) \<and> c2 = c' \<and> rj_Files job \<noteq> []"
    using assms m r resp l s q by (cases q) (auto simp: resolveFolder_def Let_def split: if_splits)
  then show ?thesis using that [OF m _ l s] r resp q by simp
qed


text \<open>A share \<^verbatim>\<open>r\<close> with a folder \<^verbatim>\<open>f\<close> that holds one file \<^verbatim>\<open>x\<close> of five bytes; all keys are zero.\<close>

definition sample_b64 :: "string \<Rightarrow> bytes option" where
  "sample_b64 s = (if s = ''K'' then Some (replicate 16 0) else if s = ''L'' then Some (replicate 32 0) else None)"

definition sample_items :: "json list" where
  "sample_items =
    [JObject [(''h'', JString ''r''), (''p'', JString ''o''), (''t'', JNumber ''1'')],
     JObject [(''h'', JString ''x''), (''p'', JString ''f''), (''t'', JNumber ''0''), (''s'', JNumber ''5''), (''k'', JString ''r:L'')],
     JObject [(''h'', JString ''f''), (''p'', JString ''r''), (''t'', JNumber ''1''), (''k'', JString ''r:K'')]]"

definition sample_net :: "api_request list \<Rightarrow> exchange" where
  "sample_net sent =
     (if rq_payload (last sent) = [listing_command] then Answer 200 [] (Some [JObject [(''f'', JArray sample_items)]]) True
      else Answer 200 [] (Some [JObject [(''g'', JString ''https'')]]) True)"

definition sample_link :: PublicLink where
  "sample_link = \<lparr>pl_Kind = LinkKindFolder, pl_Handle = ''r'', pl_Key = ''K'', pl_SelectedPath = [], pl_SelectedNode = []\<rparr>"

definition sample_client :: client where
  "sample_client = \<lparr>cl_session = ''sid'', cl_sequence = 0, cl_sent = []\<rparr>"

abbreviation sample_resolve :: "(mega_error + ResolvedJob) \<times> client" where
  "sample_resolve \<equiv> resolveFolder (\<lambda>k b. b) sample_b64 (\<lambda>_. None) (command sample_b64 (\<lambda>_. Inl ErrHashcash) sample_net) sample_link sample_client"

definition sample_job_resolved :: ResolvedJob where
  "sample_job_resolved = (case fst sample_resolve of Inr job \<Rightarrow> job | Inl _ \<Rightarrow> \<lparr>rj_Kind = LinkKindFile, rj_DisplayName = [], rj_TotalBytes = 0, rj_Files = []\<rparr>)"

lemma sample_resolved:
  "fst sample_resolve = Inr sample_job_resolved" "map rf_RelativePath (rj_Files sample_job_resolved) = [''r/f/x'']"
  "map rf_Size (rj_Files sample_job_resolved) = [5]" "length (cl_sent (snd sample_resolve)) = 2"
  by code_simp+


section \<open>Requests\<close>

text \<open>What the callers rely on: a command sends one or two requests with its payload and the session of the client, which it keeps.\<close>

locale command_port =
  fixes cmd :: commander
  assumes sends: "cmd payload folder c = (r, c') \<Longrightarrow>
    \<exists>new. cl_sent c' = cl_sent c @ new \<and> 1 \<le> length new \<and> length new \<le> 2 \<and> (\<forall>q\<in>set new. rq_session q = cl_session c \<and> rq_folder q = folder \<and> rq_payload q = payload)"
    and keeps_session: "cmd payload folder c = (r, c') \<Longrightarrow> cl_session c' = cl_session c"
begin

definition budget :: "nat \<Rightarrow> client \<Rightarrow> client \<Rightarrow> bool" where
  "budget n c c' \<longleftrightarrow> cl_session c' = cl_session c \<and>
     (\<exists>new. cl_sent c' = cl_sent c @ new \<and> length new \<le> 2 * n \<and> (\<forall>q\<in>set new. rq_session q = cl_session c))"

lemma budget_refl: "budget n c c"
  by (simp add: budget_def)

lemma budget_trans: "budget n c c1 \<Longrightarrow> budget m c1 c2 \<Longrightarrow> budget (n + m) c c2"
  by (fastforce simp: budget_def)

lemma command_budget: "cmd payload folder c = (r, c') \<Longrightarrow> budget 1 c c'"
  using sends keeps_session unfolding budget_def by (metis mult_1_right)

lemma payload_budget: "payloadURL cmd h folder c = (r, c') \<Longrightarrow> budget 1 c c'"
  unfolding payloadURL_def payloadFromCommand_def
  by (cases "cmd [JObject [(''a'', JString ''g''), (''g'', JNumber ''1''), (''n'', JString h)]] folder c")
     (auto split: sum.splits dest: command_budget)

lemma collect_budget:
  "collect_files cmd folder nodes sel pending files total_bytes c = (r, c') \<Longrightarrow> budget (length (filter (\<lambda>n. fn_Kind n = 0) pending)) c c'"
proof (induction pending arbitrary: files total_bytes c)
  case Nil
  then show ?case by (simp add: budget_refl)
next
  case (Cons n pending)
  let ?k = "length (filter (\<lambda>n. fn_Kind n = 0) pending)"
  obtain p c1 where p: "payloadURL cmd (fn_Handle n) folder c = (p, c1)" by (rule prod.exhaust)
  consider (skip) "collect_files cmd folder nodes sel pending files total_bytes c = (r, c')" | (halt) "c' = c" | (fail) "fn_Kind n = 0" "c' = c1"
    | (go) fs t where "fn_Kind n = 0" "collect_files cmd folder nodes sel pending fs t c1 = (r, c')"
    using Cons.prems p by (auto split: if_splits sum.splits)
  then show ?case
  proof cases
    case skip
    then show ?thesis using Cons.IH budget_trans [of ?k c c' 1 c'] budget_refl by fastforce
  next
    case halt
    then show ?thesis using budget_refl by simp
  next
    case fail
    then show ?thesis using budget_trans [OF payload_budget [OF p] budget_refl, of ?k] by simp
  next
    case (go fs t)
    then show ?thesis using budget_trans [OF payload_budget [OF p] Cons.IH [OF go(2)]] by simp
  qed
qed

lemma collect_files_count:
  assumes "collect_files cmd folder nodes sel pending files total_bytes c = (Inr (files', total'), c')"
  shows "budget (length files' - length files) c c' \<and> length files \<le> length files'"
  using assms
proof (induction pending arbitrary: files total_bytes c)
  case Nil
  then show ?case by (simp add: budget_refl)
next
  case (Cons n pending)
  obtain p c1 where p: "payloadURL cmd (fn_Handle n) folder c = (p, c1)" by (rule prod.exhaust)
  consider (skip) "collect_files cmd folder nodes sel pending files total_bytes c = (Inr (files', total'), c')"
    | (go) f t where "collect_files cmd folder nodes sel pending (files @ [f]) t c1 = (Inr (files', total'), c')"
    using Cons.prems p by (auto split: if_splits sum.splits)
  then show ?case
  proof cases
    case skip
    then show ?thesis using Cons.IH by blast
  next
    case (go f t)
    note ih = Cons.IH [OF go]
    have "1 + (length files' - length (files @ [f])) = length files' - length files" using conjunct2 [OF ih] by auto
    then show ?thesis using budget_trans [OF payload_budget [OF p] conjunct1 [OF ih]] conjunct2 [OF ih] by simp
  qed
qed

end

lemma command_loop_sends:
  "command_loop b64 solve net payload folder allow n ch c = (r, c') \<Longrightarrow>
    cl_session c' = cl_session c \<and>
    (\<exists>new. cl_sent c' = cl_sent c @ new \<and> length new \<le> n \<and> (0 < n \<longrightarrow> 1 \<le> length new) \<and>
       (\<forall>q\<in>set new. rq_session q = cl_session c \<and> rq_folder q = folder \<and> rq_payload q = payload))"
proof (induction n arbitrary: ch c)
  case 0
  then show ?case by simp
next
  case (Suc n)
  define rq where "rq = \<lparr>rq_id = cl_sequence c, rq_folder = folder, rq_session = cl_session c, rq_payload = payload,
                rq_hashcash = map_option (\<lambda>(p, s). hashcashHeader p s) ch\<rparr>"
  define c1 where "c1 = c\<lparr>cl_sent := cl_sent c @ [rq]\<rparr>"
  consider "c' = c1" | ch' where "command_loop b64 solve net payload folder allow n ch' c1 = (r, c')"
    using Suc.prems unfolding command_loop.simps Let_def rq_def [symmetric] c1_def [symmetric]
    by (auto split: exchange.splits if_splits option.splits sum.splits list.splits)
  then show ?case
  proof cases
    case 1
    then show ?thesis by (simp add: c1_def rq_def)
  next
    case (2 ch')
    from Suc.IH [OF this] show ?thesis by (auto simp: c1_def rq_def)
  qed
qed

interpretation api: command_port "command b64 solve net" for b64 solve net
proof
  fix payload folder c r c'
  assume "command b64 solve net payload folder c = (r, c')"
  from command_loop_sends [OF this [unfolded command_def doCommand_def]]
  show "\<exists>new. cl_sent c' = cl_sent c @ new \<and> 1 \<le> length new \<and> length new \<le> 2 \<and> (\<forall>q\<in>set new. rq_session q = cl_session c \<and> rq_folder q = folder \<and> rq_payload q = payload)"
    and "cl_session c' = cl_session c" by auto
qed

text \<open>
  C35. Resolving a link is bounded: a successful resolution sends at least one and at most two requests per resolved file
  plus two (the second of each pair only answers a proof-of-work challenge), every one of them with the session the client is bound
  to, and leaves that session unchanged.
\<close>

theorem resolve_requests_bounded:
  assumes "ResolveLink parse unescape D b64 unmarshal (command b64 solve net) rawURL c = (Inr job, c')"
  shows "cl_session c' = cl_session c \<and>
    (\<exists>new. cl_sent c' = cl_sent c @ new \<and> 1 \<le> length new \<and> length new \<le> 2 * (1 + length (rj_Files job)) \<and> (\<forall>q\<in>set new. rq_session q = cl_session c))"
proof -
  let ?cmd = "command b64 solve net"
  obtain link where link: "ParseLink parse unescape rawURL = Inr link" using assms by (cases "ParseLink parse unescape rawURL") (auto simp: ResolveLink_def)
  have sub: "\<exists>c1 payload folder r n. ?cmd payload folder c = (r, c1) \<and> api.budget n c1 c' \<and> n \<le> length (rj_Files job)"
  proof (cases "pl_Kind link = LinkKindFile")
    case True
    obtain r c1 where r: "?cmd [JObject [(''a'', JString ''g''), (''g'', JNumber ''1''), (''p'', JString (pl_Handle link))]] [] c = (r, c1)" by (rule prod.exhaust)
    have "c' = c1" using assms link True r by (auto simp: ResolveLink_def resolveFile_def split: sum.splits prod.splits)
    then show ?thesis using r api.budget_refl by blast
  next
    case False
    then have "resolveFolder D b64 unmarshal ?cmd link c = (Inr job, c')" using assms link by (simp add: ResolveLink_def)
    then show ?thesis
    proof (rule resolveFolder_ok)
      fix master response c1 root nodes sel
      assume l: "?cmd [listing_command] (pl_Handle link) c = (Inr response, c1)"
        and run: "collect_files ?cmd (pl_Handle link) nodes sel nodes [] 0 c1 = (Inr (rj_Files job, rj_TotalBytes job), c')"
      show ?thesis using l api.collect_files_count [OF run] by auto
    qed
  qed
  then obtain c1 payload folder r n where s: "?cmd payload folder c = (r, c1)" "api.budget n c1 c'" "n \<le> length (rj_Files job)" by blast
  obtain new where new: "cl_sent c1 = cl_sent c @ new" "1 \<le> length new" "length new \<le> 2" "\<forall>q\<in>set new. rq_session q = cl_session c" "cl_session c1 = cl_session c"
    using api.sends [OF s(1)] api.keeps_session [OF s(1)] by blast
  obtain more where more: "cl_session c' = cl_session c1" "cl_sent c' = cl_sent c1 @ more" "length more \<le> 2 * n" "\<forall>q\<in>set more. rq_session q = cl_session c1"
    using s(2) unfolding api.budget_def by blast
  show ?thesis using new more s(3) by (intro conjI exI [of _ "new @ more"]) auto
qed

definition sample_url :: url where
  "sample_url = \<lparr>u_Scheme = ''https'', u_User = False, u_Port = [], u_Hostname = ''mega.nz'', u_EscapedPath = ''/folder/r'', u_Fragment = ''K''\<rparr>"

abbreviation sample_resolve_link :: "(mega_error + ResolvedJob) \<times> client" where
  "sample_resolve_link \<equiv> ResolveLink (\<lambda>_. Some sample_url) Some (\<lambda>k b. b) sample_b64 (\<lambda>_. None)
     (command sample_b64 (\<lambda>_. Inl ErrHashcash) sample_net) ''u'' sample_client"

lemma sample_parsed: "ParseLink (\<lambda>_. Some sample_url) Some ''u'' = Inr sample_link"
  by code_simp

theorem resolve_requests_bounded_witness:
  "\<exists>c'. sample_resolve_link = (Inr sample_job_resolved, c') \<and> cl_session c' = ''sid'' \<and> length (cl_sent c') \<le> 4"
proof -
  have "pl_Kind sample_link \<noteq> LinkKindFile" by (simp add: sample_link_def)
  then have "sample_resolve_link = sample_resolve" by (simp add: ResolveLink_def sample_parsed)
  then have r: "sample_resolve_link = (Inr sample_job_resolved, snd sample_resolve)" using sample_resolved(1) by (metis prod.collapse)
  have "length (rj_Files sample_job_resolved) = 1" using sample_resolved(3) by (metis length_map length_Cons list.size(3) One_nat_def)
  then show ?thesis using resolve_requests_bounded [OF r] r by (auto simp: sample_client_def)
qed

section \<open>Links\<close>

definition link_ok :: "PublicLink \<Rightarrow> bool" where
  "link_ok link \<longleftrightarrow> validateLinkToken (pl_Handle link) \<and> validateLinkToken (pl_Key link) \<and> pl_SelectedPath link = [] \<and>
     (pl_SelectedNode link = [] \<or> pl_Kind link = LinkKindFolder \<and> validateLinkToken (pl_SelectedNode link))"

text \<open>The parts of the modern form of a link.\<close>

definition kind_name :: "LinkKind \<Rightarrow> string" where
  "kind_name k = (case k of LinkKindFile \<Rightarrow> ''file'' | LinkKindFolder \<Rightarrow> ''folder'')"

definition link_url :: "PublicLink \<Rightarrow> url" where
  "link_url link = \<lparr>u_Scheme = ''https'', u_User = False, u_Port = [], u_Hostname = ''mega.nz'',
     u_EscapedPath = ''/'' @ kind_name (pl_Kind link) @ ''/'' @ pl_Handle link,
     u_Fragment = pl_Key link @ (if pl_SelectedNode link = [] then [] else ''/folder/'' @ pl_SelectedNode link)\<rparr>"

lemma slash_no_token: "\<not> token_char (CHR ''/'')"
  by code_simp

lemma token_no_slash: "validateLinkToken t \<Longrightarrow> CHR ''/'' \<notin> set t \<and> t \<noteq> []"
  using slash_no_token unfolding validateLinkToken_def by blast

lemma kind_token: "validateLinkToken (kind_name k)"
  by (cases k) (simp; code_simp)+

lemma parse_modern_ok: "parse_modern kind handle fragment = Inr link \<Longrightarrow> link_ok link"
  by (auto simp: parse_modern_def link_ok_def Let_def split: option.splits prod.splits if_splits)

lemma parseLegacyLink_ok: "parseLegacyLink kind v = Inr link \<Longrightarrow> link_ok link"
  by (auto simp: parseLegacyLink_def link_ok_def split: option.splits if_splits)

lemma ParseLink_ok: "ParseLink parse unescape raw = Inr link \<Longrightarrow> link_ok link"
  unfolding ParseLink_def Let_def by (auto dest: parse_modern_ok parseLegacyLink_ok simp del: One_nat_def split: option.split_asm if_split_asm)

lemma parse_modern_url:
  assumes "link_ok link"
  shows "parse_modern (pl_Kind link) (pl_Handle link) (u_Fragment (link_url link)) = Inr link"
proof (cases "pl_SelectedNode link = []")
  case True
  have "cut_at (CHR ''/'') (pl_Key link) = None" using assms token_no_slash by (simp add: cut_at_none link_ok_def)
  then show ?thesis using True assms by (simp add: parse_modern_def link_url_def link_ok_def)
next
  case False
  have "cut_at (CHR ''/'') (pl_Key link @ CHR ''/'' # ''folder/'' @ pl_SelectedNode link) = Some (pl_Key link, ''folder/'' @ pl_SelectedNode link)"
    using assms token_no_slash by (intro cut_at_append) (simp add: link_ok_def)
  moreover have "cut_at (CHR ''/'') (''folder'' @ CHR ''/'' # pl_SelectedNode link) = Some (''folder'', pl_SelectedNode link)" by (rule cut_at_append) simp
  ultimately show ?thesis using False assms by (simp add: parse_modern_def link_url_def link_ok_def)
qed

lemma ParseLink_url:
  assumes ok: "link_ok link" and p: "parse (trim_space raw) = Some (link_url link)" "trim_space raw \<noteq> []"
    and un: "\<And>t. validateLinkToken t \<Longrightarrow> unescape t = Some t"
  shows "ParseLink parse unescape raw = Inr link"
proof -
  have "split_on (CHR ''/'') (u_EscapedPath (link_url link)) = [[], kind_name (pl_Kind link), pl_Handle link]"
    using split_append_sep [of "CHR ''/''" "[]"] split_append_sep [of "CHR ''/''" "kind_name (pl_Kind link)" "pl_Handle link"]
      split_single [of "CHR ''/''" "pl_Handle link"] token_no_slash [OF kind_token] token_no_slash [of "pl_Handle link"] ok
    by (simp add: link_url_def link_ok_def)
  then have parts: "unescape_parts unescape (split_on (CHR ''/'') (u_EscapedPath (link_url link))) = Some [kind_name (pl_Kind link), pl_Handle link]"
    using ok un kind_token token_no_slash by (simp add: link_ok_def)
  have host: "isMEGAHost (u_Hostname (link_url link))" unfolding link_url_def isMEGAHost_def by simp
  have k: "kind_name (pl_Kind link) = ''file'' \<or> kind_name (pl_Kind link) = ''folder''"
    "(if kind_name (pl_Kind link) = ''file'' then LinkKindFile else LinkKindFolder) = pl_Kind link"
    by (cases "pl_Kind link"; simp add: kind_name_def)+
  show ?thesis using p parts host k parse_modern_url [OF ok] by (simp add: ParseLink_def Let_def) (simp add: link_url_def)
qed



section \<open>Proof of work\<close>

lemma hashcash_loop_sound:
  "hashcash_loop sha t threshold halted k p stride = Some b \<Longrightarrow>
     \<exists>q. b = le_bytes32 q \<and> p \<le> q \<and> be_uint32 (take 4 (sha (hashcash_buffer t q))) \<le> threshold"
proof (induction sha t threshold halted k p stride rule: hashcash_loop.induct)
  case (1 sha t threshold halted k p stride)
  note run = 1(2) [unfolded hashcash_loop.simps [of sha t threshold halted k p stride]]
  show ?case
  proof (cases "halted k \<or> be_uint32 (take 4 (sha (hashcash_buffer t p))) \<le> threshold")
    case True
    then show ?thesis using run by (auto split: if_splits)
  next
    case False
    then have go: "\<not> (stride = 0 \<or> p + stride < p)" "hashcash_loop sha t threshold halted (k + 1) (p + stride) stride = Some b"
      using run by (auto split: if_splits)
    have "p \<le> p + stride" using go(1) by auto
    then show ?thesis using 1(1) [OF _ _ go] False by (meson order_trans)
  qed
qed

text \<open>A solution that is sent to the server meets the threshold of the challenge it answers.\<close>

lemma solved_challenge_sound:
  assumes "solveHashcash sha b64 enc halted procs winner ch = Inr cash" and "b64 (token ch) = Some t"
  shows "\<exists>q. cash = enc (le_bytes32 q) \<and> be_uint32 (take 4 (sha (hashcash_buffer t q))) \<le> hashcash_threshold (easiness ch)"
  using assms
  by (auto simp: solveHashcash_def generateHashcash_def Let_def split: option.splits if_splits dest!: hashcash_loop_sound)

end
