(* ===== verification/Settings.thy ===== *)
theory Settings
  imports MegaClient Paths "HOL-Library.AList"
begin

text \<open>
  The settings (\<^verbatim>\<open>internal/settings/model.go\<close>, \<^verbatim>\<open>service.go\<close>, \<^verbatim>\<open>internal/store/settings.go\<close>): the typed object, its validation, its
  storage as one JSON document per section and the way back through \<^verbatim>\<open>json.Unmarshal\<close> into a copy of the defaults. A stored
  document is a value of type \<open>json\<close>; its text is not modelled. The maps of sections are walked in a fixed order: each section touches
  its own fields and its own row.
\<close>

section \<open>The model\<close>

record PathsSettings =
  ps_IncompleteRoot :: string
  ps_CompleteRoot :: string

record DownloadSettings =
  ds_AutoStart :: bool
  ds_SegmentSizeBytes :: int
  ds_WorkersPerFile :: int
  ds_MaxActiveFiles :: int
  ds_MaxGlobalWorkers :: int
  ds_GlobalSpeedLimitBytesPerSecond :: int
  ds_PerJobDefaultLimitBytesPerSecond :: int
  ds_ConflictPolicy :: string
  ds_CheckpointIntervalMs :: int
  ds_CheckpointBytes :: int
  ds_NormalRetryLimit :: int

record NetworkSettings =
  ns_ConnectTimeoutSeconds :: int
  ns_ResponseHeaderTimeoutSeconds :: int
  ns_ReadIdleTimeoutSeconds :: int

record UISettings =
  ui_Theme :: string
  ui_Locale :: string

record Settings =
  s_Paths :: PathsSettings
  s_Downloads :: DownloadSettings
  s_Network :: NetworkSettings
  s_UI :: UISettings

definition Configured :: "PathsSettings \<Rightarrow> bool" where
  "Configured p \<longleftrightarrow> ps_IncompleteRoot p \<noteq> [] \<and> ps_CompleteRoot p \<noteq> []"

definition DefaultSegmentSize :: int where "DefaultSegmentSize = 8 * 2 ^ 20"

definition Default :: Settings where
  "Default = \<lparr>s_Paths = \<lparr>ps_IncompleteRoot = [], ps_CompleteRoot = []\<rparr>,
     s_Downloads = \<lparr>ds_AutoStart = True, ds_SegmentSizeBytes = DefaultSegmentSize, ds_WorkersPerFile = 4, ds_MaxActiveFiles = 2,
        ds_MaxGlobalWorkers = 8, ds_GlobalSpeedLimitBytesPerSecond = 0, ds_PerJobDefaultLimitBytesPerSecond = 0,
        ds_ConflictPolicy = ''rename'', ds_CheckpointIntervalMs = 2000, ds_CheckpointBytes = 256 * 2 ^ 20, ds_NormalRetryLimit = 5\<rparr>,
     s_Network = \<lparr>ns_ConnectTimeoutSeconds = 15, ns_ResponseHeaderTimeoutSeconds = 30, ns_ReadIdleTimeoutSeconds = 90\<rparr>,
     s_UI = \<lparr>ui_Theme = ''system'', ui_Locale = ''en''\<rparr>\<rparr>"

definition checkRoot :: "string \<Rightarrow> string \<Rightarrow> string list" where
  "checkRoot name v =
     (if v = [] then []
      else if trim_space v = [] then [name @ '' must be empty or an absolute path'']
      else if CHR 0x00 \<in> set v then [name @ '' contains NUL'']
      else if \<not> has_prefix v ''/'' then [name @ '' must be absolute'']
      else if filepath_Clean v = ''/'' then [name @ '' must not be the filesystem root'']
      else [])"

definition out_of :: "int \<Rightarrow> int \<Rightarrow> int \<Rightarrow> bool" where
  "out_of lo hi v \<longleftrightarrow> v < lo \<or> v > hi"

definition download_problems :: "DownloadSettings \<Rightarrow> string list" where
  "download_problems d =
     (if out_of (2 ^ 20) (64 * 2 ^ 20) (ds_SegmentSizeBytes d) then [''downloads.segmentSizeBytes must be between 1048576 and 67108864''] else []) @
     (if out_of 1 16 (ds_WorkersPerFile d) then [''downloads.workersPerFile must be between 1 and 16''] else []) @
     (if out_of 1 16 (ds_MaxActiveFiles d) then [''downloads.maxActiveFiles must be between 1 and 16''] else []) @
     (if out_of 1 64 (ds_MaxGlobalWorkers d) then [''downloads.maxGlobalWorkers must be between 1 and 64''] else []) @
     (if ds_GlobalSpeedLimitBytesPerSecond d < 0 \<or> ds_PerJobDefaultLimitBytesPerSecond d < 0 then [''download speed limits must not be negative''] else []) @
     (if ds_ConflictPolicy d \<noteq> ''rename'' \<and> ds_ConflictPolicy d \<noteq> ''overwrite'' \<and> ds_ConflictPolicy d \<noteq> ''fail''
      then [''downloads.conflictPolicy must be rename, overwrite, or fail''] else []) @
     (if out_of 100 60000 (ds_CheckpointIntervalMs d) then [''downloads.checkpointIntervalMs must be between 100 and 60000''] else []) @
     (if out_of (2 ^ 20) (2 ^ 40) (ds_CheckpointBytes d) then [''downloads.checkpointBytes is outside the safe range''] else []) @
     (if out_of 0 20 (ds_NormalRetryLimit d) then [''downloads.normalRetryLimit must be between 0 and 20''] else [])"

definition network_problems :: "NetworkSettings \<Rightarrow> string list" where
  "network_problems n =
     (if out_of 1 300 (ns_ConnectTimeoutSeconds n) then [''network.connectTimeoutSeconds must be between 1 and 300''] else []) @
     (if out_of 1 600 (ns_ResponseHeaderTimeoutSeconds n) then [''network.responseHeaderTimeoutSeconds must be between 1 and 600''] else []) @
     (if out_of 1 3600 (ns_ReadIdleTimeoutSeconds n) then [''network.readIdleTimeoutSeconds must be between 1 and 3600''] else [])"

definition Validate :: "Settings \<Rightarrow> string list" where
  "Validate s =
     (let p = s_Paths s; u = s_UI s in
      checkRoot ''paths.incompleteRoot'' (ps_IncompleteRoot p) @ checkRoot ''paths.completeRoot'' (ps_CompleteRoot p) @
      (if (ps_IncompleteRoot p = []) \<noteq> (ps_CompleteRoot p = [])
       then [''paths.incompleteRoot and paths.completeRoot must both be empty or both be configured''] else []) @
      download_problems (s_Downloads s) @ network_problems (s_Network s) @
      (if ui_Theme u \<noteq> ''light'' \<and> ui_Theme u \<noteq> ''dark'' \<and> ui_Theme u \<noteq> ''system'' then [''ui.theme must be light, dark, or system''] else []) @
      (if ui_Locale u \<noteq> ''en'' then [''ui.locale must be en''] else []))"

section \<open>Documents\<close>

definition json_int :: "int \<Rightarrow> json" where "json_int n = JNumber (format_int n)"

definition marshal_paths :: "PathsSettings \<Rightarrow> json" where
  "marshal_paths p = JObject [(''incompleteRoot'', JString (ps_IncompleteRoot p)), (''completeRoot'', JString (ps_CompleteRoot p))]"

definition marshal_downloads :: "DownloadSettings \<Rightarrow> json" where
  "marshal_downloads d = JObject
     [(''autoStart'', JBool (ds_AutoStart d)), (''segmentSizeBytes'', json_int (ds_SegmentSizeBytes d)),
      (''workersPerFile'', json_int (ds_WorkersPerFile d)), (''maxActiveFiles'', json_int (ds_MaxActiveFiles d)),
      (''maxGlobalWorkers'', json_int (ds_MaxGlobalWorkers d)),
      (''globalSpeedLimitBytesPerSecond'', json_int (ds_GlobalSpeedLimitBytesPerSecond d)),
      (''perJobDefaultLimitBytesPerSecond'', json_int (ds_PerJobDefaultLimitBytesPerSecond d)),
      (''conflictPolicy'', JString (ds_ConflictPolicy d)), (''checkpointIntervalMs'', json_int (ds_CheckpointIntervalMs d)),
      (''checkpointBytes'', json_int (ds_CheckpointBytes d)), (''normalRetryLimit'', json_int (ds_NormalRetryLimit d))]"

definition marshal_network :: "NetworkSettings \<Rightarrow> json" where
  "marshal_network n = JObject
     [(''connectTimeoutSeconds'', json_int (ns_ConnectTimeoutSeconds n)),
      (''responseHeaderTimeoutSeconds'', json_int (ns_ResponseHeaderTimeoutSeconds n)),
      (''readIdleTimeoutSeconds'', json_int (ns_ReadIdleTimeoutSeconds n))]"

definition marshal_ui :: "UISettings \<Rightarrow> json" where
  "marshal_ui u = JObject [(''theme'', JString (ui_Theme u)), (''locale'', JString (ui_Locale u))]"

definition marshalSections :: "Settings \<Rightarrow> (string \<times> json) list" where
  "marshalSections v =
     [(''paths'', marshal_paths (s_Paths v)), (''downloads'', marshal_downloads (s_Downloads v)),
      (''network'', marshal_network (s_Network v)), (''ui'', marshal_ui (s_UI v))]"

text \<open>\<^verbatim>\<open>json.Unmarshal\<close> into a struct: a key goes to the field of that name, else to the first whose name is equal under case
  folding (for ASCII names: the letters, U+017F and U+212A), else it is ignored; \<^verbatim>\<open>null\<close> leaves the field alone; a value of another
  type is an error.\<close>

type_synonym 'a fields = "(string \<times> (json \<Rightarrow> 'a \<Rightarrow> 'a option)) list"

fun fold_key :: "string \<Rightarrow> string" where
  "fold_key [] = []"
| "fold_key (c # cs) =
     (if c = CHR 0xC5 \<and> cs \<noteq> [] \<and> hd cs = CHR 0xBF then CHR ''s'' # fold_key (tl cs)
      else if c = CHR 0xE2 \<and> take 2 cs = [CHR 0x84, CHR 0xAA] then CHR ''k'' # fold_key (drop 2 cs)
      else (let n = (of_char c :: nat) in if 65 \<le> n \<and> n \<le> 90 then char_of (n + 32) else c) # fold_key cs)"

definition find_field :: "'a fields \<Rightarrow> string \<Rightarrow> (json \<Rightarrow> 'a \<Rightarrow> 'a option) option" where
  "find_field fs k =
     (case map_of fs k of Some f \<Rightarrow> Some f | None \<Rightarrow> map_option snd (find (\<lambda>(name, _). fold_key name = fold_key k) fs))"

fun decode_fields :: "'a fields \<Rightarrow> json_object \<Rightarrow> 'a \<Rightarrow> 'a option" where
  "decode_fields fs [] x = Some x"
| "decode_fields fs ((k, v) # rest) x =
     (case (case find_field fs k of Some f \<Rightarrow> if v = JNull then Some x else f v x | None \<Rightarrow> Some x) of
        None \<Rightarrow> None
      | Some y \<Rightarrow> decode_fields fs rest y)"

definition decode_struct :: "'a fields \<Rightarrow> json \<Rightarrow> 'a \<Rightarrow> 'a option" where
  "decode_struct fs v x = (case v of JNull \<Rightarrow> Some x | JObject o1 \<Rightarrow> decode_fields fs o1 x | _ \<Rightarrow> None)"

definition set_string :: "(string \<Rightarrow> 'a \<Rightarrow> 'a) \<Rightarrow> json \<Rightarrow> 'a \<Rightarrow> 'a option" where
  "set_string upd v x = (case v of JString s \<Rightarrow> Some (upd s x) | _ \<Rightarrow> None)"

definition set_int :: "(int \<Rightarrow> 'a \<Rightarrow> 'a) \<Rightarrow> json \<Rightarrow> 'a \<Rightarrow> 'a option" where
  "set_int upd v x = (case v of JNumber n \<Rightarrow> map_option (\<lambda>i. upd i x) (parse_int n) | _ \<Rightarrow> None)"

definition set_bool :: "(bool \<Rightarrow> 'a \<Rightarrow> 'a) \<Rightarrow> json \<Rightarrow> 'a \<Rightarrow> 'a option" where
  "set_bool upd v x = (case v of JBool b \<Rightarrow> Some (upd b x) | _ \<Rightarrow> None)"

definition paths_fields :: "PathsSettings fields" where
  "paths_fields = [(''incompleteRoot'', set_string (\<lambda>s. ps_IncompleteRoot_update (\<lambda>_. s))), (''completeRoot'', set_string (\<lambda>s. ps_CompleteRoot_update (\<lambda>_. s)))]"

definition downloads_fields :: "DownloadSettings fields" where
  "downloads_fields =
     [(''autoStart'', set_bool (\<lambda>b. ds_AutoStart_update (\<lambda>_. b))), (''segmentSizeBytes'', set_int (\<lambda>i. ds_SegmentSizeBytes_update (\<lambda>_. i))),
      (''workersPerFile'', set_int (\<lambda>i. ds_WorkersPerFile_update (\<lambda>_. i))), (''maxActiveFiles'', set_int (\<lambda>i. ds_MaxActiveFiles_update (\<lambda>_. i))),
      (''maxGlobalWorkers'', set_int (\<lambda>i. ds_MaxGlobalWorkers_update (\<lambda>_. i))),
      (''globalSpeedLimitBytesPerSecond'', set_int (\<lambda>i. ds_GlobalSpeedLimitBytesPerSecond_update (\<lambda>_. i))),
      (''perJobDefaultLimitBytesPerSecond'', set_int (\<lambda>i. ds_PerJobDefaultLimitBytesPerSecond_update (\<lambda>_. i))),
      (''conflictPolicy'', set_string (\<lambda>s. ds_ConflictPolicy_update (\<lambda>_. s))),
      (''checkpointIntervalMs'', set_int (\<lambda>i. ds_CheckpointIntervalMs_update (\<lambda>_. i))),
      (''checkpointBytes'', set_int (\<lambda>i. ds_CheckpointBytes_update (\<lambda>_. i))), (''normalRetryLimit'', set_int (\<lambda>i. ds_NormalRetryLimit_update (\<lambda>_. i)))]"

definition network_fields :: "NetworkSettings fields" where
  "network_fields =
     [(''connectTimeoutSeconds'', set_int (\<lambda>i. ns_ConnectTimeoutSeconds_update (\<lambda>_. i))),
      (''responseHeaderTimeoutSeconds'', set_int (\<lambda>i. ns_ResponseHeaderTimeoutSeconds_update (\<lambda>_. i))),
      (''readIdleTimeoutSeconds'', set_int (\<lambda>i. ns_ReadIdleTimeoutSeconds_update (\<lambda>_. i)))]"

definition ui_fields :: "UISettings fields" where
  "ui_fields = [(''theme'', set_string (\<lambda>s. ui_Theme_update (\<lambda>_. s))), (''locale'', set_string (\<lambda>s. ui_Locale_update (\<lambda>_. s)))]"

section \<open>The service\<close>

text \<open>The settings table: key, document and time of the last update.\<close>

type_synonym settings_table = "(string \<times> json \<times> int) list"

datatype settings_error = SettingsSQL | SettingsInvalid "string list" | SettingsDecode string

text \<open>\<^verbatim>\<open>ReplaceSettings\<close>: one transaction of upserts; \<open>flt\<close> tells which statement fails.\<close>

fun upsert_sections :: "(nat \<Rightarrow> bool) \<Rightarrow> int \<Rightarrow> nat \<Rightarrow> (string \<times> json) list \<Rightarrow> settings_table \<Rightarrow> settings_table option" where
  "upsert_sections flt now k [] t = Some t"
| "upsert_sections flt now k ((key, raw) # rest) t =
     (if key = [] \<or> flt k then None else upsert_sections flt now (k + 1) rest (AList.update key (raw, now) t))"

definition ReplaceSettings :: "(nat \<Rightarrow> bool) \<Rightarrow> bool \<Rightarrow> int \<Rightarrow> (string \<times> json) list \<Rightarrow> settings_table \<Rightarrow> settings_error option \<times> settings_table" where
  "ReplaceSettings flt commit_ok now values t =
     (case upsert_sections flt now 0 values t of
        None \<Rightarrow> (Some SettingsSQL, t)
      | Some t' \<Rightarrow> if commit_ok then (None, t') else (Some SettingsSQL, t))"

definition Update :: "(nat \<Rightarrow> bool) \<Rightarrow> bool \<Rightarrow> int \<Rightarrow> Settings \<Rightarrow> settings_table \<Rightarrow> settings_error option \<times> settings_table" where
  "Update flt commit_ok now v t =
     (if Validate v \<noteq> [] then (Some (SettingsInvalid (Validate v)), t)
      else ReplaceSettings flt commit_ok now (marshalSections v) t)"

text \<open>The loop of \<^verbatim>\<open>Get\<close> over the stored sections.\<close>

definition decode_section :: "string \<Rightarrow> json \<Rightarrow> Settings \<Rightarrow> Settings option" where
  "decode_section key raw s =
     (if key = ''paths'' then map_option (\<lambda>p. s\<lparr>s_Paths := p\<rparr>) (decode_struct paths_fields raw (s_Paths s))
      else if key = ''downloads'' then map_option (\<lambda>d. s\<lparr>s_Downloads := d\<rparr>) (decode_struct downloads_fields raw (s_Downloads s))
      else if key = ''network'' then map_option (\<lambda>n. s\<lparr>s_Network := n\<rparr>) (decode_struct network_fields raw (s_Network s))
      else if key = ''ui'' then map_option (\<lambda>u. s\<lparr>s_UI := u\<rparr>) (decode_struct ui_fields raw (s_UI s))
      else Some s)"

fun decode_sections :: "settings_table \<Rightarrow> Settings \<Rightarrow> settings_error + Settings" where
  "decode_sections [] s = Inr s"
| "decode_sections ((key, raw, _) # rest) s =
     (case decode_section key raw s of None \<Rightarrow> Inl (SettingsDecode key) | Some s' \<Rightarrow> decode_sections rest s')"

definition Get :: "bool \<Rightarrow> (nat \<Rightarrow> bool) \<Rightarrow> bool \<Rightarrow> int \<Rightarrow> settings_table \<Rightarrow> (settings_error + Settings) \<times> settings_table" where
  "Get read_ok flt commit_ok now t =
     (if \<not> read_ok then (Inl SettingsSQL, t)
      else if t = [] then
        (case Update flt commit_ok now Default t of (Some e, t') \<Rightarrow> (Inl e, t') | (None, t') \<Rightarrow> (Inr Default, t'))
      else
        (case decode_sections t Default of
           Inl e \<Rightarrow> (Inl e, t)
         | Inr s \<Rightarrow> (if Validate s \<noteq> [] then Inl (SettingsInvalid (Validate s)) else Inr s, t)))"

section \<open>Round trip\<close>

lemma set_int_json_int [simp]: "is_i64 n \<Longrightarrow> set_int upd (json_int n) x = Some (upd n x)"
  by (simp add: set_int_def json_int_def parse_int_format_int)

lemma json_int_not_null [simp]: "json_int n \<noteq> JNull"
  by (simp add: json_int_def)

lemma find_field_exact: "map_of fs k = Some f \<Longrightarrow> find_field fs k = Some f"
  by (simp add: find_field_def)

lemma decode_paths: "decode_struct paths_fields (marshal_paths p) q = Some p"
  by (simp add: decode_struct_def marshal_paths_def paths_fields_def find_field_def set_string_def)

lemma decode_ui: "decode_struct ui_fields (marshal_ui u) q = Some u"
  by (simp add: decode_struct_def marshal_ui_def ui_fields_def find_field_def set_string_def)

definition network_typed :: "NetworkSettings \<Rightarrow> bool" where
  "network_typed n \<longleftrightarrow> is_i64 (ns_ConnectTimeoutSeconds n) \<and> is_i64 (ns_ResponseHeaderTimeoutSeconds n) \<and> is_i64 (ns_ReadIdleTimeoutSeconds n)"

definition downloads_typed :: "DownloadSettings \<Rightarrow> bool" where
  "downloads_typed d \<longleftrightarrow> is_i64 (ds_SegmentSizeBytes d) \<and> is_i64 (ds_WorkersPerFile d) \<and> is_i64 (ds_MaxActiveFiles d) \<and>
     is_i64 (ds_MaxGlobalWorkers d) \<and> is_i64 (ds_GlobalSpeedLimitBytesPerSecond d) \<and> is_i64 (ds_PerJobDefaultLimitBytesPerSecond d) \<and>
     is_i64 (ds_CheckpointIntervalMs d) \<and> is_i64 (ds_CheckpointBytes d) \<and> is_i64 (ds_NormalRetryLimit d)"

lemma decode_network: "network_typed n \<Longrightarrow> decode_struct network_fields (marshal_network n) q = Some n"
  by (simp add: network_typed_def decode_struct_def marshal_network_def network_fields_def find_field_def)

lemma decode_downloads: "downloads_typed d \<Longrightarrow> decode_struct downloads_fields (marshal_downloads d) q = Some d"
  by (simp add: downloads_typed_def decode_struct_def marshal_downloads_def downloads_fields_def find_field_def set_string_def set_bool_def)

lemma app_Nil_iff: "(if b then [x] else []) @ ys = [] \<longleftrightarrow> \<not> b \<and> ys = []"
  by simp

text \<open>What the validation promises to the rest of the program.\<close>

definition settings_ok :: "Settings \<Rightarrow> bool" where
  "settings_ok s \<longleftrightarrow>
     (let d = s_Downloads s; n = s_Network s; p = s_Paths s in
      2 ^ 20 \<le> ds_SegmentSizeBytes d \<and> ds_SegmentSizeBytes d \<le> 2 ^ 26 \<and> ds_WorkersPerFile d \<in> {1..16} \<and> ds_MaxActiveFiles d \<in> {1..16} \<and>
      ds_MaxGlobalWorkers d \<in> {1..64} \<and> 0 \<le> ds_GlobalSpeedLimitBytesPerSecond d \<and> 0 \<le> ds_PerJobDefaultLimitBytesPerSecond d \<and>
      ds_ConflictPolicy d \<in> {''rename'', ''overwrite'', ''fail''} \<and> ds_CheckpointIntervalMs d \<in> {100..60000} \<and>
      ds_CheckpointBytes d \<in> {2 ^ 20..2 ^ 40} \<and> ds_NormalRetryLimit d \<in> {0..20} \<and>
      ns_ConnectTimeoutSeconds n \<in> {1..300} \<and> ns_ResponseHeaderTimeoutSeconds n \<in> {1..600} \<and> ns_ReadIdleTimeoutSeconds n \<in> {1..3600} \<and>
      ui_Theme (s_UI s) \<in> {''light'', ''dark'', ''system''} \<and> ui_Locale (s_UI s) = ''en'' \<and>
      (Configured p \<or> ps_IncompleteRoot p = [] \<and> ps_CompleteRoot p = []) \<and>
      (Configured p \<longrightarrow> has_prefix (ps_IncompleteRoot p) ''/'' \<and> has_prefix (ps_CompleteRoot p) ''/'' \<and>
         filepath_Clean (ps_IncompleteRoot p) \<noteq> ''/'' \<and> filepath_Clean (ps_CompleteRoot p) \<noteq> ''/''))"

lemma checkRoot_ok: "checkRoot name v = [] \<Longrightarrow> v = [] \<or> has_prefix v ''/'' \<and> filepath_Clean v \<noteq> ''/''"
  by (auto simp: checkRoot_def split: if_splits)

lemma download_problems_ok:
  "download_problems d = [] \<longleftrightarrow>
      2 ^ 20 \<le> ds_SegmentSizeBytes d \<and> ds_SegmentSizeBytes d \<le> 2 ^ 26 \<and> ds_WorkersPerFile d \<in> {1..16} \<and> ds_MaxActiveFiles d \<in> {1..16} \<and>
      ds_MaxGlobalWorkers d \<in> {1..64} \<and> 0 \<le> ds_GlobalSpeedLimitBytesPerSecond d \<and> 0 \<le> ds_PerJobDefaultLimitBytesPerSecond d \<and>
      ds_ConflictPolicy d \<in> {''rename'', ''overwrite'', ''fail''} \<and> ds_CheckpointIntervalMs d \<in> {100..60000} \<and>
      ds_CheckpointBytes d \<in> {2 ^ 20..2 ^ 40} \<and> ds_NormalRetryLimit d \<in> {0..20}"
  unfolding download_problems_def out_of_def by (simp add: not_less conj_ac)

lemma network_problems_ok:
  "network_problems n = [] \<longleftrightarrow>
      ns_ConnectTimeoutSeconds n \<in> {1..300} \<and> ns_ResponseHeaderTimeoutSeconds n \<in> {1..600} \<and> ns_ReadIdleTimeoutSeconds n \<in> {1..3600}"
  unfolding network_problems_def out_of_def by (simp add: not_less)

lemma Validate_ok: "Validate s = [] \<Longrightarrow> settings_ok s"
proof -
  assume v: "Validate s = []"
  let ?p = "s_Paths s"
  have "checkRoot ''paths.incompleteRoot'' (ps_IncompleteRoot ?p) = []" "checkRoot ''paths.completeRoot'' (ps_CompleteRoot ?p) = []"
    and both: "(ps_IncompleteRoot ?p = []) = (ps_CompleteRoot ?p = [])" and dn: "download_problems (s_Downloads s) = []" "network_problems (s_Network s) = []"
    and ui: "ui_Theme (s_UI s) \<in> {''light'', ''dark'', ''system''}" "ui_Locale (s_UI s) = ''en''"
    using v unfolding Validate_def Let_def by (auto split: if_split_asm)
  note roots = this(1,2) [THEN checkRoot_ok]
  have "Configured ?p \<or> ps_IncompleteRoot ?p = [] \<and> ps_CompleteRoot ?p = []" using both by (auto simp: Configured_def)
  moreover have "Configured ?p \<longrightarrow> has_prefix (ps_IncompleteRoot ?p) ''/'' \<and> has_prefix (ps_CompleteRoot ?p) ''/'' \<and>
         filepath_Clean (ps_IncompleteRoot ?p) \<noteq> ''/'' \<and> filepath_Clean (ps_CompleteRoot ?p) \<noteq> ''/''" using roots by (auto simp: Configured_def)
  ultimately show ?thesis using dn ui unfolding settings_ok_def Let_def download_problems_ok network_problems_ok by blast
qed

text \<open>The integer fields are Go integers; only the speed limits have no upper bound of their own.\<close>

lemma ok_typed:
  assumes "settings_ok s" and "is_i64 (ds_GlobalSpeedLimitBytesPerSecond (s_Downloads s))" and "is_i64 (ds_PerJobDefaultLimitBytesPerSecond (s_Downloads s))"
  shows "downloads_typed (s_Downloads s) \<and> network_typed (s_Network s)"
  using assms unfolding settings_ok_def downloads_typed_def network_typed_def is_i64_def Let_def by simp

definition section_of :: "Settings \<Rightarrow> string \<Rightarrow> json option" where
  "section_of v key = map_of (marshalSections v) key"

lemma section_of_simps [simp]:
  "section_of v ''paths'' = Some (marshal_paths (s_Paths v))" "section_of v ''downloads'' = Some (marshal_downloads (s_Downloads v))"
  "section_of v ''network'' = Some (marshal_network (s_Network v))" "section_of v ''ui'' = Some (marshal_ui (s_UI v))"
  by (simp_all add: section_of_def marshalSections_def)

text \<open>The settings \<open>s\<close> with the sections of \<open>v\<close> whose keys are in \<open>K\<close>.\<close>

definition with_sections :: "string set \<Rightarrow> Settings \<Rightarrow> Settings \<Rightarrow> Settings" where
  "with_sections K v s = \<lparr>s_Paths = (if ''paths'' \<in> K then s_Paths v else s_Paths s),
     s_Downloads = (if ''downloads'' \<in> K then s_Downloads v else s_Downloads s),
     s_Network = (if ''network'' \<in> K then s_Network v else s_Network s), s_UI = (if ''ui'' \<in> K then s_UI v else s_UI s)\<rparr>"

lemma with_sections_step:
  "with_sections K v (s\<lparr>s_Paths := s_Paths v\<rparr>) = with_sections (insert ''paths'' K) v s"
  "with_sections K v (s\<lparr>s_Downloads := s_Downloads v\<rparr>) = with_sections (insert ''downloads'' K) v s"
  "with_sections K v (s\<lparr>s_Network := s_Network v\<rparr>) = with_sections (insert ''network'' K) v s"
  "with_sections K v (s\<lparr>s_UI := s_UI v\<rparr>) = with_sections (insert ''ui'' K) v s"
  "key \<notin> {''paths'', ''downloads'', ''network'', ''ui''} \<Longrightarrow> with_sections (insert key K) v s = with_sections K v s"
  by (auto simp: with_sections_def)

lemma decode_section_stored:
  assumes "downloads_typed (s_Downloads v)" and "network_typed (s_Network v)" and "section_of v key \<noteq> None \<Longrightarrow> section_of v key = Some raw"
  shows "\<exists>s'. decode_section key raw s = Some s' \<and> (\<forall>K. with_sections K v s' = with_sections (insert key K) v s)"
proof (cases "key \<in> {''paths'', ''downloads'', ''network'', ''ui''}")
  case True
  then show ?thesis
  proof (elim insertE emptyE)
    assume "key = ''paths''"
    then have "key = ''paths''" "raw = marshal_paths (s_Paths v)" using assms(3) by simp_all
    then show ?thesis using assms(1,2) by (simp add: decode_section_def decode_paths with_sections_step(1))
  next
    assume "key = ''downloads''"
    then have "key = ''downloads''" "raw = marshal_downloads (s_Downloads v)" using assms(3) by simp_all
    then show ?thesis using assms(1,2) by (simp add: decode_section_def decode_downloads with_sections_step(2))
  next
    assume "key = ''network''"
    then have "key = ''network''" "raw = marshal_network (s_Network v)" using assms(3) by simp_all
    then show ?thesis using assms(1,2) by (simp add: decode_section_def decode_network with_sections_step(3))
  next
    assume "key = ''ui''"
    then have "key = ''ui''" "raw = marshal_ui (s_UI v)" using assms(3) by simp_all
    then show ?thesis using assms(1,2) by (simp add: decode_section_def decode_ui with_sections_step(4))
  qed
next
  case False
  then show ?thesis by (auto simp: decode_section_def with_sections_step)
qed

lemma decode_sections_stored:
  assumes "downloads_typed (s_Downloads v)" and "network_typed (s_Network v)"
    and "\<forall>(key, raw, w)\<in>set tab. section_of v key \<noteq> None \<longrightarrow> section_of v key = Some raw"
  shows "decode_sections tab s = Inr (with_sections (fst ` set tab) v s)"
  using assms(3)
proof (induction tab arbitrary: s)
  case Nil
  then show ?case by (simp add: with_sections_def)
next
  case (Cons e tab)
  obtain key raw w where e: "e = (key, raw, w)" by (cases e)
  obtain s' where s': "decode_section key raw s = Some s'" "\<forall>K. with_sections K v s' = with_sections (insert key K) v s"
    using decode_section_stored [OF assms(1,2), of key raw s] Cons.prems e by auto
  then show ?case using Cons.IH [of s'] Cons.prems e by simp
qed

lemma upsert_lookup:
  assumes "upsert_sections flt now k sections t = Some t'" and "distinct (map fst sections)"
  shows "map_of t' key = (case map_of sections key of None \<Rightarrow> map_of t key | Some raw \<Rightarrow> Some (raw, now)) \<and>
    (distinct (map fst t) \<longrightarrow> distinct (map fst t')) \<and> fst ` set t' = fst ` set t \<union> fst ` set sections"
  using assms
proof (induction sections arbitrary: k t)
  case (Cons e sections)
  obtain s raw where e: "e = (s, raw)" by (cases e)
  have up: "upsert_sections flt now (k + 1) sections (AList.update s (raw, now) t) = Some t'" using Cons.prems(1) e by (simp split: if_splits)
  have new: "s \<notin> fst ` set sections" using Cons.prems(2) e by simp
  then have "map_of sections s = None" by (simp add: map_of_eq_None_iff)
  then show ?case using Cons.IH [OF up] Cons.prems(2) e by (auto simp: update_conv' distinct_update dom_update split: option.splits)
qed simp

lemma Validate_Default: "Validate Default = []"
  by code_simp

lemma Update_Get:
  assumes u: "Update flt ok now v t = (None, t')" and "distinct (map fst t)"
    and "is_i64 (ds_GlobalSpeedLimitBytesPerSecond (s_Downloads v))" and "is_i64 (ds_PerJobDefaultLimitBytesPerSecond (s_Downloads v))"
  shows "Get True flt' ok' now' t' = (Inr v, t') \<and> distinct (map fst t')"
proof -
  have v: "Validate v = []" and up: "upsert_sections flt now 0 (marshalSections v) t = Some t'"
    using u by (auto simp: Update_def ReplaceSettings_def split: if_splits option.splits)
  have d: "distinct (map fst (marshalSections v))" by (simp add: marshalSections_def)
  note typed = ok_typed [OF Validate_ok [OF v] assms(3,4)]
  note look = upsert_lookup [OF up d]
  have dt: "distinct (map fst t')" and keys: "fst ` set t' = fst ` set t \<union> {''paths'', ''downloads'', ''network'', ''ui''}"
    using look assms(2) by (auto simp: marshalSections_def)
  have stored: "\<forall>(key, raw, w)\<in>set t'. section_of v key \<noteq> None \<longrightarrow> section_of v key = Some raw"
  proof clarify
    fix key raw w y
    assume m: "(key, raw, w) \<in> set t'" and y: "section_of v key = Some y"
    have "map_of t' key = Some (raw, w)" using m dt by simp
    then show "section_of v key = Some raw" using look [of key] y by (simp add: section_of_def)
  qed
  have k: "''paths'' \<in> fst ` set t'" "''downloads'' \<in> fst ` set t'" "''network'' \<in> fst ` set t'" "''ui'' \<in> fst ` set t'" using keys by simp_all
  have "with_sections (fst ` set t') v Default = v" unfolding with_sections_def using k by (simp only: if_True) simp
  then have s': "decode_sections t' Default = Inr v" using decode_sections_stored [OF conjunct1 [OF typed] conjunct2 [OF typed] stored] by simp
  have "t' \<noteq> []" using k(1) by (metis empty_iff image_empty list.set(1))
  then show ?thesis using s' v dt by (simp add: Get_def)
qed

text \<open>
  C37. Settings are validated and stored faithfully. What \<^verbatim>\<open>Get\<close> returns is always valid, so that every range the engine relies on
  holds; an update that succeeds is what the next \<^verbatim>\<open>Get\<close> returns, whatever was stored before; and an update that is rejected or
  fails at any statement leaves the stored settings unchanged.
\<close>

theorem settings_roundtrip:
  assumes "distinct (map fst t)"
    and "is_i64 (ds_GlobalSpeedLimitBytesPerSecond (s_Downloads v))" and "is_i64 (ds_PerJobDefaultLimitBytesPerSecond (s_Downloads v))"
  shows "(fst (Get read_ok flt ok now t) = Inr s \<longrightarrow> settings_ok s) \<and>
    (case Update flt ok now v t of
       (None, t') \<Rightarrow> settings_ok v \<and> Get True flt' ok' now' t' = (Inr v, t') \<and> distinct (map fst t')
     | (Some e, t') \<Rightarrow> t' = t)"
proof -
  have "fst (Get read_ok flt ok now t) = Inr s \<longrightarrow> settings_ok s"
    using Validate_ok Validate_Default by (auto simp: Get_def split: if_splits option.splits prod.splits sum.splits)
  moreover have "t' = t" if "Update flt ok now v t = (Some e, t')" for e t'
    using that by (auto simp: Update_def ReplaceSettings_def split: if_splits option.splits)
  moreover have "settings_ok v" if "Update flt ok now v t = (None, t')" for t'
    using that Validate_ok by (auto simp: Update_def split: if_splits)
  ultimately show ?thesis using Update_Get [OF _ assms] by (auto split: prod.split option.split)
qed

theorem settings_roundtrip_witness:
  "case Update (\<lambda>_. False) True 7 Default [] of (e, t') \<Rightarrow> e = None \<and> Get True (\<lambda>_. False) True 8 t' = (Inr Default, t')"
proof -
  have i: "is_i64 (ds_GlobalSpeedLimitBytesPerSecond (s_Downloads Default))" "is_i64 (ds_PerJobDefaultLimitBytesPerSecond (s_Downloads Default))"
    by (simp_all add: Default_def is_i64_def)
  have "fst (Update (\<lambda>_. False) True 7 Default []) = None" by (simp add: Update_def Validate_Default ReplaceSettings_def marshalSections_def)
  then show ?thesis
    using settings_roundtrip [OF _ i, of "[]" True "\<lambda>_. False" True 7 Default "\<lambda>_. False" True 8] by (auto split: prod.splits option.splits)
qed

end
