(* ===== verification/CreateDownload.thy ===== *)
theory CreateDownload
  imports MegaResolve Settings Delivery
begin

text \<open>
  The creation of a download (\<^verbatim>\<open>resolve\<close>, \<^verbatim>\<open>validateTransferRoots\<close>, \<^verbatim>\<open>errorCode\<close> and \<^verbatim>\<open>handleCreateDownload\<close> of \<^verbatim>\<open>internal/api/api.go\<close>), from
  the decoded request to the stored job: it joins link resolution, settings, path naming, the anchored roots and the store. The results
  of looking up settings, account, proxy and client, encryption and random identifiers are arguments; \<^verbatim>\<open>StartJob\<close>, the event and the
  response follow.
\<close>

section \<open>Resolving for the API\<close>

fun errorCode :: "mega_error \<Rightarrow> string" where
  "errorCode ErrInvalidLink = ''link_invalid''"
| "errorCode (ErrCrypto e) = (if e = ErrInvalidKey then ''link_invalid'' else ''resolve_failed'')"
| "errorCode ErrReauthRequired = ''account_reauth_required''"
| "errorCode ErrMFAUnsupported = ''account_mfa_unsupported''"
| "errorCode _ = ''resolve_failed''"

text \<open>The outcome is an error code, or link and job. \<open>client_for\<close> is the result of \<^verbatim>\<open>clientForAccountWithProxy\<close>.\<close>

definition resolve ::
  "(string \<Rightarrow> url option) \<Rightarrow> (string \<Rightarrow> string option) \<Rightarrow> (bytes \<Rightarrow> bytes \<Rightarrow> bytes) \<Rightarrow> (string \<Rightarrow> bytes option) \<Rightarrow> (bytes \<Rightarrow> json_object option)
     \<Rightarrow> commander \<Rightarrow> (mega_error + client) \<Rightarrow> string \<Rightarrow> string + PublicLink \<times> ResolvedJob" where
  "resolve parse unescape D b64 unmarshal cmd client_for rawURL =
     (if trim_space rawURL = [] then Inl ''resolve_failed''
      else case ParseLink parse unescape rawURL of
        Inl e \<Rightarrow> Inl (errorCode e)
      | Inr link \<Rightarrow>
          (case client_for of
             Inl e \<Rightarrow> Inl (errorCode e)
           | Inr c \<Rightarrow>
               (case fst (ResolveLink parse unescape D b64 unmarshal cmd rawURL c) of
                  Inl e \<Rightarrow> Inl (errorCode e)
                | Inr job \<Rightarrow>
                    if \<forall>f\<in>set (rj_Files job). is_ok (SanitizeRelativePath (rf_RelativePath f)) then Inr (link, job)
                    else Inl ''resolve_failed'')))"

section \<open>Roots\<close>

definition require_root :: "kernel \<Rightarrow> string \<Rightarrow> node \<Rightarrow> (path_error + root) \<times> node" where
  "require_root k path fs =
     (case New k path fs of
        Inl e \<Rightarrow> (Inl e, fs)
      | Inr r \<Rightarrow>
          (case Ensure k r fs of
             (Some e, r1, fs1) \<Rightarrow> (Inl e, fs1)
           | (None, r1, fs1) \<Rightarrow>
               (case RequireWritable k r1 fs1 of
                  (Some e, r2, fs2) \<Rightarrow> (Inl e, fs2)
                | (None, r2, fs2) \<Rightarrow> (Inr r2, fs2))))"

definition validate_transfer_roots :: "kernel \<Rightarrow> PathsSettings \<Rightarrow> node \<Rightarrow> bool \<times> node" where
  "validate_transfer_roots k paths fs =
     (case require_root k (ps_IncompleteRoot paths) fs of
        (Inl e, fs1) \<Rightarrow> (False, fs1)
      | (Inr incomplete, fs1) \<Rightarrow>
          (case require_root k (ps_CompleteRoot paths) fs1 of
             (Inl e, fs2) \<Rightarrow> (False, fs2)
           | (Inr complete, fs2) \<Rightarrow>
               (case DeviceID k incomplete fs2 of
                  (Inl e, r3, fs3) \<Rightarrow> (False, fs3)
                | (Inr incompleteDevice, r3, fs3) \<Rightarrow>
                    (case DeviceID k complete fs3 of
                       (Inl e, r4, fs4) \<Rightarrow> (False, fs4)
                     | (Inr completeDevice, r4, fs4) \<Rightarrow> (incompleteDevice = completeDevice, fs4)))))"

section \<open>Destinations\<close>

lemma split_last_dot_append: "split_last_dot v = (b, e) \<Longrightarrow> b @ e = v"
  by (auto simp: split_last_dot_def Let_def split: if_splits)

lemma unique_loop_numbered: "\<exists>i. unique_loop b e seen i0 = numbered_name b e i"
proof (induction b e seen i0 rule: unique_loop.induct)
  case (1 b e seen i)
  then show ?case by (subst unique_loop.simps) auto
qed

lemma unique_longer:
  assumes "v \<in> set seen"
  shows "length v < length (uniqueRelativePath v seen)"
proof -
  obtain b e where be: "split_last_dot v = (b, e)" by (rule prod.exhaust)
  obtain i where "unique_loop b e seen 1 = numbered_name b e i" using unique_loop_numbered by blast
  then have "uniqueRelativePath v seen = numbered_name b e i" using assms be by (simp add: uniqueRelativePath_def)
  then show ?thesis using split_last_dot_append [OF be] by (auto simp: numbered_name_def)
qed

lemma join_with_length_le: "length a \<le> length b \<Longrightarrow> length (join_with c (ps @ [a])) \<le> length (join_with c (ps @ [b]))"
  by (induction c ps rule: join_with.induct) (auto split: list.splits)

lemma conflict_loop_name:
  "conflict_loop k parent stem ext i r fs = (Inr c, r', fs') \<Longrightarrow>
     \<exists>j. SanitizeRelativePath (filepath_Join [parent, numbered_name stem ext j]) = Inr c"
proof (induction k parent stem ext i r fs rule: conflict_loop.induct)
  case (1 k parent stem ext i r fs)
  obtain x r1 fs1 where x: "Lstat k (filepath_Join [parent, numbered_name stem ext i]) r fs = (x, r1, fs1)" by (metis prod.exhaust)
  show ?case
  proof (cases "SanitizeRelativePath (filepath_Join [parent, numbered_name stem ext i])")
    case (Inl e)
    then show ?thesis using "1.prems" by (subst (asm) conflict_loop.simps) (simp split: if_splits)
  next
    case (Inr cand)
    then show ?thesis using "1.prems" "1.IH"
      by (subst (asm) conflict_loop.simps) (fastforce split: if_splits sum.splits prod.splits)
  qed
qed

lemma PlanConflict_longer:
  assumes "PlanConflict k rel policy r fs = (Inr c, r', fs')"
  shows "length rel \<le> length c"
proof (cases "c = rel")
  case False
  obtain x r1 fs1 where x: "Lstat k rel r fs = (x, r1, fs1)" by (metis prod.exhaust)
  have s: "SanitizeRelativePath rel = Inr rel" "rel \<noteq> []" "safe_path rel"
    using assms by (auto simp: PlanConflict_def SanitizeRelativePath_eq split: if_splits)
  obtain parent base where pb: "splitRelative rel = (parent, base)" by (metis prod.exhaust)
  note comps = splitRelative_comps [OF s(3) pb]
  let ?ext = "if filepath_Ext base = base then [] else filepath_Ext base" and ?stem = "trim_suffix base (if filepath_Ext base = base then [] else filepath_Ext base)"
  have "conflict_loop k parent ?stem ?ext 1 r1 fs1 = (Inr c, r', fs')"
    using assms s x pb False by (auto simp: PlanConflict_def Let_def split: sum.splits if_splits)
  then obtain j where j: "SanitizeRelativePath (filepath_Join [parent, numbered_name ?stem ?ext j]) = Inr c" using conflict_loop_name by blast
  have b: "?stem @ ?ext = base" using plan_stem_ext [of base] comps(2) by (simp add: safe_component_def)
  have "safe_component (?stem @ ?ext)" using b comps(2) by simp
  note safe = join_parent [OF comps(3) numbered_safe [OF this, of j]]
  have c: "c = filepath_Join [parent, numbered_name ?stem ?ext j]" using j safe safe_path_nonempty by (auto simp: SanitizeRelativePath_eq split: if_splits)
  have "join_with slash (rel_comps c) = c" "join_with slash (rel_comps rel) = rel" using safe c s safe_path_nonempty by (auto simp: rel_comps_def)
  moreover have "length base \<le> length (numbered_name ?stem ?ext j)" using arg_cong [OF b, of length] by (simp add: numbered_name_def)
  then have "length (join_with slash (rel_comps parent @ [base])) \<le> length (join_with slash (rel_comps parent @ [numbered_name ?stem ?ext j]))"
    by (rule join_with_length_le)
  ultimately show ?thesis using safe c comps(1) by (metis)
qed simp

text \<open>The inner loop: the planned path, renamed until no file of this job has it. Every round makes the path longer, so it ends
  once it is longer than all that are taken.\<close>

function place_file :: "kernel \<Rightarrow> string \<Rightarrow> string list \<Rightarrow> string \<Rightarrow> root \<Rightarrow> node \<Rightarrow> (path_error + string) \<times> root \<times> node" where
  "place_file k policy seen finalRelativePath r fs =
     (case PlanConflict k finalRelativePath policy r fs of
        (Inl e, r1, fs1) \<Rightarrow> (Inl e, r1, fs1)
      | (Inr planned, r1, fs1) \<Rightarrow>
          if planned \<in> set seen then place_file k policy seen (uniqueRelativePath planned seen) r1 fs1
          else (Inr planned, r1, fs1))"
  by pat_completeness auto
termination
proof (relation "measure (\<lambda>(_, _, seen, final, _, _). Suc (Max (length ` set ([] # seen))) - length final)")
  fix k policy and seen :: "string list" and final r fs x t r1 fs1 and planned :: string
  assume "(x, t) = PlanConflict k final policy r fs" "x = Inr planned" "(r1, fs1) = t" "planned \<in> set seen"
  then have "length final \<le> length planned" "length planned \<le> Max (length ` set ([] # seen))" "length planned < length (uniqueRelativePath planned seen)"
    using PlanConflict_longer [of k final policy r fs planned r1 fs1] unique_longer by (auto intro: Max_ge)
  then show "((k, policy, seen, uniqueRelativePath planned seen, r1, fs1), k, policy, seen, final, r, fs)
      \<in> measure (\<lambda>(_, _, seen, final, _, _). Suc (Max (length ` set ([] # seen))) - length final)"
    by (simp del: list.set)
qed simp

declare place_file.simps [simp del]

section \<open>The handler\<close>

text \<open>An error response: status and code.\<close>

datatype api_error = APIFailure nat string

definition segment_count :: "int \<Rightarrow> int \<Rightarrow> int" where
  "segment_count size_bytes segmentSize = (if size_bytes > 0 then go_div (i64 (i64 (size_bytes + segmentSize) - 1)) segmentSize else 0)"

text \<open>The loop over the resolved files: \<open>encrypt n\<close> is the \<open>n\<close>-th encryption and \<open>ids n\<close> the \<open>n\<close>-th random identifier.\<close>

fun plan_files ::
  "kernel \<Rightarrow> (nat \<Rightarrow> bytes \<Rightarrow> bytes option) \<Rightarrow> (nat \<Rightarrow> string) \<Rightarrow> DownloadSettings \<Rightarrow> string \<Rightarrow> nat \<Rightarrow> string list \<Rightarrow> file_input list \<Rightarrow> ResolvedFile list
     \<Rightarrow> root \<Rightarrow> node \<Rightarrow> (api_error + file_input list) \<times> node" where
  "plan_files k encrypt ids ds destination n seen acc [] r fs = (Inr acc, fs)"
| "plan_files k encrypt ids ds destination n seen acc (f # rest) r fs =
     (case SanitizeRelativePath (rf_RelativePath f) of
        Inl e \<Rightarrow> (Inl (APIFailure 400 ''destination_invalid''), fs)
      | Inr safe \<Rightarrow>
          (let relativePath = uniqueRelativePath safe seen in
           case place_file k (ds_ConflictPolicy ds) seen (joinRelative destination relativePath) r fs of
             (Inl e, r1, fs1) \<Rightarrow> (Inl (APIFailure 400 ''destination_conflict''), fs1)
           | (Inr final, r1, fs1) \<Rightarrow>
               (case encrypt (2 * n + 1) (rf_FileKey f) of
                  None \<Rightarrow> (Inl (APIFailure 500 ''encryption_error''), fs1)
                | Some keyCiphertext \<Rightarrow>
                    (case encrypt (2 * n + 2) (text_bytes (rf_PayloadURL f)) of
                       None \<Rightarrow> (Inl (APIFailure 500 ''encryption_error''), fs1)
                     | Some payloadCiphertext \<Rightarrow>
                         plan_files k encrypt ids ds destination (n + 1) (final # seen)
                           (acc @ [\<lparr>in_file_ID = ids (n + 1), in_RemoteNodeID = rf_NodeID f, in_RemotePath = relativePath,
                                    in_FinalRelativePath = final, in_SizeBytes = rf_Size f, in_SegmentSizeBytes = ds_SegmentSizeBytes ds,
                                    in_SegmentCount = segment_count (rf_Size f) (ds_SegmentSizeBytes ds),
                                    in_FileKeyCiphertext = keyCiphertext, in_PayloadURLCiphertext = payloadCiphertext,
                                    in_PayloadContext = rf_PayloadContext f, in_file_State = Some FilePending\<rparr>])
                           rest r1 fs1))))"

record create_request =
  cr_URL :: string
  cr_AccountID :: string
  cr_ProxyID :: string
  cr_DestinationSubdirectory :: string
  cr_StartImmediately :: "bool option"

text \<open>The outcomes of the lookups and services the handler calls.\<close>

record create_env =
  ce_kernel :: kernel
  ce_settings :: "settings_error + Settings"
  ce_account_ok :: bool
  ce_proxy_ok :: bool
  ce_resolve :: "string \<Rightarrow> string + PublicLink \<times> ResolvedJob"
  ce_encrypt :: "nat \<Rightarrow> bytes \<Rightarrow> bytes option"
  ce_ids :: "nat \<Rightarrow> string"
  ce_newIDs :: "nat \<Rightarrow> string option"
  ce_faults :: faults
  ce_commit_ok :: bool
  ce_now :: int

definition job_input_of ::
  "create_env \<Rightarrow> create_request \<Rightarrow> Settings \<Rightarrow> string \<Rightarrow> PublicLink \<Rightarrow> ResolvedJob \<Rightarrow> bytes \<Rightarrow> bool \<Rightarrow> file_input list \<Rightarrow> job_input" where
  "job_input_of ce req s destination link job sourceCiphertext startImmediately inputs =
     \<lparr>in_ID = ce_ids ce 0, in_SourceKind = kind_name (pl_Kind link), in_SourceHandle = pl_Handle link,
      in_SourceKeyCiphertext = sourceCiphertext, in_SourceSelectedPath = pl_SelectedPath link, in_SourceSelectedNode = pl_SelectedNode link,
      in_DisplayName = rj_DisplayName job, in_TotalBytes = rj_TotalBytes job, in_AccountID = cr_AccountID req, in_ProxyID = cr_ProxyID req,
      in_DestinationSubdir = destination, in_CompleteRoot = ps_CompleteRoot (s_Paths s), in_IncompleteRoot = ps_IncompleteRoot (s_Paths s),
      in_State = Some (if startImmediately then JobQueued else JobReady), in_CreatedAt = zero_time, in_UpdatedAt = zero_time, in_Files = inputs\<rparr>"

text \<open>The result: an error response, or the stored record and whether it is to be started.\<close>

definition handleCreateDownload ::
  "create_env \<Rightarrow> create_request \<Rightarrow> database \<Rightarrow> node \<Rightarrow> (api_error + job_record \<times> bool) \<times> database \<times> node" where
  "handleCreateDownload ce req d fs =
     (case ce_settings ce of
        Inl e \<Rightarrow> (Inl (APIFailure 500 ''settings_error''), d, fs)
      | Inr s \<Rightarrow>
          if \<not> Configured (s_Paths s) then (Inl (APIFailure 409 ''transfer_paths_unconfigured''), d, fs)
          else case validate_transfer_roots (ce_kernel ce) (s_Paths s) fs of
            (False, fs1) \<Rightarrow> (Inl (APIFailure 400 ''settings_invalid''), d, fs1)
          | (True, fs1) \<Rightarrow>
              if cr_AccountID req \<noteq> [] \<and> \<not> ce_account_ok ce then (Inl (APIFailure 400 ''account_invalid''), d, fs1)
              else if cr_ProxyID req \<noteq> [] \<and> \<not> ce_proxy_ok ce then (Inl (APIFailure 400 ''proxy_invalid''), d, fs1)
              else case SanitizeRelativePath (cr_DestinationSubdirectory req) of
                Inl e \<Rightarrow> (Inl (APIFailure 400 ''destination_invalid''), d, fs1)
              | Inr destination \<Rightarrow>
                  (case ce_resolve ce (cr_URL req) of
                     Inl code \<Rightarrow> (Inl (APIFailure 400 code), d, fs1)
                   | Inr (link, job) \<Rightarrow>
                       (case ce_encrypt ce 0 (text_bytes (pl_Key link)) of
                          None \<Rightarrow> (Inl (APIFailure 500 ''encryption_error''), d, fs1)
                        | Some sourceCiphertext \<Rightarrow>
                            (let startImmediately = (case cr_StartImmediately req of Some b \<Rightarrow> b | None \<Rightarrow> ds_AutoStart (s_Downloads s)) in
                             case New (ce_kernel ce) (ps_CompleteRoot (s_Paths s)) fs1 of
                               Inl e \<Rightarrow> (Inl (APIFailure 500 ''settings_error''), d, fs1)
                             | Inr completeRoot \<Rightarrow>
                                 (case plan_files (ce_kernel ce) (ce_encrypt ce) (ce_ids ce) (s_Downloads s) destination 0 [] [] (rj_Files job) completeRoot fs1 of
                                    (Inl e, fs2) \<Rightarrow> (Inl e, d, fs2)
                                  | (Inr inputs, fs2) \<Rightarrow>
                                      (case InsertDownloadJob (ce_newIDs ce) (ce_faults ce) (ce_commit_ok ce) (ce_now ce)
                                              (job_input_of ce req s destination link job sourceCiphertext startImmediately inputs) d of
                                         (Inl e, d1) \<Rightarrow> (Inl (APIFailure 500 ''database_error''), d1, fs2)
                                       | (Inr stored, d1) \<Rightarrow> (Inr (stored, startImmediately), d1, fs2)))))))"

section \<open>What the parts yield\<close>

text \<open>Only directories are made.\<close>

definition only_dirs :: "node \<Rightarrow> node \<Rightarrow> bool" where
  "only_dirs fs fs' \<longleftrightarrow> (\<forall>p. at_path fs' p = at_path fs p \<or> at_path fs p = None \<and> at_path fs' p = Some EDir)"

lemma only_dirs_refl [simp]: "only_dirs fs fs"
  by (simp add: only_dirs_def)

lemma only_dirs_trans: "only_dirs fs fs1 \<Longrightarrow> only_dirs fs1 fs2 \<Longrightarrow> only_dirs fs fs2"
  unfolding only_dirs_def by (metis option.distinct(1))

lemma dirs_made_only: "dirs_made q fs fs' \<Longrightarrow> only_dirs fs fs'"
  unfolding dirs_made_def only_dirs_def by blast

lemma Ensure_dirs: "Ensure k r fs = (e, r', fs') \<Longrightarrow> only_dirs fs fs'"
  by (auto simp: Ensure_def split: prod.splits sum.splits dest!: rootDescriptor_made dirs_made_only)

lemma RequireWritable_dirs: "RequireWritable k r fs = (e, r', fs') \<Longrightarrow> only_dirs fs fs'"
  by (auto simp: RequireWritable_def split: prod.splits sum.splits dest!: rootDescriptor_made dirs_made_only)

lemma DeviceID_dirs: "DeviceID k r fs = (e, r', fs') \<Longrightarrow> only_dirs fs fs'"
  by (auto simp: DeviceID_def split: prod.splits sum.splits dest!: rootDescriptor_made dirs_made_only)

lemma require_root_dirs: "require_root k path fs = (r, fs') \<Longrightarrow> only_dirs fs fs'"
  unfolding require_root_def
  by (auto split: sum.splits prod.splits option.splits dest!: Ensure_dirs RequireWritable_dirs intro: only_dirs_trans)

lemma validate_roots_dirs: "validate_transfer_roots k paths fs = (b, fs') \<Longrightarrow> only_dirs fs fs'"
proof -
  assume v: "validate_transfer_roots k paths fs = (b, fs')"
  obtain x fs1 where x: "require_root k (ps_IncompleteRoot paths) fs = (x, fs1)" by (rule prod.exhaust)
  obtain y fs2 where y: "require_root k (ps_CompleteRoot paths) fs1 = (y, fs2)" by (rule prod.exhaust)
  note d1 = require_root_dirs [OF x] and d2 = only_dirs_trans [OF require_root_dirs [OF x] require_root_dirs [OF y]]
  have "only_dirs fs2 fs'" if "x = Inr i" "y = Inr c" for i c
    using v x y that unfolding validate_transfer_roots_def
    by (auto split: sum.splits prod.splits dest!: DeviceID_dirs intro: only_dirs_trans)
  then show ?thesis using v x y d1 d2 only_dirs_trans [OF d2] unfolding validate_transfer_roots_def
    by (cases x; cases y) auto
qed

lemma place_file_result:
  "place_file k policy seen final r fs = (res, r', fs') \<Longrightarrow>
     fs' = fs \<and> r_path r' = r_path r \<and>
     (\<forall>c. res = Inr c \<longrightarrow> c \<notin> set seen \<and> safe_path c \<and> (policy \<noteq> ''overwrite'' \<longrightarrow> at_path fs (path_in r c) = None))"
proof (induction k policy seen final r fs rule: place_file.induct)
  case (1 k policy seen final r fs)
  obtain x r1 fs1 where x: "PlanConflict k final policy r fs = (x, r1, fs1)" by (metis prod.exhaust)
  note p = PlanConflict_result [OF x]
  show ?case
  proof (cases x)
    case (Inl e)
    then show ?thesis using "1.prems" x p by (subst (asm) place_file.simps) auto
  next
    case (Inr planned)
    show ?thesis
    proof (cases "planned \<in> set seen")
      case True
      then have "place_file k policy seen (uniqueRelativePath planned seen) r1 fs1 = (res, r', fs')"
        using "1.prems" x Inr by (subst (asm) place_file.simps) simp
      then show ?thesis using "1.IH" [OF x [symmetric] Inr refl True] p by simp
    next
      case False
      then have "res = Inr planned" "r' = r1" "fs' = fs1" using "1.prems" x Inr by (subst (asm) (1) place_file.simps, simp)+
      then show ?thesis using p Inr False by simp
    qed
  qed
qed

text \<open>An input row as planned for a resolved file.\<close>

definition planned_input :: "DownloadSettings \<Rightarrow> root \<Rightarrow> node \<Rightarrow> ResolvedFile \<Rightarrow> file_input \<Rightarrow> bool" where
  "planned_input ds r fs f i \<longleftrightarrow>
     in_RemoteNodeID i = rf_NodeID f \<and> in_SizeBytes i = rf_Size f \<and> in_SegmentSizeBytes i = ds_SegmentSizeBytes ds \<and>
     in_SegmentCount i = segment_count (rf_Size f) (ds_SegmentSizeBytes ds) \<and> in_file_State i = Some FilePending \<and>
     safe_path (in_FinalRelativePath i) \<and> (ds_ConflictPolicy ds \<noteq> ''overwrite'' \<longrightarrow> at_path fs (path_in r (in_FinalRelativePath i)) = None)"

lemma planned_input_root: "r_path r' = r_path r \<Longrightarrow> planned_input ds r' fs = planned_input ds r fs"
  by (simp add: planned_input_def fun_eq_iff)

lemma plan_files_result:
  assumes "plan_files k encrypt ids ds destination n seen acc rfs r fs = (res, fs')"
  shows "fs' = fs \<and> (\<forall>inputs. res = Inr inputs \<longrightarrow>
    (\<exists>new. inputs = acc @ new \<and> list_all2 (planned_input ds r fs) rfs new \<and>
       distinct (map in_FinalRelativePath new) \<and> in_FinalRelativePath ` set new \<inter> set seen = {}))"
  using assms
proof (induction rfs arbitrary: n seen acc r)
  case Nil
  then show ?case by auto
next
  case (Cons f rfs)
  show ?case
  proof (cases "SanitizeRelativePath (rf_RelativePath f)")
    case (Inl e)
    then show ?thesis using Cons.prems by auto
  next
    case (Inr safe)
    obtain x r1 fs1 where x: "place_file k (ds_ConflictPolicy ds) seen (joinRelative destination (uniqueRelativePath safe seen)) r fs = (x, r1, fs1)" by (metis prod.exhaust)
    note p = place_file_result [OF x]
    show ?thesis
    proof (cases "\<exists>c kc pc. x = Inr c \<and> encrypt (2 * n + 1) (rf_FileKey f) = Some kc \<and> encrypt (2 * n + 2) (text_bytes (rf_PayloadURL f)) = Some pc")
      case False
      then show ?thesis using Cons.prems Inr x p by (auto simp: Let_def split: sum.splits option.splits)
    next
      case True
      then obtain c kc pc where c: "x = Inr c" "encrypt (2 * n + 1) (rf_FileKey f) = Some kc" "encrypt (2 * n + 2) (text_bytes (rf_PayloadURL f)) = Some pc" by blast
      define i where "i = \<lparr>in_file_ID = ids (n + 1), in_RemoteNodeID = rf_NodeID f, in_RemotePath = uniqueRelativePath safe seen,
        in_FinalRelativePath = c, in_SizeBytes = rf_Size f, in_SegmentSizeBytes = ds_SegmentSizeBytes ds,
        in_SegmentCount = segment_count (rf_Size f) (ds_SegmentSizeBytes ds), in_FileKeyCiphertext = kc, in_PayloadURLCiphertext = pc,
        in_PayloadContext = rf_PayloadContext f, in_file_State = Some FilePending\<rparr>"
      have go: "plan_files k encrypt ids ds destination (n + 1) (c # seen) (acc @ [i]) rfs r1 fs = (res, fs')"
        using Cons.prems Inr x p c by (simp add: Let_def i_def)
      have pi: "planned_input ds r fs f i" and ci: "in_FinalRelativePath i = c" "c \<notin> set seen"
        using p c(1) by (simp_all add: planned_input_def i_def)
      have eq: "planned_input ds r1 fs = planned_input ds r fs" using p by (intro planned_input_root) simp
      note ih = Cons.IH [OF go, unfolded eq]
      show ?thesis
      proof (intro conjI allI impI)
        show "fs' = fs" using ih by blast
        fix inputs
        assume "res = Inr inputs"
        then obtain new where new: "inputs = (acc @ [i]) @ new" "list_all2 (planned_input ds r fs) rfs new"
          "distinct (map in_FinalRelativePath new)" "in_FinalRelativePath ` set new \<inter> set (c # seen) = {}" using ih by blast
        show "\<exists>new. inputs = acc @ new \<and> list_all2 (planned_input ds r fs) (f # rfs) new \<and>
          distinct (map in_FinalRelativePath new) \<and> in_FinalRelativePath ` set new \<inter> set seen = {}"
          using new pi ci by (intro exI [of _ "i # new"]) auto
      qed
    qed
  qed
qed

lemma insert_files_rows:
  "insert_files ids flt jid t u k fs d = Inr d' \<Longrightarrow>
     jobs d' = jobs d \<and> (\<exists>rows. files d' = files d @ rows \<and> list_all2 (\<lambda>f r. \<exists>fid. r = insert_file_row fid jid f t u) fs rows)"
proof (induction fs arbitrary: k d)
  case (Cons f fs)
  obtain fid where go: "insert_files ids flt jid t u (k + 1) fs (d\<lparr>files := files d @ [insert_file_row fid jid f t u]\<rparr>) = Inr d'"
    using Cons.prems by (simp split: option.splits if_splits)
  from Cons.IH [OF go] obtain rows where "jobs d' = jobs d" "files d' = files d @ insert_file_row fid jid f t u # rows"
    "list_all2 (\<lambda>f r. \<exists>fid. r = insert_file_row fid jid f t u) fs rows" by auto
  then show ?case by (intro conjI exI [of _ "insert_file_row fid jid f t u # rows"]) auto
qed simp

lemma InsertDownloadJob_rows:
  assumes "InsertDownloadJob ids flt ok now i d = (Inr stored, d')" and "in_ID i \<noteq> []"
  shows "\<exists>t u rows. jobs d' = jobs d @ [insert_job_row (in_ID i) i t u] \<and> files d' = files d @ rows \<and> in_ID i \<notin> job_ID ` set (jobs d) \<and>
    list_all2 (\<lambda>f r. \<exists>fid. r = insert_file_row fid (in_ID i) f t u) (in_Files i) rows"
proof -
  let ?t = "norm_time now (in_CreatedAt i)" and ?u = "norm_time (norm_time now (in_CreatedAt i)) (in_UpdatedAt i)"
  have "insert_files ids flt (in_ID i) ?t ?u 1 (in_Files i) (d\<lparr>jobs := jobs d @ [insert_job_row (in_ID i) i ?t ?u]\<rparr>) = Inr d'" "in_ID i \<notin> job_ID ` set (jobs d)"
    using assms by (auto simp: InsertDownloadJob_def WithTx_def Let_def split: if_splits sum.splits option.splits)
  with insert_files_rows [OF this(1)] show ?thesis by auto
qed

text \<open>The count the handler stores is the planner's, as long as size plus segment size stays in range.\<close>

lemma segment_count_planner:
  assumes "0 \<le> n" and "0 < seg" and "n + seg \<le> max_int64"
  shows "NewSegmentPlanner n seg = Inr \<lparr>Size = n, SegmentSize = seg, Count = segment_count n seg\<rparr>"
proof (cases "0 < n")
  case True
  have r: "is_i64 (n + seg)" "is_i64 (n + seg - 1)" "is_i64 (n - 1)" using assms True by (auto simp: is_i64_def max_int64_def)
  have "(n + seg - 1) div seg = (n - 1) div seg + 1" using assms(2) by (metis add.commute add_diff_eq diff_add_eq div_add_self2 less_irrefl)
  moreover have "is_i64 ((n - 1) div seg + 1)"
  proof -
    have "(n - 1) div seg \<le> n - 1" using zdiv_mono2 [of "n - 1" 1 seg] True assms(2) by simp
    moreover have "0 \<le> (n - 1) div seg" using True assms(2) by (simp add: pos_imp_zdiv_nonneg_iff)
    ultimately show ?thesis using assms by (auto simp: is_i64_def max_int64_def)
  qed
  ultimately show ?thesis using True assms r by (simp add: NewSegmentPlanner_def segment_count_def i64_id go_div_nonneg)
qed (use assms in \<open>simp add: NewSegmentPlanner_def segment_count_def\<close>)

lemma ResolveLink_sizes:
  assumes "fst (ResolveLink parse unescape D b64 unmarshal cmd rawURL c) = Inr job"
  shows "rj_Files job \<noteq> [] \<and> rj_TotalBytes job = sum_list (map rf_Size (rj_Files job)) \<and> (\<forall>f\<in>set (rj_Files job). 0 \<le> rf_Size f)"
proof -
  obtain link where link: "ParseLink parse unescape rawURL = Inr link" using assms by (cases "ParseLink parse unescape rawURL") (auto simp: ResolveLink_def)
  show ?thesis
  proof (cases "pl_Kind link = LinkKindFile")
    case True
    obtain r c1 where r: "resolveFile D b64 unmarshal cmd link c = (r, c1)" by (rule prod.exhaust)
    obtain f where f: "r = Inr f" using assms link True r by (cases r) (auto simp: ResolveLink_def)
    have "0 \<le> rf_Size f" using r f
      by (auto simp: resolveFile_def fileFromMetadata_def Let_def split: sum.splits prod.splits option.splits if_splits)
    then show ?thesis using assms link True r f by (auto simp: ResolveLink_def)
  next
    case False
    obtain c' where "resolveFolder D b64 unmarshal cmd link c = (Inr job, c')"
      using assms link False by (cases "resolveFolder D b64 unmarshal cmd link c") (auto simp: ResolveLink_def)
    then show ?thesis
    proof (rule resolveFolder_ok)
      fix master response c1 root nodes sel
      assume l: "folder_listing D b64 unmarshal master link response = Inr (root, nodes)" and ne: "rj_Files job \<noteq> []"
        and run: "collect_files cmd (pl_Handle link) nodes sel nodes [] 0 c1 = (Inr (rj_Files job, rj_TotalBytes job), c')"
      show ?thesis using collect_files_result [OF run] folder_listing_ok [OF l] ne by (auto simp: max_int64_def)
    qed
  qed
qed

lemma resolve_sizes:
  assumes "resolve parse unescape D b64 unmarshal cmd client_for rawURL = Inr (link, job)"
  shows "rj_Files job \<noteq> [] \<and> rj_TotalBytes job = sum_list (map rf_Size (rj_Files job)) \<and> (\<forall>f\<in>set (rj_Files job). 0 \<le> rf_Size f)"
proof -
  obtain c where "fst (ResolveLink parse unescape D b64 unmarshal cmd rawURL c) = Inr job"
    using assms by (auto simp: resolve_def split: if_splits sum.splits)
  then show ?thesis by (rule ResolveLink_sizes)
qed

text \<open>What a successful creation went through.\<close>

lemma handleCreateDownload_ok:
  assumes "handleCreateDownload ce req d fs = (Inr (stored, start), d', fs')" and "ce_settings ce = Inr s"
  obtains fs1 destination link job key root inputs where "validate_transfer_roots (ce_kernel ce) (s_Paths s) fs = (True, fs1)"
    "ce_resolve ce (cr_URL req) = Inr (link, job)" "New (ce_kernel ce) (ps_CompleteRoot (s_Paths s)) fs1 = Inr root"
    "plan_files (ce_kernel ce) (ce_encrypt ce) (ce_ids ce) (s_Downloads s) destination 0 [] [] (rj_Files job) root fs1 = (Inr inputs, fs')"
    "InsertDownloadJob (ce_newIDs ce) (ce_faults ce) (ce_commit_ok ce) (ce_now ce) (job_input_of ce req s destination link job key start inputs) d = (Inr stored, d')"
proof -
  note run = assms(1) [unfolded handleCreateDownload_def assms(2) sum.case]
  have conf: "Configured (s_Paths s)" using run by (auto split: if_splits)
  obtain b fs1 where v: "validate_transfer_roots (ce_kernel ce) (s_Paths s) fs = (b, fs1)" by (rule prod.exhaust)
  have b: "b" using run conf v by (cases b) auto
  have acc: "\<not> (cr_AccountID req \<noteq> [] \<and> \<not> ce_account_ok ce)" "\<not> (cr_ProxyID req \<noteq> [] \<and> \<not> ce_proxy_ok ce)"
    using run conf v b by (auto split: if_splits)
  obtain destination where dst: "SanitizeRelativePath (cr_DestinationSubdirectory req) = Inr destination"
    using run conf v b acc by (cases "SanitizeRelativePath (cr_DestinationSubdirectory req)") auto
  obtain link job where lj: "ce_resolve ce (cr_URL req) = Inr (link, job)" using run conf v b acc dst by (cases "ce_resolve ce (cr_URL req)") auto
  obtain key where key: "ce_encrypt ce 0 (text_bytes (pl_Key link)) = Some key"
    using run conf v b acc dst lj by (cases "ce_encrypt ce 0 (text_bytes (pl_Key link))") auto
  obtain root where root: "New (ce_kernel ce) (ps_CompleteRoot (s_Paths s)) fs1 = Inr root"
    using run conf v b acc dst lj key by (cases "New (ce_kernel ce) (ps_CompleteRoot (s_Paths s)) fs1") auto
  obtain x fs2 where x: "plan_files (ce_kernel ce) (ce_encrypt ce) (ce_ids ce) (s_Downloads s) destination 0 [] [] (rj_Files job) root fs1 = (x, fs2)" by (rule prod.exhaust)
  obtain inputs where i: "x = Inr inputs" using run conf v b acc dst lj key root x by (cases x) (auto simp: Let_def)
  define start0 where "start0 = (case cr_StartImmediately req of Some b \<Rightarrow> b | None \<Rightarrow> ds_AutoStart (s_Downloads s))"
  obtain y d1 where y: "InsertDownloadJob (ce_newIDs ce) (ce_faults ce) (ce_commit_ok ce) (ce_now ce) (job_input_of ce req s destination link job key start0 inputs) d = (y, d1)" by (rule prod.exhaust)
  have "y = Inr stored \<and> start0 = start \<and> d1 = d' \<and> fs2 = fs'"
    using run conf v b acc dst lj key root x i y by (cases y) (auto simp: Let_def start0_def [symmetric])
  then show ?thesis using that [of fs1 link job root destination inputs key] v b lj root x i y by simp
qed

text \<open>The stored rows of a new job.\<close>

definition created_row :: "DownloadSettings \<Rightarrow> job_row \<Rightarrow> node \<Rightarrow> ResolvedFile \<Rightarrow> file_row \<Rightarrow> bool" where
  "created_row ds row fs f r \<longleftrightarrow>
     file_JobID r = job_ID row \<and> RemoteNodeID r = rf_NodeID f \<and> SizeBytes r = rf_Size f \<and> file_State r = FilePending \<and>
     CompletedBitmap r = [] \<and> BytesCommitted r = 0 \<and> SegmentSizeBytes r = ds_SegmentSizeBytes ds \<and>
     SegmentCount r = segment_count (rf_Size f) (ds_SegmentSizeBytes ds) \<and> safe_path (FinalRelativePath r) \<and>
     (ds_ConflictPolicy ds \<noteq> ''overwrite'' \<longrightarrow> at_path fs (job_path (CompleteRoot row) (FinalRelativePath r)) = None)"

lemma create_rows:
  assumes h: "handleCreateDownload ce req d fs = (Inr (stored, start), d', fs')" and s: "ce_settings ce = Inr s" and ids: "ce_ids ce 0 \<noteq> []"
  obtains link job row rows where "ce_resolve ce (cr_URL req) = Inr (link, job)" "jobs d' = jobs d @ [row]" "files d' = files d @ rows"
    "job_ID row = ce_ids ce 0" "job_ID row \<notin> job_ID ` set (jobs d)" "job_State row = (if start then JobQueued else JobReady)"
    "TotalBytes row = rj_TotalBytes job" "CompleteRoot row = ps_CompleteRoot (s_Paths s)" "IncompleteRoot row = ps_IncompleteRoot (s_Paths s)"
    "list_all2 (created_row (s_Downloads s) row fs') (rj_Files job) rows" "distinct (map FinalRelativePath rows)" "only_dirs fs fs'"
  using h s
proof (rule handleCreateDownload_ok)
  fix fs1 destination link job key root inputs
  assume v: "validate_transfer_roots (ce_kernel ce) (s_Paths s) fs = (True, fs1)" and lj: "ce_resolve ce (cr_URL req) = Inr (link, job)"
    and root: "New (ce_kernel ce) (ps_CompleteRoot (s_Paths s)) fs1 = Inr root"
    and plan: "plan_files (ce_kernel ce) (ce_encrypt ce) (ce_ids ce) (s_Downloads s) destination 0 [] [] (rj_Files job) root fs1 = (Inr inputs, fs')"
    and ins: "InsertDownloadJob (ce_newIDs ce) (ce_faults ce) (ce_commit_ok ce) (ce_now ce) (job_input_of ce req s destination link job key start inputs) d = (Inr stored, d')"
  let ?i = "job_input_of ce req s destination link job key start inputs"
  have i: "in_ID ?i = ce_ids ce 0" "in_Files ?i = inputs" by (simp_all add: job_input_of_def)
  obtain t u rows where rows: "jobs d' = jobs d @ [insert_job_row (ce_ids ce 0) ?i t u]" "files d' = files d @ rows" "ce_ids ce 0 \<notin> job_ID ` set (jobs d)"
    "list_all2 (\<lambda>f r. \<exists>fid. r = insert_file_row fid (ce_ids ce 0) f t u) inputs rows"
    using InsertDownloadJob_rows [OF ins] ids unfolding i by blast
  let ?row = "insert_job_row (ce_ids ce 0) ?i t u"
  have p: "fs' = fs1" "list_all2 (planned_input (s_Downloads s) root fs1) (rj_Files job) inputs" "distinct (map in_FinalRelativePath inputs)"
    using plan_files_result [OF plan] by auto
  have finals: "map FinalRelativePath rows = map in_FinalRelativePath inputs"
    using rows(4) by (induction rule: list_all2_induct) (auto simp: insert_file_row_def)
  have row: "job_ID ?row = ce_ids ce 0" "CompleteRoot ?row = ps_CompleteRoot (s_Paths s)" "IncompleteRoot ?row = ps_IncompleteRoot (s_Paths s)"
    "job_State ?row = (if start then JobQueued else JobReady)" "TotalBytes ?row = rj_TotalBytes job"
    by (simp_all add: insert_job_row_def job_input_of_def)
  have one: "created_row (s_Downloads s) ?row fs' f r"
    if "planned_input (s_Downloads s) root fs1 f i" "\<exists>fid. r = insert_file_row fid (ce_ids ce 0) i t u" for f i r
    using that New_path [OF root] p(1) row by (auto simp: planned_input_def created_row_def insert_file_row_def)
  have "list_all2 (created_row (s_Downloads s) ?row fs') (rj_Files job) rows"
    by (rule list_all2_trans [OF one p(2) rows(4)])
  then show ?thesis using that [OF lj rows(1,2) row(1) _ row(4,5,2,3)] rows(3) row(1) finals p(3) validate_roots_dirs [OF v] p(1) by simp
qed

text \<open>Only destinations are made unique: two files of one name below a subdirectory get two destinations but one remote path,
  and with it one partial file.\<close>

definition two_equal_names :: "ResolvedFile list" where
  "two_equal_names = map (\<lambda>h. \<lparr>rf_NodeID = h, rf_RelativePath = ''a'', rf_Size = 1, rf_FileKey = [], rf_Attributes = [], rf_Key = zero_FileKey,
     rf_PayloadURL = ''u'', rf_PayloadContext = []\<rparr>) [''n'', ''m'']"

lemma equal_names_share_partial:
  "map_sum (\<lambda>_. ()) (map (\<lambda>i. (in_FinalRelativePath i, PartialRelativePath ''j'' (in_RemotePath i))))
     (fst (plan_files no_faults (\<lambda>_ b. Some b) (\<lambda>n. digits_of n) (s_Downloads Default) ''z'' 0 [] [] two_equal_names sample_cr sample_disk)) =
   Inr [(''z/a'', Inr ''j/a.mega.part''), (''z/a (1)'', Inr ''j/a.mega.part'')]"
  by code_simp

end
