(* ===== verification/Events.thy ===== *)
theory Events
  imports Store "HOL-Library.AList" "HOL-Library.Sublist"
begin

text \<open>
  Live notifications (\<^verbatim>\<open>internal/events\<close>): the bounded latest-value set of one subscriber (\<^verbatim>\<open>coalesce.go\<close>) and the fan-out bus
  (\<^verbatim>\<open>bus.go\<close>) as a step relation over publishers, ticking subscribers and reading clients. Values in \<^verbatim>\<open>Data\<close> are opaque, so their type is a
  parameter.
\<close>

section \<open>Events\<close>

abbreviation JobUpdated :: string where "JobUpdated \<equiv> ''job.updated''"
abbreviation FileUpdated :: string where "FileUpdated \<equiv> ''file.updated''"
abbreviation SpeedUpdated :: string where "SpeedUpdated \<equiv> ''speed.updated''"
abbreviation QueueUpdated :: string where "QueueUpdated \<equiv> ''queue.updated''"
abbreviation AccountUpdated :: string where "AccountUpdated \<equiv> ''account.updated''"
abbreviation SettingsUpdated :: string where "SettingsUpdated \<equiv> ''settings.updated''"

definition event_names :: "string list" where
  "event_names = [JobUpdated, FileUpdated, SpeedUpdated, QueueUpdated, AccountUpdated, SettingsUpdated]"

record 'v Event =
  ev_Name :: string
  ev_JobID :: string
  ev_FileID :: string
  ev_Timestamp :: int
  ev_Data :: "string \<rightharpoonup> 'v"

definition isCoalescible :: "'v Event \<Rightarrow> bool" where
  "isCoalescible e \<longleftrightarrow>
     (ev_Name e = JobUpdated \<or> ev_Name e = FileUpdated \<or> ev_Name e = SpeedUpdated \<or> ev_Name e = QueueUpdated) \<and>
     (ev_JobID e \<noteq> [] \<or> ev_FileID e \<noteq> [])"

definition eventKey :: "'v Event \<Rightarrow> string" where
  "eventKey e =
     (if isCoalescible e \<and> ev_JobID e \<noteq> [] then ''job:'' @ ev_JobID e
      else if isCoalescible e \<and> ev_FileID e \<noteq> [] then ''file:'' @ ev_FileID e
      else ev_Name e @ '':'' @ ev_JobID e @ '':'' @ ev_FileID e)"

definition merge :: "'v Event \<Rightarrow> 'v Event \<Rightarrow> 'v Event" where
  "merge previous latest =
     \<lparr>ev_Name = ev_Name latest,
      ev_JobID = (if ev_JobID latest = [] then ev_JobID previous else ev_JobID latest),
      ev_FileID = (if ev_FileID latest = [] then ev_FileID previous else ev_FileID latest),
      ev_Timestamp = (if ev_Timestamp previous > ev_Timestamp latest then ev_Timestamp previous else ev_Timestamp latest),
      ev_Data = ev_Data previous ++ ev_Data latest\<rparr>"

section \<open>The coalescer\<close>

record 'v Coalescer =
  c_maxPending :: int
  c_pending :: "(string \<times> 'v Event) list"
  c_order :: "string list"

definition defaultPendingEvents :: int where
  "defaultPendingEvents = 128"

definition NewCoalescer :: "int \<Rightarrow> 'v Coalescer" where
  "NewCoalescer maxPending = \<lparr>c_maxPending = (if maxPending < 1 then defaultPendingEvents else maxPending), c_pending = [], c_order = []\<rparr>"

definition replaceable :: "(string \<times> 'v Event) list \<Rightarrow> string \<Rightarrow> bool" where
  "replaceable pending k = (case map_of pending k of Some e \<Rightarrow> isCoalescible e | None \<Rightarrow> False)"

text \<open>The loop over \<^verbatim>\<open>order\<close> that drops the oldest replaceable item.\<close>

fun drop_oldest :: "(string \<times> 'v Event) list \<Rightarrow> string list \<Rightarrow> (string \<times> 'v Event) list \<times> string list" where
  "drop_oldest pending [] = (pending, [])"
| "drop_oldest pending (oldest # order) =
     (if replaceable pending oldest then (AList.delete oldest pending, order)
      else let (pending', order') = drop_oldest pending order in (pending', oldest # order'))"

definition Add :: "'v Coalescer \<Rightarrow> 'v Event \<Rightarrow> 'v Coalescer \<times> bool" where
  "Add c event =
     (if ev_Name event = [] then (c, False)
      else let key = eventKey event in
        case map_of (c_pending c) key of
          Some previous \<Rightarrow> (c\<lparr>c_pending := AList.update key (merge previous event) (c_pending c)\<rparr>, True)
        | None \<Rightarrow>
            if int (length (c_pending c)) \<ge> c_maxPending c then
              (if \<not> isCoalescible event then (c, False)
               else let (pending', order') = drop_oldest (c_pending c) (c_order c) in
                 if int (length pending') \<ge> c_maxPending c then (c\<lparr>c_pending := pending', c_order := order'\<rparr>, False)
                 else (c\<lparr>c_pending := AList.update key event pending', c_order := order' @ [key]\<rparr>, True))
            else (c\<lparr>c_pending := AList.update key event (c_pending c), c_order := c_order c @ [key]\<rparr>, True))"

definition Flush :: "'v Coalescer \<Rightarrow> 'v Event list \<times> 'v Coalescer" where
  "Flush c =
     (if c_pending c = [] then ([], c)
      else (List.map_filter (map_of (c_pending c)) (c_order c), c\<lparr>c_pending := [], c_order := []\<rparr>))"

section \<open>The bus\<close>

text \<open>
  \<open>sb_stop\<close> and \<open>sb_done\<close> tell whether the channels of these names are closed, \<open>sb_stream\<close> is the content of the output channel and
  \<open>sb_member\<close> whether the subscriber is in \<^verbatim>\<open>bus.subs\<close>. \<open>sb_read\<close> records what the client has received and \<open>sb_flushed\<close> what was taken out
  of the coalescer for it.
\<close>

record 'v subscriber =
  sb_stream :: "'v Event list"
  sb_stop :: bool
  sb_done :: bool
  sb_member :: bool
  sb_coalescer :: "'v Coalescer"
  sb_blocked :: nat
  sb_read :: "'v Event list"
  sb_flushed :: "'v Event list"

record 'v Bus =
  b_subs :: "'v subscriber list"
  b_closed :: bool
  b_queueSize :: nat
  b_maxPending :: int

definition defaultSubscriberQueue :: nat where
  "defaultSubscriberQueue = 4"

definition maxBlockedFlushes :: nat where
  "maxBlockedFlushes = 4"

definition NewBus :: "'v Bus" where
  "NewBus = \<lparr>b_subs = [], b_closed = False, b_queueSize = defaultSubscriberQueue, b_maxPending = defaultPendingEvents\<rparr>"

definition Subscribe :: "'v Bus \<Rightarrow> 'v Bus" where
  "Subscribe b = b\<lparr>b_subs := b_subs b @
     [\<lparr>sb_stream = [], sb_stop = b_closed b, sb_done = b_closed b, sb_member = (\<not> b_closed b),
       sb_coalescer = NewCoalescer (b_maxPending b), sb_blocked = 0, sb_read = [], sb_flushed = []\<rparr>]\<rparr>"

definition enqueue :: "'v subscriber \<Rightarrow> 'v Event \<Rightarrow> 'v subscriber \<times> bool" where
  "enqueue s event =
     (if sb_stop s then (s, False)
      else let (c, ok) = Add (sb_coalescer s) event in (s\<lparr>sb_coalescer := c\<rparr>, ok))"

definition sub_close :: "'v subscriber \<Rightarrow> 'v subscriber" where
  "sub_close s = s\<lparr>sb_stop := True\<rparr>"

text \<open>One round of the loop of \<^verbatim>\<open>Publish\<close>; subscribers that left are no longer in the map.\<close>

definition publish_to :: "'v Event \<Rightarrow> 'v subscriber \<Rightarrow> 'v subscriber \<times> bool" where
  "publish_to event s =
     (if \<not> sb_member s then (s, True)
      else case enqueue s event of
             (s1, True) \<Rightarrow> (s1, True)
           | (s1, False) \<Rightarrow> (sub_close s1, False))"

definition Publish :: "int \<Rightarrow> 'v Bus \<Rightarrow> 'v Event \<Rightarrow> 'v Bus \<times> bool" where
  "Publish now b event =
     (if ev_Name event = [] \<or> b_closed b then (b, False)
      else let rs = map (publish_to (event\<lparr>ev_Timestamp := norm_time now (ev_Timestamp event)\<rparr>)) (b_subs b)
           in (b\<lparr>b_subs := map fst rs\<rparr>, \<forall>r\<in>set rs. snd r))"

definition bus_Close :: "'v Bus \<Rightarrow> 'v Bus" where
  "bus_Close b = (if b_closed b then b else b\<lparr>b_closed := True, b_subs := map (\<lambda>s. if sb_member s then sub_close s else s) (b_subs b)\<rparr>)"

text \<open>The client takes up to \<open>n\<close> events out of the channel.\<close>

definition client_read :: "nat \<Rightarrow> 'v subscriber \<Rightarrow> 'v subscriber" where
  "client_read n s = s\<lparr>sb_stream := drop n (sb_stream s), sb_read := sb_read s @ take n (sb_stream s)\<rparr>"

text \<open>The send loop of \<^verbatim>\<open>flush\<close>; before the attempt to send an event the client may have taken \<open>reads\<close> others.\<close>

fun send_loop :: "nat \<Rightarrow> nat list \<Rightarrow> 'v Event list \<Rightarrow> 'v subscriber \<Rightarrow> 'v subscriber \<times> bool" where
  "send_loop queueSize reads [] s = (s, True)"
| "send_loop queueSize reads (event # evs) s =
     (let s1 = client_read (case reads of [] \<Rightarrow> 0 | n # _ \<Rightarrow> n) s in
      if length (sb_stream s1) < queueSize then
        send_loop queueSize (tl reads) evs (s1\<lparr>sb_stream := sb_stream s1 @ [event], sb_blocked := 0\<rparr>)
      else let s2 = s1\<lparr>sb_blocked := sb_blocked s1 + 1\<rparr> in
        if sb_blocked s2 \<ge> maxBlockedFlushes then (s2, False) else send_loop queueSize (tl reads) evs s2)"

definition sub_flush :: "nat \<Rightarrow> nat list \<Rightarrow> 'v subscriber \<Rightarrow> 'v subscriber \<times> bool" where
  "sub_flush queueSize reads s =
     (let (evs, c) = Flush (sb_coalescer s); s1 = s\<lparr>sb_coalescer := c, sb_flushed := sb_flushed s @ evs\<rparr> in
      if evs = [] then (s1\<lparr>sb_blocked := 0\<rparr>, True) else send_loop queueSize reads evs s1)"

text \<open>The two branches of the loop of \<^verbatim>\<open>run\<close>; when it returns, the deferred calls close \<^verbatim>\<open>done\<close> and the stream.\<close>

definition sub_remove :: "'v subscriber \<Rightarrow> 'v subscriber" where
  "sub_remove s = s\<lparr>sb_member := False, sb_done := True\<rparr>"

definition run_tick :: "nat \<Rightarrow> nat list \<Rightarrow> 'v subscriber \<Rightarrow> 'v subscriber" where
  "run_tick queueSize reads s = (case sub_flush queueSize reads s of (s1, True) \<Rightarrow> s1 | (s1, False) \<Rightarrow> sub_remove s1)"

inductive bus_step :: "'v Bus \<Rightarrow> 'v Bus \<Rightarrow> bool" where
  subscribe: "bus_step b (Subscribe b)"
| publish: "bus_step b (fst (Publish now b event))"
| tick: "i < length (b_subs b) \<Longrightarrow> \<not> sb_done (b_subs b ! i) \<Longrightarrow>
    bus_step b (b\<lparr>b_subs := (b_subs b)[i := run_tick (b_queueSize b) reads (b_subs b ! i)]\<rparr>)"
| leave: "i < length (b_subs b) \<Longrightarrow> \<not> sb_done (b_subs b ! i) \<Longrightarrow> sb_stop (b_subs b ! i) \<Longrightarrow>
    bus_step b (b\<lparr>b_subs := (b_subs b)[i := sub_remove (b_subs b ! i)]\<rparr>)"
| close_sub: "i < length (b_subs b) \<Longrightarrow> bus_step b (b\<lparr>b_subs := (b_subs b)[i := sub_close (b_subs b ! i)]\<rparr>)"
| close_bus: "bus_step b (bus_Close b)"
| read: "i < length (b_subs b) \<Longrightarrow> bus_step b (b\<lparr>b_subs := (b_subs b)[i := client_read n (b_subs b ! i)]\<rparr>)"

section \<open>The coalescer keeps the latest values\<close>

text \<open>\<^verbatim>\<open>order\<close> lists the keys of \<^verbatim>\<open>pending\<close> once each, and there are at most \<^verbatim>\<open>maxPending\<close>.\<close>

definition coalescer_ok :: "'v Coalescer \<Rightarrow> bool" where
  "coalescer_ok c \<longleftrightarrow> 1 \<le> c_maxPending c \<and> distinct (map fst (c_pending c)) \<and> distinct (c_order c) \<and>
     set (c_order c) = fst ` set (c_pending c) \<and> int (length (c_pending c)) \<le> c_maxPending c"

lemma NewCoalescer_ok [simp]: "coalescer_ok (NewCoalescer n)"
  by (simp add: coalescer_ok_def NewCoalescer_def defaultPendingEvents_def)

lemma coalescer_okD:
  assumes "coalescer_ok c"
  shows "set (c_order c) = fst ` set (c_pending c)" "distinct (map fst (c_pending c))" "distinct (c_order c)"
  using assms by (simp_all add: coalescer_ok_def)

lemma order_pending: "coalescer_ok c \<Longrightarrow> c_order c = xs @ k # ys \<Longrightarrow> k \<in> fst ` set (c_pending c)"
  by (metis coalescer_okD(1) in_set_conv_decomp)

lemma length_AList_update: "map_of xs k = None \<Longrightarrow> AList.update k v xs = xs @ [(k, v)]"
  by (induction xs) auto

lemma AList_update_keys: "map_of xs k = Some u \<Longrightarrow> map fst (AList.update k v xs) = map fst xs"
  by (induction xs) auto

lemma drop_oldest_cases:
  assumes "drop_oldest pending order = (pending', order')"
  obtains "pending' = pending" "order' = order" "\<forall>k\<in>set order. \<not> replaceable pending k"
  | xs k ys where "order = xs @ k # ys" "replaceable pending k" "\<forall>x\<in>set xs. \<not> replaceable pending x" "pending' = AList.delete k pending" "order' = xs @ ys"
proof -
  have "(pending' = pending \<and> order' = order \<and> (\<forall>k\<in>set order. \<not> replaceable pending k)) \<or>
    (\<exists>xs k ys. order = xs @ k # ys \<and> replaceable pending k \<and> (\<forall>x\<in>set xs. \<not> replaceable pending x) \<and> pending' = AList.delete k pending \<and> order' = xs @ ys)"
    using assms
  proof (induction order arbitrary: order')
    case (Cons o1 order)
    show ?case
    proof (cases "replaceable pending o1")
      case True
      then show ?thesis using Cons.prems by (intro disjI2 exI [of _ "[]"] exI [of _ o1] exI [of _ order]) auto
    next
      case False
      obtain o2 where o2: "drop_oldest pending order = (pending', o2)" "order' = o1 # o2"
        using Cons.prems False by (auto split: prod.splits)
      from Cons.IH [OF o2(1)] show ?thesis
      proof (elim disjE exE conjE)
        fix xs k ys
        assume "order = xs @ k # ys" "replaceable pending k" "\<forall>x\<in>set xs. \<not> replaceable pending x" "pending' = AList.delete k pending" "o2 = xs @ ys"
        then show ?thesis using o2(2) False by (intro disjI2 exI [of _ "o1 # xs"] exI [of _ k] exI [of _ ys]) auto
      qed (use o2 False in auto)
    qed
  qed simp
  then show ?thesis using that by blast
qed

lemma length_AList_delete: "distinct (map fst xs) \<Longrightarrow> k \<in> fst ` set xs \<Longrightarrow> Suc (length (AList.delete k xs)) = length xs"
proof (induction xs)
  case (Cons x xs)
  then show ?case by (cases x) (auto simp: image_iff)
qed simp

text \<open>What one \<^verbatim>\<open>Add\<close> does, case by case: refused, merged in place, or appended, after at most one old replaceable item left a full set.\<close>

inductive add_outcome :: "'v Coalescer \<Rightarrow> 'v Event \<Rightarrow> 'v Coalescer \<Rightarrow> bool \<Rightarrow> bool" for c e where
  refused: "ev_Name e = [] \<or> int (length (c_pending c)) \<ge> c_maxPending c \<and> eventKey e \<notin> set (c_order c) \<Longrightarrow> add_outcome c e c False"
| merged: "map_of (c_pending c) (eventKey e) = Some p \<Longrightarrow>
    add_outcome c e (c\<lparr>c_pending := AList.update (eventKey e) (merge p e) (c_pending c)\<rparr>) True"
| appended: "int (length (c_pending c)) < c_maxPending c \<Longrightarrow> eventKey e \<notin> set (c_order c) \<Longrightarrow>
    add_outcome c e (c\<lparr>c_pending := c_pending c @ [(eventKey e, e)], c_order := c_order c @ [eventKey e]\<rparr>) True"
| replaced: "int (length (c_pending c)) = c_maxPending c \<Longrightarrow> eventKey e \<notin> set (c_order c) \<Longrightarrow> c_order c = xs @ k # ys \<Longrightarrow> replaceable (c_pending c) k \<Longrightarrow>
    add_outcome c e (c\<lparr>c_pending := AList.delete k (c_pending c) @ [(eventKey e, e)], c_order := xs @ ys @ [eventKey e]\<rparr>) True"

lemma Add_outcome:
  assumes "coalescer_ok c" and "Add c e = (c', b)"
  shows "add_outcome c e c' b"
proof (cases "ev_Name e = []")
  case True
  then show ?thesis using assms(2) by (auto simp: Add_def intro: refused)
next
  case False
  show ?thesis
  proof (cases "map_of (c_pending c) (eventKey e)")
    case (Some p)
    then show ?thesis using False assms(2) merged [of c e p] by (auto simp: Add_def)
  next
    case None
    then have new: "eventKey e \<notin> set (c_order c)" using assms(1) by (simp add: coalescer_ok_def map_of_eq_None_iff)
    show ?thesis
    proof (cases "int (length (c_pending c)) \<ge> c_maxPending c")
      case full: True
      obtain p' o' where d: "drop_oldest (c_pending c) (c_order c) = (p', o')" by (rule prod.exhaust)
      show ?thesis using d
      proof (cases rule: drop_oldest_cases)
        case 1
        then have "c' = c" "\<not> b" using assms(2) False None full d by (auto simp: Add_def Let_def split: if_splits)
        then show ?thesis using refused [of e c] full new by simp
      next
        case (2 xs k ys)
        have "k \<in> fst ` set (c_pending c)" by (rule order_pending [OF assms(1) 2(1)])
        then have len: "Suc (length p') = length (c_pending c)" using 2(4) length_AList_delete [OF coalescer_okD(2) [OF assms(1)]] by simp
        have k: "map_of p' (eventKey e) = None" using None 2(4) by (simp add: AList.delete_conv)
        have eq: "int (length (c_pending c)) = c_maxPending c" using full assms(1) by (simp add: coalescer_ok_def)
        then have small: "\<not> int (length p') \<ge> c_maxPending c" using len by simp
        show ?thesis
        proof (cases "isCoalescible e")
          case True
          then have "c' = c\<lparr>c_pending := p' @ [(eventKey e, e)], c_order := o' @ [eventKey e]\<rparr>" "b"
            using assms(2) False None full d small k by (auto simp: Add_def Let_def length_AList_update)
          then show ?thesis using replaced [OF eq new 2(1,2)] 2 by simp
        next
          case False
          then show ?thesis using assms(2) \<open>ev_Name e \<noteq> []\<close> None full new by (auto simp: Add_def Let_def intro: refused)
        qed
      qed
    next
      case room: False
      then show ?thesis using assms(2) False None appended [of c e] new by (auto simp: Add_def Let_def length_AList_update)
    qed
  qed
qed

lemma Add_ok:
  assumes "coalescer_ok c" and "Add c e = (c', b)"
  shows "coalescer_ok c' \<and> c_maxPending c' = c_maxPending c"
  using Add_outcome [OF assms]
proof cases
  case (merged p)
  then show ?thesis using assms(1) AList_update_keys [OF merged(3), of "merge p e"]
    by (simp add: coalescer_ok_def) (metis length_map list.set_map)
next
  case appended
  then show ?thesis using assms(1) by (auto simp: coalescer_ok_def)
next
  case (replaced xs k ys)
  have k: "k \<in> fst ` set (c_pending c)" by (rule order_pending [OF assms(1) replaced(5)])
  have "Suc (length (AList.delete k (c_pending c))) = length (c_pending c)" by (rule length_AList_delete [OF coalescer_okD(2) [OF assms(1)] k])
  moreover have "fst ` set (AList.delete k (c_pending c)) = fst ` set (c_pending c) - {k}" by (auto simp: AList.delete_eq)
  moreover have "distinct (map fst (AList.delete k (c_pending c)))" using assms(1) by (simp add: coalescer_ok_def AList.distinct_delete)
  ultimately show ?thesis using assms(1) replaced by (auto simp: coalescer_ok_def)
qed (use assms in simp)

text \<open>A sequence of publications, with what each \<^verbatim>\<open>Add\<close> returned.\<close>

fun add_all :: "'v Coalescer \<Rightarrow> 'v Event list \<Rightarrow> 'v Coalescer \<times> bool list" where
  "add_all c [] = (c, [])"
| "add_all c (e # es) = (let (c1, b) = Add c e; (c2, bs) = add_all c1 es in (c2, b # bs))"

definition keyed :: "string \<Rightarrow> 'v Event list \<Rightarrow> 'v Event list" where
  "keyed k es = filter (\<lambda>e. eventKey e = k) es"

definition merged_of :: "'v Event list \<Rightarrow> 'v Event" where
  "merged_of es = foldl merge (hd es) (tl es)"

lemma merged_of_single [simp]: "merged_of [e] = e"
  by (simp add: merged_of_def)

lemma merged_of_snoc: "es \<noteq> [] \<Longrightarrow> merged_of (es @ [e]) = merge (merged_of es) e"
  by (cases es) (simp_all add: merged_of_def)

text \<open>The newest value of every data field wins, and the newest time.\<close>

lemma merged_of_data: "es \<noteq> [] \<Longrightarrow> ev_Data (merged_of es) = foldl (++) Map.empty (map ev_Data es)"
  by (induction es rule: rev_nonempty_induct) (simp_all add: merged_of_snoc merge_def)

lemma merged_of_time: "es \<noteq> [] \<Longrightarrow> ev_Timestamp (merged_of es) = Max (ev_Timestamp ` set es)"
  by (induction es rule: rev_nonempty_induct) (auto simp: merged_of_snoc merge_def max_def)

lemma add_all_snoc:
  "add_all c (es @ [e]) = (let (c1, bs) = add_all c es; (c2, b) = Add c1 e in (c2, bs @ [b]))"
  by (induction es arbitrary: c) (auto simp: Let_def split: prod.splits)

lemma add_all_length: "add_all c es = (c', bs) \<Longrightarrow> length bs = length es"
  by (induction es arbitrary: c bs) (auto simp: Let_def split: prod.splits)

text \<open>The key tells whether an item is replaceable: its part before the colon is no event name exactly then.\<close>

abbreviation known :: "'v Event \<Rightarrow> bool" where
  "known e \<equiv> ev_Name e \<in> set event_names"

definition key_fits :: "string \<Rightarrow> 'v Event \<Rightarrow> bool" where
  "key_fits k e \<longleftrightarrow> known e \<and>
     (if isCoalescible e then takeWhile (\<lambda>c. c \<noteq> CHR '':'') k \<in> {''job'', ''file''} else takeWhile (\<lambda>c. c \<noteq> CHR '':'') k = ev_Name e)"

lemma takeWhile_name: "known e \<Longrightarrow> takeWhile (\<lambda>c. c \<noteq> CHR '':'') (ev_Name e @ CHR '':'' # xs) = ev_Name e"
  by (rule takeWhile_tail [THEN trans]) (auto simp: event_names_def)

lemma eventKey_fits: "known e \<Longrightarrow> key_fits (eventKey e) e"
  using takeWhile_name [of e] by (auto simp: key_fits_def eventKey_def isCoalescible_def)

lemma key_fits_unique: "key_fits k e \<Longrightarrow> key_fits k e' \<Longrightarrow> isCoalescible e = isCoalescible e'"
  by (auto simp: key_fits_def event_names_def split: if_splits)

lemma merge_fits:
  assumes "key_fits k p" and "key_fits k e"
  shows "key_fits k (merge p e)"
proof (cases "isCoalescible e")
  case True
  then have "isCoalescible (merge p e)" by (auto simp: isCoalescible_def merge_def)
  then show ?thesis using assms(2) True by (simp add: key_fits_def merge_def)
next
  case False
  then have "\<not> isCoalescible p" using key_fits_unique [OF assms] by simp
  then have "ev_Name p = ev_Name e" using assms False by (simp add: key_fits_def)
  then have "\<not> isCoalescible (merge p e)" using False \<open>\<not> isCoalescible p\<close> by (auto simp: isCoalescible_def merge_def)
  then show ?thesis using assms(2) False by (simp add: key_fits_def merge_def)
qed

definition latest_of :: "'v Event list \<Rightarrow> string \<Rightarrow> 'v Event \<Rightarrow> bool" where
  "latest_of es k v \<longleftrightarrow> key_fits k v \<and> (\<exists>i. keyed k (drop i es) \<noteq> [] \<and> v = merged_of (keyed k (drop i es)))"

lemma keyed_drop_snoc: "keyed k (drop i es) \<noteq> [] \<Longrightarrow> keyed k (drop i (es @ [e])) = keyed k (drop i es) @ (if eventKey e = k then [e] else [])"
  by (cases "i < length es") (auto simp: keyed_def)

lemma latest_of_other: "latest_of es k v \<Longrightarrow> eventKey e \<noteq> k \<Longrightarrow> latest_of (es @ [e]) k v"
proof -
  assume l: "latest_of es k v" and ne: "eventKey e \<noteq> k"
  then obtain i where i: "keyed k (drop i es) \<noteq> []" "v = merged_of (keyed k (drop i es))" by (auto simp: latest_of_def)
  have "keyed k (drop i (es @ [e])) = keyed k (drop i es)" using keyed_drop_snoc [OF i(1), of e] ne by simp
  then show ?thesis using l i unfolding latest_of_def by (intro conjI exI [of _ i]) auto
qed

lemma latest_of_merge: "latest_of es (eventKey e) v \<Longrightarrow> known e \<Longrightarrow> latest_of (es @ [e]) (eventKey e) (merge v e)"
proof -
  assume l: "latest_of es (eventKey e) v" and e: "known e"
  then obtain i where i: "keyed (eventKey e) (drop i es) \<noteq> []" "v = merged_of (keyed (eventKey e) (drop i es))" by (auto simp: latest_of_def)
  have "keyed (eventKey e) (drop i (es @ [e])) = keyed (eventKey e) (drop i es) @ [e]" using keyed_drop_snoc [OF i(1), of e] by simp
  then have "keyed (eventKey e) (drop i (es @ [e])) \<noteq> [] \<and> merge v e = merged_of (keyed (eventKey e) (drop i (es @ [e])))"
    using i merged_of_snoc [OF i(1)] by simp
  moreover have "key_fits (eventKey e) (merge v e)" using l e merge_fits eventKey_fits by (auto simp: latest_of_def)
  ultimately show ?thesis unfolding latest_of_def by blast
qed

lemma latest_of_new: "known e \<Longrightarrow> latest_of (es @ [e]) (eventKey e) e"
  unfolding latest_of_def by (intro conjI eventKey_fits exI [of _ "length es"]) (simp_all add: keyed_def)

definition tracks :: "'v Coalescer \<Rightarrow> 'v Event list \<Rightarrow> bool list \<Rightarrow> bool" where
  "tracks c es oks \<longleftrightarrow> coalescer_ok c \<and> (\<forall>k v. map_of (c_pending c) k = Some v \<longrightarrow> latest_of es k v) \<and>
     (\<forall>e. (e, True) \<in> set (zip es oks) \<longrightarrow> \<not> isCoalescible e \<longrightarrow> eventKey e \<in> set (c_order c)) \<and> length oks = length es \<and> (\<forall>e\<in>set es. known e)"

lemma order_lookup: "coalescer_ok c \<Longrightarrow> k \<in> set (c_order c) \<longleftrightarrow> (\<exists>v. map_of (c_pending c) k = Some v)"
  by (metis coalescer_okD(1) domIff dom_map_of_conv_image_fst not_None_eq)

lemma tracks_snoc:
  assumes "tracks c es oks" and "Add c e = (c', b)" and "known e"
  shows "tracks c' (es @ [e]) (oks @ [b])"
proof -
  have ok: "coalescer_ok c" and len: "length oks = length es" and old: "map_of (c_pending c) k = Some v \<Longrightarrow> latest_of es k v" for k v
    using assms(1) by (auto simp: tracks_def)
  have kept: "x \<in> set es \<Longrightarrow> known x" "(x, True) \<in> set (zip es oks) \<Longrightarrow> \<not> isCoalescible x \<Longrightarrow> eventKey x \<in> set (c_order c)" for x
    using assms(1) by (auto simp: tracks_def)
  have ok': "coalescer_ok c'" using Add_ok [OF ok assms(2)] by simp
  have name: "ev_Name e \<noteq> []" using assms(3) by (auto simp: event_names_def)
  note pend = order_lookup [OF ok]
  show ?thesis using Add_outcome [OF ok assms(2)]
  proof cases
    case refused
    then have "latest_of (es @ [e]) k v" if "map_of (c_pending c') k = Some v" for k v
      using that name old latest_of_other [of es k v e] pend [of k] by auto
    then show ?thesis using ok' kept len assms(3) refused unfolding tracks_def by auto
  next
    case (merged p)
    have "latest_of (es @ [e]) k v" if "map_of (c_pending c') k = Some v" for k v
      using that merged old latest_of_merge [OF old [OF merged(3)] assms(3)] latest_of_other [of es k v e]
      by (auto simp: AList.update_conv' split: if_splits)
    then show ?thesis using ok' kept len assms(3) merged pend [of "eventKey e"] unfolding tracks_def by auto
  next
    case appended
    then have "latest_of (es @ [e]) k v" if "map_of (c_pending c') k = Some v" for k v
      using that old latest_of_new [OF assms(3)] latest_of_other [of es k v e] pend [of "eventKey e"]
      by (cases "k = eventKey e") (auto simp: map_add_def split: option.splits if_splits)
    then show ?thesis using ok' kept len assms(3) appended unfolding tracks_def by auto
  next
    case (replaced xs k0 ys)
    then have "latest_of (es @ [e]) k v" if "map_of (c_pending c') k = Some v" for k v
      using that old latest_of_new [OF assms(3)] latest_of_other [of es k v e] pend [of "eventKey e"]
      by (cases "k = eventKey e") (auto simp: map_add_def AList.delete_conv' split: option.splits if_splits)
    moreover have "eventKey x \<noteq> k0" if "(x, True) \<in> set (zip es oks)" "\<not> isCoalescible x" for x
    proof
      assume eq: "eventKey x = k0"
      obtain v where v: "map_of (c_pending c) k0 = Some v" "isCoalescible v" using replaced(6) by (auto simp: replaceable_def split: option.splits)
      then have "key_fits k0 v" using old by (auto simp: latest_of_def)
      then show False using eventKey_fits [OF kept(1) [OF set_zip_leftD [OF that(1)]]] eq v(2) that(2) key_fits_unique by blast
    qed
    ultimately show ?thesis using ok' kept len assms(3) replaced unfolding tracks_def by auto
  qed
qed

lemma add_all_tracks:
  assumes "\<forall>e\<in>set es. known e" and "add_all (NewCoalescer n) es = (c, oks)"
  shows "tracks c es oks"
  using assms
proof (induction es arbitrary: c oks rule: rev_induct)
  case Nil
  then show ?case by (auto simp: tracks_def NewCoalescer_def coalescer_ok_def defaultPendingEvents_def)
next
  case (snoc e es)
  obtain c1 bs where c1: "add_all (NewCoalescer n) es = (c1, bs)" by (rule prod.exhaust)
  obtain b where b: "Add c1 e = (c, b)" "oks = bs @ [b]" using snoc.prems(2) c1 by (auto simp: add_all_snoc split: prod.splits)
  show ?case using tracks_snoc [OF snoc.IH [OF _ c1] b(1)] snoc.prems(1) b(2) by auto
qed

text \<open>The keys in the order of their first publication.\<close>

definition first_keys :: "'v Event list \<Rightarrow> string list" where
  "first_keys es = rev (remdups (rev (map eventKey es)))"

lemma first_keys_snoc: "first_keys (es @ [e]) = (if eventKey e \<in> eventKey ` set es then first_keys es else first_keys es @ [eventKey e])"
  by (simp add: first_keys_def)

lemma set_first_keys [simp]: "set (first_keys es) = eventKey ` set es" "distinct (first_keys es)"
  by (simp_all add: first_keys_def)

lemma length_first_keys: "length (first_keys es) = card (eventKey ` set es)"
  using distinct_card [OF set_first_keys(2), of es] by simp

lemma coalescer_length: "coalescer_ok c \<Longrightarrow> length (c_pending c) = length (c_order c)"
  using distinct_card [of "map fst (c_pending c)"] distinct_card [of "c_order c"] by (simp add: coalescer_ok_def)

lemma add_all_bound: "add_all c es = (c', oks) \<Longrightarrow> coalescer_ok c \<Longrightarrow> c_maxPending c' = c_maxPending c"
proof (induction es arbitrary: c oks)
  case (Cons e es)
  obtain c1 b where c1: "Add c e = (c1, b)" by (rule prod.exhaust)
  obtain bs where "add_all c1 es = (c', bs)" using Cons.prems(1) c1 by (auto simp: Let_def split: prod.splits)
  then show ?case using Cons.IH [of c1 bs] Add_ok [OF Cons.prems(2) c1] by simp
qed simp

lemma add_all_lossless:
  assumes "\<forall>e\<in>set es. known e" and "add_all (NewCoalescer n) es = (c, oks)" and "int (card (eventKey ` set es)) \<le> c_maxPending c"
  shows "c_order c = first_keys es \<and> (\<forall>k\<in>eventKey ` set es. map_of (c_pending c) k = Some (merged_of (keyed k es)))"
  using assms
proof (induction es arbitrary: c oks rule: rev_induct)
  case Nil
  then show ?case by (auto simp: NewCoalescer_def first_keys_def)
next
  case (snoc e es)
  obtain c1 bs where c1: "add_all (NewCoalescer n) es = (c1, bs)" by (rule prod.exhaust)
  obtain b where b: "Add c1 e = (c, b)" "oks = bs @ [b]" using snoc.prems(2) c1 by (auto simp: add_all_snoc split: prod.splits)
  have ok: "coalescer_ok c1" using add_all_tracks [OF _ c1] snoc.prems(1) by (auto simp: tracks_def)
  have mx: "c_maxPending c1 = c_maxPending c" using Add_ok [OF ok b(1)] by simp
  have name: "ev_Name e \<noteq> []" using snoc.prems(1) by (auto simp: event_names_def)
  have "card (eventKey ` set es) \<le> card (eventKey ` set (es @ [e]))" by (rule card_mono) auto
  then have ih: "c_order c1 = first_keys es" "\<And>k. k \<in> eventKey ` set es \<Longrightarrow> map_of (c_pending c1) k = Some (merged_of (keyed k es))"
    using snoc.IH [OF _ c1] snoc.prems(1,3) mx by auto
  have room: "int (length (c_pending c1)) < c_maxPending c1" if "eventKey e \<notin> eventKey ` set es"
    using snoc.prems(3) that coalescer_length [OF ok] ih(1) length_first_keys [of es] mx by simp
  have keyed: "keyed k (es @ [e]) = keyed k es @ (if eventKey e = k then [e] else [])" for k by (simp add: keyed_def)
  show ?case using Add_outcome [OF ok b(1)]
  proof cases
    case refused
    then show ?thesis using name room ih(1) by simp
  next
    case (merged p)
    have k: "eventKey e \<in> eventKey ` set es" using order_lookup [OF ok, of "eventKey e"] merged(3) ih(1) by simp
    then have "keyed (eventKey e) es \<noteq> []" by (auto simp: keyed_def filter_empty_conv)
    then show ?thesis using k merged ih by (auto simp: first_keys_snoc keyed merged_of_snoc AList.update_conv')
  next
    case appended
    have "keyed (eventKey e) es = []" using appended(4) ih(1) by (auto simp: keyed_def filter_empty_conv image_iff)
    then show ?thesis using appended ih order_lookup [OF ok, of "eventKey e"]
      by (auto simp: first_keys_snoc keyed map_add_def split: option.splits)
  next
    case (replaced xs k ys)
    have "eventKey e \<notin> eventKey ` set es" using replaced(4) ih(1) by simp
    then show ?thesis using room replaced(3) by simp
  qed
qed

lemma Flush_events:
  assumes "coalescer_ok c"
  shows "fst (Flush c) = map (\<lambda>k. the (map_of (c_pending c) k)) (c_order c)"
proof -
  have "List.map_filter (map_of (c_pending c)) ks = map (\<lambda>k. the (map_of (c_pending c) k)) ks" if "set ks \<subseteq> set (c_order c)" for ks
    using that order_lookup [OF assms] by (induction ks) (auto simp: map_filter_simps)
  then show ?thesis using coalescer_okD(1) [OF assms] by (auto simp: Flush_def)
qed

text \<open>
  C16. Whatever is published between two flushes, the client gets bounded, current state: at most \<^verbatim>\<open>maxPending\<close> events, one per
  key, each the merge of all events of its key from some point on (so with the newest value of every data field and the newest time); an accepted event that
  is not progress-like is never lost, and when there are no more keys than \<^verbatim>\<open>maxPending\<close> nothing is lost at all and the keys come in the
  order of their first publication. Flushing empties the set.
\<close>

theorem coalescer_keeps_latest:
  assumes "\<forall>e\<in>set es. known e" and "add_all (NewCoalescer n) es = (c, oks)"
  shows "\<exists>ks start. fst (Flush c) = map (\<lambda>k. merged_of (keyed k (drop (start k) es))) ks \<and> distinct ks \<and>
    map ev_Data (fst (Flush c)) = map (\<lambda>k. foldl (++) Map.empty (map ev_Data (keyed k (drop (start k) es)))) ks \<and>
    map ev_Timestamp (fst (Flush c)) = map (\<lambda>k. Max (ev_Timestamp ` set (keyed k (drop (start k) es)))) ks \<and>
    int (length ks) \<le> (if n < 1 then 128 else n) \<and> (\<forall>k\<in>set ks. keyed k (drop (start k) es) \<noteq> []) \<and>
    (\<forall>e. (e, True) \<in> set (zip es oks) \<longrightarrow> \<not> isCoalescible e \<longrightarrow> eventKey e \<in> set ks) \<and>
    (int (card (eventKey ` set es)) \<le> (if n < 1 then 128 else n) \<longrightarrow> ks = first_keys es \<and> (\<forall>k. start k = 0)) \<and>
    c_pending (snd (Flush c)) = [] \<and> c_order (snd (Flush c)) = []"
proof -
  have t: "tracks c es oks" by (rule add_all_tracks [OF assms])
  then have ok: "coalescer_ok c" by (simp add: tracks_def)
  have mx: "c_maxPending c = (if n < 1 then 128 else n)"
    using add_all_bound [OF assms(2) NewCoalescer_ok] by (simp add: NewCoalescer_def defaultPendingEvents_def)
  have "\<exists>start. (\<forall>k\<in>set (c_order c). keyed k (drop (start k) es) \<noteq> [] \<and> map_of (c_pending c) k = Some (merged_of (keyed k (drop (start k) es)))) \<and>
      (int (card (eventKey ` set es)) \<le> c_maxPending c \<longrightarrow> (\<forall>k. start k = 0))"
  proof (cases "int (card (eventKey ` set es)) \<le> c_maxPending c")
    case True
    then show ?thesis using add_all_lossless [OF assms True] by (intro exI [of _ "\<lambda>_. 0"]) (auto simp: keyed_def filter_empty_conv)
  next
    case False
    have "\<exists>i. keyed k (drop i es) \<noteq> [] \<and> map_of (c_pending c) k = Some (merged_of (keyed k (drop i es)))" if "k \<in> set (c_order c)" for k
      using that t order_lookup [OF ok, of k] by (auto simp: tracks_def latest_of_def)
    then show ?thesis using False by metis
  qed
  then obtain start where start: "\<And>k. k \<in> set (c_order c) \<Longrightarrow> keyed k (drop (start k) es) \<noteq> []"
    "\<And>k. k \<in> set (c_order c) \<Longrightarrow> map_of (c_pending c) k = Some (merged_of (keyed k (drop (start k) es)))"
    "int (card (eventKey ` set es)) \<le> c_maxPending c \<Longrightarrow> \<forall>k. start k = 0" by blast
  have f: "fst (Flush c) = map (\<lambda>k. merged_of (keyed k (drop (start k) es))) (c_order c)" using start(2) by (simp add: Flush_events [OF ok])
  moreover have "map ev_Data (fst (Flush c)) = map (\<lambda>k. foldl (++) Map.empty (map ev_Data (keyed k (drop (start k) es)))) (c_order c)"
    "map ev_Timestamp (fst (Flush c)) = map (\<lambda>k. Max (ev_Timestamp ` set (keyed k (drop (start k) es)))) (c_order c)"
    using start(1) by (simp_all add: f merged_of_data merged_of_time)
  moreover have "int (length (c_order c)) \<le> c_maxPending c" using ok coalescer_length [OF ok] by (simp add: coalescer_ok_def)
  moreover have "c_pending (snd (Flush c)) = []" "c_order (snd (Flush c)) = []" using coalescer_length [OF ok] by (auto simp: Flush_def)
  ultimately show ?thesis using start(1,3) add_all_lossless [OF assms] t coalescer_okD(3) [OF ok]
    unfolding mx tracks_def by (intro exI [of _ "c_order c"] exI [of _ start]) auto
qed

definition sample_events :: "nat Event list" where
  "sample_events =
     [\<lparr>ev_Name = JobUpdated, ev_JobID = ''a'', ev_FileID = [], ev_Timestamp = 5, ev_Data = [''bytes'' \<mapsto> 1]\<rparr>,
      \<lparr>ev_Name = SettingsUpdated, ev_JobID = [], ev_FileID = [], ev_Timestamp = 6, ev_Data = Map.empty\<rparr>,
      \<lparr>ev_Name = FileUpdated, ev_JobID = ''a'', ev_FileID = ''f'', ev_Timestamp = 7, ev_Data = [''bytes'' \<mapsto> 9]\<rparr>]"

theorem coalescer_keeps_latest_witness:
  "map ev_Timestamp (fst (Flush (fst (add_all (NewCoalescer 2) sample_events)))) = [7, 6]"
proof -
  obtain c oks where c: "add_all (NewCoalescer 2) sample_events = (c, oks)" by (rule prod.exhaust)
  have known: "\<forall>e\<in>set sample_events. known e" by (simp add: sample_events_def event_names_def)
  have keys: "map eventKey sample_events = [''job:a'', ''settings.updated::'', ''job:a'']"
    by (simp add: sample_events_def eventKey_def isCoalescible_def)
  then have first: "first_keys sample_events = [''job:a'', ''settings.updated::'']" by (simp add: first_keys_def)
  then have "int (card (eventKey ` set sample_events)) \<le> 2"
    using length_first_keys [of sample_events] by auto
  then have "fst (Flush c) = map (\<lambda>k. merged_of (keyed k sample_events)) (first_keys sample_events)"
    using coalescer_keeps_latest [OF known c] by auto
  moreover have "map ev_Timestamp [merged_of (keyed ''job:a'' sample_events), merged_of (keyed ''settings.updated::'' sample_events)] = [7, 6]"
    by (simp add: keyed_def sample_events_def eventKey_def isCoalescible_def merged_of_def merge_def)
  ultimately show ?thesis using c first by simp
qed

section \<open>The bus stays bounded\<close>

definition sub_ok :: "bool \<Rightarrow> 'v subscriber \<Rightarrow> bool" where
  "sub_ok closed s \<longleftrightarrow> length (sb_stream s) \<le> defaultSubscriberQueue \<and> coalescer_ok (sb_coalescer s) \<and>
     c_maxPending (sb_coalescer s) = defaultPendingEvents \<and> (\<not> sb_done s \<longrightarrow> sb_blocked s < maxBlockedFlushes) \<and>
     subseq (sb_read s @ sb_stream s) (sb_flushed s) \<and> (sb_done s \<longrightarrow> \<not> sb_member s) \<and> (closed \<and> sb_member s \<longrightarrow> sb_stop s)"

definition bus_ok :: "'v Bus \<Rightarrow> bool" where
  "bus_ok b \<longleftrightarrow> b_queueSize b = defaultSubscriberQueue \<and> b_maxPending b = defaultPendingEvents \<and> (\<forall>s\<in>set (b_subs b). sub_ok (b_closed b) s)"

lemma client_read_ok: "sub_ok closed s \<Longrightarrow> sub_ok closed (client_read n s)"
  by (auto simp: sub_ok_def client_read_def)

lemma client_read_same [simp]:
  "sb_stop (client_read n s) = sb_stop s" "sb_done (client_read n s) = sb_done s" "sb_member (client_read n s) = sb_member s"
  "sb_flushed (client_read n s) = sb_flushed s" "sb_blocked (client_read n s) = sb_blocked s" "sb_coalescer (client_read n s) = sb_coalescer s"
  by (simp_all add: client_read_def)

lemma client_read_order: "sb_read (client_read n s) @ sb_stream (client_read n s) = sb_read s @ sb_stream s"
  by (simp add: client_read_def)

text \<open>The send loop: what reaches the client and its channel is what was there followed by some of the events, in order.\<close>

lemma send_loop_result:
  assumes "send_loop q reads evs s = (s', ok)" and "length (sb_stream s) \<le> q" and "sb_blocked s < maxBlockedFlushes"
  shows "length (sb_stream s') \<le> q \<and> (ok \<longrightarrow> sb_blocked s' < maxBlockedFlushes) \<and> sb_coalescer s' = sb_coalescer s \<and> sb_stop s' = sb_stop s \<and>
    sb_done s' = sb_done s \<and> sb_member s' = sb_member s \<and> sb_flushed s' = sb_flushed s \<and>
    (\<exists>sent. subseq sent evs \<and> sb_read s' @ sb_stream s' = sb_read s @ sb_stream s @ sent)"
  using assms
proof (induction evs arbitrary: reads s)
  case (Cons event evs)
  define s1 where "s1 = client_read (case reads of [] \<Rightarrow> 0 | n # _ \<Rightarrow> n) s"
  have s1: "length (sb_stream s1) \<le> q" "sb_blocked s1 < maxBlockedFlushes" "sb_read s1 @ sb_stream s1 = sb_read s @ sb_stream s"
    "sb_coalescer s1 = sb_coalescer s" "sb_stop s1 = sb_stop s" "sb_done s1 = sb_done s" "sb_member s1 = sb_member s" "sb_flushed s1 = sb_flushed s"
    using Cons.prems(2,3) by (simp_all add: s1_def client_read_order) (simp add: client_read_def)
  show ?case
  proof (cases "length (sb_stream s1) < q")
    case True
    then have "send_loop q (tl reads) evs (s1\<lparr>sb_stream := sb_stream s1 @ [event], sb_blocked := 0\<rparr>) = (s', ok)"
      using Cons.prems(1) by (simp add: s1_def [symmetric])
    from Cons.IH [OF this] True s1(1) obtain sent where "subseq sent evs" "sb_read s' @ sb_stream s' = sb_read s1 @ (sb_stream s1 @ [event]) @ sent"
      and rest: "length (sb_stream s') \<le> q \<and> (ok \<longrightarrow> sb_blocked s' < maxBlockedFlushes) \<and> sb_coalescer s' = sb_coalescer s \<and> sb_stop s' = sb_stop s \<and>
        sb_done s' = sb_done s \<and> sb_member s' = sb_member s \<and> sb_flushed s' = sb_flushed s"
      using s1 by (auto simp: maxBlockedFlushes_def)
    then have "subseq (event # sent) (event # evs)" "sb_read s' @ sb_stream s' = sb_read s @ sb_stream s @ event # sent"
      using s1(3) by (simp, metis append.assoc append_Cons append_Nil)
    then show ?thesis using rest by blast
  next
    case full: False
    show ?thesis
    proof (cases "sb_blocked s1 + 1 \<ge> maxBlockedFlushes")
      case True
      then have "s' = s1\<lparr>sb_blocked := sb_blocked s1 + 1\<rparr>" "\<not> ok" using Cons.prems(1) full by (auto simp: s1_def [symmetric] Let_def)
      then show ?thesis using s1 by (auto intro: exI [of _ "[]"])
    next
      case False
      then have "send_loop q (tl reads) evs (s1\<lparr>sb_blocked := sb_blocked s1 + 1\<rparr>) = (s', ok)"
        using Cons.prems(1) full by (simp add: s1_def [symmetric] Let_def)
      from Cons.IH [OF this] False s1 show ?thesis by (auto simp: append_assoc [symmetric] simp del: append_assoc)
    qed
  qed
qed (auto intro: exI [of _ "[]"])

lemma publish_to_ok:
  assumes "sub_ok closed s"
  shows "sub_ok closed (fst (publish_to e s))"
proof -
  obtain c ok where c: "Add (sb_coalescer s) e = (c, ok)" by (rule prod.exhaust)
  have "coalescer_ok c" "c_maxPending c = c_maxPending (sb_coalescer s)" using Add_ok [OF _ c] assms by (simp_all add: sub_ok_def)
  then show ?thesis using assms c by (auto simp: publish_to_def enqueue_def sub_close_def sub_ok_def split: bool.splits)
qed

lemma Publish_ok: "bus_ok b \<Longrightarrow> bus_ok (fst (Publish now b e))"
  by (auto simp: bus_ok_def Publish_def Let_def intro: publish_to_ok)

lemma Flush_ok:
  assumes "coalescer_ok c" and "Flush c = (evs, c')"
  shows "coalescer_ok c' \<and> c_maxPending c' = c_maxPending c"
  using assms by (auto simp: Flush_def coalescer_ok_def split: if_splits)

lemma run_tick_ok:
  assumes "sub_ok closed s" and "\<not> sb_done s"
  shows "sub_ok closed (run_tick defaultSubscriberQueue reads s)"
proof -
  obtain evs c where c: "Flush (sb_coalescer s) = (evs, c)" by (rule prod.exhaust)
  define s1 where "s1 = s\<lparr>sb_coalescer := c, sb_flushed := sb_flushed s @ evs\<rparr>"
  have cok: "coalescer_ok c" "c_maxPending c = defaultPendingEvents" using Flush_ok [OF _ c] assms(1) by (simp_all add: sub_ok_def)
  show ?thesis
  proof (cases "evs = []")
    case True
    then show ?thesis using assms c cok by (auto simp: run_tick_def sub_flush_def sub_ok_def maxBlockedFlushes_def)
  next
    case False
    obtain s' ok where s': "send_loop defaultSubscriberQueue reads evs s1 = (s', ok)" by (rule prod.exhaust)
    have "length (sb_stream s1) \<le> defaultSubscriberQueue" "sb_blocked s1 < maxBlockedFlushes" using assms by (simp_all add: s1_def sub_ok_def)
    note r = send_loop_result [OF s' this]
    then obtain sent where sent: "subseq sent evs" "sb_read s' @ sb_stream s' = (sb_read s @ sb_stream s) @ sent" by (auto simp: s1_def)
    have "subseq (sb_read s @ sb_stream s) (sb_flushed s)" using assms(1) by (simp add: sub_ok_def)
    then have "subseq (sb_read s' @ sb_stream s') (sb_flushed s @ evs)" using sent(1) unfolding sent(2) by (rule list_emb_append_mono)
    then show ?thesis using assms r False c cok s'
      by (auto simp: run_tick_def sub_flush_def sub_ok_def s1_def sub_remove_def split: bool.splits)
  qed
qed

lemma closed_sub_ok:
  assumes "sub_ok c s"
  shows "sb_member s \<Longrightarrow> sub_ok True (sub_close s)" and "\<not> sb_member s \<Longrightarrow> sub_ok True s"
  using assms unfolding sub_ok_def sub_close_def by auto

lemma bus_step_ok:
  assumes "bus_step b b'" and "bus_ok b"
  shows "bus_ok b'"
  using assms
proof (induction rule: bus_step.induct)
  case (subscribe b)
  then show ?case by (auto simp: bus_ok_def Subscribe_def sub_ok_def maxBlockedFlushes_def NewCoalescer_def defaultPendingEvents_def coalescer_ok_def)
next
  case (publish b now event)
  then show ?case by (rule Publish_ok)
next
  case (tick i b reads)
  then have "sub_ok (b_closed b) (run_tick (b_queueSize b) reads (b_subs b ! i))" by (simp add: bus_ok_def run_tick_ok)
  then show ?case using tick.prems by (auto simp: bus_ok_def dest!: set_update_subset_insert [THEN subsetD])
next
  case (leave i b)
  then have "sub_ok (b_closed b) (sub_remove (b_subs b ! i))" by (auto simp: bus_ok_def sub_ok_def sub_remove_def)
  then show ?case using leave.prems by (auto simp: bus_ok_def dest!: set_update_subset_insert [THEN subsetD])
next
  case (close_sub i b)
  then have "sub_ok (b_closed b) (sub_close (b_subs b ! i))" by (auto simp: bus_ok_def sub_ok_def sub_close_def)
  then show ?case using close_sub.prems by (auto simp: bus_ok_def dest!: set_update_subset_insert [THEN subsetD])
next
  case (close_bus b)
  then show ?case by (auto simp: bus_ok_def bus_Close_def intro: closed_sub_ok)
next
  case (read i b n)
  then have "sub_ok (b_closed b) (client_read n (b_subs b ! i))" by (simp add: bus_ok_def client_read_ok)
  then show ?case using read.prems by (auto simp: bus_ok_def dest!: set_update_subset_insert [THEN subsetD])
qed

lemma bus_reachable_ok: "bus_step\<^sup>*\<^sup>* NewBus b \<Longrightarrow> bus_ok b"
proof (induction rule: rtranclp_induct)
  case base
  then show ?case by (simp add: bus_ok_def NewBus_def)
next
  case (step b1 b2)
  show ?case by (rule bus_step_ok [OF step.hyps(2) step.IH])
qed

text \<open>
  C38. In every state the bus can reach, under any interleaving of publishers, ticks, reading, leaving and closing, every subscriber
  has at most 4 buffered and 128 pending events; what its client has received and will receive is, in order, part of what was
  flushed for it; who has left is no longer served; after the bus is closed everybody is asked to stop and nothing more is
  published; and one publication changes each subscriber independently of the others.
\<close>

theorem bus_bounded_in_order:
  assumes "bus_step\<^sup>*\<^sup>* NewBus b"
  shows "(\<forall>s\<in>set (b_subs b). length (sb_stream s) \<le> 4 \<and> length (c_pending (sb_coalescer s)) \<le> 128 \<and>
      subseq (sb_read s @ sb_stream s) (sb_flushed s) \<and> (sb_done s \<longrightarrow> \<not> sb_member s) \<and> (b_closed b \<and> sb_member s \<longrightarrow> sb_stop s)) \<and>
    (b_closed b \<longrightarrow> Publish now b e = (b, False)) \<and>
    (\<forall>i<length (b_subs b). b_subs (fst (Publish now b e)) ! i =
       (let s = b_subs b ! i in
        if ev_Name e = [] \<or> b_closed b \<or> \<not> sb_member s then s
        else if sb_stop s then s
        else case Add (sb_coalescer s) (e\<lparr>ev_Timestamp := norm_time now (ev_Timestamp e)\<rparr>) of
               (c, ok) \<Rightarrow> s\<lparr>sb_coalescer := c, sb_stop := \<not> ok\<rparr>))"
proof -
  have ok: "bus_ok b" by (rule bus_reachable_ok [OF assms])
  have "\<forall>s\<in>set (b_subs b). sub_ok (b_closed b) s" using ok by (simp add: bus_ok_def)
  then have "\<forall>s\<in>set (b_subs b). length (sb_stream s) \<le> 4 \<and> length (c_pending (sb_coalescer s)) \<le> 128 \<and>
      subseq (sb_read s @ sb_stream s) (sb_flushed s) \<and> (sb_done s \<longrightarrow> \<not> sb_member s) \<and> (b_closed b \<and> sb_member s \<longrightarrow> sb_stop s)"
    by (auto simp: sub_ok_def defaultSubscriberQueue_def coalescer_ok_def defaultPendingEvents_def)
  moreover have "b_closed b \<longrightarrow> Publish now b e = (b, False)" by (simp add: Publish_def)
  moreover have "\<forall>i<length (b_subs b). b_subs (fst (Publish now b e)) ! i =
       (let s = b_subs b ! i in
        if ev_Name e = [] \<or> b_closed b \<or> \<not> sb_member s then s
        else if sb_stop s then s
        else case Add (sb_coalescer s) (e\<lparr>ev_Timestamp := norm_time now (ev_Timestamp e)\<rparr>) of
               (c, ok) \<Rightarrow> s\<lparr>sb_coalescer := c, sb_stop := \<not> ok\<rparr>)"
    by (auto simp: Publish_def Let_def publish_to_def enqueue_def sub_close_def split: prod.splits bool.splits)
  ultimately show ?thesis by blast
qed

definition job_event :: "string \<Rightarrow> nat Event" where
  "job_event job = \<lparr>ev_Name = JobUpdated, ev_JobID = job, ev_FileID = [], ev_Timestamp = 5, ev_Data = Map.empty\<rparr>"

theorem bus_bounded_in_order_witness:
  "b_subs (fst (Publish 9 (Subscribe NewBus) (job_event ''a''))) ! 0 =
     (b_subs (Subscribe NewBus) ! 0)\<lparr>sb_coalescer := fst (Add (NewCoalescer 128) (job_event ''a''))\<rparr>"
proof -
  have r: "bus_step\<^sup>*\<^sup>* NewBus (Subscribe NewBus :: nat Bus)" by (intro r_into_rtranclp bus_step.subscribe)
  have t: "(job_event ''a'')\<lparr>ev_Timestamp := norm_time 9 5\<rparr> = job_event ''a''" by (simp add: job_event_def norm_time_def zero_time_def)
  have a: "snd (Add (NewCoalescer 128) (job_event ''a''))" by (simp add: Add_def NewCoalescer_def job_event_def Let_def)
  have s: "b_subs (Subscribe NewBus :: nat Bus) ! 0 = \<lparr>sb_stream = [], sb_stop = False, sb_done = False, sb_member = True,
       sb_coalescer = NewCoalescer 128, sb_blocked = 0, sb_read = [], sb_flushed = []\<rparr>" "\<not> b_closed (Subscribe NewBus :: nat Bus)" "0 < length (b_subs (Subscribe NewBus :: nat Bus))"
    by (simp_all add: Subscribe_def NewBus_def defaultPendingEvents_def)
  have "ev_Name (job_event ''a'') \<noteq> []" "ev_Timestamp (job_event ''a'') = 5" by (simp_all add: job_event_def)
  then show ?thesis using bus_bounded_in_order [OF r, of 9 "job_event ''a''"] s t a by (auto simp: Let_def split: prod.splits)
qed

text \<open>
  A client can miss an event and stay connected: the counter of failed sends is cleared by every tick with nothing to send, so a client
  that never reads is only dropped after four failures in a row. The comment in \<^verbatim>\<open>flush\<close> that such a client is going to be disconnected does
  not hold in general.
\<close>

lemma slow_client_not_disconnected:
  "\<exists>b. bus_step\<^sup>*\<^sup>* NewBus (b :: nat Bus) \<and> sb_member (b_subs b ! 0) \<and> \<not> sb_stop (b_subs b ! 0) \<and> sb_blocked (b_subs b ! 0) = 0 \<and>
     length (sb_read (b_subs b ! 0) @ sb_stream (b_subs b ! 0)) < length (sb_flushed (b_subs b ! 0))"
proof -
  define p where "p j b = fst (Publish 9 b (job_event j))" for j b
  define t where "t b = b\<lparr>b_subs := (b_subs b)[0 := run_tick (b_queueSize b) [] (b_subs b ! 0)]\<rparr>" for b :: "nat Bus"
  define b0 where "b0 = p ''e'' (p ''d'' (p ''c'' (p ''b'' (p ''a'' (Subscribe NewBus)))))"
  have pub: "bus_step\<^sup>*\<^sup>* NewBus (p j b)" if "bus_step\<^sup>*\<^sup>* NewBus b" for j b
    unfolding p_def using that bus_step.publish by (rule rtranclp.rtrancl_into_rtrancl)
  have sub: "bus_step\<^sup>*\<^sup>* NewBus (Subscribe NewBus :: nat Bus)" by (intro r_into_rtranclp bus_step.subscribe)
  have run: "bus_step\<^sup>*\<^sup>* NewBus b0" unfolding b0_def by (intro pub sub)
  have tick: "bus_step b (t b)" if "0 < length (b_subs b)" "\<not> sb_done (b_subs b ! 0)" for b
    unfolding t_def by (rule bus_step.tick [OF that])
  have e: "0 < length (b_subs b0)" "\<not> sb_done (b_subs b0 ! 0)" unfolding b0_def p_def by code_simp+
  have f: "0 < length (b_subs (t b0))" "\<not> sb_done (b_subs (t b0) ! 0)" unfolding b0_def p_def t_def by code_simp+
  have "bus_step\<^sup>*\<^sup>* NewBus (t (t b0))" using run tick [OF e] tick [OF f] by (meson rtranclp.rtrancl_into_rtrancl)
  moreover have "sb_member (b_subs (t (t b0)) ! 0) \<and> \<not> sb_stop (b_subs (t (t b0)) ! 0) \<and> sb_blocked (b_subs (t (t b0)) ! 0) = 0 \<and>
     length (sb_read (b_subs (t (t b0)) ! 0) @ sb_stream (b_subs (t (t b0)) ! 0)) < length (sb_flushed (b_subs (t (t b0)) ! 0))"
    unfolding b0_def p_def t_def by code_simp
  ultimately show ?thesis by blast
qed

end
