(* ===== verification/Base64.thy ===== *)
theory Base64
  imports GoText
begin

text \<open>
  The unpadded encodings of Go's \<^verbatim>\<open>encoding/base64\<close> (\<^verbatim>\<open>RawStdEncoding\<close>, \<^verbatim>\<open>RawURLEncoding\<close>) as the program uses them for password records
  and session tokens: decoding skips line ends, refuses every other foreign character and a single left-over character, and ignores
  left-over bits.
\<close>

definition std_alphabet :: string where
  "std_alphabet = ''ABCDEFGHIJKLMNOPQRSTUVWXYZabcdefghijklmnopqrstuvwxyz0123456789+/''"

definition url_alphabet :: string where
  "url_alphabet = ''ABCDEFGHIJKLMNOPQRSTUVWXYZabcdefghijklmnopqrstuvwxyz0123456789-_''"

fun enc_groups :: "nat list \<Rightarrow> nat list" where
  "enc_groups [] = []"
| "enc_groups [a] = [a div 4, a mod 4 * 16]"
| "enc_groups [a, b] = [a div 4, a mod 4 * 16 + b div 16, b mod 16 * 4]"
| "enc_groups (a # b # c # rest) = a div 4 # (a mod 4 * 16 + b div 16) # (b mod 16 * 4 + c div 64) # c mod 64 # enc_groups rest"

fun dec_groups :: "nat list \<Rightarrow> nat list option" where
  "dec_groups [] = Some []"
| "dec_groups [p] = None"
| "dec_groups [p, q] = Some [p * 4 + q div 16]"
| "dec_groups [p, q, r] = Some [p * 4 + q div 16, q mod 16 * 16 + r div 4]"
| "dec_groups (p # q # r # s # rest) =
     map_option (\<lambda>bs. (p * 4 + q div 16) # (q mod 16 * 16 + r div 4) # (r mod 4 * 64 + s) # bs) (dec_groups rest)"

fun index_of :: "char \<Rightarrow> string \<Rightarrow> nat option" where
  "index_of c [] = None"
| "index_of c (x # xs) = (if c = x then Some 0 else map_option Suc (index_of c xs))"

fun indices :: "string \<Rightarrow> string \<Rightarrow> nat list option" where
  "indices alphabet [] = Some []"
| "indices alphabet (c # cs) =
     (case index_of c alphabet of None \<Rightarrow> None | Some i \<Rightarrow> map_option (Cons i) (indices alphabet cs))"

definition encode_raw :: "string \<Rightarrow> bytes \<Rightarrow> string" where
  "encode_raw alphabet bs = map (\<lambda>i. alphabet ! i) (enc_groups (map unat bs))"

definition decode_raw :: "string \<Rightarrow> string \<Rightarrow> bytes option" where
  "decode_raw alphabet s =
     (case indices alphabet (filter (\<lambda>c. c \<noteq> CHR 0x0A \<and> c \<noteq> CHR 0x0D) s) of
        None \<Rightarrow> None
      | Some is \<Rightarrow> map_option (map of_nat) (dec_groups is))"

section \<open>Decoding what was encoded\<close>

lemma dec_enc_groups: "\<forall>x\<in>set xs. x < 256 \<Longrightarrow> dec_groups (enc_groups xs) = Some xs"
proof (induction xs rule: enc_groups.induct)
  case (2 a)
  then show ?case by simp
next
  case (3 a b)
  then show ?case by (simp add: div_less_dividend less_mult_imp_div_less)
next
  case (4 a b c rest)
  then show ?case by (simp add: less_mult_imp_div_less)
qed simp

lemma enc_groups_range: "\<forall>x\<in>set xs. x < 256 \<Longrightarrow> \<forall>i\<in>set (enc_groups xs). i < 64"
  by (induction xs rule: enc_groups.induct) (auto simp: less_mult_imp_div_less)

lemma index_of_nth: "distinct xs \<Longrightarrow> i < length xs \<Longrightarrow> index_of (xs ! i) xs = Some i"
  by (induction xs arbitrary: i) (auto simp: nth_Cons split: nat.splits)

definition good_alphabet :: "string \<Rightarrow> bool" where
  "good_alphabet a \<longleftrightarrow> length a = 64 \<and> distinct a \<and> CHR 0x0A \<notin> set a \<and> CHR 0x0D \<notin> set a"

lemma alphabets_good [simp]: "good_alphabet std_alphabet" "good_alphabet url_alphabet"
  by code_simp+

lemma indices_nth: "good_alphabet a \<Longrightarrow> \<forall>i\<in>set is. i < 64 \<Longrightarrow> indices a (map (\<lambda>i. a ! i) is) = Some is"
  by (induction "is") (auto simp: good_alphabet_def index_of_nth)

lemma set_encode_raw:
  assumes "good_alphabet a"
  shows "set (encode_raw a bs) \<subseteq> set a"
proof -
  have "\<forall>x\<in>set (map unat bs). x < 256" using unsigned_less [where 'b = 8 and 'a = nat] by auto
  from enc_groups_range [OF this] show ?thesis using assms by (auto simp: encode_raw_def good_alphabet_def)
qed

lemma decode_encode [simp]:
  assumes "good_alphabet a"
  shows "decode_raw a (encode_raw a bs) = Some bs"
proof -
  have r: "\<forall>x\<in>set (map unat bs). x < 256" using unsigned_less [where 'b = 8 and 'a = nat] by auto
  have "filter (\<lambda>c. c \<noteq> CHR 0x0A \<and> c \<noteq> CHR 0x0D) (encode_raw a bs) = encode_raw a bs"
    using set_encode_raw [OF assms, of bs] assms by (auto simp: filter_id_conv good_alphabet_def)
  moreover have "indices a (encode_raw a bs) = Some (enc_groups (map unat bs))"
    unfolding encode_raw_def by (rule indices_nth [OF assms enc_groups_range [OF r]])
  moreover have "map (of_nat :: nat \<Rightarrow> byte) (map unat bs) = bs" by (simp add: comp_def)
  ultimately show ?thesis using dec_enc_groups [OF r] by (simp add: decode_raw_def del: map_map)
qed

lemma encode_raw_nonempty: "bs \<noteq> [] \<Longrightarrow> encode_raw a bs \<noteq> []"
  by (cases "map unat bs" rule: enc_groups.cases) (auto simp: encode_raw_def)

end
