(* ===== verification/Auth.thy ===== *)
theory Auth
  imports Base64 Store
begin

text \<open>
  Authentication of the web interface: password records (\<^verbatim>\<open>internal/auth/password.go\<close>), sessions (\<^verbatim>\<open>internal/auth/session.go\<close>), the tables
  \<^verbatim>\<open>users\<close> and \<^verbatim>\<open>sessions\<close> (\<^verbatim>\<open>internal/store/auth.go\<close>). Argon2, SHA-256 and random bytes are arguments, as is which statements
  fail; a context that ends while waiting for a password slot is the argument \<open>slot\<close>.
\<close>

section \<open>Password records\<close>

text \<open>\<^verbatim>\<open>argon2.IDKey(password, salt, time, memory, threads, keyLen)\<close>.\<close>

type_synonym argon2 = "bytes \<Rightarrow> bytes \<Rightarrow> nat \<Rightarrow> nat \<Rightarrow> nat \<Rightarrow> nat \<Rightarrow> bytes"

definition passwordVersion :: string where "passwordVersion = ''argon2id-v1''"
definition passwordTime :: nat where "passwordTime = 3"
definition passwordMemory :: nat where "passwordMemory = 64 * 1024"
definition passwordThreads :: nat where "passwordThreads = 2"
definition passwordKeyLen :: nat where "passwordKeyLen = 32"
definition passwordSaltLen :: nat where "passwordSaltLen = 16"

datatype auth_error = ErrAdminExists | ErrNotFound | ErrAuthSQL | ErrAuthInput | ErrAuthRandom | ErrAuthContext | ErrCredentials

definition HashPassword :: "argon2 \<Rightarrow> bytes option \<Rightarrow> string \<Rightarrow> auth_error + string" where
  "HashPassword idKey rnd password =
     (if length password < 8 then Inl ErrAuthInput
      else if length password > 1024 then Inl ErrAuthInput
      else case rnd of
        None \<Rightarrow> Inl ErrAuthRandom
      | Some salt \<Rightarrow>
          (let hash = idKey (text_bytes password) salt passwordTime passwordMemory passwordThreads passwordKeyLen
           in Inr (join_with (CHR ''$'') [passwordVersion, digits_of passwordMemory, digits_of passwordTime, digits_of passwordThreads,
                     encode_raw std_alphabet salt, encode_raw std_alphabet hash])))"

definition VerifyPassword :: "argon2 \<Rightarrow> string \<Rightarrow> string \<Rightarrow> bool" where
  "VerifyPassword idKey password encoded =
     (case split_on (CHR ''$'') encoded of
        [version, m, t, p, s, h] \<Rightarrow>
          (if version \<noteq> passwordVersion then False
           else case (parse_uint 32 m, parse_uint 32 t, parse_uint 8 p, decode_raw std_alphabet s, decode_raw std_alphabet h) of
             (Some memory, Some timeCost, Some threads, Some salt, Some want) \<Rightarrow>
               if length salt < 8 \<or> length want = 0 \<or> memory = 0 \<or> timeCost = 0 \<or> threads = 0 then False
               else if memory > 1024 * 1024 \<or> timeCost > 10 \<or> threads > 32 \<or> length password > 1024 then False
               else idKey (text_bytes password) salt timeCost memory threads (length want) = want
           | _ \<Rightarrow> False)
      | _ \<Rightarrow> False)"

definition ValidateUsername :: "string \<Rightarrow> auth_error option" where
  "ValidateUsername username =
     (if trim_space username \<noteq> username \<or> username = [] then Some ErrAuthInput
      else if length username > 64 then Some ErrAuthInput
      else if \<exists>r\<in>set username. r = CHR 0x00 \<or> r = CHR 0x0A \<or> r = CHR 0x0D \<or> r = CHR 0x09 then Some ErrAuthInput
      else None)"

section \<open>Tables\<close>

record user_row =
  user_ID :: string
  user_Username :: string
  user_PasswordHash :: string
  user_CreatedAt :: int
  user_UpdatedAt :: int

record session_row =
  session_Digest :: bytes
  session_UserID :: string
  session_ExpiresAt :: int
  session_CreatedAt :: int

record auth_db =
  users :: "user_row list"
  sessions :: "session_row list"

text \<open>
  Times are stored as RFC 3339 text in UTC with the trailing zeros of the fraction dropped, and compared as text. Up to the seconds the
  text has fixed width for the years 0 to 9999, so it is ordered like the seconds; within a second the rest of the text decides.
\<close>

definition frac_text :: "nat \<Rightarrow> string" where
  "frac_text n =
     (if n = 0 then ''Z''
      else ''.'' @ rev (dropWhile (\<lambda>c. c = CHR ''0'') (rev (replicate (9 - length (digits_of n)) (CHR ''0'') @ digits_of n))) @ ''Z'')"

fun text_less :: "string \<Rightarrow> string \<Rightarrow> bool" where
  "text_less xs [] = False"
| "text_less [] (y # ys) = True"
| "text_less (x # xs) (y # ys) = ((of_char x :: nat) < of_char y \<or> x = y \<and> text_less xs ys)"

definition stored_less :: "int \<Rightarrow> int \<Rightarrow> bool" where
  "stored_less a b \<longleftrightarrow>
     a div 10 ^ 9 < b div 10 ^ 9 \<or>
     a div 10 ^ 9 = b div 10 ^ 9 \<and> text_less (frac_text (nat (a mod 10 ^ 9))) (frac_text (nat (b mod 10 ^ 9)))"

text \<open>So a full second is stored as if it came after every fraction of that second.\<close>

lemma stored_text_misorders: "stored_less (5 * 10 ^ 9 + 7) (5 * 10 ^ 9)" "\<not> stored_less (5 * 10 ^ 9) (5 * 10 ^ 9 + 7)"
  by (simp_all add: stored_less_def frac_text_def digits_of.simps [of 7])

text \<open>The collation \<^verbatim>\<open>NOCASE\<close> of the column \<^verbatim>\<open>username\<close> folds the ASCII letters.\<close>

definition nocase :: "string \<Rightarrow> string" where
  "nocase s = map (\<lambda>c. let n = (of_char c :: nat) in if 65 \<le> n \<and> n \<le> 90 then char_of (n + 32) else c) s"

definition HasUsers :: "bool \<Rightarrow> auth_db \<Rightarrow> auth_error + bool" where
  "HasUsers flt d = (if flt then Inl ErrAuthSQL else Inr (users d \<noteq> []))"

text \<open>The table is empty when the row is inserted, so no constraint can fail then.\<close>

definition CreateAdmin :: "string option \<Rightarrow> faults \<Rightarrow> bool \<Rightarrow> string \<Rightarrow> string \<Rightarrow> int \<Rightarrow> auth_db \<Rightarrow> (auth_error + user_row) \<times> auth_db" where
  "CreateAdmin newID flt commit_ok username passwordHash now d =
     (case newID of
        None \<Rightarrow> (Inl ErrAuthRandom, d)
      | Some uid \<Rightarrow>
          if passwordHash = [] then (Inl ErrAuthInput, d)
          else let row = \<lparr>user_ID = uid, user_Username = username, user_PasswordHash = passwordHash, user_CreatedAt = now, user_UpdatedAt = now\<rparr> in
            if flt 0 then (Inl ErrAuthSQL, d)
            else if users d \<noteq> [] then (Inl ErrAdminExists, d)
            else if flt 1 then (Inl ErrAuthSQL, d)
            else if \<not> commit_ok then (Inl ErrAuthSQL, d)
            else (Inr row, d\<lparr>users := users d @ [row]\<rparr>))"

definition UserByUsername :: "bool \<Rightarrow> string \<Rightarrow> auth_db \<Rightarrow> auth_error + user_row" where
  "UserByUsername flt username d =
     (if flt then Inl ErrAuthSQL
      else case find (\<lambda>u. nocase (user_Username u) = nocase username) (users d) of None \<Rightarrow> Inl ErrNotFound | Some u \<Rightarrow> Inr u)"

text \<open>The primary key, the check on the digest and the foreign key make an insertion fail.\<close>

definition InsertSession :: "bool \<Rightarrow> session_row \<Rightarrow> auth_db \<Rightarrow> auth_error option \<times> auth_db" where
  "InsertSession flt s d =
     (if length (session_Digest s) \<noteq> 32 then (Some ErrAuthInput, d)
      else if flt \<or> session_Digest s \<in> session_Digest ` set (sessions d) \<or> session_UserID s \<notin> user_ID ` set (users d) then (Some ErrAuthSQL, d)
      else (None, d\<lparr>sessions := sessions d @ [s]\<rparr>))"

definition UserForSession :: "bool \<Rightarrow> bytes \<Rightarrow> int \<Rightarrow> auth_db \<Rightarrow> auth_error + user_row" where
  "UserForSession flt digest now d =
     (if length digest \<noteq> 32 then Inl ErrNotFound
      else if flt then Inl ErrAuthSQL
      else case find (\<lambda>s. session_Digest s = digest \<and> stored_less now (session_ExpiresAt s)) (sessions d) of
        None \<Rightarrow> Inl ErrNotFound
      | Some s \<Rightarrow> (case find (\<lambda>u. user_ID u = session_UserID s) (users d) of None \<Rightarrow> Inl ErrNotFound | Some u \<Rightarrow> Inr u))"

definition DeleteSession :: "bool \<Rightarrow> bytes \<Rightarrow> auth_db \<Rightarrow> auth_error option \<times> auth_db" where
  "DeleteSession flt digest d =
     (if length digest \<noteq> 32 then (None, d)
      else if flt then (Some ErrAuthSQL, d)
      else (None, d\<lparr>sessions := filter (\<lambda>s. session_Digest s \<noteq> digest) (sessions d)\<rparr>))"

definition DeleteExpiredSessions :: "bool \<Rightarrow> int \<Rightarrow> auth_db \<Rightarrow> auth_error option \<times> auth_db" where
  "DeleteExpiredSessions flt now d =
     (if flt then (Some ErrAuthSQL, d)
      else (None, d\<lparr>sessions := filter (\<lambda>s. stored_less now (session_ExpiresAt s)) (sessions d)\<rparr>))"

section \<open>Sessions\<close>

definition SessionTTL :: int where
  "SessionTTL = 24 * 3600 * 10 ^ 9"

definition session_ttl :: "int \<Rightarrow> int" where
  "session_ttl TTL = (if TTL \<le> 0 then SessionTTL else TTL)"

definition dummyPasswordRecord :: string where
  "dummyPasswordRecord = ''argon2id-v1$65536$3$2$AAAAAAAAAAAAAAAAAAAAAA$AAAAAAAAAAAAAAAAAAAAAAAAAAAAAAAAAAAAAAAAAAA''"

definition TokenDigest :: "(bytes \<Rightarrow> bytes) \<Rightarrow> string \<Rightarrow> bytes" where
  "TokenDigest sha token =
     (case decode_raw url_alphabet token of
        Some raw \<Rightarrow> if length raw = 32 then sha raw else sha (text_bytes token)
      | None \<Rightarrow> sha (text_bytes token))"

text \<open>What a call meets outside: clock, lifetime of sessions, random bytes, failing statements and whether a slot for password work was free.\<close>

record auth_env =
  ae_sha :: "bytes \<Rightarrow> bytes"
  ae_idKey :: argon2
  ae_TTL :: int
  ae_now :: int
  ae_salt :: "bytes option"
  ae_token :: "bytes option"
  ae_newID :: "string option"
  ae_faults :: faults
  ae_commit_ok :: bool
  ae_slot :: bool

definition createSession :: "auth_env \<Rightarrow> string \<Rightarrow> auth_db \<Rightarrow> (auth_error + string) \<times> auth_db" where
  "createSession ae userID d =
     (case ae_token ae of
        None \<Rightarrow> (Inl ErrAuthRandom, d)
      | Some raw \<Rightarrow>
          (let digest = ae_sha ae raw; now = ae_now ae; ttl = session_ttl (ae_TTL ae) in
           case DeleteExpiredSessions (ae_faults ae 10) now d of
             (Some e, d1) \<Rightarrow> (Inl e, d1)
           | (None, d1) \<Rightarrow>
               (case InsertSession (ae_faults ae 11)
                       \<lparr>session_Digest = digest, session_UserID = userID, session_ExpiresAt = now + ttl, session_CreatedAt = now\<rparr> d1 of
                  (Some e, d2) \<Rightarrow> (Inl e, d2)
                | (None, d2) \<Rightarrow> (Inr (encode_raw url_alphabet raw), d2))))"

definition Setup :: "auth_env \<Rightarrow> string \<Rightarrow> string \<Rightarrow> auth_db \<Rightarrow> (auth_error + user_row \<times> string) \<times> auth_db" where
  "Setup ae username password d =
     (case ValidateUsername username of
        Some e \<Rightarrow> (Inl e, d)
      | None \<Rightarrow>
          if \<not> ae_slot ae then (Inl ErrAuthContext, d)
          else case HashPassword (ae_idKey ae) (ae_salt ae) password of
            Inl e \<Rightarrow> (Inl e, d)
          | Inr hash \<Rightarrow>
              (case CreateAdmin (ae_newID ae) (ae_faults ae) (ae_commit_ok ae) username hash (ae_now ae) d of
                 (Inl e, d1) \<Rightarrow> (Inl e, d1)
               | (Inr user, d1) \<Rightarrow>
                   (case createSession ae (user_ID user) d1 of
                      (Inl e, d2) \<Rightarrow> (Inl e, d2)
                    | (Inr token, d2) \<Rightarrow> (Inr (user, token), d2))))"

definition Login :: "auth_env \<Rightarrow> string \<Rightarrow> string \<Rightarrow> auth_db \<Rightarrow> (auth_error + user_row \<times> string) \<times> auth_db" where
  "Login ae username password d =
     (let r = UserByUsername (ae_faults ae 2) username d; found = is_ok r in
      if \<not> found \<and> r \<noteq> Inl ErrNotFound then (Inl (projl r), d)
      else let hash = (if found then user_PasswordHash (projr r) else dummyPasswordRecord) in
        if \<not> ae_slot ae then (Inl ErrAuthContext, d)
        else let verified = VerifyPassword (ae_idKey ae) password hash in
          if \<not> found \<or> \<not> verified then (Inl ErrCredentials, d)
          else case createSession ae (user_ID (projr r)) d of
            (Inl e, d1) \<Rightarrow> (Inl e, d1)
          | (Inr token, d1) \<Rightarrow> (Inr (projr r, token), d1))"

text \<open>The cookie is the value of the session cookie of the request, if it has one.\<close>

definition Principal :: "auth_env \<Rightarrow> string option \<Rightarrow> auth_db \<Rightarrow> user_row option" where
  "Principal ae cookie d =
     (case cookie of
        None \<Rightarrow> None
      | Some v \<Rightarrow>
          if v = [] then None
          else case UserForSession (ae_faults ae 3) (TokenDigest (ae_sha ae) v) (ae_now ae) d of Inl e \<Rightarrow> None | Inr u \<Rightarrow> Some u)"

definition Logout :: "auth_env \<Rightarrow> string option \<Rightarrow> auth_db \<Rightarrow> auth_error option \<times> auth_db" where
  "Logout ae cookie d =
     (case cookie of
        None \<Rightarrow> (None, d)
      | Some v \<Rightarrow> if v = [] then (None, d) else DeleteSession (ae_faults ae 4) (TokenDigest (ae_sha ae) v) d)"

section \<open>Password records verify\<close>

lemma no_dollar:
  "CHR ''$'' \<notin> set passwordVersion" "CHR ''$'' \<notin> set (digits_of n)" "CHR ''$'' \<notin> set (encode_raw std_alphabet bs)"
proof -
  show "CHR ''$'' \<notin> set passwordVersion" by (simp add: passwordVersion_def)
  show "CHR ''$'' \<notin> set (digits_of n)" using set_digits_of [of "CHR ''$''" n] by (auto simp: is_digit_def)
  have "CHR ''$'' \<notin> set std_alphabet" by code_simp
  then show "CHR ''$'' \<notin> set (encode_raw std_alphabet bs)" using set_encode_raw [OF alphabets_good(1)] by blast
qed

lemma HashPassword_verify:
  assumes "HashPassword idKey (Some salt) password = Inr stored" and "length salt = passwordSaltLen" and "\<And>p s t m th n. length (idKey p s t m th n) = n"
  shows "VerifyPassword idKey other stored \<longleftrightarrow> length other \<le> 1024 \<and> idKey (text_bytes other) salt 3 65536 2 32 = idKey (text_bytes password) salt 3 65536 2 32"
    and "length password \<le> 1024"
proof -
  define hash where "hash = idKey (text_bytes password) salt 3 65536 2 32"
  have stored: "stored = join_with (CHR ''$'') [''argon2id-v1'', digits_of 65536, digits_of 3, digits_of 2, encode_raw std_alphabet salt, encode_raw std_alphabet hash]"
    and "length password \<le> 1024"
    using assms(1) by (auto simp: HashPassword_def hash_def passwordVersion_def passwordMemory_def passwordTime_def passwordThreads_def passwordKeyLen_def
        Let_def split: if_splits)
  have "split_on (CHR ''$'') stored = [''argon2id-v1'', digits_of 65536, digits_of 3, digits_of 2, encode_raw std_alphabet salt, encode_raw std_alphabet hash]"
    unfolding stored using no_dollar by (subst split_join) auto
  then show "VerifyPassword idKey other stored \<longleftrightarrow> length other \<le> 1024 \<and> idKey (text_bytes other) salt 3 65536 2 32 = idKey (text_bytes password) salt 3 65536 2 32"
    using assms(2,3) by (auto simp: VerifyPassword_def passwordVersion_def parse_uint_digits hash_def passwordSaltLen_def)
  show "length password \<le> 1024" by fact
qed

text \<open>
  C39. A stored password record accepts exactly the passwords with the same derived key: for every password that can be set, the
  record made for it accepts it, and accepts another password of at most 1024 bytes exactly when Argon2 derives the same 32 bytes from
  it with the recorded salt and costs. Passwords of fewer than 8 or more than 1024 bytes are refused when setting one. A record whose
  version, number of fields, costs, salt or hash are malformed or out of bounds accepts nothing.
\<close>

theorem password_record_roundtrip:
  assumes "length salt = passwordSaltLen" and "\<And>p s t m th n. length (idKey p s t m th n) = n"
  shows "(8 \<le> length password \<and> length password \<le> 1024 \<longrightarrow>
      (\<exists>stored. HashPassword idKey (Some salt) password = Inr stored \<and> VerifyPassword idKey password stored \<and>
        (\<forall>other. VerifyPassword idKey other stored \<longleftrightarrow>
           length other \<le> 1024 \<and> idKey (text_bytes other) salt 3 65536 2 32 = idKey (text_bytes password) salt 3 65536 2 32))) \<and>
    (length password < 8 \<or> 1024 < length password \<longrightarrow> HashPassword idKey (Some salt) password = Inl ErrAuthInput) \<and>
    (VerifyPassword idKey password encoded \<longrightarrow>
      (\<exists>m t p s h. encoded = join_with (CHR ''$'') [''argon2id-v1'', m, t, p, s, h] \<and>
        (\<exists>memory timeCost threads salt' want. parse_uint 32 m = Some memory \<and> memory \<in> {1..1048576} \<and> parse_uint 32 t = Some timeCost \<and>
          timeCost \<in> {1..10} \<and> parse_uint 8 p = Some threads \<and> threads \<in> {1..32} \<and> decode_raw std_alphabet s = Some salt' \<and> 8 \<le> length salt' \<and>
          decode_raw std_alphabet h = Some want \<and> want \<noteq> [] \<and> idKey (text_bytes password) salt' timeCost memory threads (length want) = want)))"
proof (intro conjI impI)
  assume len: "8 \<le> length password \<and> length password \<le> 1024"
  then obtain stored where h: "HashPassword idKey (Some salt) password = Inr stored" by (auto simp: HashPassword_def Let_def)
  show "\<exists>stored. HashPassword idKey (Some salt) password = Inr stored \<and> VerifyPassword idKey password stored \<and>
      (\<forall>other. VerifyPassword idKey other stored \<longleftrightarrow>
         length other \<le> 1024 \<and> idKey (text_bytes other) salt 3 65536 2 32 = idKey (text_bytes password) salt 3 65536 2 32)"
    using h HashPassword_verify [OF h assms] len by auto
next
  assume "length password < 8 \<or> 1024 < length password"
  then show "HashPassword idKey (Some salt) password = Inl ErrAuthInput" by (auto simp: HashPassword_def)
next
  assume a: "VerifyPassword idKey password encoded"
  then obtain m t p s h where f: "split_on (CHR ''$'') encoded = [passwordVersion, m, t, p, s, h]"
    by (auto simp: VerifyPassword_def split: list.splits if_splits)
  have "encoded = join_with (CHR ''$'') [''argon2id-v1'', m, t, p, s, h]"
    using join_split [of "CHR ''$''" encoded] unfolding f by (simp add: passwordVersion_def)
  moreover have "\<exists>memory timeCost threads salt' want. parse_uint 32 m = Some memory \<and> memory \<in> {1..1048576} \<and> parse_uint 32 t = Some timeCost \<and>
          timeCost \<in> {1..10} \<and> parse_uint 8 p = Some threads \<and> threads \<in> {1..32} \<and> decode_raw std_alphabet s = Some salt' \<and> 8 \<le> length salt' \<and>
          decode_raw std_alphabet h = Some want \<and> want \<noteq> [] \<and> idKey (text_bytes password) salt' timeCost memory threads (length want) = want"
    using a f by (auto simp: VerifyPassword_def split: option.splits if_splits)
  ultimately show "\<exists>m t p s h. encoded = join_with (CHR ''$'') [''argon2id-v1'', m, t, p, s, h] \<and>
        (\<exists>memory timeCost threads salt' want. parse_uint 32 m = Some memory \<and> memory \<in> {1..1048576} \<and> parse_uint 32 t = Some timeCost \<and>
          timeCost \<in> {1..10} \<and> parse_uint 8 p = Some threads \<and> threads \<in> {1..32} \<and> decode_raw std_alphabet s = Some salt' \<and> 8 \<le> length salt' \<and>
          decode_raw std_alphabet h = Some want \<and> want \<noteq> [] \<and> idKey (text_bytes password) salt' timeCost memory threads (length want) = want)"
    by blast
qed

text \<open>A stand-in for Argon2 in the samples: the bytes of the password, cut or filled to the length asked for.\<close>

definition sample_idKey :: argon2 where
  "sample_idKey p s t m th n = take n (p @ replicate n 0)"

theorem password_record_roundtrip_witness:
  "\<exists>stored. HashPassword sample_idKey (Some (replicate 16 7)) ''longsecret'' = Inr stored \<and> VerifyPassword sample_idKey ''longsecret'' stored \<and>
     \<not> VerifyPassword sample_idKey ''other'' stored"
proof -
  have a: "length (replicate 16 7 :: bytes) = passwordSaltLen" "\<And>p s t m th n. length (sample_idKey p s t m th n) = n"
    by (simp_all add: passwordSaltLen_def sample_idKey_def)
  have "sample_idKey (text_bytes ''other'') (replicate 16 7) 3 65536 2 32 \<noteq> sample_idKey (text_bytes ''longsecret'') (replicate 16 7) 3 65536 2 32"
    by (simp add: sample_idKey_def text_bytes_def)
  then show ?thesis
    using password_record_roundtrip [where idKey = sample_idKey and password = "''longsecret''", OF a, THEN conjunct1] by auto
qed

section \<open>Who is recognized\<close>

text \<open>The tokens handed out: digest, user, the password presented and the time.\<close>

record issued =
  iss_Digest :: bytes
  iss_User :: user_row
  iss_Password :: string
  iss_At :: int

definition issue :: "auth_env \<Rightarrow> string \<Rightarrow> auth_error + user_row \<times> string \<Rightarrow> issued list" where
  "issue ae password r =
     (case r of Inl e \<Rightarrow> []
      | Inr (user, token) \<Rightarrow> [\<lparr>iss_Digest = TokenDigest (ae_sha ae) token, iss_User = user, iss_Password = password, iss_At = ae_now ae\<rparr>])"

text \<open>Random bytes come in arrays of fixed length.\<close>

definition env_ok :: "(bytes \<Rightarrow> bytes) \<Rightarrow> argon2 \<Rightarrow> int \<Rightarrow> auth_env \<Rightarrow> bool" where
  "env_ok sha idKey TTL ae \<longleftrightarrow> ae_sha ae = sha \<and> ae_idKey ae = idKey \<and> ae_TTL ae = TTL \<and>
     (\<forall>s. ae_salt ae = Some s \<longrightarrow> length s = passwordSaltLen) \<and> (\<forall>r. ae_token ae = Some r \<longrightarrow> length r = 32)"

inductive auth_step :: "(bytes \<Rightarrow> bytes) \<Rightarrow> argon2 \<Rightarrow> int \<Rightarrow> auth_db \<times> issued list \<Rightarrow> auth_db \<times> issued list \<Rightarrow> bool" for sha idKey TTL where
  do_setup: "env_ok sha idKey TTL ae \<Longrightarrow> Setup ae username password d = (r, d') \<Longrightarrow> auth_step sha idKey TTL (d, log) (d', log @ issue ae password r)"
| do_login: "env_ok sha idKey TTL ae \<Longrightarrow> Login ae username password d = (r, d') \<Longrightarrow> auth_step sha idKey TTL (d, log) (d', log @ issue ae password r)"
| do_logout: "env_ok sha idKey TTL ae \<Longrightarrow> Logout ae cookie d = (r, d') \<Longrightarrow> auth_step sha idKey TTL (d, log) (d', log)"

definition no_users :: auth_db where
  "no_users = \<lparr>users = [], sessions = []\<rparr>"

definition issued_session :: "int \<Rightarrow> issued list \<Rightarrow> session_row \<Rightarrow> bool" where
  "issued_session TTL log s \<longleftrightarrow>
     (\<exists>i\<in>set log. session_Digest s = iss_Digest i \<and> session_UserID s = user_ID (iss_User i) \<and> session_ExpiresAt s = iss_At i + session_ttl TTL)"

definition auth_inv :: "argon2 \<Rightarrow> int \<Rightarrow> auth_db \<times> issued list \<Rightarrow> bool" where
  "auth_inv idKey TTL w \<longleftrightarrow> (case w of (d, log) \<Rightarrow>
     length (users d) \<le> 1 \<and> (\<forall>s\<in>set (sessions d). issued_session TTL log s) \<and>
     (\<forall>i\<in>set log. iss_User i \<in> set (users d) \<and> VerifyPassword idKey (iss_Password i) (user_PasswordHash (iss_User i))))"

lemma TokenDigest_encode: "length raw = 32 \<Longrightarrow> TokenDigest sha (encode_raw url_alphabet raw) = sha raw"
  by (simp add: TokenDigest_def)

lemma createSession_result:
  assumes "createSession ae uid d = (r, d')"
  shows "users d' = users d \<and> (\<forall>s\<in>set (sessions d'). s \<in> set (sessions d) \<or>
    (\<exists>raw. ae_token ae = Some raw \<and> r = Inr (encode_raw url_alphabet raw) \<and>
      s = \<lparr>session_Digest = ae_sha ae raw, session_UserID = uid, session_ExpiresAt = ae_now ae + session_ttl (ae_TTL ae), session_CreatedAt = ae_now ae\<rparr>))"
  using assms by (auto simp: createSession_def DeleteExpiredSessions_def InsertSession_def Let_def split: option.splits if_splits)

lemma issued_session_mono: "issued_session TTL log s \<Longrightarrow> issued_session TTL (log @ new) s"
  by (auto simp: issued_session_def)

text \<open>A session made for a user who presented a password the record accepts keeps the invariant.\<close>

lemma issue_inv:
  assumes "auth_inv idKey TTL (d, log)" and "env_ok sha idKey TTL ae" and "createSession ae (user_ID u) d = (r, d')"
    and "u \<in> set (users d)" and "VerifyPassword idKey password (user_PasswordHash u)"
  shows "auth_inv idKey TTL (d', log @ (case r of Inl e \<Rightarrow> [] | Inr token \<Rightarrow> issue ae password (Inr (u, token))))"
proof -
  note c = createSession_result [OF assms(3)]
  have "issued_session TTL (log @ (case r of Inl e \<Rightarrow> [] | Inr token \<Rightarrow> issue ae password (Inr (u, token)))) s" if mem: "s \<in> set (sessions d')" for s
  proof (cases "s \<in> set (sessions d)")
    case True
    then show ?thesis using assms(1) by (intro issued_session_mono) (simp add: auth_inv_def)
  next
    case False
    then obtain raw where raw: "ae_token ae = Some raw" "r = Inr (encode_raw url_alphabet raw)"
      "s = \<lparr>session_Digest = ae_sha ae raw, session_UserID = user_ID u, session_ExpiresAt = ae_now ae + session_ttl (ae_TTL ae), session_CreatedAt = ae_now ae\<rparr>"
      using c mem by blast
    then have "length raw = 32" "ae_TTL ae = TTL" using assms(2) by (simp_all add: env_ok_def)
    then show ?thesis using raw by (simp add: issued_session_def issue_def TokenDigest_encode)
  qed
  then show ?thesis using c assms(1,4,5) by (auto simp: auth_inv_def issue_def split: sum.splits)
qed

lemma CreateAdmin_cases:
  "CreateAdmin newID flt ok name hash now d = (x, d1) \<Longrightarrow>
     (\<exists>e. x = Inl e \<and> d1 = d) \<or> (\<exists>u. x = Inr u \<and> users d = [] \<and> user_PasswordHash u = hash \<and> d1 = d\<lparr>users := [u]\<rparr>)"
  by (auto simp: CreateAdmin_def Let_def split: option.splits if_splits)

lemma Setup_cases:
  assumes "Setup ae username password d = (r, d')"
  obtains e where "r = Inl e" "d' = d"
  | user where "HashPassword (ae_idKey ae) (ae_salt ae) password = Inr (user_PasswordHash user)" "users d = []"
      "createSession ae (user_ID user) (d\<lparr>users := [user]\<rparr>) = (map_sum id snd r, d')" "\<forall>x. r = Inr x \<longrightarrow> fst x = user"
proof (cases "\<exists>hash. ValidateUsername username = None \<and> ae_slot ae \<and> HashPassword (ae_idKey ae) (ae_salt ae) password = Inr hash")
  case False
  then show thesis using assms that(1) by (auto simp: Setup_def split: option.splits sum.splits if_splits)
next
  case True
  then obtain hash where h: "ValidateUsername username = None" "ae_slot ae" "HashPassword (ae_idKey ae) (ae_salt ae) password = Inr hash" by blast
  obtain x d1 where c: "CreateAdmin (ae_newID ae) (ae_faults ae) (ae_commit_ok ae) username hash (ae_now ae) d = (x, d1)" by (rule prod.exhaust)
  from CreateAdmin_cases [OF c] show thesis
  proof (elim disjE exE conjE)
    fix u
    assume u: "x = Inr u" "users d = []" "user_PasswordHash u = hash" "d1 = d\<lparr>users := [u]\<rparr>"
    obtain y d2 where y: "createSession ae (user_ID u) d1 = (y, d2)" by (rule prod.exhaust)
    then show thesis using that(2) [of u] assms h c u by (cases y) (auto simp: Setup_def)
  qed (use assms h c that(1) in \<open>auto simp: Setup_def\<close>)
qed

lemma Setup_inv:
  assumes "auth_inv idKey TTL (d, log)" and "env_ok sha idKey TTL ae" and "Setup ae username password d = (r, d')"
    and "\<And>p s t m th n. length (idKey p s t m th n) = n"
  shows "auth_inv idKey TTL (d', log @ issue ae password r)"
  using assms(3)
proof (cases rule: Setup_cases)
  case (1 e)
  then show ?thesis using assms(1) by (simp add: issue_def)
next
  case (2 user)
  have "ae_idKey ae = idKey" using assms(2) by (simp add: env_ok_def)
  note h = 2(1) [unfolded this]
  obtain salt where salt: "ae_salt ae = Some salt" "length salt = passwordSaltLen"
    using h assms(2) by (auto simp: HashPassword_def env_ok_def split: if_splits option.splits)
  have ok: "VerifyPassword idKey password (user_PasswordHash user)"
    using HashPassword_verify [OF h [unfolded salt(1)] salt(2) assms(4)] by simp
  have "sessions d = [] \<and> log = []" using assms(1) 2(2) by (auto simp: auth_inv_def issued_session_def)
  then have "auth_inv idKey TTL (d\<lparr>users := [user]\<rparr>, log)" by (simp add: auth_inv_def)
  from issue_inv [OF this assms(2) 2(3) _ ok] 2(4) show ?thesis by (cases r) (auto simp: issue_def)
qed

lemma Login_inv:
  assumes "auth_inv idKey TTL (d, log)" and "env_ok sha idKey TTL ae" and "Login ae username password d = (r, d')"
  shows "auth_inv idKey TTL (d', log @ issue ae password r)"
proof (cases "\<exists>e. r = Inl e \<and> d' = d")
  case True
  then show ?thesis using assms(1) by (auto simp: issue_def)
next
  case False
  obtain user where u: "UserByUsername (ae_faults ae 2) username d = Inr user" "VerifyPassword idKey password (user_PasswordHash user)"
    and c: "createSession ae (user_ID user) d = (map_sum id snd r, d')" and r: "\<forall>x. r = Inr x \<longrightarrow> fst x = user"
    using False assms(2,3) by (cases "UserByUsername (ae_faults ae 2) username d")
      (auto simp: Login_def env_ok_def Let_def split: sum.splits prod.splits if_splits)
  have "user \<in> set (users d)" using u(1) by (auto simp: UserByUsername_def split: if_splits option.splits dest: find_SomeD)
  from issue_inv [OF assms(1,2) c this u(2)] r show ?thesis by (cases r) (auto simp: issue_def)
qed

lemma Logout_inv: "auth_inv idKey TTL (d, log) \<Longrightarrow> Logout ae cookie d = (r, d') \<Longrightarrow> auth_inv idKey TTL (d', log)"
  by (auto simp: auth_inv_def Logout_def DeleteSession_def split: option.splits if_splits)

lemma auth_reachable_inv:
  assumes "(auth_step sha idKey TTL)\<^sup>*\<^sup>* (no_users, []) w" and "\<And>p s t m th n. length (idKey p s t m th n) = n"
  shows "auth_inv idKey TTL w"
  using assms(1)
proof (induction rule: rtranclp_induct)
  case base
  then show ?case by (simp add: auth_inv_def no_users_def)
next
  case (step w1 w2)
  from step.hyps(2) step.IH show ?case
    by cases (auto intro: Setup_inv [OF _ _ _ assms(2)] Login_inv Logout_inv)
qed

lemma stored_less_seconds: "stored_less a b \<Longrightarrow> a div 10 ^ 9 \<le> b div 10 ^ 9" "a div 10 ^ 9 < b div 10 ^ 9 \<Longrightarrow> stored_less a b"
  by (auto simp: stored_less_def)

lemma Principal_SomeD:
  assumes "Principal ae cookie d = Some u"
  obtains v s where "cookie = Some v" "v \<noteq> []" "s \<in> set (sessions d)" "session_Digest s = TokenDigest (ae_sha ae) v" "u \<in> set (users d)"
    "user_ID u = session_UserID s" "stored_less (ae_now ae) (session_ExpiresAt s)"
  using assms by (fastforce simp: Principal_def UserForSession_def split: option.splits if_splits sum.splits dest!: find_SomeD)

lemma Logout_forgets:
  assumes "Logout ae cookie d = (None, d')" and "ae_sha ae' = ae_sha ae"
  shows "Principal ae' cookie d' = None"
proof (rule ccontr)
  assume "Principal ae' cookie d' \<noteq> None"
  then obtain u where u: "Principal ae' cookie d' = Some u" by blast
  then obtain v where v: "cookie = Some v" "v \<noteq> []" "length (TokenDigest (ae_sha ae') v) = 32"
    by (auto simp: Principal_def UserForSession_def split: option.splits if_splits sum.splits)
  then have "sessions d' = filter (\<lambda>s. session_Digest s \<noteq> TokenDigest (ae_sha ae') v) (sessions d)"
    using assms by (auto simp: Logout_def DeleteSession_def split: if_splits)
  then show False using u v(1) by (auto elim!: Principal_SomeD)
qed

text \<open>A fresh token is recognized until the second in which it expires.\<close>

lemma createSession_recognized:
  assumes "createSession ae (user_ID u) d = (Inr token, d')" and "length (the (ae_token ae)) = 32" and "users d = [u]"
    and "ae_sha ae' = ae_sha ae" and "\<not> ae_faults ae' 3" and "ae_now ae' div 10 ^ 9 < (ae_now ae + session_ttl (ae_TTL ae)) div 10 ^ 9"
  shows "Principal ae' (Some token) d' = Some u"
proof -
  define s where "s = \<lparr>session_Digest = ae_sha ae (the (ae_token ae)), session_UserID = user_ID u, session_ExpiresAt = ae_now ae + session_ttl (ae_TTL ae), session_CreatedAt = ae_now ae\<rparr>"
  obtain old where t: "token = encode_raw url_alphabet (the (ae_token ae))" "length (session_Digest s) = 32"
    and d': "sessions d' = old @ [s]" "session_Digest s \<notin> session_Digest ` set old" "users d' = [u]"
    using assms(1,3) by (auto simp: createSession_def DeleteExpiredSessions_def InsertSession_def Let_def s_def split: option.splits if_splits)
  have "the (ae_token ae) \<noteq> []" using assms(2) by auto
  from encode_raw_nonempty [OF this] have "token \<noteq> []" by (simp add: t(1))
  moreover have "TokenDigest (ae_sha ae') token = session_Digest s" using t(1) assms(2,4) by (simp add: TokenDigest_encode s_def)
  moreover have "find (\<lambda>x. session_Digest x = session_Digest s \<and> stored_less (ae_now ae') (session_ExpiresAt x)) (old @ [s]) = Some s"
    using d'(2) stored_less_seconds(2) [OF assms(6)] by (induction old) (auto simp: s_def)
  ultimately show ?thesis using t(2) d' assms(5) by (simp add: Principal_def UserForSession_def) (simp add: s_def)
qed

text \<open>A recognized token was handed out for a password the record accepts.\<close>

lemma recognized_issued:
  assumes "auth_inv idKey TTL (d, log)" and "Principal ae cookie d = Some u"
  shows "\<exists>v. cookie = Some v \<and> (\<exists>i\<in>set log. iss_Digest i = TokenDigest (ae_sha ae) v \<and> iss_User i = u \<and> users d = [u] \<and>
    VerifyPassword idKey (iss_Password i) (user_PasswordHash u) \<and> ae_now ae div 10 ^ 9 \<le> (iss_At i + session_ttl TTL) div 10 ^ 9)"
proof -
  have single: "users d = [x]" if "x \<in> set (users d)" for x using that assms(1) by (cases "users d") (auto simp: Suc_le_eq auth_inv_def)
  obtain v s where v: "cookie = Some v" "s \<in> set (sessions d)" "session_Digest s = TokenDigest (ae_sha ae) v" "u \<in> set (users d)"
    "stored_less (ae_now ae) (session_ExpiresAt s)" using assms(2) by (auto elim!: Principal_SomeD)
  obtain i where i: "i \<in> set log" "session_Digest s = iss_Digest i" "session_ExpiresAt s = iss_At i + session_ttl TTL"
    using assms(1) v(2) by (auto simp: auth_inv_def issued_session_def)
  have "iss_User i \<in> set (users d)" "VerifyPassword idKey (iss_Password i) (user_PasswordHash (iss_User i))" using assms(1) i(1) by (auto simp: auth_inv_def)
  moreover from this(1) have "iss_User i = u" using single [OF v(4)] by simp
  ultimately show ?thesis using v i single [OF v(4)] stored_less_seconds(1) [OF v(5)] by auto
qed

text \<open>
  C15. Whoever the server recognizes has proved the administrator's password. In every state reached by any sequence of setups, logins and
  logouts, with failing statements and any clock: there is at most one user; a recognized request carries a token with the digest of one
  that was handed out for a password the stored record accepts, at most the lifetime ago, up to the end of that second; after a
  successful logout the token is not recognized at any time; a token just handed out by a login is recognized until the second in which
  it expires.
\<close>

theorem session_authentic:
  assumes "(auth_step sha idKey TTL)\<^sup>*\<^sup>* (no_users, []) (d, log)" and "\<And>p s t m th n. length (idKey p s t m th n) = n"
  shows "length (users d) \<le> 1 \<and>
    (ae_sha ae = sha \<and> Principal ae cookie d = Some u \<longrightarrow>
      (\<exists>v. cookie = Some v \<and> (\<exists>i\<in>set log. iss_Digest i = TokenDigest sha v \<and> iss_User i = u \<and> users d = [u] \<and>
         VerifyPassword idKey (iss_Password i) (user_PasswordHash u) \<and> ae_now ae div 10 ^ 9 \<le> (iss_At i + session_ttl TTL) div 10 ^ 9))) \<and>
    (\<forall>d'. Logout ae cookie d = (None, d') \<longrightarrow> (\<forall>ae'. ae_sha ae' = ae_sha ae \<longrightarrow> Principal ae' cookie d' = None)) \<and>
    (\<forall>user token d'. env_ok sha idKey TTL ae \<and> Login ae name password d = (Inr (user, token), d') \<longrightarrow>
      VerifyPassword idKey password (user_PasswordHash user) \<and> users d = [user] \<and>
      (\<forall>ae'. ae_sha ae' = sha \<and> \<not> ae_faults ae' 3 \<and> ae_now ae' div 10 ^ 9 < (ae_now ae + session_ttl TTL) div 10 ^ 9 \<longrightarrow>
         Principal ae' (Some token) d' = Some user))"
proof -
  have inv: "auth_inv idKey TTL (d, log)" by (rule auth_reachable_inv [OF assms])
  then have one: "length (users d) \<le> 1" by (simp add: auth_inv_def)
  have single: "users d = [x]" if "x \<in> set (users d)" for x using that one by (cases "users d") (auto simp: Suc_le_eq)
  note known = recognized_issued [OF inv, of ae cookie u]
  have fresh: "VerifyPassword idKey password (user_PasswordHash user) \<and> users d = [user] \<and>
      (\<forall>ae'. ae_sha ae' = sha \<and> \<not> ae_faults ae' 3 \<and> ae_now ae' div 10 ^ 9 < (ae_now ae + session_ttl TTL) div 10 ^ 9 \<longrightarrow>
         Principal ae' (Some token) d' = Some user)"
    if env: "env_ok sha idKey TTL ae" and l: "Login ae name password d = (Inr (user, token), d')" for user token d'
  proof -
    have u: "UserByUsername (ae_faults ae 2) name d = Inr user" "VerifyPassword idKey password (user_PasswordHash user)"
      and c: "createSession ae (user_ID user) d = (Inr token, d')"
      using l env by (cases "UserByUsername (ae_faults ae 2) name d";
        auto simp: Login_def env_ok_def Let_def split: sum.splits prod.splits if_splits)+
    have "user \<in> set (users d)" using u(1) by (auto simp: UserByUsername_def split: if_splits option.splits dest: find_SomeD)
    then have d: "users d = [user]" by (rule single)
    have "length (the (ae_token ae)) = 32" using c env by (auto simp: createSession_def env_ok_def split: option.splits)
    from createSession_recognized [OF c this d] show ?thesis using u(2) d env by (simp add: env_ok_def)
  qed
  show ?thesis using one known fresh Logout_forgets [of ae cookie d] by (intro conjI allI impI) auto
qed

definition sample_auth :: auth_env where
  "sample_auth = \<lparr>ae_sha = (\<lambda>b. take 32 (b @ replicate 32 0)), ae_idKey = sample_idKey, ae_TTL = 0, ae_now = 5, ae_salt = Some (replicate 16 7),
     ae_token = Some (replicate 32 1), ae_newID = Some ''u'', ae_faults = (\<lambda>_. False), ae_commit_ok = True, ae_slot = True\<rparr>"

lemma sample_session:
  "\<exists>d log u. (auth_step (ae_sha sample_auth) sample_idKey 0)\<^sup>*\<^sup>* (no_users, []) (d, log) \<and>
     Principal sample_auth (Some (encode_raw url_alphabet (replicate 32 1))) d = Some u"
proof -
  have env: "env_ok (ae_sha sample_auth) sample_idKey 0 sample_auth" by (simp add: env_ok_def sample_auth_def passwordSaltLen_def)
  have v: "ValidateUsername ''admin'' = None" by code_simp
  obtain hash where h: "HashPassword sample_idKey (Some (replicate 16 7)) ''longsecret'' = Inr hash" "hash \<noteq> []"
    by (auto simp: HashPassword_def Let_def passwordVersion_def)
  define u where "u = \<lparr>user_ID = ''u'', user_Username = ''admin'', user_PasswordHash = hash, user_CreatedAt = 5, user_UpdatedAt = 5\<rparr>"
  define d where "d = \<lparr>users = [u], sessions = [\<lparr>session_Digest = replicate 32 1, session_UserID = ''u'', session_ExpiresAt = 5 + SessionTTL, session_CreatedAt = 5\<rparr>]\<rparr>"
  have sess: "createSession sample_auth ''u'' \<lparr>users = [u], sessions = []\<rparr> = (Inr (encode_raw url_alphabet (replicate 32 1)), d)"
    by (simp add: createSession_def sample_auth_def DeleteExpiredSessions_def InsertSession_def session_ttl_def d_def u_def Let_def)
  have "Setup sample_auth ''admin'' ''longsecret'' no_users = (Inr (u, encode_raw url_alphabet (replicate 32 1)), d)"
    using v h sess by (simp add: Setup_def CreateAdmin_def no_users_def u_def sample_auth_def Let_def)
  then have r: "(auth_step (ae_sha sample_auth) sample_idKey 0)\<^sup>*\<^sup>* (no_users, []) (d, [] @ issue sample_auth ''longsecret'' (Inr (u, encode_raw url_alphabet (replicate 32 1))))"
    by (intro r_into_rtranclp auth_step.do_setup [OF env])
  have p: "Principal sample_auth (Some (encode_raw url_alphabet (replicate 32 1))) d = Some u"
    using sess by (intro createSession_recognized [of sample_auth u "\<lparr>users = [u], sessions = []\<rparr>"]) (simp_all add: sample_auth_def session_ttl_def SessionTTL_def u_def)
  show ?thesis using r p by blast
qed

lemma sample_idKey_length: "length (sample_idKey p s t m th n) = n"
  by (simp add: sample_idKey_def)

theorem session_authentic_witness:
  "\<exists>d log u. (auth_step (ae_sha sample_auth) sample_idKey 0)\<^sup>*\<^sup>* (no_users, []) (d, log) \<and> users d = [u] \<and>
     Principal sample_auth (Some (encode_raw url_alphabet (replicate 32 1))) d = Some u \<and>
     (\<exists>i\<in>set log. VerifyPassword sample_idKey (iss_Password i) (user_PasswordHash u))"
proof -
  obtain d log u where r: "(auth_step (ae_sha sample_auth) sample_idKey 0)\<^sup>*\<^sup>* (no_users, []) (d, log)"
    and p: "Principal sample_auth (Some (encode_raw url_alphabet (replicate 32 1))) d = Some u" using sample_session by blast
  have "users d = [u] \<and> (\<exists>i\<in>set log. VerifyPassword sample_idKey (iss_Password i) (user_PasswordHash u))"
    using session_authentic [where idKey = sample_idKey and ae = sample_auth, OF r sample_idKey_length, THEN conjunct2, THEN conjunct1,
        rule_format, OF conjI [OF refl p]] by blast
  then show ?thesis using r p by blast
qed

end
