(* ===== verification/WebGate.thy ===== *)
theory WebGate
  imports Auth
begin

text \<open>
  The way of a request through the server (\<^verbatim>\<open>Handler\<close>, \<^verbatim>\<open>withAuth\<close>, \<^verbatim>\<open>sameOrigin\<close> and the host and origin checks of \<^verbatim>\<open>internal/api/api.go\<close>): the
  origin check, the route table, the session check, the handler. \<^verbatim>\<open>url.Parse\<close> is an argument. The path of a request is the list of
  its segments after the cleaning the router does.
\<close>

section \<open>Origin and host\<close>

record web_request =
  rq_Method :: string
  rq_Path :: "string list"
  rq_Host :: string
  rq_Origin :: string
  rq_TLS :: bool
  rq_Cookie :: "string option"

record origin_url =
  o_Scheme :: string
  o_Host :: string
  o_User :: bool
  o_Path :: string
  o_RawQuery :: string
  o_Fragment :: string

text \<open>The server only accepts ASCII in a Host header, so the lower case of ASCII letters decides the comparisons.\<close>

definition normalizeHost :: "string \<Rightarrow> string" where
  "normalizeHost host = to_lower (trim_suffix (trim_space host) ''.'')"

definition allowed_hosts :: "string list \<Rightarrow> string list" where
  "allowed_hosts configured = filter (\<lambda>h. h \<noteq> []) (map normalizeHost configured)"

definition requestHostAllowed :: "web_request \<Rightarrow> string list \<Rightarrow> bool" where
  "requestHostAllowed r allowedHosts =
     (if allowedHosts = [] then rq_Host r \<noteq> [] else normalizeHost (rq_Host r) \<in> set allowedHosts)"

definition requestHasSameOrigin :: "(string \<Rightarrow> origin_url option) \<Rightarrow> web_request \<Rightarrow> bool \<Rightarrow> bool" where
  "requestHasSameOrigin parse r allowHTTPSProxyOrigin =
     (if rq_Origin r = [] then rq_Host r \<noteq> []
      else case parse (rq_Origin r) of
        None \<Rightarrow> False
      | Some parsed \<Rightarrow>
          if o_Host parsed = [] \<or> o_User parsed \<or> o_Path parsed \<noteq> [] \<or> o_RawQuery parsed \<noteq> [] \<or> o_Fragment parsed \<noteq> [] then False
          else if normalizeHost (o_Host parsed) \<noteq> normalizeHost (rq_Host r) then False
          else if rq_TLS r then o_Scheme parsed = ''https''
          else o_Scheme parsed = ''http'' \<or> allowHTTPSProxyOrigin \<and> o_Scheme parsed = ''https'')"

section \<open>Routes\<close>

datatype seg = Lit string | Wild

record route =
  rt_Method :: string
  rt_Path :: "seg list"
  rt_Auth :: bool
  rt_Handler :: string

definition api_path :: "seg list \<Rightarrow> seg list" where
  "api_path p = Lit ''api'' # Lit ''v1'' # p"

definition open_route :: "string \<Rightarrow> seg list \<Rightarrow> string \<Rightarrow> route" where
  "open_route m p h = \<lparr>rt_Method = m, rt_Path = api_path p, rt_Auth = False, rt_Handler = h\<rparr>"

definition auth_route :: "string \<Rightarrow> seg list \<Rightarrow> string \<Rightarrow> route" where
  "auth_route m p h = \<lparr>rt_Method = m, rt_Path = api_path p, rt_Auth = True, rt_Handler = h\<rparr>"

definition routes :: "route list" where
  "routes =
    [open_route ''GET'' [Lit ''health''] ''handleHealth'',
     open_route ''GET'' [Lit ''version''] ''handleVersion'',
     auth_route ''GET'' [Lit ''dashboard''] ''handleDashboard'',
     open_route ''GET'' [Lit ''auth'', Lit ''status''] ''handleAuthStatus'',
     open_route ''POST'' [Lit ''auth'', Lit ''setup''] ''handleSetup'',
     open_route ''POST'' [Lit ''setup''] ''handleSetup'',
     open_route ''POST'' [Lit ''auth'', Lit ''login''] ''handleLogin'',
     open_route ''POST'' [Lit ''auth'', Lit ''logout''] ''handleLogout'',
     open_route ''GET'' [Lit ''auth'', Lit ''me''] ''handleMe'',
     auth_route ''GET'' [Lit ''settings''] ''handleGetSettings'',
     auth_route ''PUT'' [Lit ''settings''] ''handlePutSettings'',
     auth_route ''POST'' [Lit ''downloads'', Lit ''resolve''] ''handleResolve'',
     auth_route ''POST'' [Lit ''downloads''] ''handleCreateDownload'',
     auth_route ''GET'' [Lit ''downloads''] ''handleListDownloads'',
     auth_route ''GET'' [Lit ''downloads'', Wild] ''handleGetDownload'',
     auth_route ''GET'' [Lit ''downloads'', Wild, Lit ''events''] ''handleDownloadEvents'',
     auth_route ''POST'' [Lit ''downloads'', Wild, Lit ''pause''] ''handlePauseDownload'',
     auth_route ''POST'' [Lit ''downloads'', Wild, Lit ''resume''] ''handleResumeDownload'',
     auth_route ''POST'' [Lit ''downloads'', Wild, Lit ''retry''] ''handleRetryDownload'',
     auth_route ''POST'' [Lit ''downloads'', Wild, Lit ''cancel''] ''handleCancelDownload'',
     auth_route ''DELETE'' [Lit ''downloads'', Wild] ''handleDeleteDownload'',
     auth_route ''POST'' [Lit ''queue'', Lit ''pause''] ''handlePauseQueue'',
     auth_route ''POST'' [Lit ''queue'', Lit ''resume''] ''handleResumeQueue'',
     auth_route ''GET'' [Lit ''accounts''] ''handleListAccounts'',
     auth_route ''POST'' [Lit ''accounts''] ''handleCreateAccount'',
     auth_route ''POST'' [Lit ''accounts'', Wild, Lit ''test''] ''handleTestAccount'',
     auth_route ''PUT'' [Lit ''accounts'', Wild] ''handleUpdateAccount'',
     auth_route ''DELETE'' [Lit ''accounts'', Wild] ''handleDeleteAccount'',
     auth_route ''GET'' [Lit ''proxies''] ''handleListProxies'',
     auth_route ''POST'' [Lit ''proxies''] ''handleCreateProxy'',
     auth_route ''POST'' [Lit ''proxies'', Wild, Lit ''test''] ''handleTestProxy'',
     auth_route ''PUT'' [Lit ''proxies'', Wild] ''handleUpdateProxy'',
     auth_route ''DELETE'' [Lit ''proxies'', Wild] ''handleDeleteProxy'',
     auth_route ''GET'' [Lit ''events''] ''handleEvents'']"

text \<open>The router: a wildcard matches one non-empty segment, a GET route also serves HEAD, and of two matching routes the more specific one
  wins; \<^verbatim>\<open>POST /downloads/resolve\<close> has no less specific rival for its method.\<close>

fun seg_match :: "seg list \<Rightarrow> string list \<Rightarrow> bool" where
  "seg_match [] [] = True"
| "seg_match (Lit l # ps) (s # ss) = (l = s \<and> seg_match ps ss)"
| "seg_match (Wild # ps) (s # ss) = (s \<noteq> [] \<and> seg_match ps ss)"
| "seg_match _ _ = False"

definition route_match :: "web_request \<Rightarrow> route \<Rightarrow> bool" where
  "route_match r t \<longleftrightarrow> seg_match (rt_Path t) (rq_Path r) \<and> (rt_Method t = rq_Method r \<or> rt_Method t = ''GET'' \<and> rq_Method r = ''HEAD'')"

datatype served = Refused nat string | Handled string "user_row option"

definition withAuth :: "auth_env \<Rightarrow> auth_db \<Rightarrow> web_request \<Rightarrow> string \<Rightarrow> served" where
  "withAuth ae d r handler =
     (case Principal ae (rq_Cookie r) d of
        None \<Rightarrow> Refused 401 ''auth_required''
      | Some u \<Rightarrow> Handled handler (Some u))"

definition mux :: "auth_env \<Rightarrow> auth_db \<Rightarrow> web_request \<Rightarrow> served" where
  "mux ae d r =
     (case find (route_match r) routes of
        Some t \<Rightarrow> if rt_Auth t then withAuth ae d r (rt_Handler t) else Handled (rt_Handler t) None
      | None \<Rightarrow> if \<exists>t\<in>set routes. seg_match (rt_Path t) (rq_Path r) then Refused 405 [] else Refused 404 [])"

definition checked_method :: "string \<Rightarrow> bool" where
  "checked_method m \<longleftrightarrow> m = ''POST'' \<or> m = ''PUT'' \<or> m = ''PATCH'' \<or> m = ''DELETE''"

definition sameOrigin :: "(string \<Rightarrow> origin_url option) \<Rightarrow> string list \<Rightarrow> bool \<Rightarrow> auth_env \<Rightarrow> auth_db \<Rightarrow> web_request \<Rightarrow> served" where
  "sameOrigin parse allowedHosts allowHTTPSProxyOrigin ae d r =
     (if checked_method (rq_Method r) \<and> (\<not> requestHostAllowed r allowedHosts \<or> \<not> requestHasSameOrigin parse r allowHTTPSProxyOrigin)
      then Refused 403 ''origin_forbidden''
      else mux ae d r)"

text \<open>The handlers that may run without a session, and those that only read.\<close>

definition open_handlers :: "string list" where
  "open_handlers = [''handleHealth'', ''handleVersion'', ''handleAuthStatus'', ''handleSetup'', ''handleLogin'', ''handleLogout'', ''handleMe'']"

definition reading_handlers :: "string list" where
  "reading_handlers = [''handleHealth'', ''handleVersion'', ''handleDashboard'', ''handleAuthStatus'', ''handleMe'', ''handleGetSettings'',
     ''handleListDownloads'', ''handleGetDownload'', ''handleDownloadEvents'', ''handleListAccounts'', ''handleListProxies'', ''handleEvents'']"

lemma route_table:
  assumes "t \<in> set routes"
  shows "rt_Auth t \<or> rt_Handler t \<in> set open_handlers" "checked_method (rt_Method t) \<or> rt_Method t = ''GET'' \<and> rt_Handler t \<in> set reading_handlers"
proof -
  have "\<forall>t\<in>set routes. (rt_Auth t \<or> rt_Handler t \<in> set open_handlers) \<and> (checked_method (rt_Method t) \<or> rt_Method t = ''GET'' \<and> rt_Handler t \<in> set reading_handlers)"
    by code_simp
  then show "rt_Auth t \<or> rt_Handler t \<in> set open_handlers" "checked_method (rt_Method t) \<or> rt_Method t = ''GET'' \<and> rt_Handler t \<in> set reading_handlers"
    using assms by blast+
qed

lemma mux_handled:
  assumes "mux ae d r = Handled h p"
  obtains t where "t \<in> set routes" "route_match r t" "h = rt_Handler t" "p = (if rt_Auth t then Principal ae (rq_Cookie r) d else None)"
    "rt_Auth t \<longrightarrow> p \<noteq> None"
  using assms by (auto simp: mux_def withAuth_def split: option.splits if_splits dest!: find_SomeD)

text \<open>
  C14. No handler but the seven open ones runs without the administrator: in every reachable state of users and sessions, a request that
  reaches another handler carries a token handed out for a password the stored record accepts, within its lifetime. A request that
  reaches a handler that changes anything has a method that is checked, an allowed host and, when it names an origin, an origin with the
  host of the request, without path or credentials, and of the scheme of the connection.
\<close>

theorem requests_guarded:
  assumes "(auth_step sha idKey TTL)\<^sup>*\<^sup>* (no_users, []) (d, log)" and "\<And>p s t m th n. length (idKey p s t m th n) = n" and "ae_sha ae = sha"
    and "sameOrigin parse (allowed_hosts hosts) proxied ae d r = Handled h p"
  shows "(h \<notin> set open_handlers \<longrightarrow>
      (\<exists>u v. p = Some u \<and> rq_Cookie r = Some v \<and> users d = [u] \<and> (\<exists>i\<in>set log. iss_Digest i = TokenDigest sha v \<and> iss_User i = u \<and>
         VerifyPassword idKey (iss_Password i) (user_PasswordHash u) \<and> ae_now ae div 10 ^ 9 \<le> (iss_At i + session_ttl TTL) div 10 ^ 9))) \<and>
    (h \<notin> set reading_handlers \<longrightarrow>
      checked_method (rq_Method r) \<and> (allowed_hosts hosts \<noteq> [] \<longrightarrow> normalizeHost (rq_Host r) \<in> normalizeHost ` set hosts) \<and>
      (rq_Origin r \<noteq> [] \<longrightarrow> (\<exists>org. parse (rq_Origin r) = Some org \<and> o_Host org \<noteq> [] \<and> normalizeHost (o_Host org) = normalizeHost (rq_Host r) \<and>
         \<not> o_User org \<and> o_Path org = [] \<and> (rq_TLS r \<longrightarrow> o_Scheme org = ''https'') \<and>
         (\<not> rq_TLS r \<longrightarrow> o_Scheme org = ''http'' \<or> proxied \<and> o_Scheme org = ''https''))))"
proof -
  have m: "mux ae d r = Handled h p" using assms(4) by (simp add: sameOrigin_def split: if_splits)
  then obtain t where t: "t \<in> set routes" "route_match r t" "h = rt_Handler t" "p = (if rt_Auth t then Principal ae (rq_Cookie r) d else None)"
    "rt_Auth t \<longrightarrow> p \<noteq> None" by (rule mux_handled)
  have inv: "auth_inv idKey TTL (d, log)" by (rule auth_reachable_inv [OF assms(1,2)])
  have "\<exists>u v. p = Some u \<and> rq_Cookie r = Some v \<and> users d = [u] \<and> (\<exists>i\<in>set log. iss_Digest i = TokenDigest sha v \<and> iss_User i = u \<and>
      VerifyPassword idKey (iss_Password i) (user_PasswordHash u) \<and> ae_now ae div 10 ^ 9 \<le> (iss_At i + session_ttl TTL) div 10 ^ 9)"
    if "h \<notin> set open_handlers"
  proof -
    have "rt_Auth t" using that t(1,3) route_table(1) by blast
    then obtain u where u: "p = Some u" "Principal ae (rq_Cookie r) d = Some u" using t(4,5) by auto
    show ?thesis using recognized_issued [OF inv u(2)] u(1) assms(3) by auto
  qed
  moreover have "checked_method (rq_Method r)" if "h \<notin> set reading_handlers"
    using that t(2,3) route_table(2) [OF t(1)] by (auto simp: route_match_def checked_method_def)
  moreover have "requestHostAllowed r (allowed_hosts hosts) \<and> requestHasSameOrigin parse r proxied" if "checked_method (rq_Method r)"
    using that assms(4) by (simp add: sameOrigin_def split: if_splits)
  ultimately show ?thesis
    by (auto simp: requestHostAllowed_def requestHasSameOrigin_def allowed_hosts_def split: if_splits option.splits)
qed

definition sample_delete :: web_request where
  "sample_delete = \<lparr>rq_Method = ''DELETE'', rq_Path = [''api'', ''v1'', ''downloads'', ''7''], rq_Host = ''box'', rq_Origin = ''o'', rq_TLS = False,
     rq_Cookie = Some (encode_raw url_alphabet (replicate 32 1))\<rparr>"

definition sample_origin :: "string \<Rightarrow> origin_url option" where
  "sample_origin s = Some \<lparr>o_Scheme = ''http'', o_Host = ''BOX'', o_User = False, o_Path = [], o_RawQuery = [], o_Fragment = []\<rparr>"

theorem requests_guarded_witness:
  "\<exists>d u. sameOrigin sample_origin (allowed_hosts [''Box.'']) False sample_auth d sample_delete = Handled ''handleDeleteDownload'' (Some u) \<and> users d = [u]"
proof -
  obtain d log u where r: "(auth_step (ae_sha sample_auth) sample_idKey 0)\<^sup>*\<^sup>* (no_users, []) (d, log)"
    and p: "Principal sample_auth (rq_Cookie sample_delete) d = Some u" using sample_session by (auto simp: sample_delete_def)
  have n: "normalizeHost ''Box.'' = ''box''" "normalizeHost ''BOX'' = ''box''" "normalizeHost ''box'' = ''box''" by code_simp+
  have f: "find (route_match sample_delete) routes = Some (auth_route ''DELETE'' [Lit ''downloads'', Wild] ''handleDeleteDownload'')"
    by (simp add: routes_def open_route_def auth_route_def api_path_def route_match_def sample_delete_def)
  have h: "sameOrigin sample_origin (allowed_hosts [''Box.'']) False sample_auth d sample_delete = Handled ''handleDeleteDownload'' (Some u)"
    using p f n by (simp add: sameOrigin_def mux_def withAuth_def auth_route_def requestHostAllowed_def requestHasSameOrigin_def allowed_hosts_def
        sample_origin_def checked_method_def sample_delete_def)
  have "''handleDeleteDownload'' \<notin> set open_handlers" by (simp add: open_handlers_def)
  then have "users d = [u]"
    using requests_guarded [where idKey = sample_idKey, OF r sample_idKey_length refl h, THEN conjunct1] by auto
  then show ?thesis using h by blast
qed

end
