(* ===== verification/Accounts.thy ===== *)
theory Accounts
  imports MegaResolve Base64 Store
begin

text \<open>
  MEGA accounts: the login protocol (\<^verbatim>\<open>internal/mega/account_auth.go\<close>), the table of accounts (\<^verbatim>\<open>internal/store/accounts.go\<close>) and the lifecycle
  that joins them (\<^verbatim>\<open>internal/mega/accounts.go\<close>). AES (\<open>E\<close>, \<open>D\<close>), PBKDF2, \<^verbatim>\<open>strings.ToLower\<close>, random bytes, the API commands, encryption of
  secrets and failing statements are arguments.
\<close>

section \<open>Keys of the login protocol\<close>

definition zeroPad :: "bytes \<Rightarrow> nat \<Rightarrow> bytes" where
  "zeroPad v n =
     (if n = 0 \<or> v = [] then v
      else if length v mod n \<noteq> 0 then v @ replicate (n - length v mod n) 0 else v)"

text \<open>The key blocks of a padded password; the last one is filled with zeros.\<close>

function key_blocks :: "bytes \<Rightarrow> bytes list" where
  "key_blocks padded = (if padded = [] then [] else (take 16 padded @ replicate (16 - length padded) 0) # key_blocks (drop 16 padded))"
  by pat_completeness auto
termination
  by (relation "measure length") auto

declare key_blocks.simps [simp del]

definition legacyPasswordKey :: "(bytes \<Rightarrow> bytes \<Rightarrow> bytes) \<Rightarrow> string \<Rightarrow> bytes" where
  "legacyPasswordKey E password =
     (let ciphers = key_blocks (zeroPad (text_bytes password) 4) in
      ((\<lambda>result. foldl (\<lambda>r k. E k r) result ciphers) ^^ 65536)
        [0x93, 0xc4, 0x67, 0xe3, 0x7d, 0xb0, 0xc7, 0xa4, 0xd1, 0xbe, 0x3f, 0x81, 0x01, 0x52, 0xcb, 0x56])"

text \<open>\<^verbatim>\<open>aes.NewCipher\<close> refuses keys of other lengths.\<close>

definition aes_key_ok :: "bytes \<Rightarrow> bool" where
  "aes_key_ok k \<longleftrightarrow> length k = 16 \<or> length k = 24 \<or> length k = 32"

fun hash_words :: "nat \<Rightarrow> bytes \<Rightarrow> 32 word list \<Rightarrow> 32 word list" where
  "hash_words i (a # b # c # d # rest) words = hash_words (i + 1) rest (words[i mod 4 := words ! (i mod 4) XOR be_uint32 [a, b, c, d]])"
| "hash_words i _ words = words"

definition legacyStringHash :: "(bytes \<Rightarrow> bytes \<Rightarrow> bytes) \<Rightarrow> string \<Rightarrow> bytes \<Rightarrow> mega_error + string" where
  "legacyStringHash E v key =
     (if \<not> aes_key_ok key then Inl ErrUnavailable
      else let data0 = concat (map put_uint32 (hash_words 0 (zeroPad (text_bytes v) 4) [0, 0, 0, 0]));
               data = (E key ^^ 16384) data0
           in Inr (encode_raw url_alphabet (take 4 data @ take 4 (drop 8 data))))"

section \<open>The session identifier\<close>

text \<open>Multi-precision integers: a bit length of two bytes, then the big-endian bytes.\<close>

definition big_SetBytes :: "bytes \<Rightarrow> nat" where
  "big_SetBytes bs = foldl (\<lambda>n b. n * 256 + unat b) 0 bs"

fun big_Bytes :: "nat \<Rightarrow> bytes" where
  "big_Bytes n = (if n = 0 then [] else big_Bytes (n div 256) @ [of_nat (n mod 256)])"

declare big_Bytes.simps [simp del]

definition readMPI :: "bytes \<Rightarrow> (nat \<times> bytes) option" where
  "readMPI v =
     (if length v < 2 then None
      else let bits = unat (v ! 0) * 256 + unat (v ! 1); len = (bits + 7) div 8 in
        if bits = 0 \<or> len = 0 \<or> length v < 2 + len then None
        else Some (big_SetBytes (take len (drop 2 v)), drop (2 + len) v))"

definition readRSAKey :: "bytes \<Rightarrow> (nat \<times> nat \<times> nat \<times> bytes) option" where
  "readRSAKey v =
     (case readMPI v of
        None \<Rightarrow> None
      | Some (p, rest) \<Rightarrow>
          (case readMPI rest of
             None \<Rightarrow> None
           | Some (q, rest1) \<Rightarrow>
               (case readMPI rest1 of
                  None \<Rightarrow> None
                | Some (d, rest2) \<Rightarrow> if p = 0 \<or> q = 0 \<or> d = 0 then None else Some (p, q, d, rest2))))"

function decrypt_blocks :: "(bytes \<Rightarrow> bytes) \<Rightarrow> bytes \<Rightarrow> bytes" where
  "decrypt_blocks D v = (if v = [] then [] else D (take 16 v) @ decrypt_blocks D (drop 16 v))"
  by pat_completeness auto
termination
  by (relation "measure (length \<circ> snd)") auto

declare decrypt_blocks.simps [simp del]

definition decryptAccountSessionID ::
  "(bytes \<Rightarrow> bytes \<Rightarrow> bytes) \<Rightarrow> (string \<Rightarrow> bytes option) \<Rightarrow> string \<Rightarrow> string \<Rightarrow> bytes \<Rightarrow> mega_error + string" where
  "decryptAccountSessionID D b64 encodedPrivate encodedSession masterKey =
     (case b64 encodedPrivate of
        None \<Rightarrow> Inl ErrAuthenticationFailed
      | Some privateCiphertext \<Rightarrow>
          if privateCiphertext = [] \<or> length privateCiphertext mod 16 \<noteq> 0 then Inl ErrAuthenticationFailed
          else if \<not> aes_key_ok masterKey then Inl ErrAuthenticationFailed
          else case readRSAKey (decrypt_blocks (D masterKey) privateCiphertext) of
            None \<Rightarrow> Inl ErrAuthenticationFailed
          | Some (p, q, d, _) \<Rightarrow>
              (case b64 encodedSession of
                 None \<Rightarrow> Inl ErrAuthenticationFailed
               | Some ciphertext \<Rightarrow>
                   (case readMPI ciphertext of
                      None \<Rightarrow> Inl ErrAuthenticationFailed
                    | Some (message, _) \<Rightarrow>
                        (let plain = big_Bytes (message ^ d mod (p * q)) in
                         if length plain < 43 then Inl ErrAuthenticationFailed
                         else Inr (encode_raw url_alphabet (take 43 plain))))))"

section \<open>Login\<close>

definition intValue :: "json option \<Rightarrow> int option" where
  "intValue v = (case v of Some (JNumber n) \<Rightarrow> parse_int n | _ \<Rightarrow> None)"

definition uintValue :: "json option \<Rightarrow> nat option" where
  "uintValue v = (case v of Some (JNumber n) \<Rightarrow> parse_uint 64 n | _ \<Rightarrow> None)"

record AccountHealth =
  StorageBytes :: nat
  UsedBytes :: nat

record AccountSession =
  as_SessionID :: string
  as_Health :: AccountHealth
  as_Restored :: bool
  as_Reauthenticated :: bool

text \<open>What the protocol meets outside: the ciphers, derivations and commands, and at which checks the context has ended.\<close>

record login_env =
  le_E :: "bytes \<Rightarrow> bytes \<Rightarrow> bytes"
  le_D :: "bytes \<Rightarrow> bytes \<Rightarrow> bytes"
  le_b64 :: "string \<Rightarrow> bytes option"
  le_pbkdf2 :: "bytes \<Rightarrow> bytes \<Rightarrow> bytes"
  le_lower :: "string \<Rightarrow> string"
  le_sessionKey :: "bytes option"
  le_cmd :: "nat \<Rightarrow> commander"
  le_ended :: "nat \<Rightarrow> bool"

definition prelogin :: "login_env \<Rightarrow> string \<Rightarrow> client \<Rightarrow> (mega_error + int \<times> bytes) \<times> client" where
  "prelogin le email c =
     (case le_cmd le 0 [JObject [(''a'', JString ''us0''), (''user'', JString email)]] [] c of
        (Inl e, c1) \<Rightarrow> (Inl e, c1)
      | (Inr result, c1) \<Rightarrow>
          (case firstObject result of
             Inl e \<Rightarrow> (Inl ErrAuthenticationFailed, c1)
           | Inr o1 \<Rightarrow>
               (case intValue (map_of o1 ''v'') of
                  None \<Rightarrow> (Inl ErrAuthenticationFailed, c1)
                | Some version \<Rightarrow>
                    if version = 0 then (Inl ErrAuthenticationFailed, c1)
                    else if version \<noteq> 1 \<and> version \<noteq> 2 then (Inl ErrAuthenticationFailed, c1)
                    else if version = 1 then (Inr (version, []), c1)
                    else let saltText = stringValue (map_of o1 ''s'') in
                      if saltText = [] then (Inl ErrAuthenticationFailed, c1)
                      else case le_b64 le saltText of
                        None \<Rightarrow> (Inl ErrAuthenticationFailed, c1)
                      | Some salt \<Rightarrow> if salt = [] then (Inl ErrAuthenticationFailed, c1) else (Inr (version, salt), c1))))"

text \<open>How an error of a command is reported: MFA and the end of the context as such, everything else as a failed login.\<close>

definition login_error :: "bool \<Rightarrow> mega_error \<Rightarrow> mega_error" where
  "login_error ended e = (if e = ErrMFAUnsupported then e else if ended then ErrContext else ErrAuthenticationFailed)"

definition login_keys :: "login_env \<Rightarrow> int \<Rightarrow> bytes \<Rightarrow> string \<Rightarrow> string \<Rightarrow> (bytes \<times> string) option" where
  "login_keys le version salt email password =
     (if version = 1 then
        (let passkey = legacyPasswordKey (le_E le) password in
         case legacyStringHash (le_E le) email passkey of Inl e \<Rightarrow> None | Inr h \<Rightarrow> Some (passkey, h))
      else
        (let derived = le_pbkdf2 le (text_bytes password) salt in Some (take 16 derived, encode_raw url_alphabet (drop 16 derived))))"

definition login_response :: "login_env \<Rightarrow> bytes \<Rightarrow> json list \<Rightarrow> mega_error + string" where
  "login_response le passkey result =
     (case firstObject result of
        Inl e \<Rightarrow> Inl ErrAuthenticationFailed
      | Inr response \<Rightarrow>
          (let encodedMasterKey = stringValue (map_of response ''k''); encodedPrivateKey = stringValue (map_of response ''privk'');
               encodedSession = stringValue (map_of response ''csid'') in
           if encodedMasterKey = [] \<or> encodedPrivateKey = [] \<or> encodedSession = [] then Inl ErrAuthenticationFailed
           else case le_b64 le encodedMasterKey of
             None \<Rightarrow> Inl ErrAuthenticationFailed
           | Some masterKey \<Rightarrow>
               if length masterKey \<noteq> 16 then Inl ErrAuthenticationFailed
               else if \<not> aes_key_ok passkey then Inl ErrAuthenticationFailed
               else case decryptAccountSessionID (le_D le) (le_b64 le) encodedPrivateKey encodedSession (le_D le passkey masterKey) of
                 Inl e \<Rightarrow> Inl ErrAuthenticationFailed
               | Inr sessionID \<Rightarrow> if sessionID = [] then Inl ErrAuthenticationFailed else Inr sessionID))"

definition LoginAccountContext :: "login_env \<Rightarrow> string \<Rightarrow> string \<Rightarrow> client \<Rightarrow> (mega_error + string) \<times> client" where
  "LoginAccountContext le rawEmail password c =
     (let email = le_lower le (trim_space rawEmail) in
      if email = [] \<or> password = [] then (Inl ErrAuthenticationFailed, c)
      else case prelogin le email c of
        (Inl e, c1) \<Rightarrow> (Inl (login_error (le_ended le 0) e), c1)
      | (Inr (version, salt), c1) \<Rightarrow>
          (case login_keys le version salt email password of
             None \<Rightarrow> (Inl ErrAuthenticationFailed, c1)
           | Some (passkey, userHandle) \<Rightarrow>
               if userHandle = [] then (Inl ErrAuthenticationFailed, c1)
               else if version = 2 \<and> le_sessionKey le = None then (Inl ErrAuthenticationFailed, c1)
               else
                 (let sek = (if version = 2 then [(''sek'', JString (encode_raw url_alphabet (the (le_sessionKey le))))] else []);
                      login = JObject ([(''a'', JString ''us''), (''user'', JString email), (''uh'', JString userHandle)] @ sek) in
                  case le_cmd le 0 [login] [] c1 of
                    (Inl e, c2) \<Rightarrow> (Inl (login_error (le_ended le 1) e), c2)
                  | (Inr result, c2) \<Rightarrow> (login_response le passkey result, c2))))"

definition ValidateSession :: "commander \<Rightarrow> client \<Rightarrow> (mega_error + AccountHealth) \<times> client" where
  "ValidateSession cmd c =
     (if cl_session c = [] then (Inl ErrSessionRejected, c)
      else case cmd [JObject [(''a'', JString ''uq''), (''xfer'', JNumber ''1''), (''strg'', JNumber ''1'')]] [] c of
        (Inl e, c1) \<Rightarrow> (Inl e, c1)
      | (Inr result, c1) \<Rightarrow>
          (case firstObject result of
             Inl e \<Rightarrow> (Inl e, c1)
           | Inr o1 \<Rightarrow>
               (Inr \<lparr>StorageBytes = (case uintValue (map_of o1 ''mstrg'') of Some n \<Rightarrow> n | None \<Rightarrow> 0),
                     UsedBytes = (case uintValue (map_of o1 ''cstrg'') of Some n \<Rightarrow> n | None \<Rightarrow> 0)\<rparr>, c1)))"

text \<open>The requests a call sent are returned beside its result: those of the client itself and those of the session-bound clients it made.\<close>

definition sent_since :: "client \<Rightarrow> client \<Rightarrow> api_request list" where
  "sent_since c c' = drop (length (cl_sent c)) (cl_sent c')"

definition LoginAndValidate :: "login_env \<Rightarrow> string \<Rightarrow> string \<Rightarrow> client \<Rightarrow> (mega_error + AccountSession) \<times> api_request list" where
  "LoginAndValidate le email password c =
     (case LoginAccountContext le email password c of
        (Inl e, c1) \<Rightarrow> (Inl e, sent_since c c1)
      | (Inr sessionID, c1) \<Rightarrow>
          (case ValidateSession (le_cmd le 2) (WithSession sessionID c1) of
             (Inl e, c2) \<Rightarrow> (Inl (if le_ended le 2 then ErrContext else ErrAuthenticationFailed), sent_since c c1 @ cl_sent c2)
           | (Inr health, c2) \<Rightarrow>
               (Inr \<lparr>as_SessionID = sessionID, as_Health = health, as_Restored = False, as_Reauthenticated = True\<rparr>, sent_since c c1 @ cl_sent c2)))"

text \<open>\<^verbatim>\<open>APIError.Is\<close>: the code -15 is a rejected session.\<close>

definition rejects_session :: "mega_error \<Rightarrow> bool" where
  "rejects_session e \<longleftrightarrow> e = ErrSessionRejected \<or> e = APIError (- 15)"

definition EnsureSession :: "login_env \<Rightarrow> string \<Rightarrow> string \<Rightarrow> string \<Rightarrow> client \<Rightarrow> (mega_error + AccountSession) \<times> api_request list" where
  "EnsureSession le email storedSession password c =
     (let (v, sent1) = (if storedSession = [] then (Inl ErrSessionRejected, [])
                        else let (v, c1) = ValidateSession (le_cmd le 1) (WithSession storedSession c) in (v, cl_sent c1)) in
      case v of
        Inr health \<Rightarrow> (Inr \<lparr>as_SessionID = storedSession, as_Health = health, as_Restored = True, as_Reauthenticated = False\<rparr>, sent1)
      | Inl e \<Rightarrow>
          if storedSession \<noteq> [] \<and> le_ended le 3 then (Inl ErrContext, sent1)
          else if storedSession \<noteq> [] \<and> \<not> rejects_session e then (Inl e, sent1)
          else if password = [] then (Inl ErrReauthRequired, sent1)
          else let (r, sent2) = LoginAndValidate le email password c in (r, sent1 @ sent2))"

section \<open>The table of accounts\<close>

text \<open>A missing blob reads as the empty one.\<close>

record account_row =
  acc_ID :: string
  acc_Label :: string
  acc_Email :: string
  acc_Credential :: bytes
  acc_Session :: bytes
  acc_Status :: string
  acc_Default :: bool
  acc_LastCheckedAt :: "int option"
  acc_CreatedAt :: int
  acc_UpdatedAt :: int

record account_input =
  ai_ID :: string
  ai_Label :: string
  ai_Email :: string
  ai_Credential :: bytes
  ai_Session :: bytes
  ai_Status :: string
  ai_Default :: bool

definition GetMegaAccount :: "bool \<Rightarrow> string \<Rightarrow> account_row list \<Rightarrow> store_error + account_row" where
  "GetMegaAccount flt k rows =
     (if flt then Inl ErrSQL else case find_row acc_ID k rows of None \<Rightarrow> Inl ErrNotFoundRow | Some r \<Rightarrow> Inr r)"

definition MegaAccountSecrets :: "bool \<Rightarrow> string \<Rightarrow> account_row list \<Rightarrow> store_error + bytes \<times> bytes" where
  "MegaAccountSecrets flt k rows =
     (if flt then Inl ErrSQL
      else case find_row acc_ID k rows of None \<Rightarrow> Inl ErrNotFoundRow | Some r \<Rightarrow> Inr (acc_Credential r, acc_Session r))"

text \<open>A transaction over the table: all of it or nothing.\<close>

definition account_tx :: "store_error + 'r list \<Rightarrow> bool \<Rightarrow> 'r list \<Rightarrow> store_error option \<times> 'r list" where
  "account_tx result commit_ok rows =
     (case result of Inl e \<Rightarrow> (Some e, rows) | Inr rows' \<Rightarrow> if commit_ok then (None, rows') else (Some ErrSQL, rows))"

definition clear_default :: "account_row list \<Rightarrow> account_row list" where
  "clear_default rows = map (\<lambda>r. r\<lparr>acc_Default := False\<rparr>) rows"

definition new_account :: "string \<Rightarrow> account_input \<Rightarrow> int \<Rightarrow> account_row" where
  "new_account k i when =
     \<lparr>acc_ID = k, acc_Label = ai_Label i, acc_Email = ai_Email i, acc_Credential = ai_Credential i, acc_Session = ai_Session i,
      acc_Status = (if ai_Status i = [] then ''unknown'' else ai_Status i), acc_Default = ai_Default i, acc_LastCheckedAt = None,
      acc_CreatedAt = when, acc_UpdatedAt = when\<rparr>"

definition InsertMegaAccount ::
  "string option \<Rightarrow> faults \<Rightarrow> bool \<Rightarrow> int \<Rightarrow> account_input \<Rightarrow> int \<Rightarrow> account_row list \<Rightarrow> (store_error + account_row) \<times> account_row list" where
  "InsertMegaAccount newID flt commit_ok clock i now rows =
     (case (if ai_ID i = [] then newID else Some (ai_ID i)) of
        None \<Rightarrow> (Inl ErrInput, rows)
      | Some k \<Rightarrow>
          if ai_Label i = [] \<or> ai_Email i = [] \<or> ai_Credential i = [] \<and> ai_Session i = [] then (Inl ErrInput, rows)
          else
            (let row = new_account k i (norm_time clock now);
                 inserted = (\<lambda>base. if flt 1 \<or> k \<in> acc_ID ` set base then Inl ErrSQL else Inr (base @ [row])) in
             case (if ai_Default i then account_tx (if flt 0 then Inl ErrSQL else inserted (clear_default rows)) commit_ok rows
                   else account_tx (inserted rows) True rows) of
               (Some e, rows1) \<Rightarrow> (Inl e, rows1)
             | (None, rows1) \<Rightarrow> (GetMegaAccount (flt 2) k rows1, rows1)))"

definition UpdateMegaAccount ::
  "faults \<Rightarrow> bool \<Rightarrow> int \<Rightarrow> string \<Rightarrow> string \<Rightarrow> string \<Rightarrow> bytes \<Rightarrow> bytes \<Rightarrow> string \<Rightarrow> bool \<Rightarrow> int \<Rightarrow> account_row list
     \<Rightarrow> store_error option \<times> account_row list" where
  "UpdateMegaAccount flt commit_ok clock k label email credential session status def now rows =
     account_tx
       (if def \<and> flt 0 then Inl ErrSQL
        else let base = (if def then clear_default rows else rows) in
          if flt 1 then Inl ErrSQL
          else if affected acc_ID k base \<noteq> 1 then Inl ErrNotFoundRow
          else Inr (update_rows acc_ID k (\<lambda>r. r\<lparr>acc_Label := label, acc_Email := email,
                      acc_Credential := (if credential = [] then acc_Credential r else credential),
                      acc_Session := (if session = [] then acc_Session r else session),
                      acc_Status := status, acc_Default := def, acc_UpdatedAt := norm_time clock now\<rparr>) base))
       commit_ok rows"

definition MarkMegaAccountChecked :: "bool \<Rightarrow> int \<Rightarrow> string \<Rightarrow> string \<Rightarrow> int \<Rightarrow> account_row list \<Rightarrow> store_error option \<times> account_row list" where
  "MarkMegaAccountChecked flt clock k status now rows =
     (if flt then (Some ErrSQL, rows)
      else let rows1 = update_rows acc_ID k (\<lambda>r. r\<lparr>acc_Status := status, acc_LastCheckedAt := Some (norm_time clock now), acc_UpdatedAt := norm_time clock now\<rparr>) rows in
        if affected acc_ID k rows \<noteq> 1 then (Some ErrNotFoundRow, rows1) else (None, rows1))"

definition ReplaceMegaAccountSession ::
  "bool \<Rightarrow> bool \<Rightarrow> int \<Rightarrow> string \<Rightarrow> bytes \<Rightarrow> string \<Rightarrow> int \<Rightarrow> account_row list \<Rightarrow> store_error option \<times> account_row list" where
  "ReplaceMegaAccountSession flt commit_ok clock k session status now rows =
     account_tx
       (if flt then Inl ErrSQL
        else if affected acc_ID k rows \<noteq> 1 then Inl ErrNotFoundRow
        else Inr (update_rows acc_ID k (\<lambda>r. r\<lparr>acc_Session := session, acc_Status := status,
                    acc_LastCheckedAt := Some (norm_time clock now), acc_UpdatedAt := norm_time clock now\<rparr>) rows))
       commit_ok rows"

datatype delete_error = ErrRecordInUse | DeleteFailed store_error

definition DeleteMegaAccount :: "faults \<Rightarrow> bool \<Rightarrow> string \<Rightarrow> job_row list \<Rightarrow> account_row list \<Rightarrow> delete_error option \<times> account_row list" where
  "DeleteMegaAccount flt commit_ok k job_rows rows =
     (if flt 0 then (Some (DeleteFailed ErrSQL), rows)
      else if length (filter (\<lambda>j. AccountID j = k) job_rows) \<noteq> 0 then (Some ErrRecordInUse, rows)
      else if flt 1 then (Some (DeleteFailed ErrSQL), rows)
      else if affected acc_ID k rows \<noteq> 1 then (Some (DeleteFailed ErrNotFoundRow), rows)
      else if \<not> commit_ok then (Some (DeleteFailed ErrSQL), rows)
      else (None, filter (\<lambda>r. acc_ID r \<noteq> k) rows))"

section \<open>The lifecycle\<close>

record life_env =
  lf_login :: login_env
  lf_Encrypt :: "string \<Rightarrow> bytes option"
  lf_Decrypt :: "bytes \<Rightarrow> string option"
  lf_now :: int
  lf_faults :: faults
  lf_commit_ok :: bool

datatype life_error = LifeMega mega_error | LifeStore store_error | LifeProtect | LifePersist

definition stored_secret :: "life_env \<Rightarrow> bytes \<Rightarrow> string" where
  "stored_secret lf ciphertext = (if ciphertext = [] then [] else case lf_Decrypt lf ciphertext of Some s \<Rightarrow> s | None \<Rightarrow> [])"

text \<open>Storing the outcome of a successful authentication.\<close>

definition store_session :: "life_env \<Rightarrow> string \<Rightarrow> AccountSession \<Rightarrow> account_row list \<Rightarrow> life_error option \<times> account_row list" where
  "store_session lf k result rows =
     (if as_Reauthenticated result then
        (case lf_Encrypt lf (as_SessionID result) of
           None \<Rightarrow> (Some LifeProtect, rows)
         | Some encrypted \<Rightarrow>
             (case ReplaceMegaAccountSession (lf_faults lf 3) (lf_commit_ok lf) (lf_now lf) k encrypted ''active'' (lf_now lf) rows of
                (Some e, rows1) \<Rightarrow> (Some LifePersist, rows1)
              | (None, rows1) \<Rightarrow> (None, rows1)))
      else
        (case MarkMegaAccountChecked (lf_faults lf 3) (lf_now lf) k ''active'' (lf_now lf) rows of
           (Some e, rows1) \<Rightarrow> (Some (LifeStore e), rows1)
         | (None, rows1) \<Rightarrow> (None, rows1)))"

definition ClientFor :: "life_env \<Rightarrow> string \<Rightarrow> client \<Rightarrow> account_row list \<Rightarrow> (life_error + client) \<times> account_row list \<times> api_request list" where
  "ClientFor lf k c rows =
     (case GetMegaAccount (lf_faults lf 0) k rows of
        Inl e \<Rightarrow> (Inl (LifeStore e), rows, [])
      | Inr account \<Rightarrow>
          (case MegaAccountSecrets (lf_faults lf 1) k rows of
             Inl e \<Rightarrow> (Inl (LifeStore e), rows, [])
           | Inr (credential, session) \<Rightarrow>
               (case EnsureSession (lf_login lf) (acc_Email account) (stored_secret lf session) (stored_secret lf credential) c of
                  (Inl e, sent) \<Rightarrow>
                    if e = ErrReauthRequired
                    then (Inl (LifeMega e), snd (ReplaceMegaAccountSession (lf_faults lf 2) (lf_commit_ok lf) (lf_now lf) k [] ''requires_auth'' (lf_now lf) rows), sent)
                    else (Inl (LifeMega e), rows, sent)
                | (Inr result, sent) \<Rightarrow>
                    (case store_session lf k result rows of
                       (Some e, rows1) \<Rightarrow> (Inl e, rows1, sent)
                     | (None, rows1) \<Rightarrow> (Inr (WithSession (as_SessionID result) c), rows1, sent)))))"

definition Test :: "life_env \<Rightarrow> string \<Rightarrow> client \<Rightarrow> account_row list \<Rightarrow> (life_error + AccountHealth) \<times> account_row list \<times> api_request list" where
  "Test lf k c rows =
     (case GetMegaAccount (lf_faults lf 0) k rows of
        Inl e \<Rightarrow> (Inl (LifeStore e), rows, [])
      | Inr account \<Rightarrow>
          (case MegaAccountSecrets (lf_faults lf 1) k rows of
             Inl e \<Rightarrow> (Inl (LifeStore e), rows, [])
           | Inr (credential, session) \<Rightarrow>
               (case EnsureSession (lf_login lf) (acc_Email account) (stored_secret lf session) (stored_secret lf credential) c of
                  (Inl e, sent) \<Rightarrow>
                    if e = ErrReauthRequired
                    then (Inl (LifeMega e), snd (ReplaceMegaAccountSession (lf_faults lf 2) (lf_commit_ok lf) (lf_now lf) k [] ''requires_auth'' (lf_now lf) rows), sent)
                    else (Inl (LifeMega e), snd (MarkMegaAccountChecked (lf_faults lf 2) (lf_now lf) k ''error'' (lf_now lf) rows), sent)
                | (Inr result, sent) \<Rightarrow>
                    (case store_session lf k result rows of
                       (Some e, rows1) \<Rightarrow> (Inl e, rows1, sent)
                     | (None, rows1) \<Rightarrow> (Inr (as_Health result), rows1, sent)))))"

section \<open>What is sent\<close>

definition rq_action :: "api_request \<Rightarrow> string" where
  "rq_action q = (case rq_payload q of [JObject o1] \<Rightarrow> stringValue (map_of o1 ''a'') | _ \<Rightarrow> [])"

text \<open>One command: one or two requests of this action under this session.\<close>

definition exchange_of :: "string \<Rightarrow> string \<Rightarrow> api_request list \<Rightarrow> bool" where
  "exchange_of act session qs \<longleftrightarrow> length qs \<le> 2 \<and> (\<forall>q\<in>set qs. rq_action q = act \<and> rq_session q = session)"

lemma exchange_of_Nil [simp]: "exchange_of act session []"
  by (simp add: exchange_of_def)

text \<open>The interface to the API: each of the clients an account operation uses has a command port.\<close>

locale account_port =
  fixes cmds :: "nat \<Rightarrow> commander"
  assumes ports: "command_port (cmds k)"
begin

lemma command_sends:
  assumes "cmds k [JObject o1] folder c = (r, c')"
  shows "\<exists>new. cl_sent c' = cl_sent c @ new \<and> new \<noteq> [] \<and> exchange_of (stringValue (map_of o1 ''a'')) (cl_session c) new"
proof -
  obtain new where "cl_sent c' = cl_sent c @ new" "1 \<le> length new" "length new \<le> 2"
    "\<forall>q\<in>set new. rq_session q = cl_session c \<and> rq_folder q = folder \<and> rq_payload q = [JObject o1]"
    using command_port.sends [OF ports assms] by blast
  then show ?thesis by (intro exI [of _ new]) (auto simp: exchange_of_def rq_action_def)
qed

lemma command_session: "cmds k payload folder c = (r, c') \<Longrightarrow> cl_session c' = cl_session c"
  by (rule command_port.keeps_session [OF ports])

lemma prelogin_sends:
  assumes "prelogin le email c = (r, c')" and "le_cmd le = cmds"
  shows "cl_session c' = cl_session c \<and> (\<exists>new. cl_sent c' = cl_sent c @ new \<and> exchange_of ''us0'' (cl_session c) new)"
proof -
  let ?o = "[(''a'', JString ''us0''), (''user'', JString email)]"
  obtain x c1 where x: "cmds 0 [JObject ?o] [] c = (x, c1)" by (rule prod.exhaust)
  then have "c' = c1" using assms by (auto simp: prelogin_def Let_def split: sum.splits option.splits if_splits)
  then show ?thesis using command_sends [OF x] command_session [OF x] by (auto simp: stringValue_def)
qed

lemma login_sends:
  assumes "LoginAccountContext le email password c = (r, c')" and "le_cmd le = cmds"
  shows "\<exists>new1 new2. cl_sent c' = cl_sent c @ new1 @ new2 \<and> exchange_of ''us0'' (cl_session c) new1 \<and> exchange_of ''us'' (cl_session c) new2"
proof (cases "c' = c")
  case True
  then show ?thesis by (intro exI [of _ "[]"]) simp
next
  case False
  let ?mail = "le_lower le (trim_space email)"
  obtain x c1 where x: "prelogin le ?mail c = (x, c1)" by (rule prod.exhaust)
  obtain new1 where p: "cl_session c1 = cl_session c" "cl_sent c1 = cl_sent c @ new1" "exchange_of ''us0'' (cl_session c) new1"
    using prelogin_sends [OF x assms(2)] by blast
  consider "c' = c1" | o1 y where "cmds 0 [JObject o1] [] c1 = (y, c')" "map_of o1 ''a'' = Some (JString ''us'')"
    using assms x False by (fastforce simp: LoginAccountContext_def Let_def split: if_splits sum.splits option.splits prod.splits)
  then show ?thesis
  proof cases
    case 1
    then show ?thesis using p by (intro exI [of _ new1] exI [of _ "[]"]) simp
  next
    case (2 o1 y)
    obtain new2 where "cl_sent c' = cl_sent c1 @ new2" "exchange_of ''us'' (cl_session c) new2"
      using command_sends [OF 2(1)] 2(2) p(1) by (auto simp: stringValue_def)
    then show ?thesis using p by (intro exI [of _ new1] exI [of _ new2]) simp
  qed
qed

lemma validate_sends:
  assumes "ValidateSession (cmds k) (WithSession s c) = (r, c')"
  shows "exchange_of ''uq'' s (cl_sent c') \<and> (is_ok r \<longrightarrow> cl_sent c' \<noteq> [] \<and> s \<noteq> [])"
proof (cases "s = []")
  case True
  then show ?thesis using assms by (auto simp: ValidateSession_def WithSession_def)
next
  case False
  let ?o = "[(''a'', JString ''uq''), (''xfer'', JNumber ''1''), (''strg'', JNumber ''1'')]"
  obtain x c1 where x: "cmds k [JObject ?o] [] (WithSession s c) = (x, c1)" by (rule prod.exhaust)
  then have "c' = c1" using assms False by (auto simp: ValidateSession_def WithSession_def split: sum.splits)
  then show ?thesis using command_sends [OF x] False by (auto simp: stringValue_def WithSession_def)
qed

lemma login_validate_sends:
  assumes "LoginAndValidate le email password c = (r, sent)" and "le_cmd le = cmds"
  shows "\<exists>a b v s. sent = a @ b @ v \<and> exchange_of ''us0'' (cl_session c) a \<and> exchange_of ''us'' (cl_session c) b \<and> exchange_of ''uq'' s v \<and>
    (\<forall>res. r = Inr res \<longrightarrow> s \<noteq> [] \<and> as_SessionID res = s \<and> as_Reauthenticated res \<and> is_ok (fst (ValidateSession (cmds 2) (WithSession s c))))"
proof -
  obtain x c1 where x: "LoginAccountContext le email password c = (x, c1)" by (rule prod.exhaust)
  obtain a b where ab: "sent_since c c1 = a @ b" "exchange_of ''us0'' (cl_session c) a" "exchange_of ''us'' (cl_session c) b"
    using login_sends [OF x assms(2)] by (auto simp: sent_since_def)
  show ?thesis
  proof (cases x)
    case (Inl e)
    then show ?thesis using assms(1) x ab by (intro exI [of _ a] exI [of _ b] exI [of _ "[]"]) (auto simp: LoginAndValidate_def)
  next
    case (Inr s)
    obtain y c2 where y: "ValidateSession (cmds 2) (WithSession s c1) = (y, c2)" by (rule prod.exhaust)
    have same: "WithSession s c1 = WithSession s c" by (simp add: WithSession_def)
    show ?thesis using assms x Inr y ab validate_sends [OF y]
      by (intro exI [of _ a] exI [of _ b] exI [of _ "cl_sent c2"] exI [of _ s]) (auto simp: LoginAndValidate_def same split: sum.splits)
  qed
qed

lemma ensure_sends:
  assumes "EnsureSession le email stored password c = (r, sent)" and "le_cmd le = cmds"
  shows "\<exists>u a b v s. sent = u @ a @ b @ v \<and> exchange_of ''uq'' stored u \<and> exchange_of ''us0'' (cl_session c) a \<and> exchange_of ''us'' (cl_session c) b \<and>
    exchange_of ''uq'' s v \<and>
    (a @ b @ v \<noteq> [] \<longrightarrow> password \<noteq> [] \<and>
       (stored = [] \<or> (\<exists>e. fst (ValidateSession (cmds 1) (WithSession stored c)) = Inl e \<and> rejects_session e)))"
proof -
  define vc where "vc = ValidateSession (cmds 1) (WithSession stored c)"
  define u where "u = (if stored = [] then [] else cl_sent (snd vc))"
  have u: "exchange_of ''uq'' stored u" using validate_sends [of 1 stored c "fst vc" "snd vc"] by (simp add: u_def vc_def)
  show ?thesis
  proof (cases "password \<noteq> [] \<and> (stored = [] \<or> \<not> le_ended le 3 \<and> (\<exists>e. fst vc = Inl e \<and> rejects_session e))")
    case True
    obtain x sent2 where x: "LoginAndValidate le email password c = (x, sent2)" by (rule prod.exhaust)
    have "sent = u @ sent2" using assms True x
      by (auto simp: EnsureSession_def Let_def u_def vc_def split: prod.splits)
    then show ?thesis using True u login_validate_sends [OF x assms(2)] by (fastforce simp: vc_def)
  next
    case False
    then have "sent = u" using assms
      by (auto simp: EnsureSession_def Let_def u_def vc_def split: prod.splits sum.splits if_splits)
    then show ?thesis using u by (intro exI [of _ u] exI [of _ "[]"]) auto
  qed
qed

lemma ensure_ok:
  assumes "EnsureSession le email stored password c = (Inr res, sent)" and "le_cmd le = cmds"
  shows "as_SessionID res \<noteq> [] \<and> (\<exists>n. is_ok (fst (ValidateSession (cmds n) (WithSession (as_SessionID res) c)))) \<and>
    (as_Reauthenticated res \<or> as_SessionID res = stored)"
proof (cases "stored \<noteq> [] \<and> is_ok (fst (ValidateSession (cmds 1) (WithSession stored c)))")
  case True
  obtain h c1 where "ValidateSession (cmds 1) (WithSession stored c) = (Inr h, c1)"
    using True by (cases "ValidateSession (cmds 1) (WithSession stored c)") (auto elim: is_okE)
  then have "as_SessionID res = stored" using assms True by (auto simp: EnsureSession_def)
  then show ?thesis using True by auto
next
  case False
  obtain x c1 where v: "ValidateSession (cmds 1) (WithSession stored c) = (x, c1)" by (rule prod.exhaust)
  have "stored = [] \<or> (\<exists>e. x = Inl e)" using False v by (cases x) auto
  then obtain sent2 where "LoginAndValidate le email password c = (Inr res, sent2)"
    using assms v by (auto simp: EnsureSession_def Let_def split: prod.splits if_splits)
  then show ?thesis using login_validate_sends [of le email password c "Inr res" sent2] assms(2) by blast
qed

text \<open>Only a missing password makes an account ask for authentication, and only when there is no session or it was rejected.\<close>

lemma ensure_reauth:
  assumes "EnsureSession le email stored password c = (Inl ErrReauthRequired, sent)" and "le_cmd le = cmds"
    and "\<And>k payload folder c. fst (cmds k payload folder c) \<noteq> Inl ErrReauthRequired"
  shows "password = [] \<and> (stored = [] \<or> (\<exists>e. fst (ValidateSession (cmds 1) (WithSession stored c)) = Inl e \<and> rejects_session e))"
proof -
  have val: "fst (ValidateSession (cmds k) c0) \<noteq> Inl ErrReauthRequired" for k c0
    using assms(3) by (auto simp: ValidateSession_def firstObject_def split: prod.splits sum.splits list.splits json.splits) (metis fst_conv)
  have resp: "login_response le pk res \<noteq> Inl ErrReauthRequired" for pk res
    by (auto simp: login_response_def Let_def split: sum.splits option.splits)
  have "fst (LoginAccountContext le email password c) \<noteq> Inl ErrReauthRequired"
    using resp by (auto simp: LoginAccountContext_def login_error_def Let_def split: prod.splits sum.splits option.splits)
  then have login: "fst (LoginAndValidate le email password c) \<noteq> Inl ErrReauthRequired"
    by (auto simp: LoginAndValidate_def split: prod.splits sum.splits)
  obtain x c1 where v: "ValidateSession (cmds 1) (WithSession stored c) = (x, c1)" by (rule prod.exhaust)
  have "x \<noteq> Inl ErrReauthRequired" using val [of 1 "WithSession stored c"] v by simp
  then show ?thesis using assms(1,2) v login
    by (auto simp: EnsureSession_def Let_def split: prod.splits sum.splits if_splits)
qed

end

interpretation acc: account_port "\<lambda>k. command b64 solve (nets k)" for b64 solve nets
  by unfold_locales (rule api.sends, assumption, rule api.keeps_session, assumption)

lemma command_no_reauth:
  assumes "\<And>ch. solve ch \<noteq> Inl ErrReauthRequired"
  shows "fst (command b64 solve net payload folder c) \<noteq> Inl ErrReauthRequired"
proof -
  have "fst (command_loop b64 solve net payload folder allow n ch c) \<noteq> Inl ErrReauthRequired" for allow n ch c
    using assms by (induction n arbitrary: ch c) (auto simp: Let_def split: exchange.splits option.splits sum.splits list.splits)
  then show ?thesis by (simp add: command_def doCommand_def)
qed

section \<open>The table keeps its shape\<close>

text \<open>Rows have distinct identifiers and at most one is the default for downloads.\<close>

definition table_ok :: "('r \<Rightarrow> string) \<Rightarrow> ('r \<Rightarrow> bool) \<Rightarrow> 'r list \<Rightarrow> bool" where
  "table_ok key is_default rows \<longleftrightarrow> distinct (map key rows) \<and> length (filter is_default rows) \<le> 1"

lemma filter_update_le:
  assumes "distinct (map key rows)" and "filter P rows = []"
  shows "length (filter P (update_rows key k f rows)) \<le> 1"
  using assms
proof (induction rows)
  case (Cons r rows)
  have rest: "key r = k \<Longrightarrow> update_rows key k f rows = rows" using Cons.prems(1) by (induction rows) (auto simp: update_rows_def)
  show ?case
  proof (cases "key r = k")
    case True
    then show ?thesis using Cons.prems(2) rest by (simp add: update_rows_def split: if_splits)
  next
    case False
    then show ?thesis using Cons by (simp add: update_rows_def split: if_splits)
  qed
qed (simp add: update_rows_def)

lemma filter_update_same:
  assumes "\<And>r. key r = k \<Longrightarrow> P (f r) \<longrightarrow> P r"
  shows "length (filter P (update_rows key k f rows)) \<le> length (filter P rows)"
  using assms by (induction rows) (auto simp: update_rows_def intro: le_SucI)

text \<open>A table with a default row: whoever makes a row the default clears the flag everywhere first.\<close>

locale default_table =
  fixes key :: "'r \<Rightarrow> string" and is_default :: "'r \<Rightarrow> bool" and clear :: "'r \<Rightarrow> 'r"
  assumes clear_key [simp]: "key (clear r) = key r" and cleared [simp]: "\<not> is_default (clear r)"
begin

lemma key_clear [simp]: "key \<circ> clear = key"
  by (simp add: comp_def)

lemma clear_rows: "map key (map clear rows) = map key rows" "filter is_default (map clear rows) = []"
  by (simp_all add: filter_map filter_False)

lemma clear_ids: "key ` set (map clear rows) = key ` set rows"
  by (simp add: image_image)

lemma insert_keeps:
  assumes "table_ok key is_default rows" and "key r \<notin> key ` set rows" and "is_default r \<longrightarrow> def"
  shows "table_ok key is_default ((if def then map clear rows else rows) @ [r])"
  using assms clear_rows [of rows] clear_ids [of rows] by (auto simp: table_ok_def)

lemma update_other_keeps:
  assumes "table_ok key is_default rows" and "\<And>r. key (f r) = key r" and "\<And>r. is_default (f r) \<longrightarrow> is_default r"
  shows "table_ok key is_default (update_rows key k f rows)"
  using assms filter_update_same [of key k is_default f rows] update_rows_keys [of key f k rows] by (auto simp: table_ok_def)

lemma update_keeps:
  assumes "table_ok key is_default rows" and "\<And>r. key (f r) = key r" and "\<And>r. is_default (f r) = def"
  shows "table_ok key is_default (update_rows key k f (if def then map clear rows else rows))"
proof (cases def)
  case True
  have "distinct (map key (map clear rows))" using assms(1) clear_rows(1) [of rows] by (simp add: table_ok_def)
  then show ?thesis using True filter_update_le [OF _ clear_rows(2), of key rows k f] update_rows_keys [of key f k "map clear rows"] assms(2)
    by (simp add: table_ok_def)
next
  case False
  then show ?thesis using assms by (simp add: update_other_keeps)
qed

lemma delete_keeps: "table_ok key is_default rows \<Longrightarrow> table_ok key is_default (filter (\<lambda>r. key r \<noteq> k) rows)"
  using length_filter_le [of "\<lambda>r. key r \<noteq> k" "filter is_default rows"]
  by (auto simp: table_ok_def distinct_map inj_on_def filter_filter conj_commute)

end

interpretation acct: default_table acc_ID acc_Default "\<lambda>r. r\<lparr>acc_Default := False\<rparr>"
  by unfold_locales simp_all

abbreviation accounts_ok :: "account_row list \<Rightarrow> bool" where
  "accounts_ok rows \<equiv> table_ok acc_ID acc_Default rows"

lemmas accounts_ok_def = table_ok_def [of acc_ID acc_Default]

lemma clear_default_ids: "acc_ID ` set (clear_default rows) = acc_ID ` set rows"
  unfolding clear_default_def by (rule acct.clear_ids)

lemma insert_account_rows:
  assumes "InsertMegaAccount newID flt ok clock i now rows = (r, rows')"
  obtains "rows' = rows"
  | k t where "k \<notin> acc_ID ` set rows" "rows' = (if ai_Default i then clear_default rows else rows) @ [new_account k i t]"
proof (cases "if ai_ID i = [] then newID else Some (ai_ID i)")
  case None
  then show thesis using assms that(1) by (simp add: InsertMegaAccount_def)
next
  case (Some k)
  let ?t = "norm_time clock now" and ?base = "if ai_Default i then clear_default rows else rows"
  have "rows' = rows \<or> k \<notin> acc_ID ` set rows \<and> rows' = ?base @ [new_account k i ?t]"
    using assms Some unfolding InsertMegaAccount_def account_tx_def Let_def by (simp add: clear_default_ids split: if_splits)
  then show thesis using that(1) that(2) [of k ?t] by blast
qed

lemma insert_account_ok:
  assumes "accounts_ok rows" and "InsertMegaAccount newID flt ok clock i now rows = (r, rows')"
  shows "accounts_ok rows'"
  using assms(2)
proof (cases rule: insert_account_rows)
  case (2 k t)
  then show ?thesis using acct.insert_keeps [OF assms(1), of "new_account k i t" "ai_Default i"]
    by (simp add: new_account_def clear_default_def split: if_splits)
qed (use assms(1) in simp)

lemma update_account_ok:
  assumes "accounts_ok rows" and "UpdateMegaAccount flt ok clock k label email credential session status def now rows = (r, rows')"
  shows "accounts_ok rows'"
proof -
  let ?f = "\<lambda>r. r\<lparr>acc_Label := label, acc_Email := email, acc_Credential := (if credential = [] then acc_Credential r else credential),
    acc_Session := (if session = [] then acc_Session r else session), acc_Status := status, acc_Default := def, acc_UpdatedAt := norm_time clock now\<rparr>"
  have "accounts_ok (update_rows acc_ID k ?f (if def then clear_default rows else rows))"
    unfolding clear_default_def by (rule acct.update_keeps [OF assms(1)]) simp_all
  then show ?thesis using assms by (auto simp: UpdateMegaAccount_def account_tx_def Let_def split: if_splits)
qed

lemma session_change_ok:
  assumes "accounts_ok rows"
  shows "accounts_ok (snd (ReplaceMegaAccountSession flt ok clock k session status now rows))"
    and "accounts_ok (snd (MarkMegaAccountChecked flt clock k status now rows))"
  using assms by (auto simp: ReplaceMegaAccountSession_def MarkMegaAccountChecked_def account_tx_def Let_def intro: acct.update_other_keeps)

lemma delete_account_ok: "accounts_ok rows \<Longrightarrow> accounts_ok (snd (DeleteMegaAccount flt ok k js rows))"
  by (auto simp: DeleteMegaAccount_def acct.delete_keeps)

section \<open>A client for an account\<close>

text \<open>What a session change may do to a row.\<close>

definition same_account :: "account_row \<Rightarrow> account_row \<Rightarrow> bool" where
  "same_account r r' \<longleftrightarrow> acc_ID r' = acc_ID r \<and> acc_Label r' = acc_Label r \<and> acc_Email r' = acc_Email r \<and> acc_Credential r' = acc_Credential r \<and>
     acc_Default r' = acc_Default r \<and> acc_CreatedAt r' = acc_CreatedAt r"

definition row_change :: "string \<Rightarrow> account_row list \<Rightarrow> account_row list \<Rightarrow> bool" where
  "row_change k rows rows' \<longleftrightarrow> list_all2 (\<lambda>r r'. r' = r \<or> acc_ID r = k \<and> same_account r r') rows rows'"

lemma row_change_refl [simp]: "row_change k rows rows"
  by (simp add: row_change_def list_all2_refl)

lemma row_change_update: "(\<And>r. same_account r (f r)) \<Longrightarrow> row_change k rows (update_rows acc_ID k f rows)"
  by (induction rows) (auto simp: row_change_def update_rows_def)

lemma updated_row:
  assumes "r' \<in> set (update_rows key k f rows)" and "key r' = k" and "\<And>r. key (f r) = key r"
  shows "\<exists>r\<in>set rows. key r = k \<and> r' = f r"
proof -
  obtain r where r: "r \<in> set rows" "r' = (if key r = k then f r else r)" using assms(1) by (auto simp: update_rows_def)
  then have "key r = k" using assms(2,3) by (cases "key r = k") auto
  then show ?thesis using r by auto
qed

lemma Replace_cases:
  assumes "ReplaceMegaAccountSession flt ok clock k session status now rows = (r, rows')"
  shows "(\<exists>e. r = Some e) \<and> rows' = rows \<or>
    r = None \<and> row_change k rows rows' \<and> (\<forall>r'\<in>set rows'. acc_ID r' = k \<longrightarrow> acc_Session r' = session \<and> acc_Status r' = status)"
proof -
  let ?f = "\<lambda>r. r\<lparr>acc_Session := session, acc_Status := status, acc_LastCheckedAt := Some (norm_time clock now), acc_UpdatedAt := norm_time clock now\<rparr>"
  have "row_change k rows (update_rows acc_ID k ?f rows)" by (rule row_change_update) (simp add: same_account_def)
  moreover have "\<forall>r'\<in>set (update_rows acc_ID k ?f rows). acc_ID r' = k \<longrightarrow> acc_Session r' = session \<and> acc_Status r' = status"
  proof (intro ballI impI)
    fix r'
    assume a: "r' \<in> set (update_rows acc_ID k ?f rows)" "acc_ID r' = k"
    obtain r where "r' = ?f r" using updated_row [OF a] by auto
    then show "acc_Session r' = session \<and> acc_Status r' = status" by simp
  qed
  moreover have "r \<noteq> None \<and> rows' = rows \<or> r = None \<and> rows' = update_rows acc_ID k ?f rows"
    using assms unfolding ReplaceMegaAccountSession_def account_tx_def by (simp split: if_splits) blast+
  ultimately show ?thesis by blast
qed

lemma Mark_cases:
  assumes "MarkMegaAccountChecked flt clock k status now rows = (r, rows')" and "affected acc_ID k rows = 1"
  shows "(\<exists>e. r = Some e) \<and> rows' = rows \<or>
    r = None \<and> row_change k rows rows' \<and>
      (\<forall>r'\<in>set rows'. acc_ID r' = k \<longrightarrow> acc_Status r' = status \<and> (\<exists>r\<in>set rows. acc_ID r = k \<and> acc_Session r' = acc_Session r))"
proof -
  let ?f = "\<lambda>r. r\<lparr>acc_Status := status, acc_LastCheckedAt := Some (norm_time clock now), acc_UpdatedAt := norm_time clock now\<rparr>"
  have "row_change k rows (update_rows acc_ID k ?f rows)" by (rule row_change_update) (simp add: same_account_def)
  moreover have "\<forall>r'\<in>set (update_rows acc_ID k ?f rows). acc_ID r' = k \<longrightarrow> acc_Status r' = status \<and> (\<exists>r\<in>set rows. acc_ID r = k \<and> acc_Session r' = acc_Session r)"
  proof (intro ballI impI)
    fix r'
    assume a: "r' \<in> set (update_rows acc_ID k ?f rows)" "acc_ID r' = k"
    obtain r where "r \<in> set rows" "acc_ID r = k" "r' = ?f r" using updated_row [OF a] by auto
    then show "acc_Status r' = status \<and> (\<exists>r\<in>set rows. acc_ID r = k \<and> acc_Session r' = acc_Session r)" by (intro conjI bexI [of _ r]) simp_all
  qed
  moreover have "r \<noteq> None \<and> rows' = rows \<or> r = None \<and> rows' = update_rows acc_ID k ?f rows"
    using assms unfolding MarkMegaAccountChecked_def Let_def by (simp split: if_splits) blast+
  ultimately show ?thesis by blast
qed

lemma row_change_ids: "row_change k rows rows' \<Longrightarrow> map acc_ID rows' = map acc_ID rows"
  unfolding row_change_def by (induction rule: list_all2_induct) (auto simp: same_account_def)

lemma row_change_mem: "row_change k rows rows' \<Longrightarrow> r \<in> set rows \<Longrightarrow> \<exists>r'\<in>set rows'. acc_ID r' = acc_ID r"
  by (metis (no_types, lifting) image_iff list.set_map row_change_ids)

lemma row_change_ok:
  assumes "accounts_ok rows" and "row_change k rows rows'"
  shows "accounts_ok rows'"
proof -
  have same: "map acc_Default rows' = map acc_Default rows"
    using assms(2) unfolding row_change_def by (induction rule: list_all2_induct) (auto simp: same_account_def)
  have "length (filter acc_Default xs) = length (filter id (map acc_Default xs))" for xs by (induction xs) auto
  then have "length (filter acc_Default rows') = length (filter acc_Default rows)" by (metis same)
  then show ?thesis using assms row_change_ids [OF assms(2)] by (simp add: accounts_ok_def)
qed

lemma store_session_cases:
  assumes "store_session lf k res rows = (e, rows')" and "affected acc_ID k rows = 1"
  shows "(\<exists>x. e = Some x \<and> x \<noteq> LifeMega ErrReauthRequired) \<and> rows' = rows \<or>
    e = None \<and> row_change k rows rows' \<and>
      (\<forall>r'\<in>set rows'. acc_ID r' = k \<longrightarrow> acc_Status r' = ''active'' \<and>
         (as_Reauthenticated res \<and> lf_Encrypt lf (as_SessionID res) = Some (acc_Session r') \<or>
          \<not> as_Reauthenticated res \<and> (\<exists>r\<in>set rows. acc_ID r = k \<and> acc_Session r' = acc_Session r)))"
proof (cases "as_Reauthenticated res")
  case True
  show ?thesis
  proof (cases "lf_Encrypt lf (as_SessionID res)")
    case None
    then show ?thesis using assms True by (auto simp: store_session_def)
  next
    case (Some enc)
    obtain x rows1 where x: "ReplaceMegaAccountSession (lf_faults lf 3) (lf_commit_ok lf) (lf_now lf) k enc ''active'' (lf_now lf) rows = (x, rows1)" by (rule prod.exhaust)
    then have "(e, rows') = (case x of None \<Rightarrow> (None, rows1) | Some _ \<Rightarrow> (Some LifePersist, rows1))"
      using assms(1) True Some by (simp add: store_session_def split: option.splits)
    then show ?thesis using Replace_cases [OF x] True Some by (cases x) auto
  qed
next
  case False
  obtain x rows1 where x: "MarkMegaAccountChecked (lf_faults lf 3) (lf_now lf) k ''active'' (lf_now lf) rows = (x, rows1)" by (rule prod.exhaust)
  then have "(e, rows') = (case x of None \<Rightarrow> (None, rows1) | Some y \<Rightarrow> (Some (LifeStore y), rows1))"
    using assms(1) False by (simp add: store_session_def split: option.splits)
  then show ?thesis using Mark_cases [OF x assms(2)] False by (cases x) auto
qed

text \<open>The two outcomes of a lookup, and the way of \<^verbatim>\<open>ClientFor\<close> after it.\<close>

lemma ClientFor_cases:
  assumes "ClientFor lf k c rows = (r, rows', sent)"
  obtains e where "r = Inl (LifeStore e)" "rows' = rows" "sent = []"
  | row x where "find_row acc_ID k rows = Some row"
      "EnsureSession (lf_login lf) (acc_Email row) (stored_secret lf (acc_Session row)) (stored_secret lf (acc_Credential row)) c = (x, sent)"
      "(r, rows') = (case x of
         Inl e \<Rightarrow> (Inl (LifeMega e), if e = ErrReauthRequired then snd (ReplaceMegaAccountSession (lf_faults lf 2) (lf_commit_ok lf) (lf_now lf) k [] ''requires_auth'' (lf_now lf) rows) else rows)
       | Inr res \<Rightarrow> (case store_session lf k res rows of (Some e, rows1) \<Rightarrow> (Inl e, rows1) | (None, rows1) \<Rightarrow> (Inr (WithSession (as_SessionID res) c), rows1)))"
proof (cases "\<not> lf_faults lf 0 \<and> \<not> lf_faults lf 1 \<and> find_row acc_ID k rows \<noteq> None")
  case False
  then show thesis using assms that(1) by (auto simp: ClientFor_def GetMegaAccount_def MegaAccountSecrets_def split: option.splits if_splits)
next
  case True
  then obtain row where row: "find_row acc_ID k rows = Some row" by blast
  obtain x s where x: "EnsureSession (lf_login lf) (acc_Email row) (stored_secret lf (acc_Session row)) (stored_secret lf (acc_Credential row)) c = (x, s)"
    by (rule prod.exhaust)
  show thesis using that(2) [OF row] assms True row x
    by (auto simp: ClientFor_def GetMegaAccount_def MegaAccountSecrets_def split: sum.splits option.splits prod.splits if_splits)
qed

text \<open>The stored session cannot be used: there is none, it is unreadable, or MEGA rejects it.\<close>

definition session_unusable :: "life_env \<Rightarrow> client \<Rightarrow> account_row \<Rightarrow> bool" where
  "session_unusable lf c row \<longleftrightarrow>
     (let stored = stored_secret lf (acc_Session row) in
      stored = [] \<or> (\<exists>e. fst (ValidateSession (le_cmd (lf_login lf) 1) (WithSession stored c)) = Inl e \<and> rejects_session e))"

context account_port
begin

lemma client_sent:
  assumes "ClientFor lf k c rows = (r, rows', sent)" and "le_cmd (lf_login lf) = cmds"
  shows "length sent \<le> 8 \<and> length (filter (\<lambda>q. rq_action q = ''us'') sent) \<le> 2 \<and>
    ((\<exists>q\<in>set sent. rq_action q = ''us'') \<longrightarrow>
       (\<exists>row\<in>set rows. acc_ID row = k \<and> stored_secret lf (acc_Credential row) \<noteq> [] \<and> session_unusable lf c row))"
  using assms(1)
proof (cases rule: ClientFor_cases)
  case (2 row x)
  have row: "row \<in> set rows" "acc_ID row = k" using find_row_SomeD [OF 2(1)] by auto
  obtain u a b v s where sent: "sent = u @ a @ b @ v" "exchange_of ''uq'' (stored_secret lf (acc_Session row)) u" "exchange_of ''us0'' (cl_session c) a"
      "exchange_of ''us'' (cl_session c) b" "exchange_of ''uq'' s v"
    and need: "a @ b @ v \<noteq> [] \<Longrightarrow> stored_secret lf (acc_Credential row) \<noteq> [] \<and> session_unusable lf c row"
    using ensure_sends [OF 2(2) assms(2)] assms(2) unfolding session_unusable_def Let_def by blast
  have "length sent \<le> 8" using sent by (simp add: exchange_of_def)
  moreover have "filter (\<lambda>q. rq_action q = ''us'') sent = filter (\<lambda>q. rq_action q = ''us'') b" using sent by (auto simp: exchange_of_def filter_empty_conv)
  then have "length (filter (\<lambda>q. rq_action q = ''us'') sent) \<le> 2"
    using sent(4) length_filter_le [of "\<lambda>q. rq_action q = ''us''" b] by (simp add: exchange_of_def)
  moreover have "b \<noteq> []" if "\<exists>q\<in>set sent. rq_action q = ''us''" using that sent by (auto simp: exchange_of_def)
  ultimately show ?thesis using need row by blast
qed simp

lemma client_ok:
  assumes "ClientFor lf k c rows = (Inr c', rows', sent)" and "le_cmd (lf_login lf) = cmds" and "accounts_ok rows"
  shows "row_change k rows rows' \<and> cl_session c' \<noteq> [] \<and> (\<exists>n. is_ok (fst (ValidateSession (cmds n) c'))) \<and>
    (\<exists>row'\<in>set rows'. acc_ID row' = k \<and> acc_Status row' = ''active'' \<and>
       (lf_Encrypt lf (cl_session c') = Some (acc_Session row') \<or> stored_secret lf (acc_Session row') = cl_session c'))"
  using assms(1)
proof (cases rule: ClientFor_cases)
  case (2 row x)
  have row: "row \<in> set rows" "acc_ID row = k" using find_row_SomeD [OF 2(1)] by auto
  have one: "affected acc_ID k rows = 1" using affected_distinct [of acc_ID rows k] row assms(3) by (auto simp: accounts_ok_def)
  obtain res where x: "x = Inr res" and st: "store_session lf k res rows = (None, rows')" and c': "c' = WithSession (as_SessionID res) c"
    using 2(3) by (auto split: sum.splits option.splits prod.splits)
  note res = ensure_ok [OF 2(2) [unfolded x] assms(2)]
  have ch: "row_change k rows rows'" and act: "\<And>r'. r' \<in> set rows' \<Longrightarrow> acc_ID r' = k \<Longrightarrow> acc_Status r' = ''active'' \<and>
      (as_Reauthenticated res \<and> lf_Encrypt lf (as_SessionID res) = Some (acc_Session r') \<or>
       \<not> as_Reauthenticated res \<and> (\<exists>r\<in>set rows. acc_ID r = k \<and> acc_Session r' = acc_Session r))"
    using store_session_cases [OF st one] by auto
  obtain row' where row': "row' \<in> set rows'" "acc_ID row' = k" using row_change_mem [OF ch row(1)] row(2) by auto
  have "r0 = row" if "r0 \<in> set rows" "acc_ID r0 = k" for r0
    using that row assms(3) by (auto simp: accounts_ok_def distinct_map dest: inj_onD)
  then have "lf_Encrypt lf (as_SessionID res) = Some (acc_Session row') \<or> stored_secret lf (acc_Session row') = as_SessionID res"
    using act [OF row'] res by auto
  then show ?thesis using row' act [OF row'] res ch c' by (auto simp: WithSession_def)
qed simp

lemma client_reauth:
  assumes "ClientFor lf k c rows = (Inl (LifeMega ErrReauthRequired), rows', sent)" and "le_cmd (lf_login lf) = cmds" and "accounts_ok rows"
    and "\<And>k payload folder c. fst (cmds k payload folder c) \<noteq> Inl ErrReauthRequired"
  shows "row_change k rows rows' \<and>
    (\<exists>row\<in>set rows. acc_ID row = k \<and> stored_secret lf (acc_Credential row) = [] \<and> session_unusable lf c row) \<and>
    (rows' = rows \<or> (\<exists>row'\<in>set rows'. acc_ID row' = k \<and> acc_Session row' = [] \<and> acc_Status row' = ''requires_auth''))"
  using assms(1)
proof (cases rule: ClientFor_cases)
  case (2 row x)
  have row: "row \<in> set rows" "acc_ID row = k" using find_row_SomeD [OF 2(1)] by auto
  have one: "affected acc_ID k rows = 1" using affected_distinct [of acc_ID rows k] row assms(3) by (auto simp: accounts_ok_def)
  obtain z rows1 where z: "ReplaceMegaAccountSession (lf_faults lf 2) (lf_commit_ok lf) (lf_now lf) k [] ''requires_auth'' (lf_now lf) rows = (z, rows1)" by (rule prod.exhaust)
  have x: "x = Inl ErrReauthRequired" "rows' = rows1"
  proof -
    have "\<not> (\<exists>res rows2. x = Inr res \<and> store_session lf k res rows = (Some (LifeMega ErrReauthRequired), rows2))"
      using store_session_cases [OF _ one] by blast
    then show "x = Inl ErrReauthRequired" "rows' = rows1" using 2(3) z by (auto split: sum.splits option.splits prod.splits if_splits)
  qed
  have ch: "row_change k rows rows'" using Replace_cases [OF z] x(2) by auto
  obtain row' where row': "row' \<in> set rows'" "acc_ID row' = k" using row_change_mem [OF ch row(1)] row(2) by auto
  have "rows' = rows \<or> acc_Session row' = [] \<and> acc_Status row' = ''requires_auth''" using Replace_cases [OF z] x(2) row' by auto
  moreover have "stored_secret lf (acc_Credential row) = [] \<and> session_unusable lf c row"
    using ensure_reauth [OF 2(2) [unfolded x(1)] assms(2,4)] assms(2) by (auto simp: session_unusable_def Let_def)
  ultimately show ?thesis using ch row row' by blast
qed simp

lemma client_error:
  assumes "ClientFor lf k c rows = (Inl e, rows', sent)" and "accounts_ok rows" and "e \<noteq> LifeMega ErrReauthRequired"
  shows "rows' = rows"
  using assms(1)
proof (cases rule: ClientFor_cases)
  case (2 row x)
  have "acc_ID row = k" "row \<in> set rows" using find_row_SomeD [OF 2(1)] by auto
  then have one: "affected acc_ID k rows = 1" using affected_distinct [of acc_ID rows k] assms(2) by (auto simp: accounts_ok_def)
  show ?thesis
  proof (cases x)
    case (Inr res)
    then obtain rows1 where "store_session lf k res rows = (Some e, rows1)" "rows' = rows1" using 2(3) by (auto split: option.splits prod.splits)
    then show ?thesis using store_session_cases [OF _ one] by blast
  qed (use 2(3) assms(3) in auto)
qed

end

text \<open>
  C17. Getting a client for an account is bounded and honest. At most eight requests are sent, of which at most two carry a login (the second
  one answers a proof-of-work challenge), and a login is only sent when a password is stored and the stored session is missing, unreadable or
  rejected by MEGA. No account but the one asked for changes, and of that one neither label, email, credential nor default. A client that is
  returned is bound to a session that MEGA has just accepted; the account is then active, with its old session or with the new one encrypted.
  The account asks for authentication only without a readable password and with no usable session, which is then cleared unless the
  statement fails. On every other error the table is unchanged.
\<close>

theorem account_client_sound:
  assumes "ClientFor lf k c rows = (r, rows', sent)" and "le_cmd (lf_login lf) = (\<lambda>n. command b64 solve (nets n))"
    and "\<And>ch. solve ch \<noteq> Inl ErrReauthRequired" and "accounts_ok rows"
  shows "length sent \<le> 8 \<and> length (filter (\<lambda>q. rq_action q = ''us'') sent) \<le> 2 \<and> accounts_ok rows' \<and> row_change k rows rows' \<and>
    ((\<exists>q\<in>set sent. rq_action q = ''us'') \<longrightarrow>
       (\<exists>row\<in>set rows. acc_ID row = k \<and> stored_secret lf (acc_Credential row) \<noteq> [] \<and> session_unusable lf c row)) \<and>
    (\<forall>c'. r = Inr c' \<longrightarrow> cl_session c' \<noteq> [] \<and> (\<exists>n. is_ok (fst (ValidateSession (command b64 solve (nets n)) c'))) \<and>
       (\<exists>row'\<in>set rows'. acc_ID row' = k \<and> acc_Status row' = ''active'' \<and>
          (lf_Encrypt lf (cl_session c') = Some (acc_Session row') \<or> stored_secret lf (acc_Session row') = cl_session c'))) \<and>
    (r = Inl (LifeMega ErrReauthRequired) \<longrightarrow>
       (\<exists>row\<in>set rows. acc_ID row = k \<and> stored_secret lf (acc_Credential row) = [] \<and> session_unusable lf c row) \<and>
       (rows' = rows \<or> (\<exists>row'\<in>set rows'. acc_ID row' = k \<and> acc_Session row' = [] \<and> acc_Status row' = ''requires_auth''))) \<and>
    (\<forall>e. r = Inl e \<and> e \<noteq> LifeMega ErrReauthRequired \<longrightarrow> rows' = rows)"
proof -
  note sent = acc.client_sent [OF assms(1,2)] and ok = acc.client_ok [OF _ assms(2,4)]
    and reauth = acc.client_reauth [OF _ assms(2,4) command_no_reauth [OF assms(3)]] and other = acc.client_error [OF _ assms(4)]
  have "row_change k rows rows'"
  proof (cases r)
    case (Inl e)
    then show ?thesis using reauth other assms(1) by (cases "e = LifeMega ErrReauthRequired") (blast, metis row_change_refl)
  qed (use ok assms(1) in blast)
  then show ?thesis using sent ok reauth other assms(1) row_change_ok [OF assms(4)] by (intro conjI allI impI) blast+
qed

definition sample_account :: account_row where
  "sample_account = \<lparr>acc_ID = ''a'', acc_Label = ''l'', acc_Email = ''m'', acc_Credential = [1], acc_Session = [2], acc_Status = ''unknown'', acc_Default = True,
     acc_LastCheckedAt = None, acc_CreatedAt = 1, acc_UpdatedAt = 1\<rparr>"

definition sample_port :: "nat \<Rightarrow> commander" where
  "sample_port n = command (\<lambda>_. None) (\<lambda>_. Inl ErrHashcash) (\<lambda>_. Answer 200 [] (Some [JObject []]) True)"

definition sample_life :: life_env where
  "sample_life = \<lparr>lf_login = \<lparr>le_E = (\<lambda>k b. b), le_D = (\<lambda>k b. b), le_b64 = (\<lambda>_. None), le_pbkdf2 = (\<lambda>p s. p), le_lower = id, le_sessionKey = None,
     le_cmd = sample_port, le_ended = (\<lambda>_. False)\<rparr>, lf_Encrypt = (\<lambda>s. Some (text_bytes s)), lf_Decrypt = (\<lambda>b. Some ''sid''), lf_now = 5,
     lf_faults = (\<lambda>_. False), lf_commit_ok = True\<rparr>"

theorem account_client_sound_witness:
  "\<exists>c' rows' sent. ClientFor sample_life ''a'' (WithSession [] \<lparr>cl_session = [], cl_sequence = 0, cl_sent = []\<rparr>) [sample_account] = (Inr c', rows', sent) \<and>
     cl_session c' = ''sid'' \<and> length sent \<le> 8 \<and> map acc_Status rows' = [''active'']"
proof -
  define c0 where "c0 = WithSession [] \<lparr>cl_session = [], cl_sequence = 0, cl_sent = []\<rparr>"
  have v: "fst (ValidateSession (sample_port 1) (WithSession ''sid'' c0)) = Inr \<lparr>StorageBytes = 0, UsedBytes = 0\<rparr>"
    by (simp add: ValidateSession_def sample_port_def command_def doCommand_def WithSession_def numeral_2_eq_2 Let_def numberValue_def firstObject_def uintValue_def)
  obtain r rows' sent where r: "ClientFor sample_life ''a'' c0 [sample_account] = (r, rows', sent)" by (rule prod_cases3)
  have f: "find_row acc_ID ''a'' [sample_account] = Some sample_account" by (simp add: find_row_def sample_account_def)
  have e: "fst (EnsureSession (lf_login sample_life) (acc_Email sample_account) ''sid'' ''sid'' c0) =
      Inr \<lparr>as_SessionID = ''sid'', as_Health = \<lparr>StorageBytes = 0, UsedBytes = 0\<rparr>, as_Restored = True, as_Reauthenticated = False\<rparr>"
    using v by (auto simp: EnsureSession_def sample_life_def split: prod.splits)
  then obtain q where q: "EnsureSession (lf_login sample_life) (acc_Email sample_account) ''sid'' ''sid'' c0 =
      (Inr \<lparr>as_SessionID = ''sid'', as_Health = \<lparr>StorageBytes = 0, UsedBytes = 0\<rparr>, as_Restored = True, as_Reauthenticated = False\<rparr>, q)"
    by (metis prod.collapse)
  have secrets: "stored_secret sample_life (acc_Session sample_account) = ''sid''" "stored_secret sample_life (acc_Credential sample_account) = ''sid''"
    by (simp_all add: stored_secret_def sample_account_def sample_life_def)
  have faults: "lf_faults sample_life n = False" "lf_commit_ok sample_life" "lf_now sample_life = 5" for n by (simp_all add: sample_life_def)
  have st: "fst (store_session sample_life ''a'' \<lparr>as_SessionID = ''sid'', as_Health = h, as_Restored = True, as_Reauthenticated = False\<rparr> [sample_account]) = None"
    "map acc_Status (snd (store_session sample_life ''a'' \<lparr>as_SessionID = ''sid'', as_Health = h, as_Restored = True, as_Reauthenticated = False\<rparr> [sample_account])) = [''active'']" for h
    by (simp_all add: store_session_def MarkMegaAccountChecked_def faults affected_def update_rows_def sample_account_def)
  have ok: "r = Inr (WithSession ''sid'' c0) \<and> map acc_Status rows' = [''active'']"
    using r q st [of "\<lparr>StorageBytes = 0, UsedBytes = 0\<rparr>"]
    by (auto simp: ClientFor_def GetMegaAccount_def MegaAccountSecrets_def f faults secrets split: option.splits prod.splits)
  have s: "le_cmd (lf_login sample_life) = (\<lambda>n. command (\<lambda>_. None) (\<lambda>_. Inl ErrHashcash) ((\<lambda>n _. Answer 200 [] (Some [JObject []]) True) n))"
    by (simp add: sample_life_def sample_port_def fun_eq_iff)
  have "length sent \<le> 8" using account_client_sound [OF r s _ _] by (simp add: accounts_ok_def)
  then show ?thesis using r ok unfolding c0_def by (auto simp: WithSession_def)
qed

section \<open>The table in every state\<close>

lemma store_session_ok: "accounts_ok rows \<Longrightarrow> accounts_ok (snd (store_session lf k res rows))"
  using session_change_ok [of rows]
  by (auto simp: store_session_def split: option.splits prod.splits) (metis snd_conv)+

text \<open>The operations on accounts, with the jobs that exist at that moment.\<close>

inductive account_step :: "account_row list \<Rightarrow> account_row list \<Rightarrow> bool" where
  "InsertMegaAccount newID flt ok clock i now rows = (r, rows') \<Longrightarrow> account_step rows rows'"
| "UpdateMegaAccount flt ok clock k label email credential session status def now rows = (e, rows') \<Longrightarrow> account_step rows rows'"
| "DeleteMegaAccount flt ok k js rows = (d, rows') \<Longrightarrow> account_step rows rows'"
| "ClientFor lf k c rows = (x, rows', sent) \<Longrightarrow> account_step rows rows'"
| "Test lf k c rows = (y, rows', sent) \<Longrightarrow> account_step rows rows'"

lemma ClientFor_ok:
  assumes "ClientFor lf k c rows = (r, rows', sent)" and "accounts_ok rows"
  shows "accounts_ok rows'"
  using assms(1)
proof (cases rule: ClientFor_cases)
  case (2 row x)
  then show ?thesis using assms(2) store_session_ok [OF assms(2)] session_change_ok(1) [OF assms(2)]
    by (auto split: sum.splits option.splits prod.splits if_splits) (metis snd_conv)+
qed (use assms(2) in simp)

lemma Test_ok: "Test lf k c rows = (r, rows', sent) \<Longrightarrow> accounts_ok rows \<Longrightarrow> accounts_ok rows'"
  using store_session_ok [of rows] session_change_ok [of rows]
  by (auto simp: Test_def split: sum.splits option.splits prod.splits if_splits) (metis snd_conv)+

lemma account_step_ok: "account_step rows rows' \<Longrightarrow> accounts_ok rows \<Longrightarrow> accounts_ok rows'"
proof (induction rule: account_step.induct)
  case (3 flt ok k js rows d rows')
  then show ?case using delete_account_ok [of rows flt ok k js] by simp
qed (auto intro: insert_account_ok update_account_ok ClientFor_ok Test_ok)

text \<open>
  C40. Under every sequence of inserting, updating, deleting, using and testing accounts, with failing statements and any answers of MEGA, accounts
  have distinct identifiers and at most one of them is the default for downloads; an account that a job uses is not deleted.
\<close>

theorem account_table_invariant:
  assumes "account_step\<^sup>*\<^sup>* [] rows"
  shows "distinct (map acc_ID rows) \<and> length (filter acc_Default rows) \<le> 1 \<and>
    (\<forall>j\<in>set js. AccountID j = k \<longrightarrow> fst (DeleteMegaAccount flt ok k js rows) \<noteq> None \<and> snd (DeleteMegaAccount flt ok k js rows) = rows)"
proof -
  have "accounts_ok rows" using assms
  proof (induction rule: rtranclp_induct)
    case base
    then show ?case by (simp add: accounts_ok_def)
  next
    case (step rows1 rows2)
    show ?case by (rule account_step_ok [OF step.hyps(2) step.IH])
  qed
  moreover have "filter (\<lambda>j. AccountID j = k) js \<noteq> []" if "j \<in> set js" "AccountID j = k" for j
    using that by (auto simp: filter_empty_conv)
  ultimately show ?thesis by (auto simp: accounts_ok_def DeleteMegaAccount_def)
qed

theorem account_table_invariant_witness:
  "\<exists>rows. account_step\<^sup>*\<^sup>* [] rows \<and> map acc_ID rows = [''a'', ''b''] \<and> length (filter acc_Default rows) \<le> 1"
proof -
  define i where "i = \<lparr>ai_ID = [], ai_Label = ''l'', ai_Email = ''m'', ai_Credential = [1], ai_Session = [], ai_Status = [], ai_Default = True\<rparr>"
  define ins where "ins k rows = snd (InsertMegaAccount (Some k) (\<lambda>_. False) True 1 i 1 rows)" for k rows
  have step: "account_step rows (ins k rows)" for k rows unfolding ins_def by (rule account_step.intros(1) [OF prod.collapse [symmetric]])
  have r: "account_step\<^sup>*\<^sup>* [] (ins ''b'' (ins ''a'' []))" by (rule rtranclp.rtrancl_into_rtrancl [where r = account_step, OF r_into_rtranclp [where r = account_step] step]) (rule step)
  have "map acc_ID (ins ''b'' (ins ''a'' [])) = [''a'', ''b'']"
    by (simp add: ins_def i_def InsertMegaAccount_def account_tx_def clear_default_def new_account_def Let_def)
  then show ?thesis using r conjunct1 [OF conjunct2 [OF account_table_invariant [OF r]]] by (intro exI conjI)
qed

end
