(* ===== verification/Socks.thy ===== *)
theory Socks
  imports GoText
begin

text \<open>
  The SOCKS5 client (\<^verbatim>\<open>dialSOCKS5\<close> of \<^verbatim>\<open>internal/network/transport.go\<close>) over a connection whose bytes and failures are arguments, with the
  parts of package \<^verbatim>\<open>net\<close> that join and split addresses.
\<close>

section \<open>Addresses\<close>

definition JoinHostPort :: "string \<Rightarrow> string \<Rightarrow> string" where
  "JoinHostPort host port = (if CHR '':'' \<in> set host then ''['' @ host @ '']:'' @ port else host @ '':'' @ port)"

definition index_of :: "char \<Rightarrow> string \<Rightarrow> nat option" where
  "index_of c s = (if c \<in> set s then Some (length (takeWhile (\<lambda>x. x \<noteq> c) s)) else None)"

definition last_index_of :: "char \<Rightarrow> string \<Rightarrow> nat option" where
  "last_index_of c s = (if c \<in> set s then Some (length s - 1 - length (takeWhile (\<lambda>x. x \<noteq> c) (rev s))) else None)"

text \<open>\<^verbatim>\<open>net.SplitHostPort\<close>: the host between brackets, or without a colon.\<close>

definition SplitHostPort :: "string \<Rightarrow> (string \<times> string) option" where
  "SplitHostPort hostport =
     (case last_index_of CHR '':'' hostport of
        None \<Rightarrow> None
      | Some i \<Rightarrow>
          (case (if hd hostport = CHR ''['' then
                   (case index_of CHR '']'' hostport of
                      None \<Rightarrow> None
                    | Some end1 \<Rightarrow> if end1 + 1 = i then Some (take (end1 - 1) (drop 1 hostport), 1, end1 + 1) else None)
                 else if CHR '':'' \<in> set (take i hostport) then None
                 else Some (take i hostport, 0, 0)) of
             None \<Rightarrow> None
           | Some (host, j, k) \<Rightarrow>
               if CHR ''['' \<in> set (drop j hostport) then None
               else if CHR '']'' \<in> set (drop k hostport) then None
               else Some (host, drop (i + 1) hostport)))"

lemma takeWhile_upto: "c \<notin> set a \<Longrightarrow> takeWhile (\<lambda>x. x \<noteq> c) (a @ c # b) = a"
  by (induction a) auto

lemma index_of_append: "c \<notin> set a \<Longrightarrow> index_of c (a @ c # b) = Some (length a)"
  by (simp add: index_of_def takeWhile_upto)

lemma last_index_of_append: "c \<notin> set b \<Longrightarrow> last_index_of c (a @ c # b) = Some (length a)"
  by (simp add: last_index_of_def takeWhile_upto)

lemma split_join_host_port:
  assumes "CHR ''['' \<notin> set host" and "CHR '']'' \<notin> set host" and "set port \<inter> {CHR '':'', CHR ''['', CHR '']''} = {}"
  shows "SplitHostPort (JoinHostPort host port) = Some (host, port)"
proof (cases "CHR '':'' \<in> set host")
  case True
  have l: "last_index_of CHR '':'' ((''['' @ host @ '']'') @ CHR '':'' # port) = Some (length host + 2)"
    using assms(3) by (subst last_index_of_append) auto
  have i: "index_of CHR '']'' ((CHR ''['' # host) @ CHR '']'' # CHR '':'' # port) = Some (length host + 1)"
    using assms(2) by (subst index_of_append) auto
  show ?thesis using True assms l i by (auto simp: SplitHostPort_def JoinHostPort_def)
next
  case False
  have l: "last_index_of CHR '':'' (host @ CHR '':'' # port) = Some (length host)"
    using assms(3) by (subst last_index_of_append) auto
  have h: "hd (host @ CHR '':'' # port) \<noteq> CHR ''[''" using assms(1) by (cases host) auto
  show ?thesis using False assms l h by (auto simp: SplitHostPort_def JoinHostPort_def)
qed

section \<open>The SOCKS5 handshake\<close>

text \<open>
  A connection: what the proxy will send, what was sent to it message by message, and whether it was closed. A failing call of
  \<^verbatim>\<open>Write\<close> still sends some bytes.
\<close>

record conn =
  c_in :: bytes
  c_out :: "bytes list"
  c_closed :: bool

datatype socks_error = DialFailed | IOFailed | BadVersion | AuthRequired | CredentialsTooLong | AuthFailed | MethodRejected
  | BadTarget | BadPort | HostTooLong | ConnectFailed byte | BadAddressType

definition conn_Write :: "nat option \<Rightarrow> bytes \<Rightarrow> conn \<Rightarrow> bool \<times> conn" where
  "conn_Write flt data c =
     (case flt of None \<Rightarrow> (True, c\<lparr>c_out := c_out c @ [data]\<rparr>) | Some n \<Rightarrow> (False, c\<lparr>c_out := c_out c @ [take n data]\<rparr>))"

definition ReadFull :: "nat \<Rightarrow> conn \<Rightarrow> bytes option \<times> conn" where
  "ReadFull n c = (if length (c_in c) < n then (None, c\<lparr>c_in := []\<rparr>) else (Some (take n (c_in c)), c\<lparr>c_in := drop n (c_in c)\<rparr>))"

definition socks_hello :: "(nat \<Rightarrow> nat option) \<Rightarrow> string \<Rightarrow> conn \<Rightarrow> (socks_error + byte) \<times> conn" where
  "socks_hello flt username c =
     (case conn_Write (flt 0) [5, 1, if username \<noteq> [] then 2 else 0] c of
        (False, c1) \<Rightarrow> (Inl IOFailed, c1)
      | (True, c1) \<Rightarrow>
          (case ReadFull 2 c1 of
             (None, c2) \<Rightarrow> (Inl IOFailed, c2)
           | (Some reply, c2) \<Rightarrow> if reply ! 0 \<noteq> 5 then (Inl BadVersion, c2) else (Inr (reply ! 1), c2)))"

definition credentials :: "bytes \<Rightarrow> bytes \<Rightarrow> bytes" where
  "credentials ub pb = [1, of_nat (length ub)] @ ub @ [of_nat (length pb)] @ pb"

definition socks_auth :: "(nat \<Rightarrow> nat option) \<Rightarrow> byte \<Rightarrow> string \<Rightarrow> string \<Rightarrow> conn \<Rightarrow> socks_error option \<times> conn" where
  "socks_auth flt method username password c =
     (if method = 2 then
        if username = [] then (Some AuthRequired, c)
        else
          (let ub = text_bytes username; pb = text_bytes password in
           if 255 < length ub \<or> 255 < length pb then (Some CredentialsTooLong, c)
           else case conn_Write (flt 1) (credentials ub pb) c of
             (False, c1) \<Rightarrow> (Some IOFailed, c1)
           | (True, c1) \<Rightarrow>
               (case ReadFull 2 c1 of
                  (None, c2) \<Rightarrow> (Some AuthFailed, c2)
                | (Some reply, c2) \<Rightarrow> if reply ! 1 \<noteq> 0 then (Some AuthFailed, c2) else (None, c2)))
      else if method \<noteq> 0 then (Some MethodRejected, c)
      else (None, c))"

definition connect_request :: "bytes \<Rightarrow> nat \<Rightarrow> bytes" where
  "connect_request target port = [5, 1, 0, 3, of_nat (length target)] @ target @ [of_nat (port div 256), of_nat (port mod 256)]"

definition socks_target :: "string \<Rightarrow> socks_error + bytes" where
  "socks_target targetAddress =
     (case SplitHostPort targetAddress of
        None \<Rightarrow> Inl BadTarget
      | Some (targetHost, targetPortText) \<Rightarrow>
          (case parse_int targetPortText of
             None \<Rightarrow> Inl BadPort
           | Some targetPort \<Rightarrow>
               if targetPort < 0 \<or> 65535 < targetPort then Inl BadPort
               else let target = text_bytes targetHost in
                 if 255 < length target then Inl HostTooLong else Inr (connect_request target (nat targetPort))))"

text \<open>The bound address of the reply is read and discarded.\<close>

definition socks_discard :: "nat \<Rightarrow> conn \<Rightarrow> socks_error option \<times> conn" where
  "socks_discard n c = (case ReadFull (n + 2) c of (None, c1) \<Rightarrow> (Some IOFailed, c1) | (Some _, c1) \<Rightarrow> (None, c1))"

definition socks_reply :: "conn \<Rightarrow> socks_error option \<times> conn" where
  "socks_reply c =
     (case ReadFull 4 c of
        (None, c1) \<Rightarrow> (Some IOFailed, c1)
      | (Some reply, c1) \<Rightarrow>
          if reply ! 0 \<noteq> 5 \<or> reply ! 1 \<noteq> 0 then (Some (ConnectFailed (reply ! 1)), c1)
          else if reply ! 3 = 1 then socks_discard 4 c1
          else if reply ! 3 = 4 then socks_discard 16 c1
          else if reply ! 3 = 3 then
            (case ReadFull 1 c1 of
               (None, c2) \<Rightarrow> (Some IOFailed, c2)
             | (Some one, c2) \<Rightarrow> socks_discard (unat (one ! 0)) c2)
          else (Some BadAddressType, c1))"

definition dialSOCKS5 :: "(nat \<Rightarrow> nat option) \<Rightarrow> conn option \<Rightarrow> string \<Rightarrow> string \<Rightarrow> string \<Rightarrow> socks_error option \<times> conn option" where
  "dialSOCKS5 flt dialed targetAddress username password =
     (case dialed of
        None \<Rightarrow> (Some DialFailed, None)
      | Some c \<Rightarrow>
          (let fail = (\<lambda>e c. (Some e, Some (c\<lparr>c_closed := True\<rparr>))) in
           case socks_hello flt username c of
             (Inl e, c1) \<Rightarrow> fail e c1
           | (Inr method, c1) \<Rightarrow>
               (case socks_auth flt method username password c1 of
                  (Some e, c2) \<Rightarrow> fail e c2
                | (None, c2) \<Rightarrow>
                    (case socks_target targetAddress of
                       Inl e \<Rightarrow> fail e c2
                     | Inr request \<Rightarrow>
                         (case conn_Write (flt 2) request c2 of
                            (False, c3) \<Rightarrow> fail IOFailed c3
                          | (True, c3) \<Rightarrow> (case socks_reply c3 of (Some e, c4) \<Rightarrow> fail e c4 | (None, c4) \<Rightarrow> (None, Some c4)))))))"

text \<open>From one state of the connection to another, these bytes were read and these messages sent.\<close>

definition exchanged :: "conn \<Rightarrow> bytes \<Rightarrow> bytes list \<Rightarrow> conn \<Rightarrow> bool" where
  "exchanged c read sent c' \<longleftrightarrow> c_in c = read @ c_in c' \<and> c_out c' = c_out c @ sent \<and> c_closed c' = c_closed c"

lemma exchanged_trans: "exchanged c r s c1 \<Longrightarrow> exchanged c1 r' s' c2 \<Longrightarrow> exchanged c (r @ r') (s @ s') c2"
  by (simp add: exchanged_def)

lemma exchanged_split:
  assumes "exchanged c (r @ r') (s @ s') c'"
  obtains c1 where "exchanged c r s c1" "exchanged c1 r' s' c'"
  using that [of "c\<lparr>c_in := r' @ c_in c', c_out := c_out c @ s\<rparr>"] assms by (simp add: exchanged_def)

lemma ReadFull_ok: "ReadFull n c = (Some r, c') \<longleftrightarrow> length r = n \<and> exchanged c r [] c'"
proof
  assume "length r = n \<and> exchanged c r [] c'"
  then show "ReadFull n c = (Some r, c')" by (auto simp: ReadFull_def exchanged_def intro: conn.equality)
qed (auto simp: ReadFull_def exchanged_def split: if_splits)

lemma conn_Write_ok: "conn_Write flt data c = (True, c') \<longleftrightarrow> flt = None \<and> exchanged c [] [data] c'"
  by (auto simp: conn_Write_def exchanged_def split: option.splits intro: conn.equality)

text \<open>What each phase reads and sends when it succeeds.\<close>

lemma hello_ok:
  "socks_hello flt username c = (Inr m, c') \<longleftrightarrow> flt 0 = None \<and> exchanged c [5, m] [[5, 1, if username \<noteq> [] then 2 else 0]] c'"
  (is "?l \<longleftrightarrow> ?r")
proof
  assume ?l
  then obtain reply c1 where w: "conn_Write (flt 0) [5, 1, if username \<noteq> [] then 2 else 0] c = (True, c1)" and r: "ReadFull 2 c1 = (Some reply, c')"
    and m: "reply ! 0 = 5" "m = reply ! 1"
    by (auto simp: socks_hello_def split: prod.splits bool.splits option.splits if_splits)
  have "reply = [5, m]" using r m by (cases reply; cases "tl reply") (auto simp: ReadFull_ok)
  then show ?r using w r exchanged_trans [of c "[]" _ c1 "[5, m]" "[]" c'] by (simp add: ReadFull_ok conn_Write_ok)
next
  assume r: ?r
  obtain c1 where "exchanged c [] [[5, 1, if username \<noteq> [] then 2 else 0]] c1" "exchanged c1 [5, m] [] c'"
    using exchanged_split [of c "[]" "[5, m]" "[[5, 1, if username \<noteq> [] then 2 else 0]]" "[]" c'] r by auto
  then have "conn_Write (flt 0) [5, 1, if username \<noteq> [] then 2 else 0] c = (True, c1)" "ReadFull 2 c1 = (Some [5, m], c')"
    using r by (simp_all add: conn_Write_ok ReadFull_ok)
  then show ?l by (simp add: socks_hello_def)
qed

text \<open>The answer to the chosen method.\<close>

definition auth_accepted :: "byte \<Rightarrow> string \<Rightarrow> string \<Rightarrow> bytes \<Rightarrow> bool" where
  "auth_accepted method username password answer \<longleftrightarrow>
     method = 0 \<and> answer = [] \<or>
     method = 2 \<and> username \<noteq> [] \<and> length username \<le> 255 \<and> length password \<le> 255 \<and> length answer = 2 \<and> answer ! 1 = 0"

definition auth_sent :: "byte \<Rightarrow> string \<Rightarrow> string \<Rightarrow> bytes list" where
  "auth_sent method username password = (if method = 2 then [credentials (text_bytes username) (text_bytes password)] else [])"

lemma auth_ok:
  "socks_auth flt m username password c = (None, c') \<longleftrightarrow>
     (m = 2 \<longrightarrow> flt 1 = None) \<and> (\<exists>answer. auth_accepted m username password answer \<and> exchanged c answer (auth_sent m username password) c')"
  (is "?l \<longleftrightarrow> ?r")
proof (cases "m = 2")
  case False
  have "exchanged c [] [] c' \<longleftrightarrow> c' = c" by (auto simp: exchanged_def intro: conn.equality)
  then show ?thesis using False by (auto simp: socks_auth_def auth_accepted_def auth_sent_def)
next
  case True
  let ?data = "credentials (text_bytes username) (text_bytes password)"
  show ?thesis
  proof
    assume ?l
    then obtain answer c1 where a: "conn_Write (flt 1) ?data c = (True, c1)" "ReadFull 2 c1 = (Some answer, c')" "answer ! 1 = 0"
      "username \<noteq> []" "length username \<le> 255" "length password \<le> 255"
      using True by (auto simp: socks_auth_def Let_def text_bytes_def split: prod.splits bool.splits option.splits if_splits)
    then have "exchanged c answer [?data] c'" using exchanged_trans [of c "[]" "[?data]" c1 answer "[]" c'] by (simp add: ReadFull_ok conn_Write_ok)
    then show ?r using True a by (auto simp: ReadFull_ok conn_Write_ok auth_accepted_def auth_sent_def)
  next
    assume ?r
    then obtain answer where a: "flt 1 = None" "auth_accepted 2 username password answer" "exchanged c answer [?data] c'"
      using True by (auto simp: auth_sent_def)
    obtain c1 where "exchanged c [] [?data] c1" "exchanged c1 answer [] c'"
      using exchanged_split [of c "[]" answer "[?data]" "[]" c'] a(3) by auto
    then have "conn_Write (flt 1) ?data c = (True, c1)" "ReadFull 2 c1 = (Some answer, c')"
      using a by (simp_all add: conn_Write_ok ReadFull_ok auth_accepted_def)
    then show ?l using True a by (simp add: socks_auth_def auth_accepted_def text_bytes_def)
  qed
qed

text \<open>A reply that reports success, with an address of one of the three kinds.\<close>

definition connect_accepted :: "bytes \<Rightarrow> bool" where
  "connect_accepted reply \<longleftrightarrow>
     (\<exists>v t address. reply = [5, 0, v, t] @ address \<and>
        (t = 1 \<and> length address = 6 \<or> t = 4 \<and> length address = 18 \<or> t = 3 \<and> address \<noteq> [] \<and> length address = 1 + unat (hd address) + 2))"

lemma discard_ok: "socks_discard n c = (None, c') \<longleftrightarrow> (\<exists>a. length a = n + 2 \<and> exchanged c a [] c')"
proof
  assume "\<exists>a. length a = n + 2 \<and> exchanged c a [] c'"
  then obtain a where "ReadFull (n + 2) c = (Some a, c')" by (auto simp: ReadFull_ok)
  then show "socks_discard n c = (None, c')" by (simp add: socks_discard_def)
next
  assume "socks_discard n c = (None, c')"
  then obtain a where "ReadFull (n + 2) c = (Some a, c')" by (auto simp: socks_discard_def split: prod.splits option.splits)
  then show "\<exists>a. length a = n + 2 \<and> exchanged c a [] c'" by (auto simp: ReadFull_ok)
qed

lemma exchanged_read_iff: "(\<exists>c1. exchanged c a [] c1 \<and> exchanged c1 b [] c') \<longleftrightarrow> exchanged c (a @ b) [] c'"
  by (metis append_Nil exchanged_split exchanged_trans)

lemma reply_ok: "socks_reply c = (None, c') \<longleftrightarrow> (\<exists>reply. connect_accepted reply \<and> exchanged c reply [] c')"
  (is "?l \<longleftrightarrow> ?r")
proof
  assume ?l
  then obtain reply c1 where r: "ReadFull 4 c = (Some reply, c1)" and h: "reply ! 0 = 5" "reply ! 1 = 0"
    by (auto simp: socks_reply_def split: prod.splits option.splits if_splits)
  then have l: "length reply = 4" "exchanged c reply [] c1" by (simp_all add: ReadFull_ok)
  have reply: "reply = [5, 0, reply ! 2, reply ! 3]"
    using l(1) h by (intro nth_equalityI) (auto simp: less_Suc_eq numeral_eq_Suc)
  consider "reply ! 3 = 1" "socks_discard 4 c1 = (None, c')" | "reply ! 3 = 4" "socks_discard 16 c1 = (None, c')"
    | one c2 where "reply ! 3 = 3" "ReadFull 1 c1 = (Some one, c2)" "socks_discard (unat (one ! 0)) c2 = (None, c')"
    using \<open>?l\<close> r h by (auto simp: socks_reply_def split: prod.splits option.splits if_splits)
  then obtain a where a: "exchanged c1 a [] c'"
    "reply ! 3 = 1 \<and> length a = 6 \<or> reply ! 3 = 4 \<and> length a = 18 \<or> reply ! 3 = 3 \<and> a \<noteq> [] \<and> length a = 1 + unat (hd a) + 2"
  proof cases
    case (3 one c2)
    obtain b where "length one = 1" "exchanged c1 one [] c2" "length b = unat (one ! 0) + 2" "exchanged c2 b [] c'"
      using 3 by (auto simp: ReadFull_ok discard_ok)
    then show ?thesis using that [of "one @ b"] 3(1) exchanged_trans [of c1 one "[]" c2 b "[]" c'] by (cases one) auto
  qed (auto simp: discard_ok intro: that)
  then have "connect_accepted (reply @ a)" unfolding connect_accepted_def using reply by (metis (no_types, lifting))
  then show ?r using exchanged_trans [OF l(2) a(1)] by auto
next
  assume ?r
  then obtain v t a where a: "exchanged c ([5, 0, v, t] @ a) [] c'"
    "t = 1 \<and> length a = 6 \<or> t = 4 \<and> length a = 18 \<or> t = 3 \<and> a \<noteq> [] \<and> length a = 1 + unat (hd a) + 2" by (auto simp: connect_accepted_def)
  obtain c1 where c1: "ReadFull 4 c = (Some [5, 0, v, t], c1)" "exchanged c1 a [] c'"
    using a(1) exchanged_read_iff [of c "[5, 0, v, t]" a c'] by (auto simp: ReadFull_ok)
  consider "t = 1" "length a = 6" | "t = 4" "length a = 18" | x b where "t = 3" "a = [x] @ b" "length b = unat x + 2" using a(2) by (cases a) auto
  then show ?l
  proof cases
    case (3 x b)
    obtain c2 where "ReadFull 1 c1 = (Some [x], c2)" "exchanged c2 b [] c'"
      using c1(2) exchanged_read_iff [of c1 "[x]" b c'] 3(2) by (auto simp: ReadFull_ok)
    moreover have "socks_discard (unat x) c2 = (None, c')" using 3(3) calculation(2) by (auto simp: discard_ok)
    ultimately show ?thesis using c1(1) 3(1) by (simp add: socks_reply_def)
  next
    case 1
    then have "socks_discard 4 c1 = (None, c')" using c1(2) by (auto simp: discard_ok)
    then show ?thesis using c1(1) 1(1) by (simp add: socks_reply_def)
  next
    case 2
    then have "socks_discard 16 c1 = (None, c')" using c1(2) by (auto simp: discard_ok)
    then show ?thesis using c1(1) 2(1) by (simp add: socks_reply_def)
  qed
qed

lemma socks_target_join:
  assumes "CHR ''['' \<notin> set host" and "CHR '']'' \<notin> set host" and "length host \<le> 255" and "port \<le> 65535"
  shows "socks_target (JoinHostPort host (digits_of port)) = Inr (connect_request (text_bytes host) port)"
proof -
  have "set (digits_of port) \<inter> {CHR '':'', CHR ''['', CHR '']''} = {}" 
    using set_digits_of [of "CHR '':''" port] set_digits_of [of "CHR ''[''" port] set_digits_of [of "CHR '']''" port] by (auto simp: is_digit_def)
  then have s: "SplitHostPort (JoinHostPort host (digits_of port)) = Some (host, digits_of port)" using assms by (intro split_join_host_port)
  have "parse_int (format_int (int port)) = Some (int port)" using assms(4) by (intro parse_int_format_int) (simp add: is_i64_def)
  then have "parse_int (digits_of port) = Some (int port)" by (simp add: format_int_def)
  then show ?thesis using assms s by (simp add: socks_target_def text_bytes_def)
qed

lemma exchanged_parts:
  "exchanged c (a @ b @ d) (x @ y @ z) c' \<longleftrightarrow>
     (\<exists>c1 c2 c3. exchanged c a x c1 \<and> exchanged c1 b y c2 \<and> exchanged c2 [] z c3 \<and> exchanged c3 d [] c')"
proof
  assume e: "exchanged c (a @ b @ d) (x @ y @ z) c'"
  obtain c1 where 1: "exchanged c a x c1" "exchanged c1 (b @ d) (y @ z) c'" using exchanged_split [OF e] by blast
  obtain c2 where 2: "exchanged c1 b y c2" "exchanged c2 ([] @ d) (z @ []) c'" using exchanged_split [OF 1(2)] by auto
  obtain c3 where "exchanged c2 [] z c3" "exchanged c3 d [] c'" using exchanged_split [OF 2(2)] by blast
  then show "\<exists>c1 c2 c3. exchanged c a x c1 \<and> exchanged c1 b y c2 \<and> exchanged c2 [] z c3 \<and> exchanged c3 d [] c'" using 1(1) 2(1) by blast
qed (auto simp: exchanged_def)

lemma dial_ok:
  assumes "socks_target target = Inr request"
  shows "dialSOCKS5 flt (Some c) target username password = (None, Some c') \<longleftrightarrow>
    (\<exists>m c1 c2 c3. socks_hello flt username c = (Inr m, c1) \<and> socks_auth flt m username password c1 = (None, c2) \<and>
       conn_Write (flt 2) request c2 = (True, c3) \<and> socks_reply c3 = (None, c'))"
  using assms by (auto simp: dialSOCKS5_def Let_def split: prod.splits sum.splits option.splits bool.splits)

text \<open>What may be sent before the outcome is known.\<close>

definition socks_messages :: "conn \<Rightarrow> string \<Rightarrow> string \<Rightarrow> bytes \<Rightarrow> bytes list \<Rightarrow> bool" where
  "socks_messages c username password request sent \<longleftrightarrow>
     (\<forall>m\<in>set sent. (\<exists>n. m = take n [5, 1, if username \<noteq> [] then 2 else 0]) \<or> (\<exists>n. m = take n request) \<or>
        (\<exists>n. m = take n (credentials (text_bytes username) (text_bytes password))) \<and> username \<noteq> [] \<and> take 2 (c_in c) = [5, 2])"

lemma conn_Write_sends: "conn_Write flt data c = (b, c') \<Longrightarrow> c_in c' = c_in c \<and> (\<exists>n. c_out c' = c_out c @ [take n data])"
  by (auto simp: conn_Write_def split: option.splits intro: exI [of _ "length data"])

lemma ReadFull_sends: "ReadFull n c = (r, c') \<Longrightarrow> c_out c' = c_out c"
  by (auto simp: ReadFull_def split: if_splits)

lemma hello_sends:
  assumes "socks_hello flt username c = (r, c1)"
  shows "\<exists>n. c_out c1 = c_out c @ [take n [5, 1, if username \<noteq> [] then 2 else 0]]"
proof -
  let ?hello = "[5, 1, if username \<noteq> [] then 2 else 0]"
  obtain b c0 where w: "conn_Write (flt 0) ?hello c = (b, c0)" by (rule prod.exhaust)
  obtain x c2 where x: "ReadFull 2 c0 = (x, c2)" by (rule prod.exhaust)
  have "c_out c1 = c_out c0" using assms w x ReadFull_sends [OF x] by (auto simp: socks_hello_def split: bool.splits option.splits if_splits)
  then show ?thesis using conn_Write_sends [OF w] by simp
qed

lemma auth_sends:
  assumes "socks_auth flt m username password c = (r, c1)"
  shows "c_out c1 = c_out c \<or> m = 2 \<and> username \<noteq> [] \<and> (\<exists>n. c_out c1 = c_out c @ [take n (credentials (text_bytes username) (text_bytes password))])"
proof -
  let ?data = "credentials (text_bytes username) (text_bytes password)"
  obtain b c0 where w: "conn_Write (flt 1) ?data c = (b, c0)" by (rule prod.exhaust)
  obtain x c2 where x: "ReadFull 2 c0 = (x, c2)" by (rule prod.exhaust)
  have "c1 = c \<or> m = 2 \<and> username \<noteq> [] \<and> c_out c1 = c_out c0"
    using assms w x ReadFull_sends [OF x] by (auto simp: socks_auth_def Let_def split: bool.splits option.splits if_splits)
  then show ?thesis using conn_Write_sends [OF w] by auto
qed

lemma reply_sends:
  assumes "socks_reply c = (r, c1)"
  shows "c_out c1 = c_out c"
proof -
  have "socks_discard n c2 = (x, c3) \<Longrightarrow> c_out c3 = c_out c2" for n c2 x c3
    using ReadFull_sends [of "n + 2" c2] by (auto simp: socks_discard_def split: prod.splits option.splits)
  then show ?thesis using assms ReadFull_sends [of 4 c] ReadFull_sends [of 1]
    unfolding socks_reply_def by (fastforce split: prod.splits option.splits if_splits)
qed

lemma socks_messages_append [simp]:
  "socks_messages c u p q (a @ b) \<longleftrightarrow> socks_messages c u p q a \<and> socks_messages c u p q b"
  by (auto simp: socks_messages_def)

lemma messages_sent:
  "socks_messages c u p q [take n [5, 1, if u \<noteq> [] then 2 else 0]]" "socks_messages c u p q [take n q]"
  "u \<noteq> [] \<Longrightarrow> take 2 (c_in c) = [5, 2] \<Longrightarrow> socks_messages c u p q [take n (credentials (text_bytes u) (text_bytes p))]"
  unfolding socks_messages_def by (simp_all only: list.set ball_simps) blast+

lemma dial_error:
  assumes "dialSOCKS5 flt (Some c) target username password = (Some e, r)" and "socks_target target = Inr request"
  shows "\<exists>c' sent. r = Some c' \<and> c_closed c' \<and> c_out c' = c_out c @ sent \<and> socks_messages c username password request sent"
proof -
  let ?msgs = "socks_messages c username password request"
  obtain h c1 where h: "socks_hello flt username c = (h, c1)" by (rule prod.exhaust)
  obtain s1 where s1: "c_out c1 = c_out c @ s1" "?msgs s1" using hello_sends [OF h] messages_sent(1) by blast
  show ?thesis
  proof (cases h)
    case (Inl x)
    then show ?thesis using assms(1) h s1 by (auto simp: dialSOCKS5_def Let_def)
  next
    case (Inr m)
    have m: "take 2 (c_in c) = [5, m]" using h Inr by (simp add: hello_ok exchanged_def)
    obtain a c2 where a: "socks_auth flt m username password c1 = (a, c2)" by (rule prod.exhaust)
    obtain s2 where s2: "c_out c2 = c_out c @ s2" "?msgs s2"
      using auth_sends [OF a] s1 m messages_sent(3) [of username c password request] socks_messages_append by (metis append_assoc)
    obtain b c3 where b: "conn_Write (flt 2) request c2 = (b, c3)" by (rule prod.exhaust)
    obtain s3 where s3: "c_out c3 = c_out c @ s3" "?msgs s3"
      using conn_Write_sends [OF b] s2 messages_sent(2) [of c username password request] socks_messages_append by (metis append_assoc)
    obtain y c4 where y: "socks_reply c3 = (y, c4)" by (rule prod.exhaust)
    have "(\<exists>c'. r = Some c' \<and> c_closed c' \<and> c_out c' \<in> {c_out c2, c_out c3})"
      using assms h Inr a b y reply_sends [OF y] by (auto simp: dialSOCKS5_def Let_def split: option.splits bool.splits)
    then show ?thesis using s2 s3 by auto
  qed
qed

text \<open>
  C19. The SOCKS5 handshake is exact. For a target of a host name and a port it succeeds exactly when the proxy answers with the version
  and a method it can satisfy, accepts the credentials where it asked for them, and reports success with an address of one of the three kinds;
  then exactly the greeting, the credentials if asked for and the request with this name and port were sent, and precisely the bytes of those answers
  were consumed, so that the next byte read belongs to the target. On every error the connection is closed, and a password was only
  sent to a proxy that asked for it.
\<close>

theorem socks5_dial_exact:
  assumes "CHR ''['' \<notin> set host" and "CHR '']'' \<notin> set host" and "length host \<le> 255" and "port \<le> 65535"
  shows "(dialSOCKS5 flt (Some c) (JoinHostPort host (digits_of port)) username password = (None, Some c') \<longleftrightarrow>
      (\<exists>method answer reply. auth_accepted method username password answer \<and> connect_accepted reply \<and>
         flt 0 = None \<and> (method = 2 \<longrightarrow> flt 1 = None) \<and> flt 2 = None \<and>
         exchanged c ([5, method] @ answer @ reply)
           ([[5, 1, if username \<noteq> [] then 2 else 0]] @ auth_sent method username password @ [connect_request (text_bytes host) port]) c')) \<and>
    (\<forall>e r. dialSOCKS5 flt (Some c) (JoinHostPort host (digits_of port)) username password = (Some e, r) \<longrightarrow>
      (\<exists>c' sent. r = Some c' \<and> c_closed c' \<and> c_out c' = c_out c @ sent \<and>
         socks_messages c username password (connect_request (text_bytes host) port) sent))"
proof -
  note t = socks_target_join [OF assms]
  show ?thesis unfolding dial_ok [OF t] hello_ok auth_ok reply_ok conn_Write_ok exchanged_parts
    using dial_error [OF _ t] by blast
qed

theorem socks5_dial_exact_witness:
  "\<exists>c'. dialSOCKS5 (\<lambda>_. None) (Some \<lparr>c_in = [5, 2, 1, 0, 5, 0, 0, 1, 0, 0, 0, 0, 0, 0, 42], c_out = [], c_closed = False\<rparr>)
     (JoinHostPort ''g'' (digits_of 443)) ''u'' ''p'' = (None, Some c') \<and> c_in c' = [42] \<and> last (c_out c') = [5, 1, 0, 3, 1, 103, 1, 187]"
proof -
  let ?c = "\<lparr>c_in = [5, 2, 1, 0, 5, 0, 0, 1, 0, 0, 0, 0, 0, 0, 42], c_out = [], c_closed = False\<rparr>"
  let ?c' = "\<lparr>c_in = [42], c_out = [[5, 1, 2], [1, 1, 117, 1, 112], [5, 1, 0, 3, 1, 103, 1, 187]], c_closed = False\<rparr>"
  have a: "auth_accepted 2 ''u'' ''p'' [1, 0]" by (simp add: auth_accepted_def)
  have r: "connect_accepted [5, 0, 0, 1, 0, 0, 0, 0, 0, 0]" by (simp add: connect_accepted_def)
  have e: "exchanged ?c ([5, 2] @ [1, 0] @ [5, 0, 0, 1, 0, 0, 0, 0, 0, 0])
      ([[5, 1, if ''u'' \<noteq> [] then 2 else 0]] @ auth_sent 2 ''u'' ''p'' @ [connect_request (text_bytes ''g'') 443]) ?c'"
    by (simp add: exchanged_def auth_sent_def credentials_def connect_request_def text_bytes_def)
  have "dialSOCKS5 (\<lambda>_. None) (Some ?c) (JoinHostPort ''g'' (digits_of 443)) ''u'' ''p'' = (None, Some ?c')"
    by (rule iffD2 [OF conjunct1 [OF socks5_dial_exact]], simp_all only: list.set)
      (simp_all, rule exI [of _ 2], rule exI [of _ "[1, 0]"], use a r e in auto)
  then show ?thesis by auto
qed

end
