(* ===== verification/Proxies.thy ===== *)
theory Proxies
  imports Accounts Socks "HOL-Library.AList"
begin

text \<open>
  Proxies: profiles and the pool of transports (\<^verbatim>\<open>internal/network/transport.go\<close>), the table of profiles (\<^verbatim>\<open>internal/store/proxies.go\<close>), the
  handlers of \<^verbatim>\<open>internal/api/api.go\<close> that edit and use them, and the cached account clients of \<^verbatim>\<open>internal/download/manager.go\<close>. HTTP clients are
  numbered in the order of their creation; \<^verbatim>\<open>url.Parse\<close>, encryption of passwords and failing statements are arguments.
\<close>

section \<open>Profiles and transports\<close>

record ProxyProfile =
  pp_ID :: string
  pp_Name :: string
  pp_Type :: string
  pp_Host :: string
  pp_Port :: int
  pp_Username :: string
  pp_Password :: string
  pp_Timeout :: int
  pp_Enabled :: bool

datatype profile_error = UnsupportedType string | InvalidHostPort | InvalidTimeout | UnparsableAddress

definition profile_Validate :: "ProxyProfile \<Rightarrow> profile_error option" where
  "profile_Validate p =
     (if pp_Type p \<noteq> ''http'' \<and> pp_Type p \<noteq> ''https'' \<and> pp_Type p \<noteq> ''socks5'' then Some (UnsupportedType (pp_Type p))
      else if trim_space (pp_Host p) = [] \<or> pp_Port p < 1 \<or> 65535 < pp_Port p then Some InvalidHostPort
      else if pp_Timeout p \<le> 0 then Some InvalidTimeout
      else None)"

text \<open>Durations are nanoseconds.\<close>

definition go_Second :: int where
  "go_Second = 1000000000"

record TransportConfig =
  ConnectTimeout :: int
  ResponseHeaderTimeout :: int
  MaxConnectionsPerHost :: int

datatype route = DirectRoute | HTTPRoute string "(string \<times> string) option" | SOCKSRoute string int string string int

record http_client =
  h_route :: route
  h_timeout :: int
  h_MaxIdleConns :: int
  h_MaxConnsPerHost :: int
  h_ResponseHeaderTimeout :: int

definition newHTTPClient :: "TransportConfig \<Rightarrow> int \<Rightarrow> http_client" where
  "newHTTPClient config timeout =
     (let connect = (if ConnectTimeout config \<le> 0 then i64 (15 * go_Second) else ConnectTimeout config);
          header = (if ResponseHeaderTimeout config \<le> 0 then i64 (30 * go_Second) else ResponseHeaderTimeout config);
          conns = (if MaxConnectionsPerHost config \<le> 0 then 8 else MaxConnectionsPerHost config)
      in \<lparr>h_route = DirectRoute, h_timeout = (if timeout \<le> 0 then connect else timeout), h_MaxIdleConns = i64 (conns * 2),
          h_MaxConnsPerHost = conns, h_ResponseHeaderTimeout = header\<rparr>)"

definition NewHTTPClient :: "TransportConfig \<Rightarrow> http_client" where
  "NewHTTPClient config = newHTTPClient config (ConnectTimeout config)"

definition NewClientForProxy :: "(string \<Rightarrow> bool) \<Rightarrow> TransportConfig \<Rightarrow> ProxyProfile \<Rightarrow> profile_error + http_client" where
  "NewClientForProxy parses config profile =
     (case profile_Validate profile of
        Some e \<Rightarrow> Inl e
      | None \<Rightarrow>
          (let client = newHTTPClient config (pp_Timeout profile); address = JoinHostPort (pp_Host profile) (format_int (pp_Port profile)) in
           if pp_Type profile = ''http'' \<or> pp_Type profile = ''https'' then
             (let proxyURL = (if pp_Type profile = ''https'' then ''https'' else ''http'') @ ''://'' @ address in
              if \<not> parses proxyURL then Inl UnparsableAddress
              else Inr (client\<lparr>h_route := HTTPRoute proxyURL
                     (if pp_Username profile \<noteq> [] then Some (pp_Username profile, pp_Password profile) else None)\<rparr>))
           else Inr (client\<lparr>h_route := SOCKSRoute (pp_Host profile) (pp_Port profile) (pp_Username profile) (pp_Password profile) (pp_Timeout profile)\<rparr>)))"

section \<open>The pool\<close>

text \<open>All clients ever created, and those whose idle connections were closed, are recorded beside the two maps of the pool.\<close>

record TransportPool =
  tp_profiles :: "(string \<times> ProxyProfile) list"
  tp_clients :: "(string \<times> nat) list"
  tp_made :: "http_client list"
  tp_closed :: "nat list"

definition NewTransportPool :: TransportPool where
  "NewTransportPool = \<lparr>tp_profiles = [], tp_clients = [], tp_made = [], tp_closed = []\<rparr>"

definition close_old :: "string \<Rightarrow> TransportPool \<Rightarrow> TransportPool" where
  "close_old k p = (case map_of (tp_clients p) k of None \<Rightarrow> p | Some c \<Rightarrow> p\<lparr>tp_closed := tp_closed p @ [c]\<rparr>)"

definition pool_Client :: "(string \<Rightarrow> bool) \<Rightarrow> TransportConfig \<Rightarrow> ProxyProfile \<Rightarrow> TransportPool \<Rightarrow> (profile_error + nat) \<times> TransportPool" where
  "pool_Client parses config profile p =
     (if pp_Type profile = ''direct'' then (Inr (length (tp_made p)), p\<lparr>tp_made := tp_made p @ [NewHTTPClient config]\<rparr>)
      else case map_of (tp_profiles p) (pp_ID profile) = Some profile \<and> map_of (tp_clients p) (pp_ID profile) \<noteq> None of
        True \<Rightarrow> (Inr (the (map_of (tp_clients p) (pp_ID profile))), p)
      | False \<Rightarrow>
          (let p1 = close_old (pp_ID profile) p in
           case NewClientForProxy parses config profile of
             Inl e \<Rightarrow> (Inl e, p1)
           | Inr client \<Rightarrow>
               (Inr (length (tp_made p1)),
                p1\<lparr>tp_made := tp_made p1 @ [client], tp_profiles := AList.update (pp_ID profile) profile (tp_profiles p1),
                   tp_clients := AList.update (pp_ID profile) (length (tp_made p1)) (tp_clients p1)\<rparr>)))"

definition pool_Remove :: "string \<Rightarrow> TransportPool \<Rightarrow> TransportPool" where
  "pool_Remove k p = (let p1 = close_old k p in p1\<lparr>tp_clients := AList.delete k (tp_clients p1), tp_profiles := AList.delete k (tp_profiles p1)\<rparr>)"

definition pool_Close :: "TransportPool \<Rightarrow> TransportPool" where
  "pool_Close p = p\<lparr>tp_closed := tp_closed p @ map snd (tp_clients p), tp_clients := [], tp_profiles := []\<rparr>"

text \<open>
  One current client per profile, built from exactly that profile; every other client of a proxy has had its idle connections closed.
\<close>

definition pool_inv ::
  "(string \<Rightarrow> bool) \<Rightarrow> TransportConfig \<Rightarrow> (string \<rightharpoonup> ProxyProfile) \<Rightarrow> (string \<rightharpoonup> nat) \<Rightarrow> http_client list \<Rightarrow> nat set \<Rightarrow> bool" where
  "pool_inv parses config profiles clients made closed \<longleftrightarrow>
     (\<forall>k c. clients k = Some c \<longrightarrow>
        (\<exists>profile. profiles k = Some profile \<and> pp_ID profile = k \<and> c < length made \<and> NewClientForProxy parses config profile = Inr (made ! c))) \<and>
     (\<forall>c < length made. h_route (made ! c) = DirectRoute \<or> (\<exists>k. clients k = Some c) \<or> c \<in> closed)"

definition pool_ok :: "(string \<Rightarrow> bool) \<Rightarrow> TransportConfig \<Rightarrow> TransportPool \<Rightarrow> bool" where
  "pool_ok parses config p \<longleftrightarrow> distinct (map fst (tp_clients p)) \<and>
     pool_inv parses config (map_of (tp_profiles p)) (map_of (tp_clients p)) (tp_made p) (set (tp_closed p))"

lemma close_old_simps [simp]:
  "tp_clients (close_old k p) = tp_clients p" "tp_profiles (close_old k p) = tp_profiles p" "tp_made (close_old k p) = tp_made p"
  by (simp_all add: close_old_def split: option.splits)

lemma close_old_closed [simp]: "set (tp_closed (close_old k p)) = set (tp_closed p) \<union> set_option (map_of (tp_clients p) k)"
  by (auto simp: close_old_def split: option.splits)

lemma pool_inv_remove:
  assumes "pool_inv parses config profiles clients made closed"
  shows "pool_inv parses config (profiles(k := None)) (clients(k := None)) made (closed \<union> set_option (clients k))"
  unfolding pool_inv_def
proof (intro conjI allI impI)
  fix c
  assume "c < length made"
  then consider "h_route (made ! c) = DirectRoute" | j where "clients j = Some c" | "c \<in> closed" using assms unfolding pool_inv_def by blast
  then show "h_route (made ! c) = DirectRoute \<or> (\<exists>j. (clients(k := None)) j = Some c) \<or> c \<in> closed \<union> set_option (clients k)"
    by cases (auto intro: exI)
qed (use assms in \<open>auto simp: pool_inv_def split: if_splits\<close>)

lemma pool_inv_direct:
  assumes "pool_inv parses config profiles clients made closed" and "h_route client = DirectRoute"
  shows "pool_inv parses config profiles clients (made @ [client]) closed"
  unfolding pool_inv_def
proof (intro conjI allI impI)
  fix k c
  assume "clients k = Some c"
  then obtain profile where "profiles k = Some profile" "pp_ID profile = k" "c < length made" "NewClientForProxy parses config profile = Inr (made ! c)"
    using assms(1) unfolding pool_inv_def by blast
  then show "\<exists>profile. profiles k = Some profile \<and> pp_ID profile = k \<and> c < length (made @ [client]) \<and> NewClientForProxy parses config profile = Inr ((made @ [client]) ! c)"
    by (simp add: nth_append)
next
  fix c
  assume "c < length (made @ [client])"
  then show "h_route ((made @ [client]) ! c) = DirectRoute \<or> (\<exists>k. clients k = Some c) \<or> c \<in> closed"
    using assms unfolding pool_inv_def by (cases "c = length made") (simp_all add: nth_append)
qed

lemma pool_inv_made:
  assumes "pool_inv parses config profiles clients made closed" and "NewClientForProxy parses config profile = Inr client" and "clients (pp_ID profile) = None"
  shows "pool_inv parses config (profiles(pp_ID profile \<mapsto> profile)) (clients(pp_ID profile \<mapsto> length made)) (made @ [client]) closed"
  unfolding pool_inv_def
proof (intro conjI allI impI)
  fix k c
  assume c: "(clients(pp_ID profile \<mapsto> length made)) k = Some c"
  show "\<exists>x. (profiles(pp_ID profile \<mapsto> profile)) k = Some x \<and> pp_ID x = k \<and> c < length (made @ [client]) \<and> NewClientForProxy parses config x = Inr ((made @ [client]) ! c)"
  proof (cases "k = pp_ID profile")
    case True
    then show ?thesis using c assms(2) by (auto simp: nth_append)
  next
    case False
    then obtain x where "profiles k = Some x" "pp_ID x = k" "c < length made" "NewClientForProxy parses config x = Inr (made ! c)"
      using assms(1) c unfolding pool_inv_def by (metis fun_upd_apply)
    then show ?thesis using False by (simp add: nth_append)
  qed
next
  fix c
  assume l: "c < length (made @ [client])"
  show "h_route ((made @ [client]) ! c) = DirectRoute \<or> (\<exists>k. (clients(pp_ID profile \<mapsto> length made)) k = Some c) \<or> c \<in> closed"
  proof (cases "c = length made")
    case True
    then show ?thesis by (intro disjI2 disjI1 exI [of _ "pp_ID profile"]) simp
  next
    case False
    then have "h_route (made ! c) = DirectRoute \<or> (\<exists>k. clients k = Some c) \<or> c \<in> closed" using assms(1) l unfolding pool_inv_def by simp
    then show ?thesis using assms(3) l False by (auto simp: nth_append) (metis option.distinct(1))
  qed
qed

lemma pool_inv_closed: "pool_inv parses config profiles clients made closed \<Longrightarrow> closed \<subseteq> closed' \<Longrightarrow> pool_inv parses config profiles clients made closed'"
  unfolding pool_inv_def by blast

lemma pool_new_ok: "pool_ok parses config NewTransportPool"
  by (simp add: pool_ok_def pool_inv_def NewTransportPool_def)

lemma pool_close_ok:
  assumes "pool_ok parses config p"
  shows "pool_ok parses config (pool_Close p)"
proof -
  have "c \<in> snd ` set (tp_clients p)" if "map_of (tp_clients p) k = Some c" for k c using map_of_SomeD [OF that] by force
  then show ?thesis using assms unfolding pool_ok_def pool_inv_def pool_Close_def by (auto 4 3)
qed

lemma pool_remove_ok:
  assumes "pool_ok parses config p"
  shows "pool_ok parses config (pool_Remove k p)"
  using assms pool_inv_remove [of parses config "map_of (tp_profiles p)" "map_of (tp_clients p)" "tp_made p" "set (tp_closed p)" k]
  unfolding pool_ok_def pool_Remove_def Let_def by (simp add: distinct_delete delete_conv')

lemma pool_client_ok:
  assumes "pool_ok parses config p" and "pool_Client parses config profile p = (r, p')"
  shows "pool_ok parses config p'"
proof -
  let ?inv = "pool_inv parses config" and ?ps = "map_of (tp_profiles p)" and ?cs = "map_of (tp_clients p)" and ?k = "pp_ID profile"
  have inv: "distinct (map fst (tp_clients p))" "?inv ?ps ?cs (tp_made p) (set (tp_closed p))" using assms(1) by (simp_all add: pool_ok_def)
  have direct: "?inv ?ps ?cs (tp_made p @ [NewHTTPClient config]) (set (tp_closed p))"
    by (rule pool_inv_direct [OF inv(2)]) (simp add: NewHTTPClient_def newHTTPClient_def Let_def)
  have failed: "?inv ?ps ?cs (tp_made p) (set (tp_closed p) \<union> A)" for A by (rule pool_inv_closed [OF inv(2)]) simp
  have installed: "?inv (?ps(?k \<mapsto> profile)) (?cs(?k \<mapsto> length (tp_made p))) (tp_made p @ [client]) (set (tp_closed p) \<union> set_option (?cs ?k))"
    if "NewClientForProxy parses config profile = Inr client" for client
    using pool_inv_made [OF pool_inv_remove [OF inv(2), of ?k] that] by simp
  show ?thesis using assms inv(1) direct failed installed
    by (auto simp: pool_Client_def Let_def pool_ok_def distinct_update update_conv' split: if_splits sum.splits bool.splits)
qed

text \<open>The client handed out is made for the profile that was passed, whatever the pool held before.\<close>

lemma pool_client_result:
  assumes "pool_ok parses config p" and "pool_Client parses config profile p = (Inr c, p')" and "pp_Type profile \<noteq> ''direct''"
  shows "c < length (tp_made p') \<and> NewClientForProxy parses config profile = Inr (tp_made p' ! c) \<and> map_of (tp_clients p') (pp_ID profile) = Some c"
proof (cases "map_of (tp_profiles p) (pp_ID profile) = Some profile \<and> map_of (tp_clients p) (pp_ID profile) \<noteq> None")
  case True
  then have "p' = p" "map_of (tp_clients p) (pp_ID profile) = Some c" using assms(2,3) by (auto simp: pool_Client_def)
  moreover obtain profile' where "map_of (tp_profiles p) (pp_ID profile) = Some profile'" "c < length (tp_made p)"
    "NewClientForProxy parses config profile' = Inr (tp_made p ! c)" using assms(1) calculation(2) unfolding pool_ok_def pool_inv_def by metis
  ultimately show ?thesis using True by simp
next
  case False
  then show ?thesis using assms(2,3) by (auto simp: pool_Client_def Let_def update_conv' split: sum.splits bool.splits)
qed

section \<open>The table of profiles\<close>

record proxy_row =
  px_ID :: string
  px_Name :: string
  px_Type :: string
  px_Host :: string
  px_Port :: int
  px_Username :: string
  px_Password :: bytes
  px_TimeoutSeconds :: int
  px_Enabled :: bool
  px_Default :: bool
  px_CreatedAt :: int
  px_UpdatedAt :: int

record proxy_input =
  pi_ID :: string
  pi_Name :: string
  pi_Type :: string
  pi_Host :: string
  pi_Port :: int
  pi_Username :: string
  pi_Password :: bytes
  pi_TimeoutSeconds :: int
  pi_Enabled :: bool
  pi_Default :: bool

definition GetProxyProfile :: "bool \<Rightarrow> string \<Rightarrow> proxy_row list \<Rightarrow> store_error + proxy_row" where
  "GetProxyProfile flt k rows =
     (if flt then Inl ErrSQL else case find_row px_ID k rows of None \<Rightarrow> Inl ErrNotFoundRow | Some r \<Rightarrow> Inr r)"

definition ProxySecret :: "bool \<Rightarrow> string \<Rightarrow> proxy_row list \<Rightarrow> store_error + bytes" where
  "ProxySecret flt k rows =
     (if flt then Inl ErrSQL else case find_row px_ID k rows of None \<Rightarrow> Inl ErrNotFoundRow | Some r \<Rightarrow> Inr (px_Password r))"

definition clear_proxy_default :: "proxy_row list \<Rightarrow> proxy_row list" where
  "clear_proxy_default rows = map (\<lambda>r. r\<lparr>px_Default := False\<rparr>) rows"

definition new_proxy :: "string \<Rightarrow> proxy_input \<Rightarrow> int \<Rightarrow> proxy_row" where
  "new_proxy k i t =
     \<lparr>px_ID = k, px_Name = pi_Name i, px_Type = pi_Type i, px_Host = pi_Host i, px_Port = pi_Port i, px_Username = pi_Username i,
      px_Password = pi_Password i, px_TimeoutSeconds = (if pi_TimeoutSeconds i = 0 then 15 else pi_TimeoutSeconds i), px_Enabled = pi_Enabled i,
      px_Default = pi_Default i, px_CreatedAt = t, px_UpdatedAt = t\<rparr>"

definition InsertProxyProfile ::
  "string option \<Rightarrow> faults \<Rightarrow> bool \<Rightarrow> int \<Rightarrow> proxy_input \<Rightarrow> int \<Rightarrow> proxy_row list \<Rightarrow> (store_error + proxy_row) \<times> proxy_row list" where
  "InsertProxyProfile newID flt commit_ok clock i now rows =
     (case (if pi_ID i = [] then newID else Some (pi_ID i)) of
        None \<Rightarrow> (Inl ErrInput, rows)
      | Some k \<Rightarrow>
          if pi_Name i = [] \<or> pi_Type i = [] \<or> pi_Host i = [] \<or> pi_Port i < 1 \<or> 65535 < pi_Port i then (Inl ErrInput, rows)
          else
            (case account_tx
               (if pi_Default i \<and> flt 0 then Inl ErrSQL
                else let base = (if pi_Default i then clear_proxy_default rows else rows) in
                  if flt 1 \<or> k \<in> px_ID ` set base then Inl ErrSQL else Inr (base @ [new_proxy k i (norm_time clock now)]))
               commit_ok rows of
               (Some e, rows1) \<Rightarrow> (Inl e, rows1)
             | (None, rows1) \<Rightarrow> (GetProxyProfile (flt 2) k rows1, rows1)))"

definition UpdateProxyProfile :: "faults \<Rightarrow> bool \<Rightarrow> int \<Rightarrow> string \<Rightarrow> proxy_input \<Rightarrow> int \<Rightarrow> proxy_row list \<Rightarrow> store_error option \<times> proxy_row list" where
  "UpdateProxyProfile flt commit_ok clock k i now rows =
     account_tx
       (if pi_Default i \<and> flt 0 then Inl ErrSQL
        else let base = (if pi_Default i then clear_proxy_default rows else rows) in
          if flt 1 then Inl ErrSQL
          else if affected px_ID k base \<noteq> 1 then Inl ErrNotFoundRow
          else Inr (update_rows px_ID k (\<lambda>r. r\<lparr>px_Name := pi_Name i, px_Type := pi_Type i, px_Host := pi_Host i, px_Port := pi_Port i,
                      px_Username := pi_Username i, px_Password := (if pi_Password i = [] then px_Password r else pi_Password i),
                      px_TimeoutSeconds := pi_TimeoutSeconds i, px_Enabled := pi_Enabled i, px_Default := pi_Default i,
                      px_UpdatedAt := norm_time clock now\<rparr>) base))
       commit_ok rows"

definition DeleteProxyProfile :: "faults \<Rightarrow> bool \<Rightarrow> string \<Rightarrow> job_row list \<Rightarrow> proxy_row list \<Rightarrow> delete_error option \<times> proxy_row list" where
  "DeleteProxyProfile flt commit_ok k job_rows rows =
     (if flt 0 then (Some (DeleteFailed ErrSQL), rows)
      else if length (filter (\<lambda>j. ProxyID j = k) job_rows) \<noteq> 0 then (Some ErrRecordInUse, rows)
      else if flt 1 then (Some (DeleteFailed ErrSQL), rows)
      else if affected px_ID k rows \<noteq> 1 then (Some (DeleteFailed ErrNotFoundRow), rows)
      else if \<not> commit_ok then (Some (DeleteFailed ErrSQL), rows)
      else (None, filter (\<lambda>r. px_ID r \<noteq> k) rows))"

interpretation prox: default_table px_ID px_Default "\<lambda>r. r\<lparr>px_Default := False\<rparr>"
  by unfold_locales simp_all

section \<open>Handlers\<close>

record proxy_request =
  pr_Name :: string
  pr_Type :: string
  pr_Host :: string
  pr_Port :: int
  pr_Username :: string
  pr_Password :: string
  pr_TimeoutSeconds :: int
  pr_Enabled :: "bool option"
  pr_Default :: "bool option"

definition proxyInput :: "proxy_request \<Rightarrow> bytes \<Rightarrow> profile_error + proxy_input" where
  "proxyInput r password =
     (let enabled = (case pr_Enabled r of None \<Rightarrow> True | Some b \<Rightarrow> b);
          def = (case pr_Default r of None \<Rightarrow> False | Some b \<Rightarrow> b);
          timeout = (if pr_TimeoutSeconds r = 0 then 15 else pr_TimeoutSeconds r);
          profile = \<lparr>pp_ID = [], pp_Name = [], pp_Type = pr_Type r, pp_Host = pr_Host r, pp_Port = pr_Port r, pp_Username = [], pp_Password = [],
                     pp_Timeout = i64 (timeout * go_Second), pp_Enabled = False\<rparr>
      in case profile_Validate profile of
           Some e \<Rightarrow> Inl e
         | None \<Rightarrow> Inr \<lparr>pi_ID = [], pi_Name = pr_Name r, pi_Type = pr_Type r, pi_Host = pr_Host r, pi_Port = pr_Port r, pi_Username = pr_Username r,
                        pi_Password = password, pi_TimeoutSeconds = timeout, pi_Enabled = enabled, pi_Default = def\<rparr>)"

text \<open>What the handlers share: the table, the pool, the account clients the manager keeps, and the profiles announced as changed.\<close>

record routed =
  rc_client :: client
  rc_http :: "nat option"

record proxy_world =
  w_rows :: "proxy_row list"
  w_pool :: TransportPool
  w_cache :: "(string \<times> routed) list"
  w_announced :: "string list"

record proxy_env =
  pe_Encrypt :: "string \<Rightarrow> bytes option"
  pe_Decrypt :: "bytes \<Rightarrow> string option"
  pe_newID :: "string option"
  pe_faults :: faults
  pe_reads :: faults
  pe_commit_ok :: bool
  pe_now :: int
  pe_jobs :: "job_row list"

type_synonym api_error = "nat \<times> string"

definition handleCreateProxy :: "proxy_env \<Rightarrow> proxy_request \<Rightarrow> proxy_world \<Rightarrow> (api_error + proxy_row) \<times> proxy_world" where
  "handleCreateProxy env r w =
     (case pe_Encrypt env (pr_Password r) of
        None \<Rightarrow> (Inl (500, ''encryption_error''), w)
      | Some password \<Rightarrow>
          (case proxyInput r password of
             Inl e \<Rightarrow> (Inl (400, ''proxy_invalid''), w)
           | Inr v \<Rightarrow>
               (case InsertProxyProfile (pe_newID env) (pe_faults env) (pe_commit_ok env) (pe_now env) v (pe_now env) (w_rows w) of
                  (Inl e, rows) \<Rightarrow> (Inl (400, ''proxy_create_failed''), w\<lparr>w_rows := rows\<rparr>)
                | (Inr record1, rows) \<Rightarrow> (Inr record1, w\<lparr>w_rows := rows, w_announced := w_announced w @ [px_ID record1]\<rparr>))))"

definition nul :: char where
  "nul = char_of (0::nat)"

definition InvalidateProxySessions :: "string \<Rightarrow> (string \<times> routed) list \<Rightarrow> (string \<times> routed) list" where
  "InvalidateProxySessions proxyID cache = (if proxyID = [] then cache else filter (\<lambda>e. \<not> has_suffix (fst e) (nul # proxyID)) cache)"

definition InvalidateAccountSession :: "string \<Rightarrow> (string \<times> routed) list \<Rightarrow> (string \<times> routed) list" where
  "InvalidateAccountSession accountID cache = (if accountID = [] then cache else filter (\<lambda>e. \<not> has_prefix (fst e) (accountID @ [nul])) cache)"

definition handleUpdateProxy :: "proxy_env \<Rightarrow> string \<Rightarrow> proxy_request \<Rightarrow> proxy_world \<Rightarrow> (api_error + proxy_row option) \<times> proxy_world" where
  "handleUpdateProxy env k r w =
     (case GetProxyProfile (pe_reads env 0) k (w_rows w) of
        Inl e \<Rightarrow> (Inl (404, ''proxy_not_found''), w)
      | Inr _ \<Rightarrow>
          (let password = (if pr_Password r \<noteq> [] then case pe_Encrypt env (pr_Password r) of None \<Rightarrow> [] | Some b \<Rightarrow> b else []) in
           case proxyInput r password of
             Inl e \<Rightarrow> (Inl (400, ''proxy_invalid''), w)
           | Inr v \<Rightarrow>
               (case UpdateProxyProfile (pe_faults env) (pe_commit_ok env) (pe_now env) k v (pe_now env) (w_rows w) of
                  (Some e, rows) \<Rightarrow> (Inl (400, ''proxy_update_failed''), w\<lparr>w_rows := rows\<rparr>)
                | (None, rows) \<Rightarrow>
                    (Inr (case GetProxyProfile (pe_reads env 1) k rows of Inl e \<Rightarrow> None | Inr record1 \<Rightarrow> Some record1),
                     w\<lparr>w_rows := rows, w_pool := pool_Remove k (w_pool w), w_cache := InvalidateProxySessions k (w_cache w),
                        w_announced := w_announced w @ [k]\<rparr>))))"

definition handleDeleteProxy :: "proxy_env \<Rightarrow> string \<Rightarrow> proxy_world \<Rightarrow> api_error option \<times> proxy_world" where
  "handleDeleteProxy env k w =
     (case DeleteProxyProfile (pe_faults env) (pe_commit_ok env) k (pe_jobs env) (w_rows w) of
        (Some ErrRecordInUse, rows) \<Rightarrow> (Some (409, ''proxy_in_use''), w\<lparr>w_rows := rows\<rparr>)
      | (Some _, rows) \<Rightarrow> (Some (404, ''proxy_not_found''), w\<lparr>w_rows := rows\<rparr>)
      | (None, rows) \<Rightarrow>
          (None, w\<lparr>w_rows := rows, w_pool := pool_Remove k (w_pool w), w_cache := InvalidateProxySessions k (w_cache w),
                    w_announced := w_announced w @ [k]\<rparr>))"

section \<open>A client on its route\<close>

datatype route_error = RouteStore store_error | ProxyDisabled | CredentialsUnavailable | BadProfile profile_error | RouteLife life_error

definition profile_of :: "proxy_row \<Rightarrow> string \<Rightarrow> ProxyProfile" where
  "profile_of r password =
     \<lparr>pp_ID = px_ID r, pp_Name = px_Name r, pp_Type = px_Type r, pp_Host = px_Host r, pp_Port = px_Port r, pp_Username = px_Username r,
      pp_Password = password, pp_Timeout = i64 (px_TimeoutSeconds r * go_Second), pp_Enabled = px_Enabled r\<rparr>"

text \<open>The profile of a selected proxy: it has to be enabled, and its password readable.\<close>

definition load_profile :: "proxy_env \<Rightarrow> string \<Rightarrow> proxy_row list \<Rightarrow> route_error + ProxyProfile" where
  "load_profile env k rows =
     (case GetProxyProfile (pe_reads env 0) k rows of
        Inl e \<Rightarrow> Inl (RouteStore e)
      | Inr r \<Rightarrow>
          if \<not> px_Enabled r then Inl ProxyDisabled
          else case ProxySecret (pe_reads env 1) k rows of
            Inl e \<Rightarrow> Inl (RouteStore e)
          | Inr ciphertext \<Rightarrow>
              if ciphertext = [] then Inr (profile_of r [])
              else case pe_Decrypt env ciphertext of None \<Rightarrow> Inl CredentialsUnavailable | Some plain \<Rightarrow> Inr (profile_of r plain))"

definition clientForProxy ::
  "(string \<Rightarrow> bool) \<Rightarrow> TransportConfig \<Rightarrow> proxy_env \<Rightarrow> string \<Rightarrow> proxy_world \<Rightarrow> (route_error + nat option) \<times> proxy_world" where
  "clientForProxy parses config env k w =
     (if k = [] then (Inr None, w)
      else case load_profile env k (w_rows w) of
        Inl e \<Rightarrow> (Inl e, w)
      | Inr profile \<Rightarrow>
          (case pool_Client parses config profile (w_pool w) of
             (Inl e, p) \<Rightarrow> (Inl (BadProfile e), w\<lparr>w_pool := p\<rparr>)
           | (Inr c, p) \<Rightarrow> (Inr (Some c), w\<lparr>w_pool := p\<rparr>)))"

text \<open>The test of a profile uses it whether it is enabled or not.\<close>

definition proxyClient ::
  "(string \<Rightarrow> bool) \<Rightarrow> TransportConfig \<Rightarrow> proxy_env \<Rightarrow> string \<Rightarrow> proxy_world \<Rightarrow> (route_error + nat) \<times> proxy_world" where
  "proxyClient parses config env k w =
     (case GetProxyProfile (pe_reads env 0) k (w_rows w) of
        Inl e \<Rightarrow> (Inl (RouteStore e), w)
      | Inr r \<Rightarrow>
          (case ProxySecret (pe_reads env 1) k (w_rows w) of
             Inl e \<Rightarrow> (Inl (RouteStore e), w)
           | Inr ciphertext \<Rightarrow>
               (case pe_Decrypt env ciphertext = None \<and> ciphertext \<noteq> [] of
                  True \<Rightarrow> (Inl CredentialsUnavailable, w)
                | False \<Rightarrow>
                    (let password = (case pe_Decrypt env ciphertext of None \<Rightarrow> [] | Some s \<Rightarrow> s) in
                     case pool_Client parses config (profile_of r password) (w_pool w) of
                       (Inl e, p) \<Rightarrow> (Inl (BadProfile e), w\<lparr>w_pool := p\<rparr>)
                     | (Inr c, p) \<Rightarrow> (Inr c, w\<lparr>w_pool := p\<rparr>)))))"

definition handleTestProxy ::
  "(string \<Rightarrow> bool) \<Rightarrow> TransportConfig \<Rightarrow> proxy_env \<Rightarrow> (nat \<Rightarrow> string \<Rightarrow> nat option) \<Rightarrow> string \<Rightarrow> string option \<Rightarrow> proxy_world \<Rightarrow> (api_error + nat) \<times> proxy_world" where
  "handleTestProxy parses config env get k url w =
     (case proxyClient parses config env k w of
        (Inl e, w1) \<Rightarrow> (Inl (400, ''proxy_invalid''), w1)
      | (Inr c, w1) \<Rightarrow>
          (let target = (case url of None \<Rightarrow> ''https://g.api.mega.co.nz/'' | Some u \<Rightarrow> if u = [] then ''https://g.api.mega.co.nz/'' else u) in
           case get c target of
             None \<Rightarrow> (Inl (400, ''proxy_test_failed''), w1)
           | Some status \<Rightarrow> if 400 \<le> status then (Inl (400, ''proxy_test_failed''), w1) else (Inr status, w1)))"

section \<open>The client of a job\<close>

definition maxCachedAccountClients :: nat where
  "maxCachedAccountClients = 64"

definition account_key :: "string \<Rightarrow> string \<Rightarrow> string" where
  "account_key a p = a @ nul # p"

text \<open>A full cache loses some entry; which one, the order of iteration decides.\<close>

definition evict_one :: "nat \<Rightarrow> (string \<times> routed) list \<Rightarrow> (string \<times> routed) list" where
  "evict_one i cache =
     (if maxCachedAccountClients \<le> length cache then AList.delete (fst (cache ! (i mod length cache))) cache else cache)"

definition worker_session ::
  "life_env \<Rightarrow> nat \<Rightarrow> string \<Rightarrow> string \<Rightarrow> routed \<Rightarrow> (string \<times> routed) list \<Rightarrow> account_row list
     \<Rightarrow> (route_error + routed) \<times> (string \<times> routed) list \<times> account_row list" where
  "worker_session lf i a p base cache accs =
     (if a = [] then (Inr base, cache, accs)
      else case map_of cache (account_key a p) of
        Some cached \<Rightarrow> (Inr cached, cache, accs)
      | None \<Rightarrow>
          (case ClientFor lf a (rc_client base) accs of
             (Inl e, accs1, sent) \<Rightarrow> (Inl (RouteLife e), cache, accs1)
           | (Inr c, accs1, sent) \<Rightarrow>
               (let client = base\<lparr>rc_client := c\<rparr> in (Inr client, AList.update (account_key a p) client (evict_one i cache), accs1))))"

definition workerForJob ::
  "(string \<Rightarrow> bool) \<Rightarrow> TransportConfig \<Rightarrow> proxy_env \<Rightarrow> life_env \<Rightarrow> nat \<Rightarrow> client \<Rightarrow> string \<Rightarrow> string \<Rightarrow> proxy_world \<Rightarrow> account_row list
     \<Rightarrow> (route_error + routed) \<times> proxy_world \<times> account_row list" where
  "workerForJob parses config env lf i c a p w accs =
     (case (if a = [] then None else map_of (w_cache w) (account_key a p)) of
        Some cached \<Rightarrow> (Inr cached, w, accs)
      | None \<Rightarrow>
          (case clientForProxy parses config env p w of
             (Inl e, w1) \<Rightarrow> (Inl e, w1, accs)
           | (Inr http, w1) \<Rightarrow>
               (let base = \<lparr>rc_client = (if p = [] then c else \<lparr>cl_session = cl_session c, cl_sequence = 0, cl_sent = []\<rparr>), rc_http = http\<rparr> in
                case worker_session lf i a p base (w_cache w1) accs of (r, cache, accs1) \<Rightarrow> (r, w1\<lparr>w_cache := cache\<rparr>, accs1))))"

section \<open>All interleavings\<close>

text \<open>\<^verbatim>\<open>newID\<close> of \<^verbatim>\<open>internal/store/ids.go\<close>: random bytes in hexadecimal.\<close>

definition newID :: "bytes option \<Rightarrow> string option" where
  "newID raw = map_option (\<lambda>bs. concat (map (\<lambda>b. [hex_digit (unat b div 16), hex_digit (unat b mod 16)]) bs)) raw"

text \<open>
  The state is the shared world, the table of accounts and the jobs on their way to a client: each has loaded a profile or already has its
  route. The handlers are cut into their critical sections, so that these may interleave in any order.
\<close>

datatype phase = Loaded ProxyProfile | Routed "nat option"

type_synonym proxy_state = "proxy_world \<times> account_row list \<times> (string \<times> string \<times> phase) list"

inductive proxy_step :: "(string \<Rightarrow> bool) \<Rightarrow> TransportConfig \<Rightarrow> proxy_state \<Rightarrow> proxy_state \<Rightarrow> bool" for parses config where
  create: "pe_newID env = newID raw \<Longrightarrow> handleCreateProxy env r w = (x, w') \<Longrightarrow> proxy_step parses config (w, accs, fs) (w', accs, fs)"
| store_update: "proxyInput r pw = Inr v \<Longrightarrow> UpdateProxyProfile flt ok clock k v now (w_rows w) = (e, rows) \<Longrightarrow>
    proxy_step parses config (w, accs, fs) (w\<lparr>w_rows := rows\<rparr>, accs, fs)"
| store_delete: "DeleteProxyProfile flt ok k js (w_rows w) = (d, rows) \<Longrightarrow> proxy_step parses config (w, accs, fs) (w\<lparr>w_rows := rows\<rparr>, accs, fs)"
| remove: "proxy_step parses config (w, accs, fs) (w\<lparr>w_pool := pool_Remove k (w_pool w)\<rparr>, accs, fs)"
| invalidate_proxy: "proxy_step parses config (w, accs, fs) (w\<lparr>w_cache := InvalidateProxySessions k (w_cache w)\<rparr>, accs, fs)"
| invalidate_account: "proxy_step parses config (w, accs, fs) (w\<lparr>w_cache := InvalidateAccountSession a (w_cache w)\<rparr>, accs, fs)"
| announce: "proxy_step parses config (w, accs, fs) (w\<lparr>w_announced := w_announced w @ [k]\<rparr>, accs, fs)"
| test: "handleTestProxy parses config env get k url w = (y, w') \<Longrightarrow> proxy_step parses config (w, accs, fs) (w', accs, fs)"
| use: "clientForProxy parses config env k w = (z, w') \<Longrightarrow> proxy_step parses config (w, accs, fs) (w', accs, fs)"
| shut: "proxy_step parses config (w, accs, fs) (w\<lparr>w_pool := pool_Close (w_pool w), w_cache := []\<rparr>, accs, fs)"
| accounts: "account_step accs accs' \<Longrightarrow> proxy_step parses config (w, accs, fs) (w, accs', fs)"
| direct: "nul \<notin> set a \<Longrightarrow> proxy_step parses config (w, accs, fs) (w, accs, (a, [], Routed None) # fs)"
| load: "nul \<notin> set a \<Longrightarrow> p \<noteq> [] \<Longrightarrow> load_profile env p (w_rows w) = Inr profile \<Longrightarrow>
    proxy_step parses config (w, accs, fs) (w, accs, (a, p, Loaded profile) # fs)"
| route: "(a, p, Loaded profile) \<in> set fs \<Longrightarrow> pool_Client parses config profile (w_pool w) = (t, pool) \<Longrightarrow>
    proxy_step parses config (w, accs, fs)
      (w\<lparr>w_pool := pool\<rparr>, accs, (case t of Inl e \<Rightarrow> [] | Inr c \<Rightarrow> [(a, p, Routed (Some c))]) @ remove1 (a, p, Loaded profile) fs)"
| session: "(a, p, Routed http) \<in> set fs \<Longrightarrow> rc_http base = http \<Longrightarrow> worker_session lf i a p base (w_cache w) accs = (u, cache, accs') \<Longrightarrow>
    proxy_step parses config (w, accs, fs) (w\<lparr>w_cache := cache\<rparr>, accs', remove1 (a, p, Routed http) fs)"

definition row_valid :: "proxy_row \<Rightarrow> bool" where
  "row_valid r \<longleftrightarrow> px_Type r \<in> {''http'', ''https'', ''socks5''} \<and> trim_space (px_Host r) \<noteq> [] \<and> 1 \<le> px_Port r \<and> px_Port r \<le> 65535 \<and> nul \<notin> set (px_ID r)"

definition via_proxy :: "http_client list \<Rightarrow> nat option \<Rightarrow> bool" where
  "via_proxy made http \<longleftrightarrow> (\<exists>c. http = Some c \<and> c < length made \<and> h_route (made ! c) \<noteq> DirectRoute)"

definition flight_ok :: "http_client list \<Rightarrow> string \<times> string \<times> phase \<Rightarrow> bool" where
  "flight_ok made f = (case f of
     (a, p, Loaded profile) \<Rightarrow> nul \<notin> set a \<and> nul \<notin> set p \<and> pp_ID profile = p \<and> pp_Type profile \<noteq> ''direct''
   | (a, p, Routed http) \<Rightarrow> nul \<notin> set a \<and> nul \<notin> set p \<and> (p \<noteq> [] \<longrightarrow> via_proxy made http))"

definition cache_ok :: "http_client list \<Rightarrow> (string \<times> routed) list \<Rightarrow> bool" where
  "cache_ok made cache \<longleftrightarrow> distinct (map fst cache) \<and> length cache \<le> maxCachedAccountClients \<and>
     (\<forall>a p c. nul \<notin> set a \<and> nul \<notin> set p \<and> p \<noteq> [] \<and> map_of cache (account_key a p) = Some c \<longrightarrow> via_proxy made (rc_http c))"

definition rows_ok :: "proxy_row list \<Rightarrow> bool" where
  "rows_ok rows \<longleftrightarrow> table_ok px_ID px_Default rows \<and> (\<forall>r\<in>set rows. row_valid r)"

definition proxies_ok :: "(string \<Rightarrow> bool) \<Rightarrow> TransportConfig \<Rightarrow> proxy_state \<Rightarrow> bool" where
  "proxies_ok parses config s = (case s of (w, accs, fs) \<Rightarrow>
     rows_ok (w_rows w) \<and> pool_ok parses config (w_pool w) \<and> cache_ok (tp_made (w_pool w)) (w_cache w) \<and>
     (\<forall>f\<in>set fs. flight_ok (tp_made (w_pool w)) f))"

subsection \<open>Rows\<close>

lemma hex_digit_not_nul: "n < 16 \<Longrightarrow> hex_digit n \<noteq> nul"
proof -
  assume "n < 16"
  then have "n \<in> set [0..<16]" by simp
  then show "hex_digit n \<noteq> nul" unfolding nul_def hex_digit_def by (auto simp: upt_rec)
qed

lemma newID_not_nul: "newID raw = Some k \<Longrightarrow> nul \<notin> set k"
proof -
  have "nul \<noteq> hex_digit (unat (b :: byte) div 16)" "nul \<noteq> hex_digit (unat b mod 16)" for b
  proof -
    have "unat b < 16 * 16" using unsigned_less [where w = b] by simp
    then have "unat b div 16 < 16" by (rule less_mult_imp_div_less)
    then show "nul \<noteq> hex_digit (unat b div 16)" "nul \<noteq> hex_digit (unat b mod 16)"
      using hex_digit_not_nul [of "unat b div 16"] hex_digit_not_nul [of "unat b mod 16"] by auto
  qed
  then show "newID raw = Some k \<Longrightarrow> nul \<notin> set k" by (auto simp: newID_def)
qed

lemma proxyInput_valid:
  "proxyInput r pw = Inr v \<Longrightarrow> pi_ID v = [] \<and> pi_Type v \<in> {''http'', ''https'', ''socks5''} \<and> trim_space (pi_Host v) \<noteq> [] \<and> 1 \<le> pi_Port v \<and> pi_Port v \<le> 65535"
  by (auto simp: proxyInput_def profile_Validate_def Let_def split: option.splits if_splits)

lemma insert_proxy_ok:
  assumes "rows_ok rows" and "proxyInput r pw = Inr v" and "InsertProxyProfile (newID raw) flt ok clock v now rows = (x, rows')"
  shows "rows_ok rows'"
proof (cases "newID raw")
  case None
  then show ?thesis using assms proxyInput_valid [OF assms(2)] by (simp add: InsertProxyProfile_def)
next
  case (Some k)
  let ?row = "new_proxy k v (norm_time clock now)" and ?base = "if pi_Default v then map (\<lambda>r. r\<lparr>px_Default := False\<rparr>) rows else rows"
  have "rows' = rows \<or> k \<notin> px_ID ` set rows \<and> rows' = ?base @ [?row]"
    using assms(3) Some proxyInput_valid [OF assms(2)] prox.clear_ids [of rows]
    unfolding InsertProxyProfile_def account_tx_def clear_proxy_default_def Let_def by (simp split: if_splits)
  moreover have "table_ok px_ID px_Default (?base @ [?row])" if "k \<notin> px_ID ` set rows"
    using that assms(1) by (intro prox.insert_keeps) (simp_all add: rows_ok_def new_proxy_def)
  moreover have "row_valid ?row" using proxyInput_valid [OF assms(2)] newID_not_nul [OF Some] by (auto simp: row_valid_def new_proxy_def)
  moreover have "\<forall>r\<in>set ?base. row_valid r" using assms(1) by (auto simp: rows_ok_def row_valid_def)
  ultimately show ?thesis using assms(1) by (auto simp: rows_ok_def)
qed

lemma update_proxy_ok:
  assumes "rows_ok rows" and "proxyInput r pw = Inr v" and "UpdateProxyProfile flt ok clock k v now rows = (e, rows')"
  shows "rows_ok rows'"
proof -
  let ?f = "\<lambda>r. r\<lparr>px_Name := pi_Name v, px_Type := pi_Type v, px_Host := pi_Host v, px_Port := pi_Port v, px_Username := pi_Username v,
    px_Password := (if pi_Password v = [] then px_Password r else pi_Password v), px_TimeoutSeconds := pi_TimeoutSeconds v, px_Enabled := pi_Enabled v,
    px_Default := pi_Default v, px_UpdatedAt := norm_time clock now\<rparr>"
  let ?base = "if pi_Default v then map (\<lambda>r. r\<lparr>px_Default := False\<rparr>) rows else rows"
  have "rows' = rows \<or> rows' = update_rows px_ID k ?f ?base"
    using assms(3) unfolding UpdateProxyProfile_def account_tx_def clear_proxy_default_def Let_def by (simp split: if_splits)
  moreover have "table_ok px_ID px_Default (update_rows px_ID k ?f ?base)"
    by (rule prox.update_keeps) (use assms(1) in \<open>simp_all add: rows_ok_def\<close>)
  moreover have "\<forall>r\<in>set (update_rows px_ID k ?f ?base). row_valid r"
    using assms(1) proxyInput_valid [OF assms(2)] by (auto simp: rows_ok_def row_valid_def update_rows_def split: if_splits)
  ultimately show ?thesis using assms(1) by (auto simp: rows_ok_def)
qed

lemma delete_proxy_ok: "rows_ok rows \<Longrightarrow> DeleteProxyProfile flt ok k js rows = (d, rows') \<Longrightarrow> rows_ok rows'"
  by (auto simp: rows_ok_def DeleteProxyProfile_def prox.delete_keeps split: if_splits)

lemma load_profile_row:
  assumes "load_profile env p rows = Inr profile"
  obtains r pw where "r \<in> set rows" "px_ID r = p" "px_Enabled r" "profile = profile_of r pw"
    "px_Password r = [] \<and> pw = [] \<or> pe_Decrypt env (px_Password r) = Some pw"
proof -
  obtain r where r: "find_row px_ID p rows = Some r" "px_Enabled r"
    using assms by (auto simp: load_profile_def GetProxyProfile_def split: if_splits option.splits sum.splits)
  then have "profile = profile_of r [] \<and> px_Password r = [] \<or> (\<exists>pw. profile = profile_of r pw \<and> pe_Decrypt env (px_Password r) = Some pw)"
    using assms by (auto simp: load_profile_def GetProxyProfile_def ProxySecret_def split: if_splits option.splits)
  then show thesis using that r find_SomeD [of "\<lambda>r. px_ID r = p" rows r] by (auto simp: find_row_def)
qed

subsection \<open>Routes\<close>

lemma via_proxy_mono: "via_proxy made http \<Longrightarrow> via_proxy (made @ xs) http"
  by (auto simp: via_proxy_def nth_append)

lemma flight_ok_mono: "flight_ok made f \<Longrightarrow> flight_ok (made @ xs) f"
  by (auto simp: flight_ok_def via_proxy_mono split: prod.splits phase.splits)

lemma cache_ok_mono: "cache_ok made cache \<Longrightarrow> cache_ok (made @ xs) cache"
  by (auto simp: cache_ok_def via_proxy_mono)

lemma pool_client_made: "pool_Client parses config profile p = (r, p') \<Longrightarrow> \<exists>xs. tp_made p' = tp_made p @ xs"
  by (auto simp: pool_Client_def Let_def split: if_splits sum.splits bool.splits)

lemma made_route: "NewClientForProxy parses config profile = Inr client \<Longrightarrow> h_route client \<noteq> DirectRoute"
  by (auto simp: NewClientForProxy_def Let_def split: option.splits if_splits)

lemma pool_client_via:
  assumes "pool_ok parses config p" and "pool_Client parses config profile p = (Inr c, p')" and "pp_Type profile \<noteq> ''direct''"
  shows "via_proxy (tp_made p') (Some c)"
  using pool_client_result [OF assms] made_route by (auto simp: via_proxy_def)

lemma proxies_pool:
  assumes "proxies_ok parses config (w, accs, fs)" and "pool_Client parses config profile (w_pool w) = (r, pool)"
  shows "proxies_ok parses config (w\<lparr>w_pool := pool\<rparr>, accs, fs)"
proof -
  obtain xs where "tp_made pool = tp_made (w_pool w) @ xs" using pool_client_made [OF assms(2)] by blast
  then show ?thesis using assms pool_client_ok [OF _ assms(2)] by (auto simp: proxies_ok_def cache_ok_mono flight_ok_mono)
qed

lemma account_key_inj: "nul \<notin> set a \<Longrightarrow> nul \<notin> set a' \<Longrightarrow> account_key a p = account_key a' p' \<longleftrightarrow> a = a' \<and> p = p'"
  unfolding account_key_def by (metis takeWhile_upto append_same_eq list.inject same_append_eq)

lemma cache_filter_ok:
  assumes "cache_ok made cache"
  shows "cache_ok made (filter P cache)"
proof -
  have d: "distinct (map fst cache)" using assms by (simp add: cache_ok_def)
  have "map_of cache k = Some c" if "map_of (filter P cache) k = Some c" for k c
    using map_of_SomeD [OF that] d by (simp add: map_of_eq_Some_iff)
  moreover have "length (filter P cache) \<le> maxCachedAccountClients" using assms length_filter_le [of P cache] unfolding cache_ok_def by linarith
  ultimately show ?thesis using assms unfolding cache_ok_def by (blast intro: distinct_map_filter)
qed

lemma evict_filter: "\<exists>P. evict_one i cache = filter P cache"
  unfolding evict_one_def by (auto simp: AList.delete_eq intro: exI [of _ "\<lambda>_. True"])

lemma evict_room:
  assumes "cache_ok made cache"
  shows "length (evict_one i cache) < maxCachedAccountClients"
proof (cases "maxCachedAccountClients \<le> length cache")
  case True
  then have l: "length cache = maxCachedAccountClients" "0 < length cache" using assms by (auto simp: cache_ok_def maxCachedAccountClients_def)
  let ?e = "cache ! (i mod length cache)"
  have "?e \<in> set cache" using l by simp
  then have "length (filter (\<lambda>(k, _). fst ?e \<noteq> k) cache) < length cache" by (intro length_filter_less) auto
  then show ?thesis using True l by (simp add: evict_one_def AList.delete_eq)
qed (simp add: evict_one_def)

lemma length_update: "length (AList.update k v al) \<le> Suc (length al)"
  by (induction al) auto

lemma cache_install_ok:
  assumes "cache_ok made cache" and "nul \<notin> set a" and "nul \<notin> set p" and "p \<noteq> [] \<longrightarrow> via_proxy made (rc_http c)"
  shows "cache_ok made (AList.update (account_key a p) c (evict_one i cache))"
proof -
  obtain P where P: "evict_one i cache = filter P cache" using evict_filter by blast
  have ok: "cache_ok made (evict_one i cache)" unfolding P by (rule cache_filter_ok [OF assms(1)])
  have "length (AList.update (account_key a p) c (evict_one i cache)) \<le> maxCachedAccountClients"
    using evict_room [OF assms(1), of i] length_update [of "account_key a p" c "evict_one i cache"] by simp
  moreover have "distinct (map fst (AList.update (account_key a p) c (evict_one i cache)))" using ok by (intro distinct_update) (simp add: cache_ok_def)
  moreover have "via_proxy made (rc_http c')"
    if "nul \<notin> set a'" "nul \<notin> set p'" "p' \<noteq> []" "map_of (AList.update (account_key a p) c (evict_one i cache)) (account_key a' p') = Some c'" for a' p' c'
    using that ok assms account_key_inj [of a' a p' p] unfolding cache_ok_def by (simp add: update_conv' split: if_splits)
  ultimately show ?thesis unfolding cache_ok_def by blast
qed

lemma worker_session_ok:
  assumes "cache_ok made cache" and "nul \<notin> set a" and "nul \<notin> set p" and "p \<noteq> [] \<longrightarrow> via_proxy made (rc_http base)"
    and "worker_session lf i a p base cache accs = (r, cache', accs')"
  shows "cache_ok made cache' \<and> (\<forall>c. r = Inr c \<and> p \<noteq> [] \<longrightarrow> via_proxy made (rc_http c))"
proof (cases "a = [] \<or> map_of cache (account_key a p) \<noteq> None")
  case True
  then have "cache' = cache \<and> (r = Inr base \<or> (\<exists>c. r = Inr c \<and> map_of cache (account_key a p) = Some c))"
    using assms(5) by (auto simp: worker_session_def split: if_splits)
  then show ?thesis using assms(1-4) unfolding cache_ok_def by blast
next
  case False
  obtain x accs1 sent where x: "ClientFor lf a (rc_client base) accs = (x, accs1, sent)" by (rule prod_cases3)
  show ?thesis
  proof (cases x)
    case (Inl e)
    then show ?thesis using assms False x by (auto simp: worker_session_def)
  next
    case (Inr c)
    have "cache_ok made (AList.update (account_key a p) (base\<lparr>rc_client := c\<rparr>) (evict_one i cache))"
      using assms(4) by (intro cache_install_ok [OF assms(1-3)]) simp
    then show ?thesis using assms(4,5) False x Inr by (auto simp: worker_session_def Let_def)
  qed
qed

lemma clientForProxy_world:
  assumes "clientForProxy parses config env k w = (z, w')"
  shows "w' = w \<or> (\<exists>profile x pool. pool_Client parses config profile (w_pool w) = (x, pool) \<and> w' = w\<lparr>w_pool := pool\<rparr>)"
  using assms by (auto simp: clientForProxy_def split: if_splits sum.splits prod.splits)

lemma handleTestProxy_world:
  assumes "handleTestProxy parses config env get k url w = (y, w')"
  shows "w' = w \<or> (\<exists>profile x pool. pool_Client parses config profile (w_pool w) = (x, pool) \<and> w' = w\<lparr>w_pool := pool\<rparr>)"
proof -
  obtain z w1 where z: "proxyClient parses config env k w = (z, w1)" by (rule prod.exhaust)
  have "w' = w1" using assms z by (auto simp: handleTestProxy_def Let_def split: sum.splits option.splits if_splits)
  then show ?thesis using z by (auto simp: proxyClient_def Let_def split: sum.splits option.splits prod.splits bool.splits)
qed

lemma handleCreateProxy_rows:
  assumes "handleCreateProxy env r w = (x, w')" and "pe_newID env = newID raw" and "rows_ok (w_rows w)"
  shows "rows_ok (w_rows w') \<and> w_pool w' = w_pool w \<and> w_cache w' = w_cache w"
proof (cases "w' = w")
  case False
  then obtain pw v y rows where "proxyInput r pw = Inr v" "w_pool w' = w_pool w" "w_cache w' = w_cache w" "w_rows w' = rows"
    "InsertProxyProfile (newID raw) (pe_faults env) (pe_commit_ok env) (pe_now env) v (pe_now env) (w_rows w) = (y, rows)"
    using assms(1,2) by (auto simp: handleCreateProxy_def split: option.splits sum.splits prod.splits)
  then show ?thesis using insert_proxy_ok [OF assms(3)] by auto
qed (use assms in simp)

lemma pool_remove_made [simp]: "tp_made (pool_Remove k p) = tp_made p" "tp_made (pool_Close p) = tp_made p"
  by (simp_all add: pool_Remove_def pool_Close_def Let_def)

lemma proxies_step:
  assumes "proxy_step parses config s s'" and "proxies_ok parses config s"
  shows "proxies_ok parses config s'"
  using assms
proof (induction rule: proxy_step.induct)
  case (create env raw r w x w' accs fs)
  then show ?case using handleCreateProxy_rows [OF create(2,1)] by (auto simp: proxies_ok_def)
next
  case (store_update r pw v flt ok clock k now w e rows accs fs)
  then show ?case using update_proxy_ok by (auto simp: proxies_ok_def)
next
  case (store_delete flt ok k js w d rows accs fs)
  then show ?case using delete_proxy_ok by (auto simp: proxies_ok_def)
next
  case (remove w accs fs k)
  then show ?case by (auto simp: proxies_ok_def pool_remove_ok)
next
  case (invalidate_proxy w accs fs k)
  then show ?case by (auto simp: proxies_ok_def InvalidateProxySessions_def cache_filter_ok)
next
  case (invalidate_account w accs fs a)
  then show ?case by (auto simp: proxies_ok_def InvalidateAccountSession_def cache_filter_ok)
next
  case (test env get k url w y w' accs fs)
  then show ?case using handleTestProxy_world [OF test(1)] proxies_pool by blast
next
  case (use env k w z w' accs fs)
  then show ?case using clientForProxy_world [OF use(1)] proxies_pool by blast
next
  case (shut w accs fs)
  then show ?case by (auto simp: proxies_ok_def pool_close_ok) (simp add: cache_ok_def)
next
  case (direct a w accs fs)
  then show ?case by (auto simp: proxies_ok_def flight_ok_def)
next
  case (load a p env w profile accs fs)
  obtain r pw where "r \<in> set (w_rows w)" "px_ID r = p" "profile = profile_of r pw" using load_profile_row [OF load(3)] by blast
  then have "flight_ok (tp_made (w_pool w)) (a, p, Loaded profile)"
    using load(1,4) by (auto simp: proxies_ok_def flight_ok_def rows_ok_def row_valid_def profile_of_def)
  then show ?case using load(4) by (simp add: proxies_ok_def)
next
  case (route a p profile fs w t pool accs)
  have f: "flight_ok (tp_made (w_pool w)) (a, p, Loaded profile)" using route(1,3) by (auto simp: proxies_ok_def)
  have ok: "proxies_ok parses config (w\<lparr>w_pool := pool\<rparr>, accs, fs)" using proxies_pool [OF route(3,2)] .
  have "flight_ok (tp_made pool) (a, p, Routed (Some c))" if "t = Inr c" for c
    using f pool_client_via [of parses config "w_pool w" profile c pool] route(2,3) that by (simp add: flight_ok_def proxies_ok_def)
  then show ?case using ok by (auto simp: proxies_ok_def dest: notin_set_remove1 split: sum.splits)
next
  case (session a p http fs base lf i w accs u cache accs')
  have f: "flight_ok (tp_made (w_pool w)) (a, p, Routed http)" using session(1,4) by (auto simp: proxies_ok_def)
  then have "cache_ok (tp_made (w_pool w)) cache"
    using worker_session_ok [OF _ _ _ _ session(3)] session(2,4) by (auto simp: proxies_ok_def flight_ok_def)
  then show ?case using session(4) by (auto simp: proxies_ok_def dest: notin_set_remove1)
qed (auto simp: proxies_ok_def)

section \<open>What holds in every reachable state\<close>

lemma clientForProxy_current:
  assumes "pool_ok parses config (w_pool w)" and "rows_ok (w_rows w)" and "k \<noteq> []" and "clientForProxy parses config env k w = (Inr http, w')"
  shows "\<exists>row\<in>set (w_rows w). \<exists>pw c. px_ID row = k \<and> px_Enabled row \<and> http = Some c \<and>
    (px_Password row = [] \<and> pw = [] \<or> pe_Decrypt env (px_Password row) = Some pw) \<and>
    NewClientForProxy parses config (profile_of row pw) = Inr (tp_made (w_pool w') ! c) \<and> via_proxy (tp_made (w_pool w')) http"
proof -
  obtain profile c pool where l: "load_profile env k (w_rows w) = Inr profile" "pool_Client parses config profile (w_pool w) = (Inr c, pool)"
    "http = Some c" "w' = w\<lparr>w_pool := pool\<rparr>"
    using assms(3,4) by (auto simp: clientForProxy_def split: sum.splits prod.splits)
  obtain row pw where row: "row \<in> set (w_rows w)" "px_ID row = k" "px_Enabled row" "profile = profile_of row pw"
    "px_Password row = [] \<and> pw = [] \<or> pe_Decrypt env (px_Password row) = Some pw" using load_profile_row [OF l(1)] by metis
  have "pp_Type profile \<noteq> ''direct''" using assms(2) row(1,4) by (auto simp: rows_ok_def row_valid_def profile_of_def)
  then have "NewClientForProxy parses config profile = Inr (tp_made pool ! c)" "via_proxy (tp_made pool) (Some c)"
    using pool_client_result [OF assms(1) l(2)] pool_client_via [OF assms(1) l(2)] by simp_all
  then show ?thesis using row l(3,4) by (intro bexI [of _ row] exI [of _ pw] exI [of _ c]) simp_all
qed

lemma workerForJob_via:
  assumes "proxies_ok parses config (w, accs, fs)" and "nul \<notin> set a" and "nul \<notin> set p" and "p \<noteq> []"
    and "workerForJob parses config env lf i c a p w accs = (Inr r, w', accs')"
  shows "via_proxy (tp_made (w_pool w')) (rc_http r)"
proof (cases "a \<noteq> [] \<and> map_of (w_cache w) (account_key a p) \<noteq> None")
  case True
  then have "w' = w" "map_of (w_cache w) (account_key a p) = Some r" using assms(5) by (auto simp: workerForJob_def)
  then show ?thesis using assms(1-4) unfolding proxies_ok_def cache_ok_def by auto
next
  case False
  obtain z w1 where z: "clientForProxy parses config env p w = (z, w1)" by (rule prod.exhaust)
  obtain http where http: "z = Inr http" using assms(5) False z by (cases z) (auto simp: workerForJob_def split: if_splits option.splits)
  have ok: "proxies_ok parses config (w1, accs, fs)" by (rule proxies_step [OF proxy_step.use [OF z] assms(1)])
  have via: "via_proxy (tp_made (w_pool w1)) http" using clientForProxy_current [OF _ _ assms(4) z [unfolded http]] assms(1) by (auto simp: proxies_ok_def)
  let ?base = "\<lparr>rc_client = \<lparr>cl_session = cl_session c, cl_sequence = 0, cl_sent = []\<rparr>, rc_http = http\<rparr>"
  obtain u cache accs1 where ws: "worker_session lf i a p ?base (w_cache w1) accs = (u, cache, accs1)" by (rule prod_cases3)
  have "(if a = [] then None else map_of (w_cache w) (account_key a p)) = None" using False by auto
  then have u: "u = Inr r" "w' = w1\<lparr>w_cache := cache\<rparr>" using assms(4,5) z http ws by (simp_all add: workerForJob_def)
  then show ?thesis using worker_session_ok [OF _ assms(2,3) _ ws, of "tp_made (w_pool w1)"] ok via assms(4) by (simp add: proxies_ok_def)
qed

lemma invalidated_proxy: "k \<noteq> [] \<Longrightarrow> map_of (InvalidateProxySessions k cache) (account_key a k) = None"
  by (auto simp: InvalidateProxySessions_def map_of_eq_None_iff account_key_def has_suffix_def)

lemma removed_client: "map_of (tp_clients (pool_Remove k p)) k = None"
  by (simp add: pool_Remove_def Let_def delete_conv')


definition sample_proxy_env :: proxy_env where
  "sample_proxy_env = \<lparr>pe_Encrypt = (\<lambda>s. Some (text_bytes s)), pe_Decrypt = (\<lambda>b. Some ''pw''), pe_newID = newID (Some [17]), pe_faults = (\<lambda>_. False),
     pe_reads = (\<lambda>_. False), pe_commit_ok = True, pe_now = 1, pe_jobs = []\<rparr>"

definition sample_proxy_request :: proxy_request where
  "sample_proxy_request = \<lparr>pr_Name = ''n'', pr_Type = ''socks5'', pr_Host = ''h'', pr_Port = 1080, pr_Username = ''u'', pr_Password = ''pw'',
     pr_TimeoutSeconds = 0, pr_Enabled = None, pr_Default = None\<rparr>"

definition sample_config :: TransportConfig where
  "sample_config = \<lparr>ConnectTimeout = 15000000000, ResponseHeaderTimeout = 0, MaxConnectionsPerHost = 8\<rparr>"


text \<open>
  The cache is emptied after a change of a profile, but a job that got its route just before the change fills it again afterwards: the
  client of the old profile then stays in the cache, beside the changed row.
\<close>

lemma changed_route_cached:
  assumes "(a, p, Routed http) \<in> set fs" and "a \<noteq> []" and "p \<noteq> []" and "handleUpdateProxy env p r w = (Inr x, w')"
    and "ClientFor lf a c accs = (Inr c', accs', sent)"
  shows "\<exists>w''. (proxy_step parses config)\<^sup>*\<^sup>* (w, accs, fs) (w'', accs', remove1 (a, p, Routed http) fs) \<and> w_rows w'' = w_rows w' \<and>
    map_of (w_cache w'') (account_key a p) = Some \<lparr>rc_client = c', rc_http = http\<rparr>"
proof -
  let ?step = "proxy_step parses config"
  obtain pw v rows where u: "proxyInput r pw = Inr v" "UpdateProxyProfile (pe_faults env) (pe_commit_ok env) (pe_now env) p v (pe_now env) (w_rows w) = (None, rows)"
    "w' = w\<lparr>w_rows := rows, w_pool := pool_Remove p (w_pool w), w_cache := InvalidateProxySessions p (w_cache w), w_announced := w_announced w @ [p]\<rparr>"
    using assms(4) by (auto simp: handleUpdateProxy_def Let_def split: sum.splits option.splits prod.splits)
  let ?va = "w\<lparr>w_rows := rows\<rparr>"
  let ?vb = "?va\<lparr>w_pool := pool_Remove p (w_pool ?va)\<rparr>"
  let ?vc = "?vb\<lparr>w_cache := InvalidateProxySessions p (w_cache ?vb)\<rparr>"
  let ?vd = "?vc\<lparr>w_announced := w_announced ?vc @ [p]\<rparr>"
  have "?step (w, accs, fs) (?va, accs, fs)" by (rule proxy_step.store_update [OF u(1,2)])
  moreover have "?step (?va, accs, fs) (?vb, accs, fs)" by (rule proxy_step.remove)
  moreover have "?step (?vb, accs, fs) (?vc, accs, fs)" by (rule proxy_step.invalidate_proxy)
  moreover have "?step (?vc, accs, fs) (?vd, accs, fs)" by (rule proxy_step.announce)
  ultimately have reach: "?step\<^sup>*\<^sup>* (w, accs, fs) (?vd, accs, fs)" by (meson rtranclp.rtrancl_into_rtrancl r_into_rtranclp)
  have w4: "w' = ?vd" using u(3) by simp
  have none: "map_of (w_cache w') (account_key a p) = None" using u(3) invalidated_proxy [OF assms(3)] by simp
  let ?base = "\<lparr>rc_client = c, rc_http = http\<rparr>" and ?new = "\<lparr>rc_client = c', rc_http = http\<rparr>"
  let ?cache = "AList.update (account_key a p) ?new (evict_one 0 (w_cache w'))"
  have "worker_session lf 0 a p ?base (w_cache w') accs = (Inr ?new, ?cache, accs')"
    using none assms(2,5) by (simp add: worker_session_def Let_def)
  then have "?step (w', accs, fs) (w'\<lparr>w_cache := ?cache\<rparr>, accs', remove1 (a, p, Routed http) fs)"
    by (intro proxy_step.session [OF assms(1)]) simp_all
  then have "?step\<^sup>*\<^sup>* (w, accs, fs) (w'\<lparr>w_cache := ?cache\<rparr>, accs', remove1 (a, p, Routed http) fs)"
    using reach unfolding w4 by (rule rtranclp.rtrancl_into_rtrancl [rotated])
  moreover have "map_of ?cache (account_key a p) = Some ?new" by (simp add: update_conv')
  ultimately show ?thesis by (intro exI [of _ "w'\<lparr>w_cache := ?cache\<rparr>"]) simp
qed

end
