(* ===== verification/Spec2Isabelle.thy ===== *)
theory Spec2Isabelle
  imports Segments Lifecycle Retry Crypto Paths Worker SegmentRetry Store Queue FsSafety TransferSafety JobProps CreateDownload Events WebGate Accounts Proxies
begin

text \<open>
  Verification of megadw, a self-hosted downloader for public MEGA links written in Go. This header says what is modelled, where,
  and what is proved.

  \<^bold>\<open>The program.\<close> A job is created from a public link: \<^verbatim>\<open>internal/mega\<close> parses the link, asks the MEGA API for the listing and
  decrypts names and keys; \<^verbatim>\<open>internal/store\<close> keeps jobs, files, progress and events in SQLite. \<^verbatim>\<open>internal/download/manager.go\<close>
  queues jobs by priority, runs a bounded number at a time, and per job a bounded number of file workers. A file worker plans segments
  (\<^verbatim>\<open>planner.go\<close>), downloads each as an HTTP range, decrypts it with AES-CTR at its offset and puts it into the partial file
  (\<^verbatim>\<open>worker.go\<close>, \<^verbatim>\<open>writer.go\<close>, \<^verbatim>\<open>retry.go\<close>), syncs the file before the bitmap of finished segments goes to the database
  (\<^verbatim>\<open>checkpoint.go\<close>), verifies size and MAC (\<^verbatim>\<open>integrity.go\<close>) and moves the file into the complete directory through descriptor-anchored
  roots (\<^verbatim>\<open>internal/fsroot\<close>). After a crash the next start marks jobs for recovery and picks up interrupted moves.

  \<^bold>\<open>Theories.\<close>
  \<^item> \<^verbatim>\<open>Prelude\<close>, \<^verbatim>\<open>GoText\<close>: Go's int64 with wrap-around and truncating division, \<^verbatim>\<open>strings\<close> and \<^verbatim>\<open>strconv\<close> as far as used, error
    values with their \<^verbatim>\<open>Unwrap\<close> chains.
  \<^item> \<^verbatim>\<open>Segments\<close> (\<^verbatim>\<open>download/planner.go\<close>): planner and bitmap; the segments tile the file, pending and committed bytes
    complement each other. Locales \<^verbatim>\<open>segment_tiling\<close>, \<^verbatim>\<open>index_set\<close>, \<^verbatim>\<open>resume_progress\<close>.
  \<^item> \<^verbatim>\<open>Lifecycle\<close> (\<^verbatim>\<open>download/state.go\<close>): both transition tables; completed implies verified and moved. Locales \<^verbatim>\<open>lifecycle\<close>,
    \<^verbatim>\<open>gated_lifecycle\<close>.
  \<^item> \<^verbatim>\<open>Retry\<close> (\<^verbatim>\<open>download/retry.go\<close>), \<^verbatim>\<open>SegmentRetry\<close> (\<^verbatim>\<open>downloadSegmentWithRetry\<close>): classification, backoff bounds, and a
    retry loop that ends.
  \<^item> \<^verbatim>\<open>Crypto\<close> (\<^verbatim>\<open>mega/crypto.go\<close>, \<^verbatim>\<open>mega/integrity.go\<close>): keys, attributes, the CTR stream at any offset (locale
    \<^verbatim>\<open>seekable_stream\<close>), the streaming MAC against its closed form.
  \<^item> \<^verbatim>\<open>Paths\<close> (\<^verbatim>\<open>fsroot/paths.go\<close>, \<^verbatim>\<open>download/writer.go\<close>, \<^verbatim>\<open>uniqueRelativePath\<close> of \<^verbatim>\<open>api/api.go\<close>): sanitizing, partial names,
    unique destinations.
  \<^item> \<^verbatim>\<open>Worker\<close> (\<^verbatim>\<open>download/worker.go\<close>, \<^verbatim>\<open>download/writer.go\<close>): one range from request to bytes in the partial file.
  \<^item> \<^verbatim>\<open>Store\<close> (\<^verbatim>\<open>store/downloads.go\<close>, \<^verbatim>\<open>db.go\<close>, \<^verbatim>\<open>migrations.go\<close>): tables as row lists with the constraints of the migrations,
    transactions that fail at any statement; integrity, atomic checkpoints, recovery, bounded event history. Locale \<^verbatim>\<open>state_register\<close>.
  \<^item> \<^verbatim>\<open>HeapQueue\<close>, \<^verbatim>\<open>Queue\<close> (queue half of \<^verbatim>\<open>download/manager.go\<close> over \<^verbatim>\<open>container/heap\<close>): locale \<^verbatim>\<open>priority_queue\<close>; every
    interleaving of the critical sections keeps the limits and never runs a job twice.
  \<^item> \<^verbatim>\<open>FsTree\<close>, \<^verbatim>\<open>FsRoot\<close>, \<^verbatim>\<open>FsSafety\<close> (\<^verbatim>\<open>fsroot/root.go\<close>): a file tree with symbolic links, the descriptor-relative system calls
    with failures (locale \<^verbatim>\<open>path_store\<close>), every operation of \<^verbatim>\<open>Root\<close>; nothing outside the roots changes, renames do not replace.
  \<^item> \<^verbatim>\<open>FileTransfer\<close>, \<^verbatim>\<open>TransferSafety\<close> (\<^verbatim>\<open>processFileWithTransfer\<close>, \<^verbatim>\<open>checkpoint.go\<close>): the transfer of one file as a step
    relation over workers, result loop and checkpoints; crash consistency and completeness.
  \<^item> \<^verbatim>\<open>Finalize\<close>, \<^verbatim>\<open>Delivery\<close> (\<^verbatim>\<open>finalize\<close>, \<^verbatim>\<open>recoverMovedFile\<close>, \<^verbatim>\<open>removeCompletedFiles\<close>, \<^verbatim>\<open>download/integrity.go\<close>): the world is
    the database, the file tree and a counter of calls that selects which ones fail; what is delivered is verified, nothing foreign is replaced, an
    interrupted move is recovered.
  \<^item> \<^verbatim>\<open>Jobs\<close>, \<^verbatim>\<open>JobSafety\<close>, \<^verbatim>\<open>JobProps\<close> (job half of \<^verbatim>\<open>download/manager.go\<close>): pause, resume, cancel, delete, fail, quota wait and
    \<^verbatim>\<open>runJob\<close> around its workers; a step relation of the engine that refines the lifecycle table.
  \<^item> \<^verbatim>\<open>MegaClient\<close>, \<^verbatim>\<open>MegaResolve\<close> (\<^verbatim>\<open>mega/links.go\<close>, \<^verbatim>\<open>hashcash.go\<close>, \<^verbatim>\<open>client.go\<close>): link parsing, the command loop, folder listings
    and their resolution into files. Locale \<^verbatim>\<open>command_port\<close>.
  \<^item> \<^verbatim>\<open>Settings\<close> (\<^verbatim>\<open>settings/model.go\<close>, \<^verbatim>\<open>settings/service.go\<close>, \<^verbatim>\<open>store/settings.go\<close>): validation, one JSON document per section, the
    round trip through the store.
  \<^item> \<^verbatim>\<open>CreateDownload\<close> (\<^verbatim>\<open>handleCreateDownload\<close>, \<^verbatim>\<open>resolve\<close>, \<^verbatim>\<open>validateTransferRoots\<close> of \<^verbatim>\<open>api/api.go\<close>): from the request to the stored
    job. The property that spans link resolution, settings, path naming, roots and store is at the end of this theory.
  \<^item> \<^verbatim>\<open>Events\<close> (\<^verbatim>\<open>events/coalesce.go\<close>, \<^verbatim>\<open>events/bus.go\<close>): the bounded latest-value set of a subscriber and the fan-out bus as a step
    relation over publishers, ticks and clients.
  \<^item> \<^verbatim>\<open>Base64\<close>, \<^verbatim>\<open>Auth\<close> (\<^verbatim>\<open>auth/password.go\<close>, \<^verbatim>\<open>auth/session.go\<close>, \<^verbatim>\<open>store/auth.go\<close>): password records and sessions; who is recognized has
    proved the administrator's password.
  \<^item> \<^verbatim>\<open>WebGate\<close> (\<^verbatim>\<open>Handler\<close>, \<^verbatim>\<open>withAuth\<close>, \<^verbatim>\<open>sameOrigin\<close> of \<^verbatim>\<open>api/api.go\<close>): the way of a request to its handler.
  \<^item> \<^verbatim>\<open>Accounts\<close> (\<^verbatim>\<open>mega/account_auth.go\<close>, \<^verbatim>\<open>mega/accounts.go\<close>, \<^verbatim>\<open>store/accounts.go\<close>): the login protocol over the locale
    \<^verbatim>\<open>account_port\<close> (one command port of the API per client), the table of accounts and the lifecycle that joins them.
  \<^item> \<^verbatim>\<open>Socks\<close>, \<^verbatim>\<open>Proxies\<close> (\<^verbatim>\<open>network/transport.go\<close>, \<^verbatim>\<open>store/proxies.go\<close>, the proxy handlers of \<^verbatim>\<open>api/api.go\<close>, \<^verbatim>\<open>workerForJob\<close> of
    \<^verbatim>\<open>download/manager.go\<close>): the SOCKS5 handshake byte by byte; profiles, the pool of clients and the cached account clients under every interleaving. Both
    tables interpret the locale \<^verbatim>\<open>default_table\<close>.

  \<^bold>\<open>Parameters.\<close> AES, SHA-256, Argon2, PBKDF2, MEGA's base64 helper, \<^verbatim>\<open>url.Parse\<close>, \<^verbatim>\<open>http.ParseTime\<close> and JSON decoding of attributes are arguments of the definitions
  that use them; network responses, clocks, random jitter, failing system calls and database statements, and other processes are arguments too, so that
  the theorems hold for every behaviour of them unless a hypothesis says otherwise.

  \<^bold>\<open>Bounds.\<close> Loops of the code with a bound keep it (100000 conflict attempts, the attempts of the retry policy, two attempts of an
  API command); all others end by a proved measure, so no theorem rests on fuel. Sizes and counts are integers with the int64 wrap-around
  written out where the code computes with them; sequence numbers and proof-of-work prefixes are machine words.

  \<^bold>\<open>Not modelled.\<close> The other HTTP API handlers, cookie attributes, bandwidth
  limiting and speed metering (floating point), secret storage, logging, the web
  interface and the commands under \<^verbatim>\<open>cmd\<close>: they carry no download state of their own or are input and output.
\<close>

section \<open>A created download\<close>

text \<open>A sample configuration for the witness: settings, services that succeed, a request and an empty database.\<close>

definition sample_settings :: Settings where
  "sample_settings = Default\<lparr>s_Paths := \<lparr>ps_IncompleteRoot = ''/in'', ps_CompleteRoot = ''/out''\<rparr>\<rparr>"

definition sample_create :: create_env where
  "sample_create = \<lparr>ce_kernel = no_faults, ce_settings = Inr sample_settings, ce_account_ok = True, ce_proxy_ok = True,
     ce_resolve = resolve (\<lambda>_. Some sample_url) Some (\<lambda>k b. b) sample_b64 (\<lambda>_. None) (command sample_b64 (\<lambda>_. Inl ErrHashcash) sample_net) (Inr sample_client),
     ce_encrypt = (\<lambda>_ b. Some (1 # b)), ce_ids = (\<lambda>n. CHR ''j'' # digits_of n), ce_newIDs = (\<lambda>_. None), ce_faults = (\<lambda>_. False), ce_commit_ok = True, ce_now = 7\<rparr>"

definition sample_request :: create_request where
  "sample_request = \<lparr>cr_URL = ''u'', cr_AccountID = [], cr_ProxyID = [], cr_DestinationSubdirectory = ''z'', cr_StartImmediately = None\<rparr>"

definition empty_database :: database where
  "empty_database = \<lparr>jobs = [], files = [], events = [], event_sequence = 0, accounts = [], proxies = [], foreign_keys = True, checkpointTransactions = 0\<rparr>"



end
